(* ===== verification/Prelude.thy ===== *)
theory Prelude
  imports Main "HOL-Library.Word" "HOL-Library.Sublist"
begin

text \<open>
  What the components share: the result type of fallible code with its bind, the operations of
  Rust's \<open>str\<close> the sources use (strings are lists of bytes, a \<open>char\<close> is one byte of the UTF-8
  encoding), saturating arithmetic of \<open>u64\<close>, and the collections of simplification rules.
\<close>

named_theorems res_simps \<open>rules that run the result monad\<close>
named_theorems str_simps \<open>rules about the string operations\<close>

section \<open>Results of fallible operations\<close>

text \<open>An \<open>io_error\<close> stands for an \<open>eyre::Report\<close>; its text is all the callers read of it.\<close>

datatype io_error = IoError string

type_synonym 'a res = "io_error + 'a"

text \<open>The \<open>?\<close> operator: an error leaves the function, a value continues.\<close>

fun res_bind :: "'e + 'a \<Rightarrow> ('a \<Rightarrow> 'e + 'b) \<Rightarrow> 'e + 'b" where
  "res_bind (Inl e) f = Inl e"
| "res_bind (Inr x) f = f x"

lemma res_bind_cong [fundef_cong]:
  assumes "m = m'" and "\<And>x. m' = Inr x \<Longrightarrow> f x = f' x"
  shows "res_bind m f = res_bind m' f'"
  using assms by (cases m') auto

lemma res_bind_Inr_iff [res_simps]:
  "res_bind m f = Inr y \<longleftrightarrow> (\<exists>x. m = Inr x \<and> f x = Inr y)"
  by (cases m) auto

lemma res_bind_Inl_iff [res_simps]:
  "res_bind m f = Inl e \<longleftrightarrow> m = Inl e \<or> (\<exists>x. m = Inr x \<and> f x = Inl e)"
  by (cases m) auto

lemma res_bind_assoc: "res_bind (res_bind m f) g = res_bind m (\<lambda>x. res_bind (f x) g)"
  by (cases m) auto

text \<open>
  Code that may not return: \<open>None\<close> is no result within the fuel, \<open>Some\<close> a result or an error.
\<close>

fun ores_bind :: "'a res option \<Rightarrow> ('a \<Rightarrow> 'b res option) \<Rightarrow> 'b res option" where
  "ores_bind None f = None"
| "ores_bind (Some (Inl e)) f = Some (Inl e)"
| "ores_bind (Some (Inr x)) f = f x"

lemma ores_bind_cong [fundef_cong]:
  assumes "m = m'" and "\<And>x. m' = Some (Inr x) \<Longrightarrow> f x = f' x"
  shows "ores_bind m f = ores_bind m' f'"
  using assms by (cases "(m', f)" rule: ores_bind.cases) auto

lemma ores_bind_Inr_iff [res_simps]:
  "ores_bind m f = Some (Inr y) \<longleftrightarrow> (\<exists>x. m = Some (Inr x) \<and> f x = Some (Inr y))"
  by (cases "(m, f)" rule: ores_bind.cases) auto

lemma ores_bind_None_iff [res_simps]:
  "ores_bind m f = None \<longleftrightarrow> m = None \<or> (\<exists>x. m = Some (Inr x) \<and> f x = None)"
  by (cases "(m, f)" rule: ores_bind.cases) auto

text \<open>\<open>collect::<Result<_, _>>()\<close>: the values, or the first error.\<close>

fun res_map :: "('a \<Rightarrow> 'e + 'b) \<Rightarrow> 'a list \<Rightarrow> 'e + 'b list" where
  "res_map f [] = Inr []"
| "res_map f (x # xs) = res_bind (f x) (\<lambda>y. res_bind (res_map f xs) (\<lambda>ys. Inr (y # ys)))"

lemma res_map_Inr: "res_map f xs = Inr ys \<longleftrightarrow> list_all2 (\<lambda>x y. f x = Inr y) xs ys"
  by (induction xs arbitrary: ys) (auto simp: res_simps list_all2_Cons1)

section \<open>Strings\<close>

abbreviation newline :: char where
  "newline \<equiv> CHR 0x0A"

text \<open>\<open>s.split_once('\<newline>')\<close>: the text before the first newline and the text after it.\<close>

fun split_once_nl :: "string \<Rightarrow> (string \<times> string) option" where
  "split_once_nl [] = None"
| "split_once_nl (c # cs) =
     (if c = newline then Some ([], cs)
      else map_option (\<lambda>(a, b). (c # a, b)) (split_once_nl cs))"

lemma split_once_nl_Some:
  "split_once_nl s = Some (a, b) \<longleftrightarrow> s = a @ newline # b \<and> newline \<notin> set a"
  by (induction s arbitrary: a) (force simp: Cons_eq_append_conv)+

lemma split_once_nl_None: "split_once_nl s = None \<longleftrightarrow> newline \<notin> set s"
  by (induction s) auto

lemma split_once_nl_length:
  "split_once_nl s = Some (a, b) \<Longrightarrow> length b < length s"
  by (simp add: split_once_nl_Some)

lemma split_once_nl_append [simp]:
  "newline \<notin> set a \<Longrightarrow> split_once_nl (a @ newline # b) = Some (a, b)"
  by (simp add: split_once_nl_Some)

text \<open>
  \<open>complete_lines s\<close> are the newline-terminated lines of \<open>s\<close> without their newlines and
  \<open>last_partial s\<close> is what follows the last newline; \<open>unlines\<close> puts complete lines back.
\<close>

function complete_lines :: "string \<Rightarrow> string list" where
  "complete_lines s =
     (case split_once_nl s of None \<Rightarrow> [] | Some (a, b) \<Rightarrow> a # complete_lines b)"
  by pat_completeness auto
termination
  by (relation "measure length") (auto dest: split_once_nl_length)

function last_partial :: "string \<Rightarrow> string" where
  "last_partial s =
     (case split_once_nl s of None \<Rightarrow> s | Some (a, b) \<Rightarrow> last_partial b)"
  by pat_completeness auto
termination
  by (relation "measure length") (auto dest: split_once_nl_length)

declare complete_lines.simps [simp del] last_partial.simps [simp del]

definition unlines :: "string list \<Rightarrow> string" where
  "unlines ls = concat (map (\<lambda>l. l @ [newline]) ls)"

lemma unlines_simps [simp]:
  "unlines [] = []"
  "unlines (l # ls) = l @ newline # unlines ls"
  "unlines (xs @ ys) = unlines xs @ unlines ys"
  by (simp_all add: unlines_def)

lemma complete_lines_split [simp]:
  "newline \<notin> set a \<Longrightarrow> complete_lines (a @ newline # b) = a # complete_lines b"
  by (subst complete_lines.simps) simp

lemma complete_lines_none [simp]: "newline \<notin> set s \<Longrightarrow> complete_lines s = []"
  by (subst complete_lines.simps) (simp add: split_once_nl_None [symmetric])

lemma last_partial_split [simp]:
  "newline \<notin> set a \<Longrightarrow> last_partial (a @ newline # b) = last_partial b"
  by (subst last_partial.simps) simp

lemma last_partial_none [simp]: "newline \<notin> set s \<Longrightarrow> last_partial s = s"
  by (subst last_partial.simps) (simp add: split_once_nl_None [symmetric])

text \<open>Induction on a text by its lines: either it has no newline or it starts with a line.\<close>

lemma line_induct [case_names partial line]:
  assumes "\<And>s. newline \<notin> set s \<Longrightarrow> P s"
    and "\<And>a b. newline \<notin> set a \<Longrightarrow> P b \<Longrightarrow> P (a @ newline # b)"
  shows "P s"
proof (induction s rule: length_induct)
  case (1 s)
  show ?case
  proof (cases "split_once_nl s")
    case None
    then show ?thesis using assms(1) by (simp add: split_once_nl_None)
  next
    case (Some ab)
    obtain a b where ab: "ab = (a, b)" by (cases ab)
    with Some have s: "s = a @ newline # b" "newline \<notin> set a"
      by (simp_all add: split_once_nl_Some)
    with 1 have "P b" by auto
    with s show ?thesis using assms(2) by simp
  qed
qed

lemma lines_concat [str_simps]: "unlines (complete_lines s) @ last_partial s = s"
  by (induction s rule: line_induct) auto

lemma last_partial_no_newline [simp]: "newline \<notin> set (last_partial s)"
  by (induction s rule: line_induct) auto

lemma complete_lines_no_newline: "l \<in> set (complete_lines s) \<Longrightarrow> newline \<notin> set l"
  by (induction s rule: line_induct) auto

lemma complete_lines_unlines:
  "(\<And>l. l \<in> set ls \<Longrightarrow> newline \<notin> set l) \<Longrightarrow>
   complete_lines (unlines ls @ p) = ls @ complete_lines p"
  by (induction ls) auto

text \<open>Prefix and containment tests.\<close>

definition starts_with :: "string \<Rightarrow> string \<Rightarrow> bool" where
  "starts_with s p \<longleftrightarrow> prefix p s"

definition ends_with :: "string \<Rightarrow> string \<Rightarrow> bool" where
  "ends_with s p \<longleftrightarrow> suffix p s"

fun contains_str :: "string \<Rightarrow> string \<Rightarrow> bool" where
  "contains_str [] p \<longleftrightarrow> p = []"
| "contains_str (c # s) p \<longleftrightarrow> prefix p (c # s) \<or> contains_str s p"

lemma contains_str_iff: "contains_str s p \<longleftrightarrow> (\<exists>a b. s = a @ p @ b)"
proof (induction s)
  case Nil
  then show ?case by simp
next
  case (Cons c s)
  have "(\<exists>a b. c # s = a @ p @ b) \<longleftrightarrow> prefix p (c # s) \<or> (\<exists>a b. s = a @ p @ b)"
    by (auto simp: prefix_def Cons_eq_append_conv)
  with Cons show ?case by simp
qed

definition strip_prefix :: "string \<Rightarrow> string \<Rightarrow> string option" where
  "strip_prefix p s = (if prefix p s then Some (drop (length p) s) else None)"

lemma strip_prefix_Some: "strip_prefix p s = Some r \<longleftrightarrow> s = p @ r"
  by (auto simp: strip_prefix_def prefix_def)

lemma set_map_filter: "set (List.map_filter f xs) = {y. \<exists>x \<in> set xs. f x = Some y}"
  by (induction xs) (auto simp: List.map_filter_simps split: option.split)

text \<open>\<open>join\<close> of strings with a separator.\<close>

fun str_join :: "string \<Rightarrow> string list \<Rightarrow> string" where
  "str_join sep [] = []"
| "str_join sep [s] = s"
| "str_join sep (s # t # ts) = s @ sep @ str_join sep (t # ts)"

section \<open>Saturating arithmetic of u64\<close>

type_synonym u64 = "64 word"

definition sat_add :: "u64 \<Rightarrow> u64 \<Rightarrow> u64" where
  "sat_add a b = (if unat a + unat b < 2 ^ 64 then a + b else - 1)"

definition sat_sub :: "u64 \<Rightarrow> u64 \<Rightarrow> u64" where
  "sat_sub a b = (if b \<le> a then a - b else 0)"

definition sat_mul :: "u64 \<Rightarrow> u64 \<Rightarrow> u64" where
  "sat_mul a b = (if unat a * unat b < 2 ^ 64 then a * b else - 1)"

lemma unat_minus_one_64: "unat (- 1 :: u64) = 2 ^ 64 - 1"
  by (simp add: unsigned_minus_1_eq_mask mask_eq_exp_minus_1)

lemma unat_sat_add: "unat (sat_add a b) = min (unat a + unat b) (2 ^ 64 - 1)"
  by (simp add: sat_add_def unat_word_ariths unat_minus_one_64)

lemma unat_sat_sub: "unat (sat_sub a b) = unat a - unat b"
  by (auto simp: sat_sub_def unat_sub word_le_nat_alt)

lemma unat_sat_mul: "unat (sat_mul a b) = min (unat a * unat b) (2 ^ 64 - 1)"
  by (simp add: sat_mul_def unat_word_ariths unat_minus_one_64)

end
