(* ===== verification/Utf8.thy ===== *)
theory Utf8
  imports Prelude
begin

text \<open>
  The part of Rust's UTF-8 validation (\<open>std::str::from_utf8\<close>, \<open>Utf8Error::valid_up_to\<close>,
  \<open>Utf8Error::error_len\<close>, \<open>String::from_utf8_lossy\<close>) that \<open>IncrementalReader::decode\<close> relies on,
  over lists of bytes.
\<close>

text \<open>The bytes of a code point after its first one lie in \<open>0x80..=0xBF\<close>.\<close>

definition byte :: "char \<Rightarrow> nat" where
  "byte c = of_char c"

definition is_cont :: "char \<Rightarrow> bool" where
  "is_cont c \<longleftrightarrow> 128 \<le> byte c \<and> byte c \<le> 191"

text \<open>
  One step of the validation at a position: the length of the valid code point there, or that the
  input ends inside a code point (\<open>error_len()\<close> is \<open>None\<close>), or the length of the invalid part.
\<close>

datatype utf8_verdict = Valid nat | Incomplete | Invalid nat

definition second_ok :: "nat \<Rightarrow> nat \<Rightarrow> bool" where
  "second_ok b1 b2 \<longleftrightarrow>
     (if b1 = 224 then 160 \<le> b2 \<and> b2 \<le> 191
      else if b1 = 237 then 128 \<le> b2 \<and> b2 \<le> 159
      else if b1 = 240 then 144 \<le> b2 \<and> b2 \<le> 191
      else if b1 = 244 then 128 \<le> b2 \<and> b2 \<le> 143
      else 128 \<le> b2 \<and> b2 \<le> 191)"

definition utf8_width :: "nat \<Rightarrow> nat" where
  "utf8_width b =
     (if b < 128 then 1 else if 194 \<le> b \<and> b \<le> 223 then 2
      else if 224 \<le> b \<and> b \<le> 239 then 3 else if 240 \<le> b \<and> b \<le> 244 then 4 else 0)"

fun utf8_step :: "string \<Rightarrow> utf8_verdict" where
  "utf8_step [] = Incomplete"
| "utf8_step (c # cs) =
     (let b = byte c; w = utf8_width b in
      if w = 0 then Invalid 1
      else if w = 1 then Valid 1
      else (case cs of
        [] \<Rightarrow> Incomplete
      | c2 # cs2 \<Rightarrow>
          (if \<not> second_ok b (byte c2) then Invalid 1
           else if w = 2 then Valid 2
           else (case cs2 of
             [] \<Rightarrow> Incomplete
           | c3 # cs3 \<Rightarrow>
               (if \<not> is_cont c3 then Invalid 2
                else if w = 3 then Valid 3
                else (case cs3 of
                  [] \<Rightarrow> Incomplete
                | c4 # cs4 \<Rightarrow> if is_cont c4 then Valid 4 else Invalid 3))))))"

lemma utf8_step_Valid_bounds: "utf8_step s = Valid n \<Longrightarrow> 0 < n \<and> n \<le> length s"
  by (cases s) (auto simp: Let_def split: if_splits list.splits)

lemma utf8_step_Invalid_bounds: "utf8_step s = Invalid n \<Longrightarrow> 0 < n \<and> n \<le> length s"
  by (cases s) (auto simp: Let_def split: if_splits list.splits)

text \<open>Bytes after the point where a step is decided do not change it.\<close>

lemma utf8_step_append_Valid: "utf8_step s = Valid n \<Longrightarrow> utf8_step (s @ t) = Valid n"
  by (cases s) (auto simp: Let_def split: if_splits list.splits)

lemma utf8_step_append_Invalid: "utf8_step s = Invalid n \<Longrightarrow> utf8_step (s @ t) = Invalid n"
  by (cases s) (auto simp: Let_def split: if_splits list.splits)

lemma utf8_step_take: "utf8_step s = Valid n \<Longrightarrow> utf8_step (take n s) = Valid n"
  by (cases s) (auto simp: Let_def take_Cons' split: if_splits list.splits)

text \<open>
  Validation of a whole buffer: how many bytes are valid, and what stopped it: nothing
  (\<open>None\<close>), or an error with its \<open>error_len\<close>.
\<close>

function utf8_check :: "string \<Rightarrow> nat \<times> nat option option" where
  "utf8_check s =
     (if s = [] then (0, None)
      else case utf8_step s of
        Valid n \<Rightarrow> (let (k, e) = utf8_check (drop n s) in (n + k, e))
      | Incomplete \<Rightarrow> (0, Some None)
      | Invalid n \<Rightarrow> (0, Some (Some n)))"
  by pat_completeness auto
termination
  by (relation "measure length") (auto dest: utf8_step_Valid_bounds)

text \<open>
  Lossy decoding replaces each invalid part, and an incomplete code point at the end, by U+FFFD.
\<close>

definition replacement :: string where
  "replacement = [CHR 0xEF, CHR 0xBF, CHR 0xBD]"

function utf8_lossy :: "string \<Rightarrow> string" where
  "utf8_lossy s =
     (if s = [] then []
      else case utf8_step s of
        Valid n \<Rightarrow> take n s @ utf8_lossy (drop n s)
      | Incomplete \<Rightarrow> replacement
      | Invalid n \<Rightarrow> replacement @ utf8_lossy (drop n s))"
  by pat_completeness auto
termination
  by (relation "measure length") (auto dest: utf8_step_Valid_bounds utf8_step_Invalid_bounds)

declare utf8_check.simps [simp del] utf8_lossy.simps [simp del]

definition valid_utf8 :: "string \<Rightarrow> bool" where
  "valid_utf8 s \<longleftrightarrow> snd (utf8_check s) = None"

lemma utf8_check_Nil [simp]: "utf8_check [] = (0, None)"
  by (simp add: utf8_check.simps)

lemma utf8_check_le: "fst (utf8_check s) \<le> length s"
proof (induction s rule: utf8_check.induct)
  case (1 s)
  then show ?case
    by (subst utf8_check.simps)
       (force split: utf8_verdict.splits prod.splits dest: utf8_step_Valid_bounds)
qed

text \<open>
  The valid prefix of a buffer that ends inside a code point can be cut off: what remains is
  still incomplete, so no byte of it is looked at twice with a different verdict.
\<close>

lemma utf8_check_complete_append:
  "utf8_check s = (n, None) \<Longrightarrow> utf8_check (s @ t) = (let (k, e) = utf8_check t in (length s + k, e))"
proof (induction s arbitrary: n rule: utf8_check.induct)
  case (1 s)
  show ?case
  proof (cases "s = []")
    case True
    then show ?thesis by (simp split: prod.splits)
  next
    case False
    with 1(2) obtain m k where m: "utf8_step s = Valid m" and k: "utf8_check (drop m s) = (k, None)"
      by (auto simp: utf8_check.simps [of s] split: utf8_verdict.splits prod.splits)
    have b: "0 < m" "m \<le> length s" using utf8_step_Valid_bounds [OF m] by auto
    have IH: "utf8_check (drop m s @ t) = (let (k, e) = utf8_check t in (length (drop m s) + k, e))"
      using 1(1) [OF False m k] .
    show ?thesis
      using False b IH utf8_step_append_Valid [OF m, of t]
      by (simp add: utf8_check.simps [of "s @ t"] split: prod.splits)
  qed
qed

lemma utf8_check_take:
  "utf8_check s = (n, e) \<Longrightarrow> utf8_check (take n s) = (n, None) \<and> utf8_check (drop n s) = (0, e)"
proof (induction s arbitrary: n e rule: utf8_check.induct)
  case (1 s)
  show ?case
  proof (cases "s = []")
    case True
    with 1(2) show ?thesis by simp
  next
    case False
    show ?thesis
    proof (cases "utf8_step s")
      case (Valid m)
      obtain k where k: "utf8_check (drop m s) = (k, e)" and n: "n = m + k"
        using False Valid 1(2) by (auto simp: utf8_check.simps [of s] split: prod.splits)
      have b: "0 < m" "m \<le> length s" using utf8_step_Valid_bounds [OF Valid] by auto
      have IH: "utf8_check (take k (drop m s)) = (k, None) \<and> utf8_check (drop k (drop m s)) = (0, e)"
        using 1(1) [OF False Valid k] .
      have one: "utf8_check (take m s) = (m, None)"
      proof -
        from utf8_step_take [OF Valid] show ?thesis using b False by (simp add: utf8_check.simps [of "take m s"])
      qed
      have "take n s = take m s @ take k (drop m s)" using n by (simp add: take_add)
      then have "utf8_check (take n s) = (m + k, None)"
        using utf8_check_complete_append [OF one, of "take k (drop m s)"] IH b by simp
      then show ?thesis using IH n by (simp add: add.commute)
    qed (use False 1(2) in \<open>auto simp: utf8_check.simps [of s]\<close>)
  qed
qed

lemma valid_utf8_append: "valid_utf8 s \<Longrightarrow> valid_utf8 (s @ t) = valid_utf8 t"
  by (cases "utf8_check s")
     (auto simp: valid_utf8_def utf8_check_complete_append split: prod.splits)

lemma valid_utf8_check: "valid_utf8 s \<Longrightarrow> utf8_check s = (length s, None)"
proof (induction s rule: utf8_check.induct)
  case (1 s)
  show ?case
  proof (cases "s = []")
    case False
    with 1(2) obtain m where m: "utf8_step s = Valid m" and v: "valid_utf8 (drop m s)"
      by (auto simp: valid_utf8_def utf8_check.simps [of s] split: utf8_verdict.splits prod.splits)
    have "utf8_check (drop m s) = (length (drop m s), None)"
      using 1(1) [OF False m] v by simp
    with False m show ?thesis
      using utf8_step_Valid_bounds [OF m] by (simp add: utf8_check.simps [of s])
  qed simp
qed

text \<open>A buffer that is a prefix of valid text never fails with a definite error.\<close>

lemma valid_prefix_no_hard_error:
  assumes "valid_utf8 (s @ t)"
  shows "snd (utf8_check s) = None \<or> snd (utf8_check s) = Some None"
  using assms
proof (induction s rule: utf8_check.induct)
  case (1 s)
  show ?case
  proof (cases "s = []")
    case False
    show ?thesis
    proof (cases "utf8_step s")
      case (Valid m)
      have "0 < m" "m \<le> length s" using utf8_step_Valid_bounds [OF Valid] by auto
      moreover from this have "valid_utf8 (drop m s @ t)"
        using 1(2) False utf8_step_append_Valid [OF Valid, of t]
        by (auto simp: valid_utf8_def utf8_check.simps [of "s @ t"] split: prod.splits)
      ultimately show ?thesis
        using 1(1) [OF False Valid] False Valid
        by (auto simp: utf8_check.simps [of s] split: prod.splits)
    next
      case (Invalid m)
      then have "utf8_step (s @ t) = Invalid m" by (rule utf8_step_append_Invalid)
      with 1(2) False show ?thesis by (simp add: valid_utf8_def utf8_check.simps [of "s @ t"])
    qed (use False in \<open>simp add: utf8_check.simps [of s]\<close>)
  qed simp
qed

lemma utf8_lossy_valid: "valid_utf8 s \<Longrightarrow> utf8_lossy s = s"
proof (induction s rule: utf8_lossy.induct)
  case (1 s)
  show ?case
  proof (cases "s = []")
    case False
    with 1(3) obtain m where m: "utf8_step s = Valid m" and v: "valid_utf8 (drop m s)"
      by (auto simp: valid_utf8_def utf8_check.simps [of s] split: utf8_verdict.splits prod.splits)
    from 1(1) [OF False m v] False m show ?thesis by (simp add: utf8_lossy.simps [of s])
  qed (simp add: utf8_lossy.simps)
qed

section \<open>Trimming\<close>

text \<open>The UTF-8 encodings of the characters that \<open>char::is_whitespace\<close> accepts.\<close>

definition white_space :: "string list" where
  "white_space =
     [[CHR 0x09], [CHR 0x0A], [CHR 0x0B], [CHR 0x0C], [CHR 0x0D], [CHR 0x20],
      [CHR 0xC2, CHR 0x85], [CHR 0xC2, CHR 0xA0], [CHR 0xE1, CHR 0x9A, CHR 0x80],
      [CHR 0xE2, CHR 0x80, CHR 0x80], [CHR 0xE2, CHR 0x80, CHR 0x81], [CHR 0xE2, CHR 0x80, CHR 0x82],
      [CHR 0xE2, CHR 0x80, CHR 0x83], [CHR 0xE2, CHR 0x80, CHR 0x84], [CHR 0xE2, CHR 0x80, CHR 0x85],
      [CHR 0xE2, CHR 0x80, CHR 0x86], [CHR 0xE2, CHR 0x80, CHR 0x87], [CHR 0xE2, CHR 0x80, CHR 0x88],
      [CHR 0xE2, CHR 0x80, CHR 0x89], [CHR 0xE2, CHR 0x80, CHR 0x8A], [CHR 0xE2, CHR 0x80, CHR 0xA8],
      [CHR 0xE2, CHR 0x80, CHR 0xA9], [CHR 0xE2, CHR 0x80, CHR 0xAF], [CHR 0xE2, CHR 0x81, CHR 0x9F],
      [CHR 0xE3, CHR 0x80, CHR 0x80]]"

function trim_start :: "string \<Rightarrow> string" where
  "trim_start s =
     (case find (\<lambda>w. prefix w s) white_space of
        None \<Rightarrow> s
      | Some w \<Rightarrow> if w = [] then s else trim_start (drop (length w) s))"
  by pat_completeness auto
termination
proof (relation "measure length")
  fix s w assume "find (\<lambda>w. prefix w s) white_space = Some w" and "w \<noteq> []"
  then have "prefix w s" by (auto simp: find_Some_iff)
  with \<open>w \<noteq> []\<close> show "(drop (length w) s, s) \<in> measure length"
    by (cases w; cases s) auto
qed simp

declare trim_start.simps [simp del]

function trim_end :: "string \<Rightarrow> string" where
  "trim_end s =
     (case find (\<lambda>w. suffix w s) white_space of
        None \<Rightarrow> s
      | Some w \<Rightarrow> if w = [] then s else trim_end (take (length s - length w) s))"
  by pat_completeness auto
termination
proof (relation "measure length")
  fix s w assume "find (\<lambda>w. suffix w s) white_space = Some w" and "w \<noteq> []"
  then have "suffix w s" by (auto simp: find_Some_iff)
  with \<open>w \<noteq> []\<close> show "(take (length s - length w) s, s) \<in> measure length"
    by (cases w; cases s) (auto dest: suffix_length_le)
qed simp

declare trim_end.simps [simp del]

definition str_trim :: "string \<Rightarrow> string" where
  "str_trim s = trim_end (trim_start s)"

end
