(* ===== verification/Reader.thy ===== *)
theory Reader
  imports Utf8
begin

text \<open>
  \<open>src/src/incremental_reader.rs\<close>: reading to an end marker without line buffering. The wrapped
  reader \<open>'r\<close> and writer \<open>'w\<close> are the type parameters of the source; their operations, the
  Aho-Corasick automaton of the end marker, \<open>strip_ansi_escapes::strip_str\<close> and
  \<open>LineSpans::line_spans\<close> (other crates) are the fields of \<open>rd_env\<close>.
\<close>

section \<open>State and options\<close>

datatype write_behavior = Write | NoFinalLine | Hide

datatype find_at = LineStart | Anywhere

datatype read_until_status = Complete string | Inactive

record ('r, 'w) reader =
  rd_reader :: 'r
  rd_writer :: "'w option"
  rd_lines :: string
  rd_line :: string
  rd_non_utf8 :: string
  rd_pending :: string

text \<open>
  \<open>env_read\<close> reads at most the given number of bytes (no bytes: end of file).
  \<open>env_read_timeout\<close> is the same under \<open>tokio::time::timeout\<close> with the given remaining time:
  \<open>None\<close> when the time passes first. \<open>env_now\<close> is the clock the reader side has reached.
\<close>

record ('r, 'w) rd_env =
  env_read :: "'r \<Rightarrow> nat \<Rightarrow> (string \<times> 'r) res"
  env_read_timeout :: "'r \<Rightarrow> nat \<Rightarrow> nat \<Rightarrow> (string \<times> 'r) res option \<times> 'r"
  env_now :: "'r \<Rightarrow> nat"
  env_write_all :: "'w \<Rightarrow> string \<Rightarrow> 'w res"
  env_flush :: "'w \<Rightarrow> 'w res"
  env_find_at_start :: "string \<Rightarrow> bool"
  env_find_anywhere :: "string \<Rightarrow> bool"
  env_strip_ansi :: "string \<Rightarrow> string"
  env_line_spans :: "string \<Rightarrow> (string \<times> string) list"

record read_opts =
  opt_find :: find_at
  opt_writing :: write_behavior
  opt_buffer :: nat

definition reader_new :: "'r \<Rightarrow> ('r, 'w) reader" where
  "reader_new r =
     \<lparr>rd_reader = r, rd_writer = None, rd_lines = [], rd_line = [], rd_non_utf8 = [],
      rd_pending = []\<rparr>"

definition with_writer :: "'w \<Rightarrow> ('r, 'w) reader \<Rightarrow> ('r, 'w) reader" where
  "with_writer w r = r\<lparr>rd_writer := Some w\<rparr>"

definition opts_find :: "('r, 'w) rd_env \<Rightarrow> read_opts \<Rightarrow> string \<Rightarrow> bool" where
  "opts_find env opts s =
     (case opt_find opts of
        LineStart \<Rightarrow> env_find_at_start env s
      | Anywhere \<Rightarrow> env_find_anywhere env s)"

section \<open>Lines: finishing one, taking all\<close>

text \<open>Both write sequences of the source: the line, a newline, then a flush.\<close>

definition write_line :: "('r, 'w) rd_env \<Rightarrow> 'w \<Rightarrow> string \<Rightarrow> 'w res" where
  "write_line env w s =
     res_bind (env_write_all env w s) (\<lambda>w1.
     res_bind (env_write_all env w1 [newline]) (\<lambda>w2.
     env_flush env w2))"

definition finish_line ::
  "('r, 'w) rd_env \<Rightarrow> write_behavior \<Rightarrow> ('r, 'w) reader \<Rightarrow> ('r, 'w) reader res" where
  "finish_line env wb r =
     res_bind
       (case rd_writer r of
          None \<Rightarrow> Inr r
        | Some w \<Rightarrow>
            (case wb of
               Hide \<Rightarrow> Inr r
             | _ \<Rightarrow> res_bind (write_line env w (rd_line r)) (\<lambda>w'. Inr (r\<lparr>rd_writer := Some w'\<rparr>))))
       (\<lambda>r1. Inr (r1\<lparr>rd_lines := rd_lines r1 @ rd_line r1 @ [newline], rd_line := []\<rparr>))"

definition take_lines ::
  "('r, 'w) rd_env \<Rightarrow> write_behavior \<Rightarrow> ('r, 'w) reader \<Rightarrow> (string \<times> ('r, 'w) reader) res" where
  "take_lines env wb r =
     res_bind
       (case rd_writer r of
          None \<Rightarrow> Inr r
        | Some w \<Rightarrow>
            (case wb of
               Write \<Rightarrow> res_bind (write_line env w (rd_line r)) (\<lambda>w'. Inr (r\<lparr>rd_writer := Some w'\<rparr>))
             | _ \<Rightarrow> Inr r))
       (\<lambda>r1. Inr (rd_lines r1, r1\<lparr>rd_line := [], rd_lines := []\<rparr>))"

section \<open>Consuming decoded data\<close>

text \<open>
  The loop of \<open>consume_str\<close>: \<open>ret\<close> is the chunk found so far. The remaining \<open>data\<close> shrinks by
  at least the newline it was split at.
\<close>

function consume_loop ::
  "('r, 'w) rd_env \<Rightarrow> read_opts \<Rightarrow> ('r, 'w) reader \<Rightarrow> string \<Rightarrow> string option
   \<Rightarrow> (string option \<times> ('r, 'w) reader) res" where
  "consume_loop env opts r data ret =
     (case split_once_nl data of
        None \<Rightarrow>
          (let r1 = r\<lparr>rd_line := rd_line r @ data\<rparr> in
           case ret of
             Some ls \<Rightarrow> Inr (Some ls, r1)
           | None \<Rightarrow>
               (if opts_find env opts (env_strip_ansi env (rd_line r1))
                then res_bind (take_lines env (opt_writing opts) r1) (\<lambda>(ls, r2). Inr (Some ls, r2))
                else Inr (None, r1)))
      | Some (first_line, rest) \<Rightarrow>
          (let r1 = r\<lparr>rd_line := rd_line r @ first_line\<rparr> in
           case ret of
             Some ls \<Rightarrow>
               res_bind (finish_line env (opt_writing opts) r1)
                 (\<lambda>r2. consume_loop env opts r2 rest (Some ls))
           | None \<Rightarrow>
               (if opts_find env opts (rd_line r1)
                then res_bind (take_lines env (opt_writing opts) r1)
                       (\<lambda>(ls, r2). consume_loop env opts r2 rest (Some ls))
                else res_bind (finish_line env (opt_writing opts) r1)
                       (\<lambda>r2. consume_loop env opts r2 rest None))))"
  by pat_completeness auto
termination
  by (relation "measure (\<lambda>(env, opts, r, data, ret). length data)")
     (auto dest: split_once_nl_length)

declare consume_loop.simps [simp del]

definition consume_str ::
  "('r, 'w) rd_env \<Rightarrow> read_opts \<Rightarrow> ('r, 'w) reader \<Rightarrow> string
   \<Rightarrow> (string option \<times> ('r, 'w) reader) res" where
  "consume_str env opts r data = consume_loop env opts r data None"

section \<open>Draining pending data\<close>

text \<open>
  \<open>drain_pending\<close> moves complete lines out of \<open>pending\<close> one at a time. \<open>drain_head\<close> is what
  happens to the buffers of one iteration before its \<open>finish_line\<close> is awaited.
\<close>

definition drain_head :: "('r, 'w) reader \<Rightarrow> string \<Rightarrow> string \<Rightarrow> ('r, 'w) reader" where
  "drain_head r front after = r\<lparr>rd_line := rd_line r @ front, rd_pending := after\<rparr>"

function drain_loop ::
  "('r, 'w) rd_env \<Rightarrow> write_behavior \<Rightarrow> ('r, 'w) reader \<Rightarrow> string \<Rightarrow> ('r, 'w) reader res" where
  "drain_loop env wb r pending =
     (case split_once_nl pending of
        None \<Rightarrow>
          Inr (if pending = [] then r\<lparr>rd_pending := []\<rparr>
               else r\<lparr>rd_line := rd_line r @ pending, rd_pending := []\<rparr>)
      | Some (front, after) \<Rightarrow>
          res_bind (finish_line env wb (drain_head r front after))
            (\<lambda>r1. drain_loop env wb r1 after))"
  by pat_completeness auto
termination
  by (relation "measure (\<lambda>(env, wb, r, pending). length pending)")
     (auto dest: split_once_nl_length)

declare drain_loop.simps [simp del]

definition drain_pending ::
  "('r, 'w) rd_env \<Rightarrow> write_behavior \<Rightarrow> ('r, 'w) reader \<Rightarrow> ('r, 'w) reader res" where
  "drain_pending env wb r = drain_loop env wb r (rd_pending r)"

definition buffer_decoded ::
  "('r, 'w) rd_env \<Rightarrow> write_behavior \<Rightarrow> ('r, 'w) reader \<Rightarrow> string \<Rightarrow> ('r, 'w) reader res" where
  "buffer_decoded env wb r data = drain_pending env wb (r\<lparr>rd_pending := rd_pending r @ data\<rparr>)"

section \<open>Decoding\<close>

definition decode :: "('r, 'w) reader \<Rightarrow> string \<Rightarrow> string \<times> ('r, 'w) reader" where
  "decode r buf =
     (let buffer = rd_non_utf8 r @ buf; r0 = r\<lparr>rd_non_utf8 := []\<rparr> in
      case utf8_check buffer of
        (_, None) \<Rightarrow> (buffer, r0)
      | (_, Some (Some _)) \<Rightarrow> (utf8_lossy buffer, r0)
      | (n, Some None) \<Rightarrow> (take n buffer, r0\<lparr>rd_non_utf8 := drop n buffer\<rparr>))"

section \<open>Chunks already in the buffer\<close>

text \<open>
  The first line of \<open>self.lines\<close> on which the marker matches, as the bytes before it, and its
  length with its ending.
\<close>

fun find_span :: "(string \<Rightarrow> bool) \<Rightarrow> nat \<Rightarrow> (string \<times> string) list \<Rightarrow> (nat \<times> nat) option" where
  "find_span p start [] = None"
| "find_span p start ((s, e) # spans) =
     (if p s then Some (start, length s + length e)
      else find_span p (start + length s + length e) spans)"

definition take_chunk_from_buffer ::
  "('r, 'w) rd_env \<Rightarrow> read_opts \<Rightarrow> ('r, 'w) reader \<Rightarrow> (string \<times> ('r, 'w) reader) option" where
  "take_chunk_from_buffer env opts r =
     (case find_span (opts_find env opts) 0 (env_line_spans env (rd_lines r)) of
        Some (start, len) \<Rightarrow>
          (let rest = drop start (rd_lines r); chunk = take start (rd_lines r) in
           Some (chunk, r\<lparr>rd_lines := drop len rest\<rparr>))
      | None \<Rightarrow>
          (if opts_find env opts (rd_line r)
           then Some (rd_lines r, r\<lparr>rd_lines := [], rd_line := []\<rparr>)
           else None))"

partial_function (option) drain_chunks ::
  "('r, 'w) rd_env \<Rightarrow> read_opts \<Rightarrow> ('r, 'w) reader \<Rightarrow> nat \<Rightarrow> (nat \<times> ('r, 'w) reader) option" where
  "drain_chunks env opts r count =
     (case take_chunk_from_buffer env opts r of
        None \<Rightarrow> Some (count, r)
      | Some (_, r1) \<Rightarrow> drain_chunks env opts r1 (Suc count))"

definition drain_buffered_chunks ::
  "('r, 'w) rd_env \<Rightarrow> read_opts \<Rightarrow> ('r, 'w) reader \<Rightarrow> (nat \<times> ('r, 'w) reader) option res" where
  "drain_buffered_chunks env opts r =
     res_bind (drain_pending env (opt_writing opts) r) (\<lambda>r1. Inr (drain_chunks env opts r1 0))"

section \<open>Reading\<close>

definition try_read_until ::
  "('r, 'w) rd_env \<Rightarrow> read_opts \<Rightarrow> ('r, 'w) reader \<Rightarrow> (string option \<times> ('r, 'w) reader) res" where
  "try_read_until env opts r =
     res_bind (drain_pending env (opt_writing opts) r) (\<lambda>r1.
     case take_chunk_from_buffer env opts r1 of
       Some (chunk, r2) \<Rightarrow> Inr (Some chunk, r2)
     | None \<Rightarrow>
         res_bind (env_read env (rd_reader r1) (opt_buffer opts)) (\<lambda>(buf, rd).
         let r2 = r1\<lparr>rd_reader := rd\<rparr> in
         if buf = [] then
           res_bind (take_lines env (opt_writing opts) r2) (\<lambda>(ls, r3). Inr (Some ls, r3))
         else
           (let (decoded, r3) = decode r2 buf in consume_str env opts r3 decoded)))"

text \<open>
  \<open>read_until\<close> repeats \<open>try_read_until\<close>; \<open>None\<close> is a read that never ends.
\<close>

partial_function (option) read_until ::
  "('r, 'w) rd_env \<Rightarrow> read_opts \<Rightarrow> ('r, 'w) reader \<Rightarrow> (string \<times> ('r, 'w) reader) res option" where
  "read_until env opts r =
     (case try_read_until env opts r of
        Inl e \<Rightarrow> Some (Inl e)
      | Inr (Some ls, r1) \<Rightarrow> Some (Inr (ls, r1))
      | Inr (None, r1) \<Rightarrow> read_until env opts r1)"

text \<open>The reset of the inactivity timer: the marker may be split across two reads.\<close>

definition saw_progress :: "string \<Rightarrow> string \<Rightarrow> string \<Rightarrow> bool" where
  "saw_progress line decoded marker \<longleftrightarrow>
     contains_str line marker \<or> contains_str decoded marker \<or> contains_str (line @ decoded) marker"

definition try_read_until_with_progress_timeout ::
  "('r, 'w) rd_env \<Rightarrow> read_opts \<Rightarrow> nat \<Rightarrow> string \<Rightarrow> ('r, 'w) reader \<Rightarrow> nat
   \<Rightarrow> (read_until_status option \<times> ('r, 'w) reader \<times> nat) res" where
  "try_read_until_with_progress_timeout env opts timeout marker r since =
     res_bind (drain_pending env (opt_writing opts) r) (\<lambda>r1.
     case take_chunk_from_buffer env opts r1 of
       Some (chunk, r2) \<Rightarrow> Inr (Some (Complete chunk), r2, since)
     | None \<Rightarrow>
         (let remaining = timeout - (env_now env (rd_reader r1) - since) in
          case env_read_timeout env (rd_reader r1) (opt_buffer opts) remaining of
            (None, rd) \<Rightarrow> Inr (Some Inactive, r1\<lparr>rd_reader := rd\<rparr>, since)
          | (Some (Inl e), rd) \<Rightarrow> Inl e
          | (Some (Inr (buf, rd)), _) \<Rightarrow>
              (let r2 = r1\<lparr>rd_reader := rd\<rparr> in
               if buf = [] then
                 res_bind (take_lines env (opt_writing opts) r2)
                   (\<lambda>(ls, r3). Inr (Some (Complete ls), r3, since))
               else
                 (let (decoded, r3) = decode r2 buf;
                      since' = (if saw_progress (rd_line r3) decoded marker
                               then env_now env rd else since) in
                  res_bind (consume_str env opts r3 decoded)
                    (\<lambda>(ret, r4). Inr (map_option Complete ret, r4, since'))))))"

partial_function (option) read_until_with_progress_loop ::
  "('r, 'w) rd_env \<Rightarrow> read_opts \<Rightarrow> nat \<Rightarrow> string \<Rightarrow> ('r, 'w) reader \<Rightarrow> nat
   \<Rightarrow> (read_until_status \<times> ('r, 'w) reader) res option" where
  "read_until_with_progress_loop env opts timeout marker r since =
     (case try_read_until_with_progress_timeout env opts timeout marker r since of
        Inl e \<Rightarrow> Some (Inl e)
      | Inr (Some status, r1, _) \<Rightarrow> Some (Inr (status, r1))
      | Inr (None, r1, since') \<Rightarrow> read_until_with_progress_loop env opts timeout marker r1 since')"

definition read_until_with_progress_timeout ::
  "('r, 'w) rd_env \<Rightarrow> read_opts \<Rightarrow> nat \<Rightarrow> string \<Rightarrow> ('r, 'w) reader
   \<Rightarrow> (read_until_status \<times> ('r, 'w) reader) res option" where
  "read_until_with_progress_timeout env opts timeout marker r =
     read_until_with_progress_loop env opts timeout marker r (env_now env (rd_reader r))"

text \<open>
  \<open>buffer_available\<close> reads until its timeout or the end of the file; \<open>None\<close> if the reader
  delivers data for ever without letting time pass.
\<close>

partial_function (option) buffer_available_loop ::
  "('r, 'w) rd_env \<Rightarrow> nat \<Rightarrow> nat \<Rightarrow> nat \<Rightarrow> write_behavior \<Rightarrow> ('r, 'w) reader
   \<Rightarrow> ('r, 'w) reader res option" where
  "buffer_available_loop env len timeout start wb r =
     (case env_read_timeout env (rd_reader r) len (timeout - (env_now env (rd_reader r) - start)) of
        (None, rd) \<Rightarrow> Some (Inr (r\<lparr>rd_reader := rd\<rparr>))
      | (Some (Inl e), rd) \<Rightarrow> Some (Inl e)
      | (Some (Inr (buf, rd)), _) \<Rightarrow>
          (let r1 = r\<lparr>rd_reader := rd\<rparr> in
           if buf = [] then Some (Inr r1)
           else
             (let (decoded, r2) = decode r1 buf in
              case buffer_decoded env wb r2 decoded of
                Inl e \<Rightarrow> Some (Inl e)
              | Inr r3 \<Rightarrow> buffer_available_loop env len timeout start wb r3)))"

definition buffer_available ::
  "('r, 'w) rd_env \<Rightarrow> nat \<Rightarrow> nat \<Rightarrow> write_behavior \<Rightarrow> ('r, 'w) reader
   \<Rightarrow> ('r, 'w) reader res option" where
  "buffer_available env len timeout wb r =
     buffer_available_loop env len timeout (env_now env (rd_reader r)) wb r"

end
