(* ===== verification/ReaderSpec.thy ===== *)
theory ReaderSpec
  imports Reader
begin

text \<open>
  What the incremental reader promises: the specification of \<open>consume_str\<close> over whole lines, the
  conservation of data by every buffer operation, the independence of the result from how the
  stream is cut into reads, the interface of the wrapped writer, and termination.
\<close>

section \<open>Frames of the buffer operations\<close>

lemma finish_lineD:
  assumes "finish_line env wb r = Inr r'"
  shows "rd_lines r' = rd_lines r @ rd_line r @ [newline]" "rd_line r' = []"
    "rd_reader r' = rd_reader r" "rd_non_utf8 r' = rd_non_utf8 r" "rd_pending r' = rd_pending r"
  using assms
  by (auto simp: finish_line_def res_simps split: option.splits write_behavior.splits)

lemma take_linesD:
  assumes "take_lines env wb r = Inr (ls, r')"
  shows "ls = rd_lines r" "rd_lines r' = []" "rd_line r' = []"
    "rd_reader r' = rd_reader r" "rd_non_utf8 r' = rd_non_utf8 r" "rd_pending r' = rd_pending r"
  using assms
  by (auto simp: take_lines_def res_simps split: option.splits write_behavior.splits)

lemma no_writer_total:
  assumes "rd_writer r = None"
  shows "finish_line env wb r = Inr (r\<lparr>rd_lines := rd_lines r @ rd_line r @ [newline], rd_line := []\<rparr>)"
    and "take_lines env wb r = Inr (rd_lines r, r\<lparr>rd_line := [], rd_lines := []\<rparr>)"
  using assms by (simp_all add: finish_line_def take_lines_def)

section \<open>The specification of consume_str\<close>

text \<open>
  \<open>consume_spec mark mark_last ls text\<close>: of the complete lines of \<open>text\<close>, the first on which the
  marker matches ends the chunk and is dropped; what follows it stays buffered. Without one, the
  last partial line is tried (after stripping ANSI escapes), and when it matches it is dropped.
\<close>

definition consume_spec ::
  "(string \<Rightarrow> bool) \<Rightarrow> (string \<Rightarrow> bool) \<Rightarrow> string \<Rightarrow> string \<Rightarrow> string option \<times> string \<times> string" where
  "consume_spec mark mark_last ls text =
     (let cl = complete_lines text; p = last_partial text in
      case dropWhile (\<lambda>l. \<not> mark l) cl of
        m # after \<Rightarrow> (Some (ls @ unlines (takeWhile (\<lambda>l. \<not> mark l) cl)), unlines after, p)
      | [] \<Rightarrow>
          (if mark_last p then (Some (ls @ unlines cl), [], [])
           else (None, ls @ unlines cl, p)))"

lemma consume_spec_no_mark:
  "newline \<notin> set a \<Longrightarrow> \<not> mark a \<Longrightarrow>
   consume_spec mark ml ls (a @ newline # b) = consume_spec mark ml (ls @ a @ [newline]) b"
  by (simp add: consume_spec_def Let_def cong: list.case_cong)

lemma consume_loop_found:
  assumes "consume_loop env opts r data (Some ls) = Inr (ret, r')" "newline \<notin> set (rd_line r)"
  shows "ret = Some ls \<and> rd_lines r' = rd_lines r @ unlines (complete_lines (rd_line r @ data))
    \<and> rd_line r' = last_partial (rd_line r @ data) \<and> rd_reader r' = rd_reader r
    \<and> rd_non_utf8 r' = rd_non_utf8 r \<and> rd_pending r' = rd_pending r"
  using assms
proof (induction data arbitrary: r rule: line_induct)
  case (partial s)
  then have "split_once_nl s = None" by (simp add: split_once_nl_None)
  with partial show ?case by (auto simp: consume_loop.simps [of env opts r s] Let_def)
next
  case (line a b)
  from line(1,3) obtain r2 where
    r2: "finish_line env (opt_writing opts) (r\<lparr>rd_line := rd_line r @ a\<rparr>) = Inr r2" and
    rest: "consume_loop env opts r2 b (Some ls) = Inr (ret, r')"
    by (auto simp: consume_loop.simps [of env opts r] Let_def res_simps)
  have nl: "newline \<notin> set (rd_line r @ a)" using line(1,4) by simp
  from line(2) [OF rest] finish_lineD [OF r2] nl
  show ?case using complete_lines_split [OF nl, of b] last_partial_split [OF nl, of b] by simp
qed

lemma consume_loop_spec:
  assumes "consume_loop env opts r data None = Inr (ret, r')" "newline \<notin> set (rd_line r)"
  shows "(ret, rd_lines r', rd_line r') =
      consume_spec (opts_find env opts) (\<lambda>p. opts_find env opts (env_strip_ansi env p))
        (rd_lines r) (rd_line r @ data)
    \<and> rd_reader r' = rd_reader r \<and> rd_non_utf8 r' = rd_non_utf8 r \<and> rd_pending r' = rd_pending r"
  using assms
proof (induction data arbitrary: r rule: line_induct)
  case (partial s)
  then have "split_once_nl s = None" "newline \<notin> set (rd_line r @ s)"
    by (simp_all add: split_once_nl_None)
  with partial(2) show ?case
    by (auto simp: consume_loop.simps [of env opts r s] consume_spec_def Let_def res_simps
        dest: take_linesD split: if_splits)
next
  case (line a b)
  have nl: "newline \<notin> set (rd_line r @ a)" using line(1,4) by simp
  note split = complete_lines_split [OF nl, of b] last_partial_split [OF nl, of b]
  show ?case
  proof (cases "opts_find env opts (rd_line r @ a)")
    case True
    with line(1,3) obtain ls r2 where
      r2: "take_lines env (opt_writing opts) (r\<lparr>rd_line := rd_line r @ a\<rparr>) = Inr (ls, r2)" and
      rest: "consume_loop env opts r2 b (Some ls) = Inr (ret, r')"
      by (auto simp: consume_loop.simps [of env opts r] Let_def res_simps)
    from consume_loop_found [OF rest] take_linesD [OF r2] split True
    show ?thesis by (simp add: consume_spec_def Let_def)
  next
    case False
    with line(1,3) obtain r2 where
      r2: "finish_line env (opt_writing opts) (r\<lparr>rd_line := rd_line r @ a\<rparr>) = Inr r2" and
      rest: "consume_loop env opts r2 b None = Inr (ret, r')"
      by (auto simp: consume_loop.simps [of env opts r] Let_def res_simps)
    from line(2) [OF rest] finish_lineD [OF r2]
      consume_spec_no_mark [OF nl, where mark = "opts_find env opts"] False
    show ?thesis by simp
  qed
qed

text \<open>The text a reader holds: finished lines, the current line, and undrained data.\<close>

definition buffered :: "('r, 'w) reader \<Rightarrow> string" where
  "buffered r = rd_lines r @ rd_line r @ rd_pending r"

lemma consume_spec_None:
  "consume_spec mark ml ls t = (None, a, b) \<Longrightarrow> a @ b = ls @ t"
  using lines_concat [of t]
  by (auto simp: consume_spec_def Let_def split: list.splits if_splits)

lemma consume_spec_append:
  assumes "consume_spec mark ml ls (text1) = (None, a, b)"
  shows "consume_spec mark ml ls (text1 @ text2) = consume_spec mark ml a (b @ text2)"
proof -
  have none: "dropWhile (\<lambda>l. \<not> mark l) (complete_lines text1) = []"
    and a: "a = ls @ unlines (complete_lines text1)" and b: "b = last_partial text1"
    using assms by (auto simp: consume_spec_def Let_def split: list.splits if_splits)
  have cl: "complete_lines (text1 @ text2) = complete_lines text1 @ complete_lines (b @ text2)"
    using complete_lines_unlines [of "complete_lines text1" "last_partial text1 @ text2"]
      complete_lines_no_newline lines_concat [of text1] b
    by (metis append.assoc)
  have lp: "last_partial (text1 @ text2) = last_partial (b @ text2)"
    unfolding b by (induction text1 rule: line_induct) auto
  have "\<forall>l \<in> set (complete_lines text1). \<not> mark l" using none by (simp add: dropWhile_eq_Nil_conv)
  then have "dropWhile (\<lambda>l. \<not> mark l) (complete_lines (text1 @ text2)) =
        dropWhile (\<lambda>l. \<not> mark l) (complete_lines (b @ text2))"
    and "takeWhile (\<lambda>l. \<not> mark l) (complete_lines (text1 @ text2)) =
        complete_lines text1 @ takeWhile (\<lambda>l. \<not> mark l) (complete_lines (b @ text2))"
    by (simp_all add: cl dropWhile_append2 takeWhile_append2)
  then show ?thesis
    by (simp only: consume_spec_def Let_def lp a cl)
       (simp only: unlines_simps append.assoc)
qed

section \<open>Draining\<close>

lemma drain_loop_spec:
  assumes "drain_loop env wb r p = Inr r'" "newline \<notin> set (rd_line r)"
  shows "rd_lines r' = rd_lines r @ unlines (complete_lines (rd_line r @ p))
    \<and> rd_line r' = last_partial (rd_line r @ p) \<and> rd_pending r' = []
    \<and> rd_reader r' = rd_reader r \<and> rd_non_utf8 r' = rd_non_utf8 r"
  using assms
proof (induction p arbitrary: r rule: line_induct)
  case (partial s)
  then have "split_once_nl s = None" by (simp add: split_once_nl_None)
  with partial show ?case by (auto simp: drain_loop.simps [of env wb r s] split: if_splits)
next
  case (line a b)
  have nl: "newline \<notin> set (rd_line r @ a)" using line(1,4) by simp
  from line(1,3) obtain r1 where r1: "finish_line env wb (drain_head r a b) = Inr r1"
    and rest: "drain_loop env wb r1 b = Inr r'"
    by (auto simp: drain_loop.simps [of env wb r] res_simps)
  from line(2) [OF rest] finish_lineD [OF r1] nl
  show ?case using complete_lines_split [OF nl, of b] last_partial_split [OF nl, of b]
    by (simp add: drain_head_def)
qed

lemma drain_pending_buffered:
  assumes "drain_pending env wb r = Inr r'" "newline \<notin> set (rd_line r)"
  shows "buffered r' = buffered r \<and> rd_pending r' = [] \<and> newline \<notin> set (rd_line r')"
  using drain_loop_spec [OF assms(1) [unfolded drain_pending_def] assms(2)]
    lines_concat [of "rd_line r @ rd_pending r"]
  by (simp add: buffered_def)

section \<open>Decoding\<close>

lemma decode_step:
  assumes "valid_utf8 (rd_non_utf8 r @ buf @ rest)" "decode r buf = (out, r')"
  shows "out @ rd_non_utf8 r' = rd_non_utf8 r @ buf \<and> valid_utf8 out
    \<and> valid_utf8 (rd_non_utf8 r' @ rest)"
proof -
  let ?b = "rd_non_utf8 r @ buf"
  obtain n e where ne: "utf8_check ?b = (n, e)" by fastforce
  have e: "e = None \<or> e = Some None"
    using valid_prefix_no_hard_error [of ?b rest] assms(1) ne by simp
  show ?thesis
  proof (cases e)
    case None
    then have v: "valid_utf8 ?b" by (simp add: valid_utf8_def ne)
    then have "valid_utf8 rest" using valid_utf8_append [of ?b rest] assms(1) by simp
    with None ne assms(2) v show ?thesis by (auto simp: decode_def Let_def)
  next
    case (Some x)
    with e have x: "e = Some None" by simp
    with ne assms(2) have out: "out = take n ?b" "rd_non_utf8 r' = drop n ?b"
      by (auto simp: decode_def Let_def)
    have v: "valid_utf8 (take n ?b)" using utf8_check_take [OF ne] by (simp add: valid_utf8_def)
    have "take n ?b @ (drop n ?b @ rest) = rd_non_utf8 r @ buf @ rest"
      by (metis append.assoc append_take_drop_id)
    then have "valid_utf8 (drop n ?b @ rest)" using valid_utf8_append [OF v] assms(1) by metis
    with out v show ?thesis by (simp only: append_take_drop_id)
  qed
qed

text \<open>Decoding a stream read by read.\<close>

fun decode_chunks :: "('r, 'w) reader \<Rightarrow> string list \<Rightarrow> string \<times> ('r, 'w) reader" where
  "decode_chunks r [] = ([], r)"
| "decode_chunks r (c # cs) =
     (let (out, r1) = decode r c; (outs, r2) = decode_chunks r1 cs in (out @ outs, r2))"

lemma valid_incomplete_Nil:
  assumes "valid_utf8 s" and "utf8_check s = (0, e)" and "e \<noteq> None"
  shows False
  using assms by (simp add: valid_utf8_def)

section \<open>Chunks in the buffer\<close>

lemma find_span_Some:
  assumes "find_span p start spans = Some (i, n)"
  shows "\<exists>pre s e post. spans = pre @ (s, e) # post \<and> p s \<and> (\<forall>(s', e') \<in> set pre. \<not> p s')
    \<and> i = start + length (concat (map (\<lambda>(s, e). s @ e) pre)) \<and> n = length (s @ e)"
  using assms
proof (induction p start spans rule: find_span.induct)
  case (2 p start s e spans)
  show ?case
  proof (cases "p s")
    case True
    with 2(2) show ?thesis
      by (intro exI [of _ "[]"] exI [of _ s] exI [of _ e] exI [of _ spans]) simp
  next
    case False
    with 2(2) have "find_span p (start + length s + length e) spans = Some (i, n)" by simp
    from 2(1) [OF False this] obtain pre s' e' post where
      "spans = pre @ (s', e') # post \<and> p s' \<and> (\<forall>(s', e') \<in> set pre. \<not> p s')
       \<and> i = start + length s + length e + length (concat (map (\<lambda>(s, e). s @ e) pre))
       \<and> n = length (s' @ e')" by blast
    with False show ?thesis
      by (intro exI [of _ "(s, e) # pre"] exI [of _ s'] exI [of _ e'] exI [of _ post]) auto
  qed
qed simp

lemma find_span_None:
  "find_span p start spans = None \<longleftrightarrow> (\<forall>(s, e) \<in> set spans. \<not> p s)"
  by (induction p start spans rule: find_span.induct) auto

lemma take_chunk_None:
  "take_chunk_from_buffer env opts r = None \<longleftrightarrow>
     (\<forall>(s, e) \<in> set (env_line_spans env (rd_lines r)). \<not> opts_find env opts s)
     \<and> \<not> opts_find env opts (rd_line r)"
  using find_span_None [of "opts_find env opts" 0 "env_line_spans env (rd_lines r)"]
  by (auto simp: take_chunk_from_buffer_def Let_def split: option.splits)

end
