(* ===== verification/ReaderProps.thy ===== *)
theory ReaderProps
  imports ReaderSpec
begin

text \<open>
  The properties of the incremental reader, over the lemmas of \<open>ReaderSpec\<close>, and the script
  environment their witnesses run on.
\<close>

section \<open>A scripted environment\<close>

text \<open>
  Reads deliver the chunks of a list and then the end of the file, the marker is a fixed string,
  the writer is the list of bytes written, and nothing is stripped.
\<close>

fun script_read :: "string list \<Rightarrow> nat \<Rightarrow> (string \<times> string list) res" where
  "script_read [] n = Inr ([], [])"
| "script_read (c # cs) n = Inr (c, cs)"

definition nl_spans :: "string \<Rightarrow> (string \<times> string) list" where
  "nl_spans s = map (\<lambda>l. (l, [newline])) (complete_lines s)
     @ (if last_partial s = [] then [] else [(last_partial s, [])])"

definition script_env :: "string \<Rightarrow> (string list, string) rd_env" where
  "script_env marker =
     \<lparr>env_read = script_read,
      env_read_timeout = (\<lambda>rd n t. (Some (script_read rd n), rd)),
      env_now = (\<lambda>_. 0),
      env_write_all = (\<lambda>w s. Inr (w @ s)),
      env_flush = Inr,
      env_find_at_start = (\<lambda>s. prefix marker s),
      env_find_anywhere = (\<lambda>s. contains_str s marker),
      env_strip_ansi = (\<lambda>s. s),
      env_line_spans = nl_spans\<rparr>"

lemma nl_spans_concat: "concat (map (\<lambda>(s, e). s @ e) (nl_spans t)) = t"
proof -
  have "concat (map (\<lambda>(s, e). s @ e) (map (\<lambda>l. (l, [newline])) ls)) = unlines ls" for ls
    by (induction ls) auto
  then show ?thesis using lines_concat [of t]
    by (cases "last_partial t = []") (simp_all add: nl_spans_def del: map_map)
qed

definition line_opts :: read_opts where
  "line_opts = \<lparr>opt_find = LineStart, opt_writing = Write, opt_buffer = 1024\<rparr>"

section \<open>Consuming\<close>

text \<open>
  C18: \<open>consume_str\<close> implements the line specification: the chunk it returns and the text it keeps
  are those of \<open>consume_spec\<close>, whatever the writer does, and it leaves the reader, the undecoded
  bytes and the pending data alone.
\<close>

theorem consume_str_refines_spec:
  assumes "consume_str env opts r data = Inr (ret, r')" and "newline \<notin> set (rd_line r)"
  shows "(ret, rd_lines r', rd_line r') =
      consume_spec (opts_find env opts) (\<lambda>p. opts_find env opts (env_strip_ansi env p))
        (rd_lines r) (rd_line r @ data)
    \<and> rd_reader r' = rd_reader r \<and> rd_non_utf8 r' = rd_non_utf8 r \<and> rd_pending r' = rd_pending r"
  using consume_loop_spec [OF assms(1) [unfolded consume_str_def] assms(2)] .

lemma consume_demo:
  "consume_str (script_env ''P>'') line_opts (with_writer [] (reader_new [])) [CHR ''a'', newline, CHR ''P'', CHR ''>'', newline, CHR ''b'']
   = Inr (Some [CHR ''a'', newline],
      \<lparr>rd_reader = [], rd_writer = Some [CHR ''a'', newline, CHR ''P'', CHR ''>'', newline],
       rd_lines = [], rd_line = ''b'', rd_non_utf8 = [], rd_pending = []\<rparr>)"
  by (simp add: consume_str_def consume_loop.simps script_env_def line_opts_def with_writer_def
      reader_new_def opts_find_def finish_line_def take_lines_def write_line_def)

theorem consume_str_refines_spec_witness:
  "(Some [CHR ''a'', newline], [], ''b'') =
      consume_spec (opts_find (script_env ''P>'') line_opts)
        (\<lambda>p. opts_find (script_env ''P>'') line_opts (env_strip_ansi (script_env ''P>'') p))
        [] [CHR ''a'', newline, CHR ''P'', CHR ''>'', newline, CHR ''b'']"
  using consume_str_refines_spec [OF consume_demo]
  by (simp add: with_writer_def reader_new_def)




lemma cut_behind_marker:
  "\<exists>r1 r2. consume_str (script_env ''P>'') line_opts (reader_new []) ''P>'' = Inr (Some [], r1) \<and>
      consume_str (script_env ''P>'') line_opts r1 [CHR ''x'', newline] = Inr (None, r2) \<and> rd_lines r2 = [CHR ''x'', newline]"
  "\<exists>r'. consume_str (script_env ''P>'') line_opts (reader_new []) (''P>'' @ [CHR ''x'', newline]) = Inr (Some [], r') \<and>
      rd_lines r' = []"
  by (simp_all add: consume_str_def consume_loop.simps script_env_def line_opts_def reader_new_def
    opts_find_def finish_line_def take_lines_def)

section \<open>Decoding\<close>

text \<open>
  Decoding a valid UTF-8 stream loses and invents nothing wherever the reads cut it: the
  decoded pieces concatenate to the stream and no byte is left over, although code points may be
  split between reads.
\<close>

theorem decode_chunks_roundtrip:
  assumes "rd_non_utf8 r = []" and "valid_utf8 (concat chunks)"
    and "decode_chunks r chunks = (out, r')"
  shows "out = concat chunks \<and> rd_non_utf8 r' = []"
proof -
  have "valid_utf8 (rd_non_utf8 r @ concat chunks)" using assms(1,2) by simp
  from this assms(3)
  have "out @ rd_non_utf8 r' = rd_non_utf8 r @ concat chunks \<and> valid_utf8 (rd_non_utf8 r')
      \<and> (chunks \<noteq> [] \<longrightarrow> fst (utf8_check (rd_non_utf8 r')) = 0)"
  proof (induction chunks arbitrary: r out)
    case (Cons c cs)
    obtain o1 r1 where d: "decode r c = (o1, r1)" by fastforce
    obtain o2 where ds: "decode_chunks r1 cs = (o2, r')" and out: "out = o1 @ o2"
      using Cons.prems(2) d by (auto split: prod.splits)
    have v: "valid_utf8 (rd_non_utf8 r @ c @ concat cs)" using Cons.prems(1) by simp
    from decode_step [OF v d]
    have s: "o1 @ rd_non_utf8 r1 = rd_non_utf8 r @ c" "valid_utf8 (rd_non_utf8 r1 @ concat cs)"
      by auto
    have zero: "fst (utf8_check (rd_non_utf8 r1)) = 0"
      using d utf8_check_take
      by (fastforce simp: decode_def Let_def split: prod.splits option.splits)
    from Cons.IH [OF s(2) ds] s(1) out zero ds show ?case
      by (cases cs) auto
  qed simp
  moreover have "chunks = [] \<Longrightarrow> r' = r \<and> out = []" using assms(3) by auto
  ultimately show ?thesis
    using valid_utf8_check [of "rd_non_utf8 r'"] assms(1) by (cases "chunks = []") auto
qed

theorem decode_chunks_roundtrip_witness:
  "fst (decode_chunks (reader_new () :: (unit, unit) reader)
     [[CHR ''a'', CHR 0xE2], [CHR 0x80], [CHR 0x98, CHR ''b'']])
   = [CHR ''a'', CHR 0xE2, CHR 0x80, CHR 0x98, CHR ''b'']"
proof -
  let ?r = "reader_new () :: (unit, unit) reader"
  let ?cs = "[[CHR ''a'', CHR 0xE2], [CHR 0x80], [CHR 0x98, CHR ''b'']]"
  have 1: "rd_non_utf8 ?r = []" by (simp add: reader_new_def)
  have 2: "valid_utf8 (concat ?cs)"
    by (simp add: valid_utf8_def utf8_check.simps byte_def utf8_width_def second_ok_def is_cont_def)
  show ?thesis
    using decode_chunks_roundtrip [OF 1 2, where out = "fst (decode_chunks ?r ?cs)"
        and r' = "snd (decode_chunks ?r ?cs)"] by simp
qed

section \<open>Buffered data\<close>

text \<open>
  A chunk taken from the buffer is the text before the first line the marker matches: that
  line is removed with its ending, no earlier line matches, and the rest stays; when no line of
  the buffer matches, the whole buffer is the chunk of a match on the current line.
\<close>

theorem take_chunk_first_match:
  assumes "concat (map (\<lambda>(s, e). s @ e) (env_line_spans env (rd_lines r))) = rd_lines r"
    and "take_chunk_from_buffer env opts r = Some (chunk, r')"
  shows "(\<exists>pre s e post. env_line_spans env (rd_lines r) = pre @ (s, e) # post
      \<and> opts_find env opts s \<and> (\<forall>(s', e') \<in> set pre. \<not> opts_find env opts s')
      \<and> chunk = concat (map (\<lambda>(s, e). s @ e) pre)
      \<and> rd_lines r = chunk @ s @ e @ rd_lines r' \<and> rd_line r' = rd_line r)
    \<or> ((\<forall>(s, e) \<in> set (env_line_spans env (rd_lines r)). \<not> opts_find env opts s)
      \<and> opts_find env opts (rd_line r) \<and> chunk = rd_lines r
      \<and> rd_lines r' = [] \<and> rd_line r' = [])"
proof (cases "find_span (opts_find env opts) 0 (env_line_spans env (rd_lines r))")
  case None
  with assms(2) find_span_None [of "opts_find env opts" 0 "env_line_spans env (rd_lines r)"]
  show ?thesis by (auto simp: take_chunk_from_buffer_def split: if_splits)
next
  case (Some in')
  obtain i n where i: "in' = (i, n)" by (cases in')
  from find_span_Some [OF Some [unfolded i]] obtain pre s e post where
    sp: "env_line_spans env (rd_lines r) = pre @ (s, e) # post" and
    m: "opts_find env opts s" "\<forall>(s', e') \<in> set pre. \<not> opts_find env opts s'" and
    len: "i = length (concat (map (\<lambda>(s, e). s @ e) pre))" "n = length (s @ e)"
    by auto
  let ?pre = "concat (map (\<lambda>(s, e). s @ e) pre)"
  have "rd_lines r = ?pre @ (s @ e) @ concat (map (\<lambda>(s, e). s @ e) post)"
    using assms(1) sp by simp
  moreover have "chunk = take i (rd_lines r)" "rd_lines r' = drop n (drop i (rd_lines r))"
    "rd_line r' = rd_line r"
    using assms(2) Some i by (auto simp: take_chunk_from_buffer_def Let_def)
  ultimately have "chunk = ?pre" "rd_lines r = chunk @ s @ e @ rd_lines r'" "rd_line r' = rd_line r"
    using len by auto
  with sp m show ?thesis by blast
qed

theorem take_chunk_first_match_witness:
  "\<exists>chunk r'. take_chunk_from_buffer (script_env ''P>'') line_opts
       ((reader_new [] :: (string list, string) reader)
         \<lparr>rd_lines := [CHR ''a'', newline, CHR ''P'', CHR ''>'', newline]\<rparr>) = Some (chunk, r')
     \<and> chunk = [CHR ''a'', newline] \<and> rd_lines r' = []"
proof -
  let ?e = "script_env ''P>''"
  let ?r = "(reader_new [] :: (string list, string) reader)
         \<lparr>rd_lines := [CHR ''a'', newline, CHR ''P'', CHR ''>'', newline]\<rparr>"
  have 1: "concat (map (\<lambda>(s, e). s @ e) (env_line_spans ?e (rd_lines ?r))) = rd_lines ?r"
    using nl_spans_concat by (simp add: script_env_def)
  have 2: "take_chunk_from_buffer ?e line_opts ?r = Some ([CHR ''a'', newline], ?r\<lparr>rd_lines := []\<rparr>)"
    by (simp add: take_chunk_from_buffer_def script_env_def nl_spans_def complete_lines.simps
        last_partial.simps opts_find_def line_opts_def Let_def)
  from take_chunk_first_match [OF 1 2] 2 show ?thesis by simp
qed

text \<open>
  Draining keeps every byte the reader holds, in order, and leaves nothing pending: only the
  place of the data changes.
\<close>

theorem drain_pending_conserves:
  assumes "drain_pending env wb r = Inr r'" and "newline \<notin> set (rd_line r)"
  shows "buffered r' = buffered r \<and> rd_pending r' = []
    \<and> rd_lines r' = rd_lines r @ unlines (complete_lines (rd_line r @ rd_pending r))
    \<and> rd_line r' = last_partial (rd_line r @ rd_pending r)"
  using drain_pending_buffered [OF assms] drain_loop_spec [OF assms(1) [unfolded drain_pending_def] assms(2)]
  by simp

theorem drain_pending_conserves_witness:
  "\<exists>r'. drain_pending (script_env ''P>'') Write (with_writer [] (reader_new [])
        \<lparr>rd_pending := [CHR ''a'', newline, CHR ''b'']\<rparr>) = Inr r'
     \<and> buffered r' = [CHR ''a'', newline, CHR ''b''] \<and> rd_pending r' = []"
proof -
  let ?r = "(with_writer [] (reader_new []) :: (string list, string) reader)
        \<lparr>rd_pending := [CHR ''a'', newline, CHR ''b'']\<rparr>"
  obtain r' where 1: "drain_pending (script_env ''P>'') Write ?r = Inr r'"
    by (simp add: drain_pending_def drain_loop.simps drain_head_def finish_line_def write_line_def
        script_env_def with_writer_def reader_new_def)
  have 2: "newline \<notin> set (rd_line ?r)" by (simp add: with_writer_def reader_new_def)
  from drain_pending_conserves [OF 1 2] 1 show ?thesis
    by (auto simp: buffered_def with_writer_def reader_new_def)
qed

text \<open>
  C31: the drain is not cancel-safe. When the future is dropped while \<open>finish_line\<close> awaits the
  writer, the reader is left in the state \<open>drain_head\<close>: the line is in \<open>line\<close> and its newline has
  already been removed from \<open>pending\<close>. The next drain succeeds, but joins the line with the one
  after it: exactly that newline is missing from the text.
\<close>

theorem cancelled_drain_loses_newline:
  assumes "newline \<notin> set (rd_line r)" and "rd_pending r = before @ newline # after"
    and "newline \<notin> set before"
    and "drain_pending env wb (drain_head r before after) = Inr r'"
  shows "buffered r = rd_lines r @ rd_line r @ before @ newline # after
    \<and> buffered r' = rd_lines r @ rd_line r @ before @ after"
proof -
  have "newline \<notin> set (rd_line (drain_head r before after))"
    using assms(1,3) by (simp add: drain_head_def)
  from drain_pending_buffered [OF assms(4) this] assms(2) show ?thesis
    by (auto simp: buffered_def drain_head_def)
qed

theorem cancelled_drain_loses_newline_witness:
  "\<exists>r'. drain_pending (script_env ''P>'') Write (drain_head (with_writer [] (reader_new [])
        \<lparr>rd_pending := [CHR ''a'', newline, CHR ''b'', newline]\<rparr>) ''a'' [CHR ''b'', newline]) = Inr r'
     \<and> buffered r' = [CHR ''a'', CHR ''b'', newline]"
proof -
  let ?r = "(with_writer [] (reader_new []) :: (string list, string) reader)
        \<lparr>rd_pending := [CHR ''a'', newline, CHR ''b'', newline]\<rparr>"
  note ev = with_writer_def reader_new_def drain_head_def
  obtain r' where 4: "drain_pending (script_env ''P>'') Write (drain_head ?r ''a'' [CHR ''b'', newline]) = Inr r'"
    by (simp add: drain_pending_def drain_loop.simps drain_head_def finish_line_def write_line_def
        script_env_def with_writer_def reader_new_def)
  have 1: "newline \<notin> set (rd_line ?r)" by (simp add: ev)
  have 2: "rd_pending ?r = ''a'' @ newline # [CHR ''b'', newline]" by (simp add: ev)
  have 3: "newline \<notin> set ''a''" by simp
  from cancelled_drain_loses_newline [OF 1 2 3 4] 4 show ?thesis by (simp add: ev)
qed

section \<open>Reading\<close>

lemma consume_loop_reader:
  "consume_loop env opts r data ret = Inr (ret', r') \<Longrightarrow> rd_reader r' = rd_reader r"
proof (induction data arbitrary: r ret rule: line_induct)
  case (partial s)
  then have "split_once_nl s = None" by (simp add: split_once_nl_None)
  with partial(2) show ?case
    by (auto simp: consume_loop.simps [of env opts r s] Let_def res_simps dest: take_linesD(4)
        split: option.splits if_splits)
next
  case (line a b)
  from line(1,3) obtain r2 ret2 where "rd_reader r2 = rd_reader r"
    and "consume_loop env opts r2 b ret2 = Inr (ret', r')"
    by (auto simp: consume_loop.simps [of env opts r] Let_def res_simps
        dest!: finish_lineD(3) take_linesD(4) split: option.splits if_splits)
  then show ?case using line(2) by simp
qed

lemma drain_loop_reader: "drain_loop env wb r p = Inr r' \<Longrightarrow> rd_reader r' = rd_reader r"
proof (induction p arbitrary: r rule: line_induct)
  case (partial s)
  then have "split_once_nl s = None" by (simp add: split_once_nl_None)
  with partial(2) show ?case by (auto simp: drain_loop.simps [of env wb r s] split: if_splits)
next
  case (line a b)
  then show ?case
    by (auto simp: drain_loop.simps [of env wb r] res_simps drain_head_def dest!: finish_lineD(3))
qed

lemma decode_reader: "decode r buf = (out, r') \<Longrightarrow> rd_reader r' = rd_reader r"
  by (auto simp: decode_def Let_def split: prod.splits option.splits)

text \<open>A read that found no chunk has delivered at least one byte.\<close>

lemma try_read_until_None:
  assumes "try_read_until env opts r = Inr (None, r')"
  shows "\<exists>buf. env_read env (rd_reader r) (opt_buffer opts) = Inr (buf, rd_reader r') \<and> buf \<noteq> []"
proof -
  obtain r1 where r1: "drain_pending env (opt_writing opts) r = Inr r1"
    using assms by (auto simp: try_read_until_def res_simps)
  obtain buf rd where rd: "env_read env (rd_reader r1) (opt_buffer opts) = Inr (buf, rd)" "buf \<noteq> []"
    using assms r1
    by (auto simp: try_read_until_def res_simps Let_def split: option.splits if_splits)
  obtain out r3 where r3: "decode (r1\<lparr>rd_reader := rd\<rparr>) buf = (out, r3)" by fastforce
  have "consume_str env opts r3 out = Inr (None, r')"
    using assms r1 rd r3 by (auto simp: try_read_until_def Let_def split: option.splits)
  then have "rd_reader r' = rd"
    using consume_loop_reader decode_reader [OF r3] by (fastforce simp: consume_str_def)
  with rd show ?thesis using drain_loop_reader r1 by (fastforce simp: drain_pending_def)
qed

text \<open>
  C20: \<open>read_until\<close> returns on every stream that ends: if each read that delivers data brings the
  stream closer to its end, the loop stops with a chunk or an error.
\<close>

theorem read_until_returns:
  fixes m :: "'r \<Rightarrow> nat" and env :: "('r, 'w) rd_env"
  assumes "\<And>rd n buf rd'. env_read env rd n = Inr (buf, rd') \<Longrightarrow> buf \<noteq> [] \<Longrightarrow> m rd' < m rd"
  shows "\<exists>y. read_until env opts r = Some y"
proof (induction "m (rd_reader r)" arbitrary: r rule: less_induct)
  case less
  show ?case
  proof (cases "try_read_until env opts r")
    case (Inr y)
    obtain ret r1 where y: "y = (ret, r1)" by (cases y)
    show ?thesis
    proof (cases ret)
      case None
      from try_read_until_None [of env opts r r1] Inr y None assms
      have "m (rd_reader r1) < m (rd_reader r)" by blast
      from less [OF this] Inr y None show ?thesis by (simp add: read_until.simps [of env opts r])
    qed (use Inr y in \<open>simp add: read_until.simps [of env opts r]\<close>)
  qed (simp add: read_until.simps [of env opts r])
qed

theorem read_until_returns_witness:
  "\<exists>y. read_until (script_env ''P>'') line_opts (reader_new [''ab'', ''c'']) = Some y"
proof (rule read_until_returns [where m = length])
  fix rd :: "string list" and n :: nat and buf :: string and rd' :: "string list"
  assume "env_read (script_env ''P>'') rd n = Inr (buf, rd')" and "buf \<noteq> []"
  then show "length rd' < length rd" by (cases rd) (auto simp: script_env_def)
qed

text \<open>
  At the end of the file the reader returns its finished lines, and the current line, which
  has no newline yet, is dropped: it is neither returned nor kept.
\<close>

theorem eof_drops_partial_line:
  assumes "rd_pending r = []" and "take_chunk_from_buffer env opts r = None"
    and "env_read env (rd_reader r) (opt_buffer opts) = Inr ([], rd)"
    and "try_read_until env opts r = Inr (ret, r')"
  shows "ret = Some (rd_lines r) \<and> rd_lines r' = [] \<and> rd_line r' = []"
proof -
  have d: "drain_pending env (opt_writing opts) r = Inr r"
    using assms(1) by (simp add: drain_pending_def drain_loop.simps)
  show ?thesis
    using assms(2-4) d by (auto simp: try_read_until_def res_simps dest: take_linesD)
qed

theorem eof_drops_partial_line_witness:
  "\<exists>r'. try_read_until (script_env ''P>'') line_opts
      ((reader_new [] :: (string list, string) reader)\<lparr>rd_lines := [CHR ''a'', newline], rd_line := ''lost''\<rparr>)
      = Inr (Some [CHR ''a'', newline], r') \<and> rd_line r' = []"
proof -
  let ?e = "script_env ''P>''"
  let ?r = "(reader_new [] :: (string list, string) reader)\<lparr>rd_lines := [CHR ''a'', newline], rd_line := ''lost''\<rparr>"
  have 1: "rd_pending ?r = []" by (simp add: reader_new_def)
  have 2: "take_chunk_from_buffer ?e line_opts ?r = None"
    by (simp add: take_chunk_from_buffer_def script_env_def nl_spans_def complete_lines.simps
        last_partial.simps opts_find_def line_opts_def)
  have 3: "env_read ?e (rd_reader ?r) (opt_buffer line_opts) = Inr ([], [])"
    by (simp add: script_env_def reader_new_def)
  obtain ret r' where 4: "try_read_until ?e line_opts ?r = Inr (ret, r')"
    using 2 3 no_writer_total(2) [of "?r\<lparr>rd_reader := []\<rparr>" ?e "opt_writing line_opts"]
    by (simp add: try_read_until_def drain_pending_def drain_loop.simps reader_new_def)
  from eof_drops_partial_line [OF 1 2 3 4] 4 show ?thesis by auto
qed

end
