(* ===== verification/BTree.thy ===== *)
theory BTree
  imports Prelude
begin

text \<open>
  \<open>BTreeSet\<close> and \<open>BTreeMap\<close> of the Rust standard library as ascending lists, with the interface of
  a map whose iteration order is its key order. Equality of such maps is equality of contents.
\<close>

section \<open>The interfaces\<close>

locale ordered_map =
  fixes get :: "'m \<Rightarrow> 'k \<Rightarrow> 'v option"
    and ins :: "'k \<Rightarrow> 'v \<Rightarrow> 'm \<Rightarrow> 'm"
    and del :: "'k \<Rightarrow> 'm \<Rightarrow> 'm"
    and inv :: "'m \<Rightarrow> bool"
  assumes inv_ins: "inv m \<Longrightarrow> inv (ins k v m)"
    and inv_del: "inv m \<Longrightarrow> inv (del k m)"
    and get_ins: "inv m \<Longrightarrow> get (ins k v m) = (get m)(k \<mapsto> v)"
    and get_del: "inv m \<Longrightarrow> get (del k m) = (get m)(k := None)"
    and get_inject: "inv m \<Longrightarrow> inv m' \<Longrightarrow> get m = get m' \<Longrightarrow> m = m'"
begin

lemma inv_extend: "inv m \<Longrightarrow> inv (fold (\<lambda>(k, v). ins k v) kvs m)"
  by (induction kvs arbitrary: m) (auto simp: inv_ins)

lemma get_extend:
  "inv m \<Longrightarrow> get (fold (\<lambda>(k, v). ins k v) kvs m) = get m ++ map_of (rev kvs)"
proof (induction kvs arbitrary: m)
  case (Cons kv kvs)
  obtain k v where kv: "kv = (k, v)" by (cases kv)
  have "get (fold (\<lambda>(k, v). ins k v) kvs (ins k v m)) = get (ins k v m) ++ map_of (rev kvs)"
    using Cons by (simp add: inv_ins)
  then show ?case using Cons(2) by (simp add: kv get_ins map_add_def fun_eq_iff split: option.splits)
qed simp

lemma inv_del_all: "inv m \<Longrightarrow> inv (fold del ks m)"
  by (induction ks arbitrary: m) (auto simp: inv_del)

lemma get_del_all: "inv m \<Longrightarrow> get (fold del ks m) = (get m) |` (- set ks)"
proof (induction ks arbitrary: m)
  case (Cons k ks)
  then show ?case by (auto simp: inv_del get_del restrict_map_def fun_eq_iff)
qed (simp add: restrict_map_def)

end

locale ordered_set =
  fixes elems :: "'s \<Rightarrow> 'a set"
    and sins :: "'a \<Rightarrow> 's \<Rightarrow> 's"
    and sretain :: "('a \<Rightarrow> bool) \<Rightarrow> 's \<Rightarrow> 's"
    and sinv :: "'s \<Rightarrow> bool"
  assumes sinv_ins: "sinv s \<Longrightarrow> sinv (sins x s)"
    and sinv_retain: "sinv s \<Longrightarrow> sinv (sretain p s)"
    and elems_ins: "elems (sins x s) = insert x (elems s)"
    and elems_retain: "elems (sretain p s) = {x \<in> elems s. p x}"
    and elems_inject: "sinv s \<Longrightarrow> sinv s' \<Longrightarrow> elems s = elems s' \<Longrightarrow> s = s'"
begin

lemma sinv_collect: "sinv s \<Longrightarrow> sinv (fold sins xs s)"
  by (induction xs arbitrary: s) (auto simp: sinv_ins)

lemma elems_collect: "elems (fold sins xs s) = elems s \<union> set xs"
  by (induction xs arbitrary: s) (auto simp: elems_ins)

end

section \<open>Ascending lists\<close>

fun bs_insert :: "'a::linorder \<Rightarrow> 'a list \<Rightarrow> 'a list" where
  "bs_insert x [] = [x]"
| "bs_insert x (y # ys) =
     (if x < y then x # y # ys else if x = y then y # ys else y # bs_insert x ys)"

definition bs_inv :: "'a::linorder list \<Rightarrow> bool" where
  "bs_inv xs \<longleftrightarrow> sorted_wrt (<) xs"

definition bs_collect :: "'a::linorder list \<Rightarrow> 'a list" where
  "bs_collect xs = fold bs_insert xs []"

lemma set_bs_insert [simp]: "set (bs_insert x s) = insert x (set s)"
  by (induction x s rule: bs_insert.induct) auto

lemma bs_inv_insert: "bs_inv s \<Longrightarrow> bs_inv (bs_insert x s)"
  unfolding bs_inv_def by (induction x s rule: bs_insert.induct) auto

lemma bs_inv_inject:
  fixes s :: "'a::linorder list"
  assumes "bs_inv s" and "bs_inv s'" and "set s = set s'"
  shows "s = s'"
  using assms by (simp add: bs_inv_def strict_sorted_equal)

interpretation bs: ordered_set set bs_insert filter bs_inv
  by unfold_locales
     (auto simp: bs_inv_insert intro: bs_inv_inject, simp add: bs_inv_def sorted_wrt_filter)

lemma set_bs_collect [simp]: "set (bs_collect xs) = set xs"
  by (simp add: bs_collect_def bs.elems_collect)

lemma bs_inv_collect: "bs_inv (bs_collect xs)"
  using bs.sinv_collect [of "[]" xs] by (simp add: bs_collect_def bs_inv_def)

lemma bs_inv_distinct: "bs_inv s \<Longrightarrow> distinct s"
  by (simp add: bs_inv_def strict_sorted_iff)

section \<open>Ascending association lists\<close>

type_synonym ('k, 'v) btmap = "('k \<times> 'v) list"

fun bm_insert :: "'k::linorder \<Rightarrow> 'v \<Rightarrow> ('k, 'v) btmap \<Rightarrow> ('k, 'v) btmap" where
  "bm_insert k v [] = [(k, v)]"
| "bm_insert k v ((k', v') # m) =
     (if k < k' then (k, v) # (k', v') # m
      else if k = k' then (k, v) # m else (k', v') # bm_insert k v m)"

definition bm_remove :: "'k \<Rightarrow> ('k, 'v) btmap \<Rightarrow> ('k, 'v) btmap" where
  "bm_remove k m = filter (\<lambda>(k', v). k' \<noteq> k) m"

definition bm_extend :: "('k::linorder, 'v) btmap \<Rightarrow> ('k \<times> 'v) list \<Rightarrow> ('k, 'v) btmap" where
  "bm_extend m kvs = fold (\<lambda>(k, v). bm_insert k v) kvs m"

definition bm_inv :: "('k::linorder, 'v) btmap \<Rightarrow> bool" where
  "bm_inv m \<longleftrightarrow> sorted_wrt (<) (map fst m)"

lemma keys_bm_insert [simp]: "fst ` set (bm_insert k v m) = insert k (fst ` set m)"
  by (induction k v m rule: bm_insert.induct) auto

lemma bm_inv_Cons: "bm_inv ((k, v) # m) \<longleftrightarrow> (\<forall>k' \<in> fst ` set m. k < k') \<and> bm_inv m"
  by (auto simp: bm_inv_def)

lemma bm_inv_Nil [simp]: "bm_inv []"
  by (simp add: bm_inv_def)

lemma set_bm_insert: "set (bm_insert k v m) \<subseteq> insert (k, v) (set m)"
  by (induction k v m rule: bm_insert.induct) auto

lemma bm_inv_insert: "bm_inv m \<Longrightarrow> bm_inv (bm_insert k v m)"
proof (induction k v m rule: bm_insert.induct)
  case (2 k v k' v' m)
  then show ?case using keys_bm_insert [of k v m] by (auto simp: bm_inv_Cons)
qed (simp add: bm_inv_def)

lemma map_of_below: "(\<forall>k' \<in> fst ` set m. k < k') \<Longrightarrow> map_of m (k::'k::linorder) = None"
  by (induction m) auto

lemma map_of_bm_insert: "bm_inv m \<Longrightarrow> map_of (bm_insert k v m) = (map_of m)(k \<mapsto> v)"
proof (induction k v m rule: bm_insert.induct)
  case (2 k v k' v' m)
  then show ?case by (auto simp: bm_inv_Cons fun_eq_iff)
qed simp

lemma bm_inv_remove: "bm_inv m \<Longrightarrow> bm_inv (bm_remove k m)"
  by (induction m) (auto simp: bm_remove_def bm_inv_Cons)

lemma map_of_bm_remove: "map_of (bm_remove k m) = (map_of m)(k := None)"
  by (induction m) (auto simp: bm_remove_def fun_eq_iff)

lemma map_of_Some_key: "map_of m k = Some v \<Longrightarrow> k \<in> fst ` set m"
  by (induction m) (auto split: if_splits)

lemma bm_inv_inject:
  fixes m :: "('k::linorder, 'v) btmap"
  assumes "bm_inv m" and "bm_inv m'" and "map_of m = map_of m'"
  shows "m = m'"
  using assms
proof (induction m arbitrary: m')
  case Nil
  then show ?case by (cases m') (auto simp: fun_eq_iff split: if_splits)
next
  case (Cons kv m)
  obtain k v where kv: "kv = (k, v)" by (cases kv)
  have "map_of m' k = Some v" by (simp flip: Cons.prems(3) add: kv)
  then obtain k' v' m'' where m': "m' = (k', v') # m''" by (cases m') auto
  have below: "map_of m k = None" "map_of m'' k' = None" and
    lt: "\<forall>x \<in> fst ` set m. k < x" "\<forall>x \<in> fst ` set m''. k' < x"
    using Cons.prems(1,2) kv m' by (auto simp: bm_inv_Cons intro: map_of_below)
  have "map_of ((k, v) # m) k = Some v" "map_of ((k', v') # m'') k' = Some v'" by simp_all
  then have a: "map_of ((k', v') # m'') k = Some v" "map_of ((k, v) # m) k' = Some v'"
    using Cons.prems(3) kv m' by metis+
  have "k = k'"
  proof (rule ccontr)
    assume ne: "k \<noteq> k'"
    then have e: "map_of m'' k = Some v" "map_of m k' = Some v'"
      using a by (simp_all split: if_splits)
    have "k' < k" using lt(2) map_of_Some_key [OF e(1)] by (rule bspec)
    moreover have "k < k'" using lt(1) map_of_Some_key [OF e(2)] by (rule bspec)
    ultimately show False by simp
  qed
  with a have vv: "v = v'" by simp
  have "map_of m x = map_of m'' x" for x
    using Cons.prems(3) kv m' \<open>k = k'\<close> below
    by (cases "x = k") (auto simp: fun_eq_iff split: if_splits)
  then have "map_of m = map_of m''" by (rule ext)
  then have "m = m''"
    using Cons.IH [of m''] Cons.prems(1,2) kv m' by (simp add: bm_inv_Cons)
  with kv m' \<open>k = k'\<close> vv show ?case by simp
qed

interpretation bm: ordered_map map_of bm_insert bm_remove bm_inv
  by unfold_locales
     (simp_all add: bm_inv_insert bm_inv_remove map_of_bm_insert map_of_bm_remove bm_inv_inject)

lemma bm_inv_extend: "bm_inv m \<Longrightarrow> bm_inv (bm_extend m kvs)"
  by (simp add: bm_extend_def bm.inv_extend)

lemma keys_bm_extend: "fst ` set (bm_extend m kvs) = fst ` set m \<union> fst ` set kvs"
  unfolding bm_extend_def by (induction kvs arbitrary: m) (auto simp: split_beta)

lemma set_bm_extend: "set (bm_extend m kvs) \<subseteq> set m \<union> set kvs"
  unfolding bm_extend_def
proof (induction kvs arbitrary: m)
  case (Cons kv kvs)
  obtain k v where "kv = (k, v)" by (cases kv)
  with Cons.IH [of "bm_insert k v m"] set_bm_insert [of k v m] show ?case by auto
qed simp

lemma map_of_rev_distinct:
  "distinct (map fst kvs) \<Longrightarrow> map_of (rev kvs) = map_of kvs"
  by (simp add: map_of_inject_set rev_map [symmetric])

lemma map_of_bm_extend:
  "bm_inv m \<Longrightarrow> bm_inv kvs \<Longrightarrow> map_of (bm_extend m kvs) = map_of m ++ map_of kvs"
  using map_of_rev_distinct [of kvs]
  by (simp add: bm_extend_def bm.get_extend bm_inv_def strict_sorted_iff)

end
