(* ===== verification/Paths.thy ===== *)
theory Paths
  imports BTree "HOL-Library.Char_ord" "HOL-Library.List_Lexorder" "HOL-Library.Product_Lexorder"
begin

text \<open>
  Paths as the standard library compares them (\<open>std::path::Path::components\<close>, which \<open>camino\<close>
  wraps), \<open>src/src/haskell_source_file.rs\<close> and \<open>src/src/normal_path.rs\<close>.
\<close>

section \<open>Components\<close>

datatype component = RootDir | CurDir | ParentDir | Normal string

type_synonym path = "component list"

text \<open>\<open>Component\<close> derives its order from the order of its variants.\<close>

fun component_key :: "component \<Rightarrow> nat \<times> string" where
  "component_key RootDir = (0, [])"
| "component_key CurDir = (1, [])"
| "component_key ParentDir = (2, [])"
| "component_key (Normal s) = (3, s)"

lemma component_key_inject: "component_key a = component_key b \<longleftrightarrow> a = b"
  by (cases a; cases b) auto

instantiation component :: linorder
begin

definition less_eq_component :: "component \<Rightarrow> component \<Rightarrow> bool" where
  "less_eq_component a b \<longleftrightarrow> component_key a \<le> component_key b"

definition less_component :: "component \<Rightarrow> component \<Rightarrow> bool" where
  "less_component a b \<longleftrightarrow> component_key a < component_key b"

instance
  by standard
     (auto simp: less_eq_component_def less_component_def component_key_inject [symmetric])

end

definition is_absolute :: "path \<Rightarrow> bool" where
  "is_absolute p \<longleftrightarrow> (case p of RootDir # _ \<Rightarrow> True | _ \<Rightarrow> False)"

text \<open>\<open>Path::join\<close>: an absolute path replaces the base.\<close>

definition path_join :: "path \<Rightarrow> path \<Rightarrow> path" where
  "path_join base p = (if is_absolute p then p else base @ p)"

definition file_name :: "path \<Rightarrow> string option" where
  "file_name p = (case rev p of Normal n # _ \<Rightarrow> Some n | _ \<Rightarrow> None)"

definition parent :: "path \<Rightarrow> path option" where
  "parent p = (case rev p of [] \<Rightarrow> None | RootDir # _ \<Rightarrow> None | _ # rest \<Rightarrow> Some (rev rest))"

definition path_starts_with :: "path \<Rightarrow> path \<Rightarrow> bool" where
  "path_starts_with p base \<longleftrightarrow> prefix base p"

text \<open>
  The extension is what follows the last dot of the file name; a name whose only dot is its first
  character has none.
\<close>

definition name_extension :: "string \<Rightarrow> string option" where
  "name_extension n =
     (if CHR ''.'' \<notin> set n then None
      else let front = dropWhile (\<lambda>c. c \<noteq> CHR ''.'') (rev n) in
        if tl front = [] then None
        else Some (rev (takeWhile (\<lambda>c. c \<noteq> CHR ''.'') (rev n))))"

definition extension :: "path \<Rightarrow> string option" where
  "extension p = Option.bind (file_name p) name_extension"

lemma name_extension_Some:
  assumes "CHR ''.'' \<notin> set ext" and "stem \<noteq> []"
  shows "name_extension (stem @ CHR ''.'' # ext) = Some ext"
proof -
  have "dropWhile (\<lambda>c. c \<noteq> CHR ''.'') (rev ext @ CHR ''.'' # rev stem) = CHR ''.'' # rev stem"
    and "takeWhile (\<lambda>c. c \<noteq> CHR ''.'') (rev ext @ CHR ''.'' # rev stem) = rev ext"
    using assms(1) by (subst dropWhile_append2 takeWhile_append2; auto)+
  with assms(2) show ?thesis by (simp add: name_extension_def Let_def)
qed

section \<open>Haskell source files\<close>

definition HASKELL_SOURCE_EXTENSIONS :: "string list" where
  "HASKELL_SOURCE_EXTENSIONS =
     [''hs'', ''lhs'', ''hs-boot'', ''hsig'', ''hsc'', ''x'', ''y'', ''c2hs'', ''gc'']"

definition is_haskell_source_file :: "path \<Rightarrow> bool" where
  "is_haskell_source_file p \<longleftrightarrow>
     (case extension p of Some e \<Rightarrow> e \<in> set HASKELL_SOURCE_EXTENSIONS | None \<Rightarrow> False)
     \<and> (case file_name p of Some n \<Rightarrow> \<not> prefix ''.'' n | None \<Rightarrow> False)"

section \<open>Normalised paths\<close>

text \<open>
  \<open>path_absolutize\<close> and \<open>pathdiff\<close> are other crates: \<open>penv_absolutize\<close> makes a path absolute and
  dot-free from a base, \<open>penv_diff\<close> gives it relative to the base.
\<close>

record path_env =
  penv_absolutize :: "path \<Rightarrow> path \<Rightarrow> path res"
  penv_diff :: "path \<Rightarrow> path \<Rightarrow> path option"

record normal_path =
  np_normal :: path
  np_relative :: "path option"

definition normal_path_new :: "path_env \<Rightarrow> path \<Rightarrow> path \<Rightarrow> normal_path res" where
  "normal_path_new penv original base =
     res_bind (penv_absolutize penv original base) (\<lambda>n.
       Inr \<lparr>np_normal = n, np_relative = penv_diff penv n base\<rparr>)"

definition relocate :: "path_env \<Rightarrow> normal_path \<Rightarrow> path \<Rightarrow> normal_path res" where
  "relocate penv p new_base = normal_path_new penv (np_normal p) new_base"

definition absolute :: "normal_path \<Rightarrow> path" where
  "absolute p = np_normal p"

definition relative :: "normal_path \<Rightarrow> path" where
  "relative p = (case np_relative p of Some r \<Rightarrow> r | None \<Rightarrow> absolute p)"

text \<open>\<open>Hash\<close>, \<open>Eq\<close> and \<open>Ord\<close> look at the normalised path only.\<close>

definition normal_path_eq :: "normal_path \<Rightarrow> normal_path \<Rightarrow> bool" where
  "normal_path_eq a b \<longleftrightarrow> np_normal a = np_normal b"

definition normal_path_less :: "normal_path \<Rightarrow> normal_path \<Rightarrow> bool" where
  "normal_path_less a b \<longleftrightarrow> np_normal a < np_normal b"

lemma normal_path_new_absolute:
  "normal_path_new penv p base = Inr n \<Longrightarrow> penv_absolutize penv p base = Inr (absolute n)"
  by (auto simp: normal_path_new_def res_simps absolute_def)

text \<open>Relocating a path changes how it is shown, never which path it is, when absolutising is
  idempotent on absolute paths.\<close>

lemma relocate_same_path:
  assumes "penv_absolutize penv (np_normal p) base = Inr (np_normal p)"
    and "relocate penv p base = Inr q"
  shows "normal_path_eq p q"
  using assms by (auto simp: relocate_def normal_path_new_def res_simps normal_path_eq_def)

text \<open>The text of a path: components joined by slashes.\<close>

fun component_str :: "component \<Rightarrow> string" where
  "component_str RootDir = []"
| "component_str CurDir = ''.''"
| "component_str ParentDir = ''..''"
| "component_str (Normal s) = s"

fun path_str :: "path \<Rightarrow> string" where
  "path_str [] = []"
| "path_str [RootDir] = ''/''"
| "path_str [c] = component_str c"
| "path_str (c # d # cs) = component_str c @ ''/'' @ path_str (d # cs)"

end
