(* ===== verification/Events.thy ===== *)
theory Events
  imports Paths
begin

text \<open>
  \<open>src/src/event_filter.rs\<close> (file events and the state of a file) and
  \<open>src/src/watcher/content.rs\<close> (filtering notifications by content).
\<close>

section \<open>File events\<close>

datatype file_event = Modify path | Remove path

fun as_path :: "file_event \<Rightarrow> path" where
  "as_path (Modify p) = p"
| "as_path (Remove p) = p"

fun file_event_key :: "file_event \<Rightarrow> nat \<times> path" where
  "file_event_key (Modify p) = (0, p)"
| "file_event_key (Remove p) = (1, p)"

lemma file_event_key_inject: "file_event_key a = file_event_key b \<longleftrightarrow> a = b"
  by (cases a; cases b) auto

instantiation file_event :: linorder
begin

definition less_eq_file_event :: "file_event \<Rightarrow> file_event \<Rightarrow> bool" where
  "less_eq_file_event a b \<longleftrightarrow> file_event_key a \<le> file_event_key b"

definition less_file_event :: "file_event \<Rightarrow> file_event \<Rightarrow> bool" where
  "less_file_event a b \<longleftrightarrow> file_event_key a < file_event_key b"

instance
  by standard
     (auto simp: less_eq_file_event_def less_file_event_def file_event_key_inject [symmetric])

end

section \<open>The state of a file\<close>

datatype file_state_kind = Missing | File | Directory | Other

record file_state =
  fs_kind :: file_state_kind
  fs_content_hash :: "u64 option"

type_synonym source_snapshot = "(path, file_state) btmap"

text \<open>
  A path as the system returns it: the code converts it with \<open>Utf8PathBuf::try_from\<close>, which fails
  when the path is not UTF-8 (\<open>NotUtf8\<close>).
\<close>

datatype raw_path = Utf8Path path | NotUtf8

fun to_utf8_path :: "raw_path \<Rightarrow> path res" where
  "to_utf8_path (Utf8Path p) = Inr p"
| "to_utf8_path NotUtf8 = Inl (IoError ''path is not valid UTF-8'')"

text \<open>
  The file system the code asks: the metadata of a path (\<open>None\<close>: not found), opening and reading a
  file, and the entries of a directory (an error, or its path, whether it is a symbolic link and
  whether the path leads to a directory).
  \<open>fsenv_hash\<close> is \<open>DefaultHasher\<close> over the contents.
\<close>

datatype meta = MetaFile | MetaDir | MetaOther

datatype open_result = OpenNotFound | OpenError io_error | Opened "string res"

record dir_entry =
  de_path :: raw_path
  de_symlink :: bool
  de_is_dir :: bool

record fs_env =
  fsenv_metadata :: "path \<Rightarrow> meta option res"
  fsenv_open :: "path \<Rightarrow> open_result"
  fsenv_read_dir :: "path \<Rightarrow> dir_entry res list res"
  fsenv_hash :: "string \<Rightarrow> u64"

definition missing :: file_state where
  "missing = \<lparr>fs_kind = Missing, fs_content_hash = None\<rparr>"

definition capture :: "fs_env \<Rightarrow> path \<Rightarrow> file_state res" where
  "capture fs p =
     res_bind (fsenv_metadata fs p) (\<lambda>m.
     case m of
       None \<Rightarrow> Inr missing
     | Some MetaFile \<Rightarrow>
         (case fsenv_open fs p of
            OpenNotFound \<Rightarrow> Inr missing
          | OpenError e \<Rightarrow> Inl e
          | Opened r \<Rightarrow>
              res_bind r (\<lambda>bytes.
                Inr \<lparr>fs_kind = File, fs_content_hash = Some (fsenv_hash fs bytes)\<rparr>))
     | Some MetaDir \<Rightarrow> Inr \<lparr>fs_kind = Directory, fs_content_hash = None\<rparr>
     | Some MetaOther \<Rightarrow> Inr \<lparr>fs_kind = Other, fs_content_hash = None\<rparr>)"

definition file_states :: "fs_env \<Rightarrow> file_event list \<Rightarrow> source_snapshot res" where
  "file_states fs events =
     res_bind
       (res_map (\<lambda>e. res_bind (capture fs (as_path e)) (\<lambda>s. Inr (as_path e, s))) events)
       (\<lambda>kvs. Inr (bm_extend [] kvs))"

text \<open>Only a regular file carries a hash.\<close>

lemma capture_hash_iff_file:
  "capture fs p = Inr s \<Longrightarrow> (fs_content_hash s \<noteq> None) = (fs_kind s = File)"
  by (cases "fsenv_metadata fs p")
     (auto simp: capture_def res_simps missing_def
       split: option.split_asm meta.split_asm open_result.split_asm)

section \<open>Events from notifications\<close>

text \<open>A notification of the \<open>notify\<close> crate: its kind and its paths.\<close>

datatype event_kind = KindAny | KindAccess | KindCreate | KindModify | KindRemove | KindOther

text \<open>The paths of the mutating notifications, in the order they are inserted.\<close>

fun mutation_paths :: "(event_kind \<times> raw_path list) list \<Rightarrow> path list res" where
  "mutation_paths [] = Inr []"
| "mutation_paths ((k, ps) # events) =
     (if k = KindAccess then mutation_paths events
      else res_bind (res_map to_utf8_path ps) (\<lambda>qs.
           res_bind (mutation_paths events) (\<lambda>rest. Inr (qs @ rest))))"

definition file_events_from_action ::
  "(path \<Rightarrow> bool) \<Rightarrow> (event_kind \<times> raw_path list) list \<Rightarrow> file_event list res" where
  "file_events_from_action path_exists events =
     res_bind (mutation_paths events) (\<lambda>ps.
       Inr (bs_collect
         (map (\<lambda>p. if path_exists p then Modify p else Remove p) (bs_collect ps))))"

lemma file_events_one_per_path:
  assumes "file_events_from_action ex events = Inr fes" and "e \<in> set fes" and "e' \<in> set fes"
    and "as_path e = as_path e'"
  shows "e = e'"
  using assms by (auto simp: file_events_from_action_def res_simps split: if_splits)

section \<open>Content filtering\<close>

text \<open>
  \<open>scan\<close> descends directories but not through directory symlinks. The fuel bounds the depth.
\<close>

fun scan :: "nat \<Rightarrow> fs_env \<Rightarrow> path \<Rightarrow> source_snapshot \<Rightarrow> source_snapshot res option"
and scan_entries ::
  "nat \<Rightarrow> fs_env \<Rightarrow> dir_entry res list \<Rightarrow> source_snapshot \<Rightarrow> source_snapshot res option" where
  "scan 0 fs p files = None"
| "scan (Suc fuel) fs p files =
     ores_bind (Some (fsenv_metadata fs p)) (\<lambda>m.
     case m of
       None \<Rightarrow> Some (Inr files)
     | Some MetaDir \<Rightarrow>
         ores_bind (Some (fsenv_read_dir fs p)) (\<lambda>entries. scan_entries fuel fs entries files)
     | Some MetaFile \<Rightarrow>
         ores_bind (Some (capture fs p)) (\<lambda>s. Some (Inr (bm_insert p s files)))
     | Some MetaOther \<Rightarrow> Some (Inr files))"
| "scan_entries fuel fs [] files = Some (Inr files)"
| "scan_entries fuel fs (entry # entries) files =
     ores_bind (Some entry) (\<lambda>e.
       if de_symlink e \<and> de_is_dir e then scan_entries fuel fs entries files
       else
         ores_bind (Some (to_utf8_path (de_path e))) (\<lambda>p.
         ores_bind (scan fuel fs p files) (\<lambda>files'. scan_entries fuel fs entries files')))"

text \<open>\<open>content_new\<close> is the baseline before launch, over all watch roots.\<close>

fun content_new :: "nat \<Rightarrow> fs_env \<Rightarrow> path list \<Rightarrow> source_snapshot \<Rightarrow> source_snapshot res option" where
  "content_new fuel fs [] files = Some (Inr files)"
| "content_new fuel fs (root # roots) files =
     ores_bind (scan fuel fs root files) (\<lambda>files'. content_new fuel fs roots files')"

text \<open>
  One event of \<open>observe\<close>, given the fresh snapshot \<open>current\<close> of what is under its path: the loop
  over the previous paths under it, then the loop over what is new.
\<close>

fun observe_previous ::
  "path list \<Rightarrow> source_snapshot \<Rightarrow> source_snapshot \<Rightarrow> file_event list
   \<Rightarrow> source_snapshot \<times> source_snapshot \<times> file_event list" where
  "observe_previous [] files current changed = (files, current, changed)"
| "observe_previous (f # fs) files current changed =
     (let previous = map_of files f; files1 = bm_remove f files in
      case map_of current f of
        Some st \<Rightarrow>
          observe_previous fs (bm_insert f st files1) (bm_remove f current)
            (if Some st \<noteq> previous then bs_insert (Modify f) changed else changed)
      | None \<Rightarrow> observe_previous fs files1 current (bs_insert (Remove f) changed))"

fun observe_new ::
  "source_snapshot \<Rightarrow> source_snapshot \<Rightarrow> file_event list \<Rightarrow> source_snapshot \<times> file_event list" where
  "observe_new [] files changed = (files, changed)"
| "observe_new ((f, st) # current) files changed =
     observe_new current (bm_insert f st files) (bs_insert (Modify f) changed)"

definition observe_event ::
  "path \<Rightarrow> source_snapshot \<Rightarrow> source_snapshot \<Rightarrow> file_event list \<Rightarrow> source_snapshot \<times> file_event list" where
  "observe_event p current files changed =
     (let previous_paths = filter (\<lambda>f. path_starts_with f p) (map fst files);
          (files1, current1, changed1) = observe_previous previous_paths files current changed in
      observe_new current1 files1 changed1)"

fun observe_loop ::
  "nat \<Rightarrow> fs_env \<Rightarrow> file_event list \<Rightarrow> source_snapshot \<Rightarrow> file_event list
   \<Rightarrow> (source_snapshot \<times> file_event list) res option" where
  "observe_loop fuel fs [] files changed = Some (Inr (files, changed))"
| "observe_loop fuel fs (e # events) files changed =
     ores_bind (scan fuel fs (as_path e) []) (\<lambda>current.
       let (files', changed') = observe_event (as_path e) current files changed in
       observe_loop fuel fs events files' changed')"

definition observe ::
  "nat \<Rightarrow> fs_env \<Rightarrow> source_snapshot \<Rightarrow> file_event list
   \<Rightarrow> (source_snapshot \<times> file_event list) res option" where
  "observe fuel fs files events = observe_loop fuel fs events files []"

end
