(* ===== verification/EventsProps.thy ===== *)
theory EventsProps
  imports Events
begin

text \<open>
  What the content filter promises: a scan captures exactly the regular files below its root, and
  an observation reports exactly the files whose contents differ from the last observation.
\<close>

section \<open>What a scan reaches\<close>

text \<open>
  \<open>reaches fs p f\<close>: the regular file \<open>f\<close> lies below \<open>p\<close>, not counting what is only behind a
  symbolic link to a directory.
\<close>

definition descends :: "fs_env \<Rightarrow> path \<Rightarrow> path \<Rightarrow> bool" where
  "descends fs p q \<longleftrightarrow>
     fsenv_metadata fs p = Inr (Some MetaDir) \<and>
     (\<exists>entries e. fsenv_read_dir fs p = Inr entries \<and> Inr e \<in> set entries \<and>
        \<not> (de_symlink e \<and> de_is_dir e) \<and> de_path e = Utf8Path q)"

inductive reaches :: "fs_env \<Rightarrow> path \<Rightarrow> path \<Rightarrow> bool" for fs where
  reach_file: "fsenv_metadata fs p = Inr (Some MetaFile) \<Longrightarrow> reaches fs p p"
| reach_dir: "descends fs p q \<Longrightarrow> reaches fs q f \<Longrightarrow> reaches fs p f"

inductive_simps reaches_unfold: "reaches fs p f"

lemma reaches_file [simp]:
  "fsenv_metadata fs p = Inr (Some MetaFile) \<Longrightarrow> reaches fs p f = (f = p)"
  by (subst reaches_unfold) (auto simp: descends_def)

lemma reaches_nothing:
  "fsenv_metadata fs p = Inr None \<or> fsenv_metadata fs p = Inr (Some MetaOther) \<Longrightarrow> \<not> reaches fs p f"
  by (subst reaches_unfold) (auto simp: descends_def)

lemma reaches_dir:
  "fsenv_metadata fs p = Inr (Some MetaDir) \<Longrightarrow>
   reaches fs p f = (\<exists>q. descends fs p q \<and> reaches fs q f)"
  by (subst reaches_unfold) auto

definition entries_reach :: "fs_env \<Rightarrow> dir_entry res list \<Rightarrow> path \<Rightarrow> bool" where
  "entries_reach fs entries f \<longleftrightarrow>
     (\<exists>e q. Inr e \<in> set entries \<and> \<not> (de_symlink e \<and> de_is_dir e) \<and> de_path e = Utf8Path q \<and> reaches fs q f)"

lemma entries_reach_Nil [simp]: "\<not> entries_reach fs [] f"
  by (simp add: entries_reach_def)

lemma entries_reach_Cons:
  "entries_reach fs (Inr e # entries) f \<longleftrightarrow>
     (\<not> (de_symlink e \<and> de_is_dir e) \<and> (\<exists>q. de_path e = Utf8Path q \<and> reaches fs q f))
     \<or> entries_reach fs entries f"
  by (auto simp: entries_reach_def)

lemma reaches_entries:
  "fsenv_metadata fs p = Inr (Some MetaDir) \<Longrightarrow> fsenv_read_dir fs p = Inr entries \<Longrightarrow>
   reaches fs p f = entries_reach fs entries f"
  by (auto simp: reaches_dir descends_def entries_reach_def)

text \<open>The state a snapshot holds for a path: the fresh one where the file is reached.\<close>

definition overlay ::
  "fs_env \<Rightarrow> (path \<Rightarrow> bool) \<Rightarrow> source_snapshot \<Rightarrow> source_snapshot \<Rightarrow> bool" where
  "overlay fs reached files files' \<longleftrightarrow>
     bm_inv files' \<and>
     (\<forall>f. if reached f then \<exists>s. capture fs f = Inr s \<and> map_of files' f = Some s
          else map_of files' f = map_of files f)"

lemma overlay_trans:
  assumes "overlay fs r1 a b" and "overlay fs r2 b c" and "\<And>f. r f = (r1 f \<or> r2 f)"
  shows "overlay fs r a c"
  using assms unfolding overlay_def by (metis (full_types))

lemma overlay_refl: "bm_inv a \<Longrightarrow> (\<And>f. \<not> r f) \<Longrightarrow> overlay fs r a a"
  by (simp add: overlay_def)

lemma scan_overlay:
  "scan fuel fs p files = Some (Inr files') \<Longrightarrow> bm_inv files \<Longrightarrow>
     overlay fs (reaches fs p) files files'"
  "scan_entries fuel fs entries files = Some (Inr files') \<Longrightarrow> bm_inv files \<Longrightarrow>
     overlay fs (entries_reach fs entries) files files'"
proof (induction fuel fs p files and fuel fs entries files
       arbitrary: files' and files' rule: scan_scan_entries.induct)
  case (2 fuel fs p files)
  obtain m where m: "fsenv_metadata fs p = Inr m" using "2.prems"(1) by (auto simp: res_simps)
  consider "m = None" | "m = Some MetaDir" | "m = Some MetaFile" | "m = Some MetaOther"
    by (cases m; cases "the m") auto
  then show ?case
  proof cases
    case 2
    then obtain entries where "fsenv_read_dir fs p = Inr entries"
      and "scan_entries fuel fs entries files = Some (Inr files')"
      using "2.prems"(1) m by (auto simp: res_simps)
    moreover have "reaches fs p = entries_reach fs entries"
      using 2 m by (intro ext reaches_entries) (simp_all add: calculation)
    ultimately show ?thesis using "2.IH" [of m _ entries files'] 2 m "2.prems"(2) by simp
  next
    case 3
    then show ?thesis using "2.prems" m
      by (auto simp: res_simps overlay_def bm_inv_insert map_of_bm_insert)
  qed (use "2.prems" m in \<open>auto simp: reaches_nothing intro!: overlay_refl\<close>)
next
  case (4 fuel fs entry entries files)
  obtain e where e: "entry = Inr e" using "4.prems"(1) by (cases entry) auto
  show ?case
  proof (cases "de_symlink e \<and> de_is_dir e")
    case True
    then have "overlay fs (entries_reach fs entries) files files'"
      using "4.prems" "4.IH"(1) [of e files'] e by simp
    then show ?thesis using True e by (simp add: overlay_def entries_reach_Cons)
  next
    case False
    then obtain q files1 where q: "de_path e = Utf8Path q" and
      s: "scan fuel fs q files = Some (Inr files1)" "scan_entries fuel fs entries files1 = Some (Inr files')"
      using "4.prems"(1) e by (cases "de_path e") (auto simp: res_simps)
    have o1: "overlay fs (reaches fs q) files files1"
      using "4.IH"(2) [of e q files1] False e q s(1) "4.prems"(2) by simp
    have "overlay fs (entries_reach fs entries) files1 files'"
      using "4.IH"(3) [of e q files1 files'] False e q s o1 by (simp add: overlay_def)
    from overlay_trans [OF o1 this] show ?thesis using e q False by (auto simp: entries_reach_Cons)
  qed
qed (auto intro: overlay_refl)

section \<open>Scans return\<close>

text \<open>
  A finite tree has a height: every entry a scan descends into is lower than its directory.
\<close>

definition height :: "fs_env \<Rightarrow> (path \<Rightarrow> nat) \<Rightarrow> bool" where
  "height fs h \<longleftrightarrow> (\<forall>p q. descends fs p q \<longrightarrow> h q < h p)"

lemma scan_height:
  "height fs h \<Longrightarrow> h p < fuel \<Longrightarrow> scan fuel fs p files \<noteq> None"
  "height fs h \<Longrightarrow>
     (\<forall>e q. Inr e \<in> set entries \<and> \<not> (de_symlink e \<and> de_is_dir e) \<and> de_path e = Utf8Path q
        \<longrightarrow> h q < fuel) \<Longrightarrow>
     scan_entries fuel fs entries files \<noteq> None"
proof (induction fuel fs p files and fuel fs entries files rule: scan_scan_entries.induct)
  case (2 fuel fs p files)
  have dir: "scan_entries fuel fs entries files \<noteq> None"
    if a: "fsenv_metadata fs p = Inr (Some MetaDir)" "fsenv_read_dir fs p = Inr entries" for entries
  proof -
    have "h q < fuel" if "Inr e \<in> set entries" "\<not> (de_symlink e \<and> de_is_dir e)" "de_path e = Utf8Path q"
      for e q
    proof -
      have "descends fs p q" using a that unfolding descends_def by blast
      then show ?thesis using "2.prems" by (force simp: height_def)
    qed
    then have "\<forall>e q. Inr e \<in> set entries \<and> \<not> (de_symlink e \<and> de_is_dir e) \<and> de_path e = Utf8Path q
        \<longrightarrow> h q < fuel"
      by blast
    with "2.IH" [of "Some MetaDir" MetaDir entries] a "2.prems"(1) show ?thesis by blast
  qed
  show ?case
  proof (cases "fsenv_metadata fs p")
    case (Inr m)
    consider "m = None" | "m = Some MetaDir" | "m = Some MetaFile" | "m = Some MetaOther"
      by (cases m; cases "the m") auto
    then show ?thesis
    proof cases
      case 2
      then show ?thesis using dir Inr by (simp add: ores_bind_None_iff)
    qed (use Inr in \<open>simp_all add: ores_bind_None_iff\<close>)
  qed simp
next
  case (4 fuel fs entry entries files)
  have rest: "\<forall>e q. Inr e \<in> set entries \<and> \<not> (de_symlink e \<and> de_is_dir e) \<and> de_path e = Utf8Path q
      \<longrightarrow> h q < fuel"
    using "4.prems"(2) by (meson list.set_intros(2))
  show ?case
  proof (cases entry)
    case (Inr e)
    show ?thesis
    proof (cases "de_symlink e \<and> de_is_dir e")
      case True
      then show ?thesis using "4.IH"(1) [of e] Inr "4.prems"(1) rest by simp
    next
      case False
      show ?thesis
      proof (cases "de_path e")
        case (Utf8Path q)
        have "h q < fuel" using "4.prems"(2) Inr False Utf8Path by auto
        then have "scan fuel fs q files \<noteq> None"
          using "4.IH"(2) [of e q] Inr False Utf8Path "4.prems"(1) by simp
        moreover have "scan_entries fuel fs entries files' \<noteq> None"
          if "scan fuel fs q files = Some (Inr files')" for files'
          using "4.IH"(3) [of e q files'] Inr False Utf8Path "4.prems"(1) rest that by simp
        ultimately show ?thesis using Inr False Utf8Path
          by (auto simp: ores_bind_None_iff simp del: not_None_eq)
      qed (use Inr False in auto)
    qed
  qed simp
qed auto

section \<open>Observations\<close>

lemma observe_previous_spec:
  assumes "observe_previous ps files current changed = (files1, current1, changed1)"
    and "distinct ps" and "bm_inv files" and "bm_inv current"
  shows "bm_inv files1 \<and> bm_inv current1 \<and>
    (\<forall>f. map_of files1 f = (if f \<in> set ps then map_of current f else map_of files f)) \<and>
    (\<forall>f. map_of current1 f = (if f \<in> set ps then None else map_of current f)) \<and>
    set changed1 = set changed
      \<union> {Modify f | f. f \<in> set ps \<and> map_of current f \<noteq> None \<and> map_of current f \<noteq> map_of files f}
      \<union> {Remove f | f. f \<in> set ps \<and> map_of current f = None}"
  using assms
proof (induction ps files current changed rule: observe_previous.induct)
  case (2 f fs files current changed)
  show ?case
  proof (cases "map_of current f")
    case None
    then have "observe_previous fs (bm_remove f files) current (bs_insert (Remove f) changed)
        = (files1, current1, changed1)"
      using "2.prems"(1) by simp
    from "2.IH"(1) [OF refl refl None this] "2.prems" None show ?thesis
      by (auto simp: bm_inv_remove map_of_bm_remove)
  next
    case (Some st)
    then have "observe_previous fs (bm_insert f st (bm_remove f files)) (bm_remove f current)
        (if Some st \<noteq> map_of files f then bs_insert (Modify f) changed else changed)
        = (files1, current1, changed1)"
      using "2.prems"(1) by simp
    from "2.IH"(2) [OF refl refl Some this] "2.prems" Some show ?thesis
      by (auto simp: bm_inv_remove map_of_bm_remove bm_inv_insert map_of_bm_insert split: if_splits)
  qed
qed simp

lemma observe_new_spec:
  assumes "observe_new current files changed = (files', changed')" and "bm_inv files"
    and "distinct (map fst current)"
  shows "bm_inv files' \<and>
    (\<forall>f. map_of files' f = (case map_of current f of Some s \<Rightarrow> Some s | None \<Rightarrow> map_of files f)) \<and>
    set changed' = set changed \<union> {Modify f | f. map_of current f \<noteq> None}"
  using assms
proof (induction current files changed rule: observe_new.induct)
  case (2 f st current files changed)
  then have none: "map_of current f = None" by (simp add: map_of_eq_None_iff)
  from 2 have "bm_inv files' \<and>
    (\<forall>g. map_of files' g = (case map_of current g of Some s \<Rightarrow> Some s | None \<Rightarrow> map_of (bm_insert f st files) g)) \<and>
    set changed' = set (bs_insert (Modify f) changed) \<union> {Modify g | g. map_of current g \<noteq> None}"
    by (simp add: bm_inv_insert)
  then show ?case using none "2.prems"(2) by (auto simp: map_of_bm_insert split: option.splits)
qed simp

lemma bm_inv_distinct: "bm_inv m \<Longrightarrow> distinct (map fst m)"
  by (simp add: bm_inv_def strict_sorted_iff)

lemma observe_event_spec:
  assumes "observe_event p current files changed = (files', changed')"
    and "bm_inv files" and "bm_inv current"
    and "\<And>f. map_of current f \<noteq> None \<Longrightarrow> path_starts_with f p"
  shows "bm_inv files' \<and>
    (\<forall>f. map_of files' f = (if path_starts_with f p then map_of current f else map_of files f)) \<and>
    set changed' = set changed
      \<union> {Modify f | f. path_starts_with f p \<and> map_of current f \<noteq> None \<and> map_of current f \<noteq> map_of files f}
      \<union> {Remove f | f. path_starts_with f p \<and> map_of current f = None \<and> map_of files f \<noteq> None}"
proof -
  define ps where "ps = filter (\<lambda>f. path_starts_with f p) (map fst files)"
  obtain files1 current1 changed1 where o:
    "observe_previous ps files current changed = (files1, current1, changed1)"
    "observe_new current1 files1 changed1 = (files', changed')"
    using assms(1) by (auto simp: observe_event_def ps_def Let_def split: prod.splits)
  have mem: "f \<in> set ps \<longleftrightarrow> path_starts_with f p \<and> map_of files f \<noteq> None" for f
    by (auto simp: ps_def map_of_eq_None_iff)
  have "distinct ps" using bm_inv_distinct [OF assms(2)] by (simp add: ps_def)
  note prev = observe_previous_spec [OF o(1) this assms(2,3)]
  then have "distinct (map fst current1)" by (simp add: bm_inv_distinct)
  with prev have new: "bm_inv files' \<and>
    (\<forall>f. map_of files' f = (case map_of current1 f of Some s \<Rightarrow> Some s | None \<Rightarrow> map_of files1 f)) \<and>
    set changed' = set changed1 \<union> {Modify f | f. map_of current1 f \<noteq> None}"
    by (intro observe_new_spec [OF o(2)]) simp_all
  show ?thesis
  proof (intro conjI allI)
    show "map_of files' f = (if path_starts_with f p then map_of current f else map_of files f)" for f
      using new prev assms(4) [of f] by (auto simp: mem split: option.splits if_splits)
    show "set changed' = set changed
      \<union> {Modify f | f. path_starts_with f p \<and> map_of current f \<noteq> None \<and> map_of current f \<noteq> map_of files f}
      \<union> {Remove f | f. path_starts_with f p \<and> map_of current f = None \<and> map_of files f \<noteq> None}"
      (is "_ = ?rhs")
    proof (rule set_eqI)
      fix e
      have in_c: "e \<in> set changed' \<longleftrightarrow> e \<in> set changed1 \<or> (\<exists>f. e = Modify f \<and> map_of current1 f \<noteq> None)"
        using new by auto
      have in_1: "e \<in> set changed1 \<longleftrightarrow> e \<in> set changed
          \<or> (\<exists>f. e = Modify f \<and> f \<in> set ps \<and> map_of current f \<noteq> None \<and> map_of current f \<noteq> map_of files f)
          \<or> (\<exists>f. e = Remove f \<and> f \<in> set ps \<and> map_of current f = None)"
        using prev by auto
      have cur1: "map_of current1 f = (if f \<in> set ps then None else map_of current f)" for f
        using prev by blast
      show "e \<in> set changed' \<longleftrightarrow> e \<in> ?rhs"
      proof (cases e)
        case (Modify f)
        with in_c in_1 assms(4) [of f] show ?thesis by (auto simp: cur1 mem)
      next
        case (Remove f)
        with in_c in_1 show ?thesis by (auto simp: mem)
      qed
    qed
  qed (use new in blast)
qed

section \<open>Properties\<close>

text \<open>A small tree for the witnesses: \<open>/w\<close> holds \<open>a.hs\<close> and a directory symlink to itself.\<close>

definition demo_root :: path where
  "demo_root = [RootDir, Normal ''w'']"

definition demo_file :: path where
  "demo_file = [RootDir, Normal ''w'', Normal ''a.hs'']"

definition demo_link :: path where
  "demo_link = [RootDir, Normal ''w'', Normal ''loop'']"

definition demo_fs :: "string \<Rightarrow> fs_env" where
  "demo_fs contents =
     \<lparr>fsenv_metadata = (\<lambda>p. Inr (if p = demo_file then Some MetaFile
                                else if prefix demo_root p then Some MetaDir else None)),
      fsenv_open = (\<lambda>p. if p = demo_file then Opened (Inr contents) else OpenNotFound),
      fsenv_read_dir = (\<lambda>p. Inr (if p = demo_root
         then [Inr \<lparr>de_path = Utf8Path demo_file, de_symlink = False, de_is_dir = False\<rparr>,
               Inr \<lparr>de_path = Utf8Path demo_link, de_symlink = True, de_is_dir = True\<rparr>]
         else [])),
      fsenv_hash = (\<lambda>s. of_nat (length s))\<rparr>"

lemmas demo_defs = demo_fs_def demo_root_def demo_file_def demo_link_def

text \<open>
  A scan that succeeds adds to the snapshot exactly the regular files below its root that are
  not behind a directory symlink, each with its freshly captured state, and leaves every other
  entry as it was.
\<close>

theorem scan_exact:
  assumes "scan fuel fs p files = Some (Inr files')" and "bm_inv files"
  shows "bm_inv files' \<and>
    (\<forall>f. if reaches fs p f then \<exists>s. capture fs f = Inr s \<and> map_of files' f = Some s
         else map_of files' f = map_of files f)"
  using scan_overlay(1) [OF assms] by (simp add: overlay_def)

theorem scan_exact_witness:
  "\<exists>files'. scan 3 (demo_fs ''x'') demo_root [] = Some (Inr files') \<and> bm_inv files'
     \<and> (\<forall>f. if reaches (demo_fs ''x'') demo_root f
            then \<exists>s. capture (demo_fs ''x'') f = Inr s \<and> map_of files' f = Some s
            else map_of files' f = map_of [] f)"
proof -
  obtain files' where s: "scan 3 (demo_fs ''x'') demo_root [] = Some (Inr files')"
    by (simp add: demo_defs eval_nat_numeral capture_def)
  from scan_exact [OF s] s show ?thesis by auto
qed

text \<open>
  A scan of a tree of finite height returns: fuel above the height of its root is enough,
  whatever the directory symlinks in it point to.
\<close>

theorem scan_returns:
  assumes "height fs h" and "h p < fuel"
  shows "\<exists>r. scan fuel fs p files = Some r"
  using scan_height(1) [OF assms] by auto

theorem scan_returns_witness:
  "\<exists>r. scan 2 (demo_fs ''x'') demo_root [] = Some r"
proof (rule scan_returns)
  show "height (demo_fs ''x'') (\<lambda>p. if p = demo_root then 1 else 0)"
    by (auto simp: height_def descends_def demo_defs split: if_splits)
qed simp

text \<open>
  C27: handling one notification brings the baseline up to date below its path and nowhere else,
  and adds exactly the differences to the batch: a \<open>Modify\<close> for each file that is new or whose
  state differs, a \<open>Remove\<close> for each file that is gone, nothing for an identical rewrite.
\<close>

theorem observe_event_exact:
  assumes "observe_event p current files changed = (files', changed')"
    and "bm_inv files" and "bm_inv current"
    and "\<And>f. map_of current f \<noteq> None \<Longrightarrow> path_starts_with f p"
  shows "(\<forall>f. map_of files' f = (if path_starts_with f p then map_of current f else map_of files f)) \<and>
    set changed' = set changed
      \<union> {Modify f | f. path_starts_with f p \<and> map_of current f \<noteq> None \<and> map_of current f \<noteq> map_of files f}
      \<union> {Remove f | f. path_starts_with f p \<and> map_of current f = None \<and> map_of files f \<noteq> None}"
  using observe_event_spec [OF assms] by blast

definition demo_state :: "u64 \<Rightarrow> file_state" where
  "demo_state h = \<lparr>fs_kind = File, fs_content_hash = Some h\<rparr>"

theorem observe_event_exact_witness:
  "observe_event demo_root [(demo_file, demo_state 1)] [(demo_link, demo_state 0)] []
     = ([(demo_file, demo_state 1)], [Modify demo_file, Remove demo_link])
   \<and> set [Modify demo_file, Remove demo_link] = set [] \<union> {Modify f | f. path_starts_with f demo_root
        \<and> map_of [(demo_file, demo_state 1)] f \<noteq> None
        \<and> map_of [(demo_file, demo_state 1)] f \<noteq> map_of [(demo_link, demo_state 0)] f}
      \<union> {Remove f | f. path_starts_with f demo_root \<and> map_of [(demo_file, demo_state 1)] f = None
        \<and> map_of [(demo_link, demo_state 0)] f \<noteq> None}"
proof -
  have o: "observe_event demo_root [(demo_file, demo_state 1)] [(demo_link, demo_state 0)] []
     = ([(demo_file, demo_state 1)], [Modify demo_file, Remove demo_link])"
    by (simp add: observe_event_def demo_defs bm_remove_def path_starts_with_def
        less_file_event_def)
  have "map_of [(demo_file, demo_state 1)] f \<noteq> None \<Longrightarrow> path_starts_with f demo_root" for f
    by (auto simp: demo_defs path_starts_with_def split: if_splits)
  from observe_event_exact [OF o _ _ this] o show ?thesis by (simp add: bm_inv_def)
qed

text \<open>
  Once a notification has been handled, the same notification over unchanged files reports
  nothing and leaves the baseline alone.
\<close>

theorem observe_event_settles:
  assumes "observe_event p current files changed = (files', changed')"
    and "bm_inv files" and "bm_inv current"
    and "\<And>f. map_of current f \<noteq> None \<Longrightarrow> path_starts_with f p"
  shows "observe_event p current files' [] = (files', [])"
proof -
  from observe_event_spec [OF assms] have inv: "bm_inv files'" and
    files': "\<And>f. path_starts_with f p \<Longrightarrow> map_of files' f = map_of current f"
    by simp_all
  obtain files2 changed2 where o: "observe_event p current files' [] = (files2, changed2)"
    by (cases "observe_event p current files' []")
  note spec = observe_event_spec [OF o inv assms(3,4)]
  then have "map_of files2 = map_of files'" by (auto simp: fun_eq_iff files')
  then have "files2 = files'" using spec inv by (simp add: bm_inv_inject)
  moreover have "set changed2 = {}" using spec by (auto simp: files')
  ultimately show ?thesis using o by simp
qed

theorem observe_event_settles_witness:
  "observe_event demo_root [(demo_file, demo_state 1)] [(demo_file, demo_state 1)] []
     = ([(demo_file, demo_state 1)], [])"
proof -
  have o: "observe_event demo_root [(demo_file, demo_state 1)] [(demo_link, demo_state 0)] []
     = ([(demo_file, demo_state 1)], [Modify demo_file, Remove demo_link])"
    by (simp add: observe_event_def demo_defs bm_remove_def path_starts_with_def
        less_file_event_def)
  have "map_of [(demo_file, demo_state 1)] f \<noteq> None \<Longrightarrow> path_starts_with f demo_root" for f
    by (auto simp: demo_defs path_starts_with_def split: if_splits)
  from observe_event_settles [OF o _ _ this] show ?thesis by (simp add: bm_inv_def)
qed

end
