(* ===== verification/Modules.thy ===== *)
theory Modules
  imports Paths
begin

text \<open>
  \<open>src/src/ghci/loaded_module.rs\<close> and \<open>src/src/ghci/module_set.rs\<close>: the targets of a \<open>ghci\<close>
  session, a set keyed by source path. The \<open>HashSet\<close> is a list without repeated paths; nothing
  is stated that depends on its order.
\<close>

section \<open>Loaded modules\<close>

record loaded_module =
  lm_path :: normal_path
  lm_name :: "string option"

definition loaded_module_new :: "normal_path \<Rightarrow> loaded_module" where
  "loaded_module_new p = \<lparr>lm_path = p, lm_name = None\<rparr>"

definition with_name :: "normal_path \<Rightarrow> string \<Rightarrow> loaded_module" where
  "with_name p n = \<lparr>lm_path = p, lm_name = Some n\<rparr>"

text \<open>\<open>Display\<close>: the name a module was loaded by, else its relative path.\<close>

definition loaded_module_str :: "loaded_module \<Rightarrow> string" where
  "loaded_module_str m =
     (case lm_name m of Some n \<Rightarrow> n | None \<Rightarrow> path_str (relative (lm_path m)))"

text \<open>\<open>Hash\<close>, \<open>Eq\<close> and \<open>Borrow\<close> all go by the normalised path.\<close>

definition module_key :: "loaded_module \<Rightarrow> path" where
  "module_key m = np_normal (lm_path m)"

definition loaded_module_eq :: "loaded_module \<Rightarrow> loaded_module \<Rightarrow> bool" where
  "loaded_module_eq a b \<longleftrightarrow> normal_path_eq (lm_path a) (lm_path b)"

section \<open>Sets of modules\<close>

type_synonym module_set = "loaded_module list"

definition get_module :: "path \<Rightarrow> module_set \<Rightarrow> loaded_module option" where
  "get_module p ms = find (\<lambda>m. module_key m = p) ms"

definition contains_source_path :: "path \<Rightarrow> module_set \<Rightarrow> bool" where
  "contains_source_path p ms \<longleftrightarrow> get_module p ms \<noteq> None"

text \<open>\<open>HashSet::insert\<close> keeps an entry that is already there.\<close>

definition insert_module :: "loaded_module \<Rightarrow> module_set \<Rightarrow> bool \<times> module_set" where
  "insert_module m ms =
     (if contains_source_path (module_key m) ms then (False, ms) else (True, ms @ [m]))"

definition remove_source_path :: "path \<Rightarrow> module_set \<Rightarrow> bool \<times> module_set" where
  "remove_source_path p ms =
     (contains_source_path p ms, filter (\<lambda>m. module_key m \<noteq> p) ms)"

definition get_import_name :: "normal_path \<Rightarrow> module_set \<Rightarrow> loaded_module" where
  "get_import_name p ms =
     (case get_module (np_normal p) ms of Some m \<Rightarrow> m | None \<Rightarrow> loaded_module_new p)"

definition module_set_extend :: "module_set \<Rightarrow> loaded_module list \<Rightarrow> module_set" where
  "module_set_extend ms xs = fold (\<lambda>m ms. snd (insert_module m ms)) xs ms"

definition module_set_from_iter :: "loaded_module list \<Rightarrow> module_set" where
  "module_set_from_iter xs = module_set_extend [] xs"

definition module_set_len :: "module_set \<Rightarrow> nat" where
  "module_set_len ms = length ms"

definition module_set_inv :: "module_set \<Rightarrow> bool" where
  "module_set_inv ms \<longleftrightarrow> distinct (map module_key ms)"

section \<open>The interface of a keyed set\<close>

locale keyed_set =
  fixes key :: "'a \<Rightarrow> 'k"
    and get :: "'k \<Rightarrow> 's \<Rightarrow> 'a option"
    and ins :: "'a \<Rightarrow> 's \<Rightarrow> bool \<times> 's"
    and rem :: "'k \<Rightarrow> 's \<Rightarrow> bool \<times> 's"
    and inv :: "'s \<Rightarrow> bool"
  assumes ins_inv: "inv s \<Longrightarrow> inv (snd (ins x s))"
    and rem_inv: "inv s \<Longrightarrow> inv (snd (rem k s))"
    and ins_new: "fst (ins x s) = (get (key x) s = None)"
    and rem_old: "fst (rem k s) = (get k s \<noteq> None)"
    and get_ins: "get k (snd (ins x s)) = (if k = key x \<and> get k s = None then Some x else get k s)"
    and get_rem: "get k (snd (rem j s)) = (if k = j then None else get k s)"
begin

definition extend :: "'s \<Rightarrow> 'a list \<Rightarrow> 's" where
  "extend s xs = fold (\<lambda>x s. snd (ins x s)) xs s"

lemma extend_inv: "inv s \<Longrightarrow> inv (extend s xs)"
  unfolding extend_def by (induction xs arbitrary: s) (auto simp: ins_inv)

lemma get_extend:
  "get k (extend s xs) = (case get k s of Some x \<Rightarrow> Some x | None \<Rightarrow> find (\<lambda>x. key x = k) xs)"
  unfolding extend_def by (induction xs arbitrary: s) (auto simp: get_ins split: option.splits)

lemma get_extend_iff:
  "get k (extend s xs) = None \<longleftrightarrow> get k s = None \<and> k \<notin> key ` set xs"
  by (auto simp: get_extend find_None_iff split: option.splits)

lemma rem_ins_absent:
  "get (key x) s = None \<Longrightarrow> get k (snd (rem (key x) (snd (ins x s)))) = get k s"
  by (auto simp: get_ins get_rem)

end

lemma get_module_Some: "get_module p ms = Some m \<Longrightarrow> m \<in> set ms \<and> module_key m = p"
  by (auto simp: get_module_def find_Some_iff)

lemma contains_source_path_iff: "contains_source_path p ms \<longleftrightarrow> p \<in> module_key ` set ms"
  by (auto simp: contains_source_path_def get_module_def find_None_iff)

lemma get_module_append:
  "get_module p (ms @ ns) = (case get_module p ms of Some m \<Rightarrow> Some m | None \<Rightarrow> get_module p ns)"
  by (induction ms) (auto simp: get_module_def)

lemma get_module_filter:
  "get_module p (filter (\<lambda>m. module_key m \<noteq> q) ms) = (if p = q then None else get_module p ms)"
  by (induction ms) (auto simp: get_module_def)

interpretation ms: keyed_set module_key get_module insert_module remove_source_path module_set_inv
proof unfold_locales
  fix s x k j
  show "module_set_inv s \<Longrightarrow> module_set_inv (snd (insert_module x s))"
    by (auto simp: insert_module_def module_set_inv_def contains_source_path_iff)
  show "module_set_inv s \<Longrightarrow> module_set_inv (snd (remove_source_path k s))"
    by (auto simp: remove_source_path_def module_set_inv_def distinct_map inj_on_def)
  show "fst (insert_module x s) = (get_module (module_key x) s = None)"
    by (simp add: insert_module_def contains_source_path_def)
  show "fst (remove_source_path k s) = (get_module k s \<noteq> None)"
    by (simp add: remove_source_path_def contains_source_path_def)
  show "get_module k (snd (insert_module x s))
      = (if k = module_key x \<and> get_module k s = None then Some x else get_module k s)"
    by (auto simp: insert_module_def contains_source_path_def get_module_append split: option.splits)
       (auto simp: get_module_def)
  show "get_module k (snd (remove_source_path j s)) = (if k = j then None else get_module k s)"
    by (simp add: remove_source_path_def get_module_filter)
qed

lemma module_set_extend_eq: "module_set_extend = ms.extend"
  by (simp add: module_set_extend_def ms.extend_def fun_eq_iff)

section \<open>Properties\<close>

text \<open>
  The targets answer as a set keyed by source path. Extending a set keeps the entry that was
  there (with the name it was loaded by), and takes the first of several new entries with one path;
  no path is ever listed twice.
\<close>

theorem module_set_extend_first:
  assumes "module_set_inv ms"
  shows "module_set_inv (module_set_extend ms xs) \<and>
    (\<forall>p. get_module p (module_set_extend ms xs)
       = (case get_module p ms of Some m \<Rightarrow> Some m | None \<Rightarrow> get_module p xs))"
  using assms by (simp add: module_set_extend_eq ms.extend_inv ms.get_extend get_module_def [of _ xs]
    split: option.splits)

definition demo_module :: "string option \<Rightarrow> loaded_module" where
  "demo_module n = \<lparr>lm_path = \<lparr>np_normal = [RootDir, Normal ''A.hs''], np_relative = None\<rparr>, lm_name = n\<rparr>"

theorem module_set_extend_first_witness:
  "module_set_inv (module_set_extend [demo_module (Some ''A'')] [demo_module None]) \<and>
   get_module [RootDir, Normal ''A.hs''] (module_set_extend [demo_module (Some ''A'')] [demo_module None])
     = Some (demo_module (Some ''A''))"
proof -
  have "module_set_inv [demo_module (Some ''A'')]" by (simp add: module_set_inv_def)
  from module_set_extend_first [OF this, of "[demo_module None]"] show ?thesis
    by (simp add: get_module_def module_key_def demo_module_def)
qed

end
