(* ===== verification/Classifier.thy ===== *)
theory Classifier
  imports Events Modules
begin

text \<open>
  \<open>src/src/ignore.rs\<close> and \<open>src/src/ghci/file_classifier.rs\<close>: which action a file event needs.
\<close>

section \<open>Globs\<close>

text \<open>
  The \<open>ignore\<close> crate decides which pattern of a \<open>.gitignore\<close>-style list matches a path
  (\<open>gm_gitignore\<close>, given whether the path is a directory); the matcher inverts its verdict.
\<close>

datatype glob_match = NoMatch | Ignore | Whitelist

fun invert :: "glob_match \<Rightarrow> glob_match" where
  "invert NoMatch = NoMatch"
| "invert Ignore = Whitelist"
| "invert Whitelist = Ignore"

record glob_matcher =
  gm_is_empty :: bool
  gm_gitignore :: "path \<Rightarrow> bool \<Rightarrow> glob_match"

definition empty_matcher :: glob_matcher where
  "empty_matcher = \<lparr>gm_is_empty = True, gm_gitignore = (\<lambda>_ _. NoMatch)\<rparr>"

definition matched :: "(path \<Rightarrow> bool) \<Rightarrow> glob_matcher \<Rightarrow> path \<Rightarrow> glob_match" where
  "matched is_dir g p = (if gm_is_empty g then NoMatch else invert (gm_gitignore g p (is_dir p)))"

section \<open>The classifier\<close>

record file_classifier =
  fc_restart_globs :: glob_matcher
  fc_reload_globs :: glob_matcher
  fc_cwd :: path

definition file_classifier_new :: "path res \<Rightarrow> glob_matcher \<Rightarrow> glob_matcher \<Rightarrow> file_classifier res" where
  "file_classifier_new current_dir restart reload =
     res_bind current_dir (\<lambda>cwd.
       Inr \<lparr>fc_restart_globs = restart, fc_reload_globs = reload, fc_cwd = cwd\<rparr>)"

definition set_cwd :: "path \<Rightarrow> file_classifier \<Rightarrow> file_classifier" where
  "set_cwd cwd c = c\<lparr>fc_cwd := cwd\<rparr>"

text \<open>What the classifier asks of its surroundings: how to normalise paths, what is a directory.\<close>

record classify_env =
  ce_paths :: path_env
  ce_is_dir :: "path \<Rightarrow> bool"

definition relative_path :: "classify_env \<Rightarrow> file_classifier \<Rightarrow> path \<Rightarrow> normal_path res" where
  "relative_path env c p = normal_path_new (ce_paths env) p (fc_cwd c)"

definition restart_match :: "classify_env \<Rightarrow> file_classifier \<Rightarrow> path \<Rightarrow> glob_match" where
  "restart_match env c p = matched (ce_is_dir env) (fc_restart_globs c) p"

definition reload_match :: "classify_env \<Rightarrow> file_classifier \<Rightarrow> path \<Rightarrow> glob_match" where
  "reload_match env c p = matched (ce_is_dir env) (fc_reload_globs c) p"

text \<open>A path whose file name starts with a dot.\<close>

definition is_dotfile :: "path \<Rightarrow> bool" where
  "is_dotfile p \<longleftrightarrow> (case file_name p of Some n \<Rightarrow> prefix ''.'' n | None \<Rightarrow> False)"

definition is_target_source :: "classify_env \<Rightarrow> file_classifier \<Rightarrow> normal_path \<Rightarrow> bool" where
  "is_target_source env c np \<longleftrightarrow>
     (let p = np_normal np in
      is_haskell_source_file p
      \<and> restart_match env c p \<noteq> Whitelist
      \<and> reload_match env c p \<noteq> Ignore
      \<and> \<not> is_dotfile p)"

text \<open>\<open>.cabal\<close> files and \<open>.ghci\<close> restart the session unless a glob ignores them.\<close>

definition default_restart :: "path \<Rightarrow> bool" where
  "default_restart p \<longleftrightarrow> extension p = Some ''cabal'' \<or> file_name p = Some ''.ghci''"

definition is_potentially_relevant :: "classify_env \<Rightarrow> file_classifier \<Rightarrow> file_event \<Rightarrow> bool res" where
  "is_potentially_relevant env c event =
     res_bind (relative_path env c (as_path event)) (\<lambda>np.
       let p = np_normal np in
       if restart_match env c p \<noteq> Ignore \<and> (default_restart p \<or> restart_match env c p = Whitelist)
       then Inr True
       else if reload_match env c p = Ignore then Inr False
       else Inr (is_haskell_source_file p \<or> reload_match env c p = Whitelist))"

record reload_actions =
  needs_restart :: "normal_path list"
  needs_reload :: "normal_path list"
  needs_add :: "normal_path list"
  needs_remove :: "normal_path list"

definition no_actions :: reload_actions where
  "no_actions = \<lparr>needs_restart = [], needs_reload = [], needs_add = [], needs_remove = []\<rparr>"

fun is_remove :: "file_event \<Rightarrow> bool" where
  "is_remove (Remove p) = True"
| "is_remove (Modify p) = False"

fun classify_loop ::
  "classify_env \<Rightarrow> file_classifier \<Rightarrow> module_set \<Rightarrow> file_event list \<Rightarrow> reload_actions
   \<Rightarrow> reload_actions res" where
  "classify_loop env c targets [] a = Inr a"
| "classify_loop env c targets (event # events) a =
     res_bind (relative_path env c (as_path event)) (\<lambda>np.
       let p = np_normal np;
           restart = restart_match env c p;
           reload = reload_match env c p;
           haskell = is_haskell_source_file p in
       classify_loop env c targets events
         (if restart \<noteq> Ignore
             \<and> (extension p = Some ''cabal'' \<or> file_name p = Some ''.ghci'' \<or> restart = Whitelist)
          then a\<lparr>needs_restart := needs_restart a @ [np]\<rparr>
          else if reload = Ignore then a
          else if is_remove event \<and> haskell \<and> contains_source_path p targets
          then a\<lparr>needs_remove := needs_remove a @ [np]\<rparr>
          else if \<not> is_remove event \<and> haskell \<and> \<not> is_dotfile p
          then (if contains_source_path p targets then a\<lparr>needs_reload := needs_reload a @ [np]\<rparr>
                else a\<lparr>needs_add := needs_add a @ [np]\<rparr>)
          else if reload = Whitelist then a\<lparr>needs_reload := needs_reload a @ [np]\<rparr>
          else a))"

definition classify ::
  "classify_env \<Rightarrow> file_classifier \<Rightarrow> module_set \<Rightarrow> file_event list \<Rightarrow> reload_actions res" where
  "classify env c targets events = classify_loop env c targets events no_actions"

definition needs_modify :: "reload_actions \<Rightarrow> bool" where
  "needs_modify a \<longleftrightarrow> needs_add a \<noteq> [] \<or> needs_reload a \<noteq> [] \<or> needs_remove a \<noteq> []"

definition any_restart :: "reload_actions \<Rightarrow> bool" where
  "any_restart a \<longleftrightarrow> needs_restart a \<noteq> []"

section \<open>The verdict on one event\<close>

text \<open>The specification: each event, by itself, falls into one class.\<close>

datatype verdict = VRestart | VReload | VAdd | VRemove | VIgnore

definition verdict :: "classify_env \<Rightarrow> file_classifier \<Rightarrow> module_set \<Rightarrow> bool \<Rightarrow> normal_path \<Rightarrow> verdict" where
  "verdict env c targets removed np =
     (let p = np_normal np in
      if restart_match env c p \<noteq> Ignore \<and> (default_restart p \<or> restart_match env c p = Whitelist)
      then VRestart
      else if reload_match env c p = Ignore then VIgnore
      else if is_haskell_source_file p \<and> \<not> removed
      then (if contains_source_path p targets then VReload else VAdd)
      else if is_haskell_source_file p \<and> contains_source_path p targets then VRemove
      else if reload_match env c p = Whitelist then VReload
      else VIgnore)"

lemma haskell_not_dotfile: "is_haskell_source_file p \<Longrightarrow> \<not> is_dotfile p"
  by (auto simp: is_haskell_source_file_def is_dotfile_def split: option.splits)

lemma haskell_not_default_restart: "is_haskell_source_file p \<Longrightarrow> \<not> default_restart p"
  by (auto simp: is_haskell_source_file_def default_restart_def HASKELL_SOURCE_EXTENSIONS_def)

definition classified :: "verdict \<Rightarrow> (verdict \<times> normal_path) list \<Rightarrow> normal_path list" where
  "classified v xs = map snd (filter (\<lambda>x. fst x = v) xs)"

lemma classified_simps [simp]:
  "classified v [] = []"
  "classified v ((w, np) # xs) = (if w = v then np # classified v xs else classified v xs)"
  by (simp_all add: classified_def)

definition actions_of :: "reload_actions \<Rightarrow> (verdict \<times> normal_path) list \<Rightarrow> reload_actions" where
  "actions_of a vs =
     \<lparr>needs_restart = needs_restart a @ classified VRestart vs,
      needs_reload = needs_reload a @ classified VReload vs,
      needs_add = needs_add a @ classified VAdd vs,
      needs_remove = needs_remove a @ classified VRemove vs\<rparr>"

definition judge ::
  "classify_env \<Rightarrow> file_classifier \<Rightarrow> module_set \<Rightarrow> file_event \<Rightarrow> (verdict \<times> normal_path) res" where
  "judge env c targets e =
     res_bind (relative_path env c (as_path e)) (\<lambda>np.
       Inr (verdict env c targets (is_remove e) np, np))"

lemma actions_of_append: "actions_of (actions_of a xs) ys = actions_of a (xs @ ys)"
  by (simp add: actions_of_def classified_def)

lemma actions_of_ignored: "actions_of a [(VIgnore, np)] = a"
  by (cases a) (simp add: actions_of_def)

lemma classify_loop_Cons:
  "classify_loop env c targets (e # events) a =
     res_bind (judge env c targets e) (\<lambda>v. classify_loop env c targets events (actions_of a [v]))"
proof (cases "relative_path env c (as_path e)")
  case (Inr np)
  then show ?thesis
    using haskell_not_dotfile [of "np_normal np"]
    by (cases a) (simp add: judge_def Let_def verdict_def default_restart_def actions_of_def)
qed (simp add: judge_def)

lemma classify_loop_spec:
  "classify_loop env c targets events a =
     res_bind (res_map (judge env c targets) events) (\<lambda>vs. Inr (actions_of a vs))"
proof (induction events arbitrary: a)
  case Nil
  show ?case by (simp add: actions_of_def)
next
  case (Cons e events)
  show ?case
    by (cases "judge env c targets e")
       (simp_all add: classify_loop_Cons Cons.IH actions_of_append res_bind_assoc del: classify_loop.simps)
qed

lemma irrelevant_judged_ignored:
  assumes "is_potentially_relevant env c e = Inr False"
  shows "\<exists>np. judge env c targets e = Inr (VIgnore, np)"
proof -
  obtain np where "relative_path env c (as_path e) = Inr np"
    using assms by (auto simp: is_potentially_relevant_def res_bind_Inr_iff)
  with assms have "judge env c targets e = Inr (VIgnore, np)"
    by (simp add: is_potentially_relevant_def judge_def verdict_def Let_def split: if_split_asm)
  then show ?thesis ..
qed

lemma classify_loop_filter:
  "classify_loop env c targets events a = Inr b \<Longrightarrow>
   classify_loop env c targets (filter (\<lambda>e. is_potentially_relevant env c e \<noteq> Inr False) events) a = Inr b"
proof (induction events arbitrary: a)
  case (Cons e events)
  obtain v where v: "judge env c targets e = Inr v"
    "classify_loop env c targets events (actions_of a [v]) = Inr b"
    using Cons.prems by (auto simp: classify_loop_Cons res_bind_Inr_iff simp del: classify_loop.simps)
  show ?case
  proof (cases "is_potentially_relevant env c e = Inr False")
    case True
    with irrelevant_judged_ignored [OF True, of targets] v Cons.IH [of a] show ?thesis
      by (auto simp: actions_of_ignored)
  next
    case False
    with v Cons.IH [OF v(2)] show ?thesis
      by (simp add: classify_loop_Cons del: classify_loop.simps)
  qed
qed simp

section \<open>Properties\<close>

text \<open>Small surroundings for the witnesses: paths are absolute already, no path is a directory.\<close>

definition demo_env :: classify_env where
  "demo_env =
     \<lparr>ce_paths = \<lparr>penv_absolutize = (\<lambda>p base. Inr (path_join base p)), penv_diff = (\<lambda>_ _. None)\<rparr>,
      ce_is_dir = (\<lambda>_. False)\<rparr>"

text \<open>Restarts on files named \<open>package.yaml\<close>, reloads on everything named \<open>data\<close>.\<close>

definition demo_classifier :: file_classifier where
  "demo_classifier =
     \<lparr>fc_restart_globs = \<lparr>gm_is_empty = False,
        gm_gitignore = (\<lambda>p _. if file_name p = Some ''package.yaml'' then Ignore else NoMatch)\<rparr>,
      fc_reload_globs = \<lparr>gm_is_empty = False,
        gm_gitignore = (\<lambda>p _. if file_name p = Some ''data'' then Ignore else NoMatch)\<rparr>,
      fc_cwd = [RootDir]\<rparr>"

definition demo_hs :: path where
  "demo_hs = [RootDir, Normal ''A.hs'']"

definition demo_np :: "path \<Rightarrow> normal_path" where
  "demo_np p = \<lparr>np_normal = p, np_relative = None\<rparr>"

lemmas demo_classifier_defs =
  demo_env_def demo_classifier_def demo_hs_def demo_np_def relative_path_def normal_path_new_def
  path_join_def is_absolute_def restart_match_def reload_match_def matched_def
  file_name_def extension_def

text \<open>
  Classification judges every event by itself: each list holds, in event order, exactly the
  paths whose event got that verdict, so no event lands in two lists; the classification fails
  exactly when some path cannot be made absolute.
\<close>

theorem classify_judges_events:
  "classify env c targets events =
     res_bind (res_map (judge env c targets) events) (\<lambda>vs.
       Inr \<lparr>needs_restart = classified VRestart vs, needs_reload = classified VReload vs,
            needs_add = classified VAdd vs, needs_remove = classified VRemove vs\<rparr>)"
  by (simp add: classify_def classify_loop_spec actions_of_def no_actions_def)

lemma classify_member:
  assumes "classify env c targets events = Inr a"
  shows "np \<in> set (needs_restart a) \<longleftrightarrow> (\<exists>e \<in> set events. judge env c targets e = Inr (VRestart, np))"
    and "np \<in> set (needs_reload a) \<longleftrightarrow> (\<exists>e \<in> set events. judge env c targets e = Inr (VReload, np))"
    and "np \<in> set (needs_add a) \<longleftrightarrow> (\<exists>e \<in> set events. judge env c targets e = Inr (VAdd, np))"
    and "np \<in> set (needs_remove a) \<longleftrightarrow> (\<exists>e \<in> set events. judge env c targets e = Inr (VRemove, np))"
proof -
  obtain vs where vs: "list_all2 (\<lambda>x y. judge env c targets x = Inr y) events vs" and
    a: "a = actions_of no_actions vs"
    using assms by (auto simp: classify_def classify_loop_spec res_simps res_map_Inr)
  have "(v, np) \<in> set vs \<longleftrightarrow> (\<exists>e \<in> set events. judge env c targets e = Inr (v, np))" for v
    using vs by (induction rule: list_all2_induct) auto
  moreover have "np \<in> set (classified v vs) \<longleftrightarrow> (v, np) \<in> set vs" for v
    by (force simp: classified_def)
  ultimately show "np \<in> set (needs_restart a) \<longleftrightarrow> (\<exists>e \<in> set events. judge env c targets e = Inr (VRestart, np))"
    "np \<in> set (needs_reload a) \<longleftrightarrow> (\<exists>e \<in> set events. judge env c targets e = Inr (VReload, np))"
    "np \<in> set (needs_add a) \<longleftrightarrow> (\<exists>e \<in> set events. judge env c targets e = Inr (VAdd, np))"
    "np \<in> set (needs_remove a) \<longleftrightarrow> (\<exists>e \<in> set events. judge env c targets e = Inr (VRemove, np))"
    by (simp_all add: a actions_of_def no_actions_def)
qed

text \<open>
  The watcher's filter is conservative: dropping the events it finds irrelevant changes no
  action of the classification, whatever the targets are, so filtering never loses work.
\<close>

theorem relevance_filter_conservative:
  assumes "classify env c targets events = Inr a"
  shows "classify env c targets (filter (\<lambda>e. is_potentially_relevant env c e \<noteq> Inr False) events) = Inr a"
  using classify_loop_filter assms unfolding classify_def .

theorem relevance_filter_conservative_witness:
  "classify demo_env demo_classifier []
     (filter (\<lambda>e. is_potentially_relevant demo_env demo_classifier e \<noteq> Inr False)
       [Modify [RootDir, Normal ''notes''], Modify demo_hs]) = Inr (no_actions\<lparr>needs_add := [demo_np demo_hs]\<rparr>)"
proof (rule relevance_filter_conservative)
  show "classify demo_env demo_classifier [] [Modify [RootDir, Normal ''notes''], Modify demo_hs]
      = Inr (no_actions\<lparr>needs_add := [demo_np demo_hs]\<rparr>)"
    by (simp add: classify_def demo_classifier_defs is_haskell_source_file_def name_extension_def
        HASKELL_SOURCE_EXTENSIONS_def contains_source_path_def get_module_def no_actions_def is_dotfile_def)
qed

text \<open>
  Snapshot reconciliation and classification agree on what a home target is: a modified file
  is to be added exactly when it is a target source that is not loaded yet.
\<close>

theorem added_iff_target_source:
  assumes "relative_path env c p = Inr np"
  shows "classify env c targets [Modify p]
      = Inr (no_actions\<lparr>needs_add := [np]\<rparr>)
    \<longleftrightarrow> is_target_source env c np \<and> \<not> contains_source_path (np_normal np) targets"
  using assms haskell_not_dotfile [of "np_normal np"] haskell_not_default_restart [of "np_normal np"]
  by (auto simp: classify_judges_events judge_def verdict_def is_target_source_def Let_def no_actions_def)

theorem added_iff_target_source_witness:
  "classify demo_env demo_classifier [] [Modify demo_hs]
     = Inr (no_actions\<lparr>needs_add := [demo_np demo_hs]\<rparr>)
   \<longleftrightarrow> is_target_source demo_env demo_classifier (demo_np demo_hs)
       \<and> \<not> contains_source_path (np_normal (demo_np demo_hs)) []"
  by (rule added_iff_target_source) (simp add: demo_classifier_defs)

text \<open>
  An explicit ignore wins where the code says so: a path the restart globs ignore never
  restarts the session, and a path the reload globs ignore is at most restarted for; a removal
  only ever unloads a module that is loaded.
\<close>

theorem ignored_paths_respected:
  assumes "classify env c targets events = Inr a"
  shows "(\<forall>np \<in> set (needs_restart a). restart_match env c (np_normal np) \<noteq> Ignore) \<and>
    (\<forall>np \<in> set (needs_reload a @ needs_add a @ needs_remove a).
       reload_match env c (np_normal np) \<noteq> Ignore) \<and>
    (\<forall>np \<in> set (needs_remove a). contains_source_path (np_normal np) targets)"
  by (auto simp: classify_member [OF assms] judge_def verdict_def Let_def res_simps split: if_splits)

theorem ignored_paths_respected_witness:
  "reload_match demo_env demo_classifier (np_normal (demo_np demo_hs)) \<noteq> Ignore"
proof -
  have "classify demo_env demo_classifier [] [Modify demo_hs] = Inr (no_actions\<lparr>needs_add := [demo_np demo_hs]\<rparr>)"
    by (simp add: classify_def demo_classifier_defs is_haskell_source_file_def name_extension_def
        HASKELL_SOURCE_EXTENSIONS_def contains_source_path_def get_module_def no_actions_def is_dotfile_def)
  from ignored_paths_respected [OF this] show ?thesis by simp
qed

end
