(* ===== verification/Diagnostics.thy ===== *)
theory Diagnostics
  imports Paths
begin

text \<open>
  \<open>src/src/ghci/parse/ghc_message/\<close>: the messages GHC prints while compiling, and how the error
  log prints them back (\<open>Display\<close>). \<open>usize\<close> is a 64-bit word.
\<close>

section \<open>Decimal numbers\<close>

fun show_nat :: "nat \<Rightarrow> string" where
  "show_nat n =
     (if n < 10 then [char_of (48 + n)] else show_nat (n div 10) @ [char_of (48 + n mod 10)])"

declare show_nat.simps [simp del]

definition is_digit :: "char \<Rightarrow> bool" where
  "is_digit c \<longleftrightarrow> 48 \<le> (of_char c :: nat) \<and> of_char c < (58 :: nat)"

fun read_digits :: "nat \<Rightarrow> string \<Rightarrow> nat" where
  "read_digits n [] = n"
| "read_digits n (c # cs) = read_digits (10 * n + (of_char c - 48)) cs"

lemma read_digits_append: "read_digits n (s @ t) = read_digits (read_digits n s) t"
  by (induction n s rule: read_digits.induct) simp_all

lemma of_char_digit: "d < 10 \<Longrightarrow> of_char (char_of (48 + d)) = (48 + d :: nat)"
  by (simp add: of_char_of take_bit_eq_mod)

lemma read_show_nat: "read_digits 0 (show_nat n) = n"
proof (induction n rule: show_nat.induct)
  case (1 n)
  have "n mod 10 < 10" by simp
  with 1 show ?case
    by (subst show_nat.simps) (simp add: read_digits_append of_char_digit del: of_char_of)
qed

lemma show_nat_inject [simp]: "show_nat m = show_nat n \<longleftrightarrow> m = n"
  using read_show_nat by metis

lemma show_nat_digits: "c \<in> set (show_nat n) \<Longrightarrow> is_digit c"
proof (induction n rule: show_nat.induct)
  case (1 n)
  have "n mod 10 < 10" by simp
  with 1 show ?case
    by (subst (asm) (2) show_nat.simps)
       (auto simp: is_digit_def of_char_digit simp del: of_char_of split: if_splits)
qed

lemma show_nat_nonempty [simp]: "show_nat n \<noteq> []"
  by (subst show_nat.simps) simp

text \<open>A number followed by something that is not a digit can be read back.\<close>

lemma digits_split:
  assumes "\<And>c. c \<in> set a \<Longrightarrow> is_digit c" and "\<And>c. c \<in> set b \<Longrightarrow> is_digit c"
    and "\<not> is_digit x" and "\<not> is_digit y" and "a @ x # s = b @ y # t"
  shows "a = b \<and> x = y \<and> s = t"
  using assms
proof (induction a arbitrary: b)
  case Nil
  then show ?case by (cases b) auto
next
  case (Cons c a)
  then show ?case by (cases b) auto
qed

lemma show_nat_split:
  assumes "\<not> is_digit x" and "\<not> is_digit y" and "show_nat m @ x # s = show_nat n @ y # t"
  shows "m = n \<and> x = y \<and> s = t"
  using digits_split [OF show_nat_digits show_nat_digits assms] by simp

lemma show_nat_no_tail:
  assumes "\<not> is_digit x" and "show_nat m @ x # s = show_nat n"
  shows False
  using show_nat_digits [of x n] assms by (metis in_set_conv_decomp)

section \<open>Positions\<close>

record position =
  pos_line :: u64
  pos_column :: u64

definition position_is_zero :: "position \<Rightarrow> bool" where
  "position_is_zero p \<longleftrightarrow> pos_line p = 0 \<and> pos_column p = 0"

definition show_word :: "u64 \<Rightarrow> string" where
  "show_word w = show_nat (unat w)"

definition show_position :: "position \<Rightarrow> string" where
  "show_position p = show_word (pos_line p) @ '':'' @ show_word (pos_column p)"

record position_range =
  range_start :: position
  range_end :: position

definition position_range_new :: "u64 \<Rightarrow> u64 \<Rightarrow> u64 \<Rightarrow> u64 \<Rightarrow> position_range" where
  "position_range_new sl sc el ec =
     \<lparr>range_start = \<lparr>pos_line = sl, pos_column = sc\<rparr>,
      range_end = \<lparr>pos_line = el, pos_column = ec\<rparr>\<rparr>"

definition position_range_default :: position_range where
  "position_range_default = position_range_new 0 0 0 0"

definition position_range_is_zero :: "position_range \<Rightarrow> bool" where
  "position_range_is_zero r \<longleftrightarrow> position_is_zero (range_start r) \<and> position_is_zero (range_end r)"

definition show_position_range :: "position_range \<Rightarrow> string" where
  "show_position_range r =
     (let s = range_start r; e = range_end r in
      if pos_line s = pos_line e then
        if pos_column s = pos_column e then show_position s
        else show_word (pos_line s) @ '':'' @ show_word (pos_column s) @ ''-'' @ show_word (pos_column e)
      else ''('' @ show_word (pos_line s) @ '','' @ show_word (pos_column s) @ '')-('' @
        show_word (pos_line e) @ '','' @ show_word (pos_column e) @ '')'')"

section \<open>Messages\<close>

datatype severity = Warning | Error

fun show_severity :: "severity \<Rightarrow> string" where
  "show_severity Warning = ''warning''"
| "show_severity Error = ''error''"

datatype compilation_result = CompOk | CompErr

datatype modules_loaded = Count u64 | AllModules

fun show_modules_loaded :: "modules_loaded \<Rightarrow> string" where
  "show_modules_loaded (Count n) = show_word n"
| "show_modules_loaded AllModules = ''all''"

record compilation_summary =
  cs_result :: compilation_result
  cs_modules_loaded :: modules_loaded

record ghc_diagnostic =
  diag_severity :: severity
  diag_path :: "path option"
  diag_span :: position_range
  diag_message :: string

definition show_diagnostic :: "ghc_diagnostic \<Rightarrow> string" where
  "show_diagnostic d =
     (case diag_path d of Some p \<Rightarrow> path_str p | None \<Rightarrow> ''<no location info>'') @
     (if \<not> position_range_is_zero (diag_span d) then '':'' @ show_position_range (diag_span d) else []) @
     '': '' @ show_severity (diag_severity d) @ '':'' @
     (if starts_with (diag_message d) [newline] then diag_message d else '' '' @ diag_message d)"

record compiling_module =
  cm_name :: string
  cm_path :: path

record compiling_progress =
  cp_module :: compiling_module
  cp_current :: u64
  cp_total :: u64
  cp_reason :: "string option"

datatype ghc_message =
    Compiling compiling_progress
  | Diagnostic ghc_diagnostic
  | LoadConfig path
  | Summary compilation_summary

section \<open>Properties\<close>

lemma not_digits [simp]:
  "\<not> is_digit CHR '':''" "\<not> is_digit CHR ''-''" "\<not> is_digit CHR '',''"
  "\<not> is_digit CHR '')''" "\<not> is_digit CHR ''(''"
  by (simp_all add: is_digit_def)

lemma show_word_inject [simp]: "show_word v = show_word w \<longleftrightarrow> v = w"
  by (simp add: show_word_def word_unat_eq_iff)

lemma show_word_split:
  "\<not> is_digit x \<Longrightarrow> \<not> is_digit y \<Longrightarrow> show_word v @ x # s = show_word w @ y # t \<Longrightarrow> v = w \<and> x = y \<and> s = t"
  unfolding show_word_def by (drule (2) show_nat_split) (simp add: word_unat_eq_iff)

lemma show_word_no_tail: "\<not> is_digit x \<Longrightarrow> show_word v @ x # s \<noteq> show_word w"
  unfolding show_word_def using show_nat_no_tail by blast

lemma show_word_hd: "show_word w \<noteq> CHR ''('' # s" "show_word w @ t \<noteq> CHR ''('' # s"
  using show_nat_digits [of "CHR ''(''" "unat w"] unfolding show_word_def
  by (auto simp: append_eq_Cons_conv)

text \<open>The three shapes of a printed range, told apart by their first non-digit characters.\<close>

fun range_text :: "nat \<Rightarrow> u64 \<times> u64 \<times> u64 \<times> u64 \<Rightarrow> string" where
  "range_text 0 (a, b, c, d) = show_word a @ CHR '':'' # show_word b"
| "range_text (Suc 0) (a, b, c, d) = show_word a @ CHR '':'' # show_word b @ CHR ''-'' # show_word d"
| "range_text (Suc (Suc n)) (a, b, c, d) = CHR ''('' # show_word a @ CHR '','' # show_word b @
     CHR '')'' # CHR ''-'' # CHR ''('' # show_word c @ CHR '','' # show_word d @ [CHR '')'']"

definition range_shape :: "u64 \<times> u64 \<times> u64 \<times> u64 \<Rightarrow> nat" where
  "range_shape q = (case q of (a, b, c, d) \<Rightarrow> if a = c then if b = d then 0 else 1 else 2)"

lemma show_position_range_text:
  "show_position_range (position_range_new a b c d) = range_text (range_shape (a, b, c, d)) (a, b, c, d)"
  by (simp add: show_position_range_def position_range_new_def range_shape_def show_position_def
      numeral_2_eq_2)

lemma range_text_inject:
  assumes "range_text (range_shape q) q = range_text (range_shape q') q'"
  shows "q = q'"
proof -
  obtain a b c d where q: "q = (a, b, c, d)" by (cases q)
  obtain a' b' c' d' where q': "q' = (a', b', c', d')" by (cases q')
  consider "a = c \<and> b = d" | "a = c \<and> b \<noteq> d" | "a \<noteq> c" by blast
  then show ?thesis
  proof cases
    case 3
    with assms have "a' \<noteq> c'"
      by (auto simp: q q' range_shape_def numeral_2_eq_2 show_word_hd show_word_hd [symmetric]
          split: if_splits)
    with 3 assms show ?thesis
      by (auto simp: q q' range_shape_def numeral_2_eq_2 dest!: show_word_split [rotated 2])
  next
    case 1
    with assms have "a' = c' \<and> b' = d'"
      by (auto simp: q q' range_shape_def numeral_2_eq_2 show_word_hd show_word_no_tail [symmetric]
          split: if_splits dest!: show_word_split [rotated 2])
    with 1 assms show ?thesis
      by (auto simp: q q' range_shape_def dest!: show_word_split [rotated 2])
  next
    case 2
    with assms have "a' = c' \<and> b' \<noteq> d'"
      by (auto simp: q q' range_shape_def numeral_2_eq_2 show_word_hd show_word_no_tail
          split: if_splits dest!: show_word_split [rotated 2])
    with 2 assms show ?thesis
      by (auto simp: q q' range_shape_def dest!: show_word_split [rotated 2])
  qed
qed

text \<open>
  A printed span says where it is: two spans that print alike are the same span, over all
  three formats and all 64-bit line and column numbers.
\<close>

theorem show_position_range_inject:
  "show_position_range r = show_position_range r' \<longleftrightarrow> r = (r' :: position_range)"
proof
  assume eq: "show_position_range r = show_position_range r'"
  have new: "\<exists>a b c d. s = position_range_new a b c d" for s :: position_range
  proof -
    have "s = position_range_new (pos_line (range_start s)) (pos_column (range_start s))
        (pos_line (range_end s)) (pos_column (range_end s))"
      by (simp add: position_range_new_def)
    then show ?thesis by blast
  qed
  obtain a b c d a' b' c' d' where
    r: "r = position_range_new a b c d" "r' = position_range_new a' b' c' d'"
    using new by meson
  show "r = r'"
    using range_text_inject [of "(a, b, c, d)" "(a', b', c', d')"] eq
    by (simp add: r show_position_range_text)
qed simp

end
