(* ===== verification/CompilationLog.thy ===== *)
theory CompilationLog
  imports Diagnostics Utf8
begin

text \<open>
  \<open>src/src/ghci/compilation_log.rs\<close>: the record of one compilation, from which the error log and
  the memory history are written.
\<close>

section \<open>Lines of a string\<close>

text \<open>\<open>split_inclusive('\<newline>')\<close> keeps the newlines, \<open>lines()\<close> drops them with a carriage return.\<close>

definition split_inclusive :: "string \<Rightarrow> string list" where
  "split_inclusive s =
     map (\<lambda>l. l @ [newline]) (complete_lines s) @ (if last_partial s = [] then [] else [last_partial s])"

definition strip_cr :: "string \<Rightarrow> string" where
  "strip_cr l = (if suffix [CHR 0x0D] l then butlast l else l)"

definition str_lines :: "string \<Rightarrow> string list" where
  "str_lines s =
     map strip_cr (complete_lines s) @ (if last_partial s = [] then [] else [last_partial s])"

definition trim_end_nl :: "string \<Rightarrow> string" where
  "trim_end_nl l = rev (dropWhile (\<lambda>c. c = newline \<or> c = CHR 0x0D) (rev l))"

lemma concat_split_inclusive: "concat (split_inclusive s) = s"
proof -
  have "concat (split_inclusive s) = unlines (complete_lines s) @ last_partial s"
    by (simp add: split_inclusive_def unlines_def)
  then show ?thesis by (simp add: lines_concat)
qed

lemma split_inclusive_Nil [simp]: "split_inclusive [] = []"
  by (simp add: split_inclusive_def)

lemma split_inclusive_partial: "newline \<notin> set s \<Longrightarrow> split_inclusive s = (if s = [] then [] else [s])"
  by (simp add: split_inclusive_def)

lemma split_inclusive_line:
  "newline \<notin> set a \<Longrightarrow> split_inclusive (a @ newline # b) = (a @ [newline]) # split_inclusive b"
  by (simp add: split_inclusive_def)

lemma split_inclusive_filter:
  "split_inclusive (concat (filter P (split_inclusive s))) = filter P (split_inclusive s)"
proof (induction s rule: line_induct)
  case (partial s)
  then show ?case by (cases "P s") (simp_all add: split_inclusive_partial)
next
  case (line a b)
  then show ?case by (cases "P (a @ [newline])") (simp_all add: split_inclusive_line)
qed

section \<open>The log\<close>

text \<open>
  A sample and the workload are only carried here; \<open>duration_seconds\<close> is the bit pattern of the
  \<open>f64\<close>.
\<close>

record workload =
  wl_duration_seconds :: u64
  wl_module_compile_attempts :: u64
  wl_changed_paths :: "string list"

record rts_sample =
  rts_pid :: "32 word"
  rts_gcs :: "32 word"
  rts_major_gcs :: "32 word"
  rts_last_gc_generation :: "32 word"
  rts_live_bytes :: u64
  rts_heap_bytes :: u64
  rts_allocated_bytes :: u64
  rts_gc_allocated_bytes :: u64
  rts_max_live_bytes :: u64
  rts_gc_cpu_ns :: u64
  rts_gc_elapsed_ns :: u64
  rts_process_rss_bytes :: u64
  rts_process_swap_bytes :: u64
  rts_process_lazy_free_bytes :: u64

record compilation_log =
  cl_summary :: "compilation_summary option"
  cl_diagnostics :: "ghc_diagnostic list"
  cl_stdout_diagnostics :: "ghc_diagnostic list"
  cl_stderr :: string
  cl_memory_sample :: "rts_sample option"
  cl_hook_failed :: bool
  cl_workload :: workload

definition compilation_log_default :: compilation_log where
  "compilation_log_default =
     \<lparr>cl_summary = None, cl_diagnostics = [], cl_stdout_diagnostics = [], cl_stderr = [],
      cl_memory_sample = None, cl_hook_failed = False,
      cl_workload = \<lparr>wl_duration_seconds = 0, wl_module_compile_attempts = 0, wl_changed_paths = []\<rparr>\<rparr>"

definition log_result :: "compilation_log \<Rightarrow> compilation_result option" where
  "log_result l = map_option cs_result (cl_summary l)"

definition has_error :: "compilation_log \<Rightarrow> bool" where
  "has_error l \<longleftrightarrow> list_ex (\<lambda>d. diag_severity d = Error) (cl_diagnostics l)"

definition failed :: "compilation_log \<Rightarrow> bool" where
  "failed l \<longleftrightarrow>
     log_result l = Some CompErr
     \<or> list_ex (\<lambda>d. diag_severity d = Error) (cl_diagnostics l)
     \<or> list_ex (\<lambda>line. starts_with line ''*** Exception:'') (str_lines (cl_stderr l))"

text \<open>\<open>Extend::extend\<close>: one message at a time. The count of attempts would panic or wrap only past
  \<open>2 ^ 64\<close> messages.\<close>

fun extend_message :: "compilation_log \<Rightarrow> ghc_message \<Rightarrow> compilation_log" where
  "extend_message l (Compiling p) =
     l\<lparr>cl_workload := (cl_workload l)\<lparr>wl_module_compile_attempts :=
         wl_module_compile_attempts (cl_workload l) + 1\<rparr>\<rparr>"
| "extend_message l (Diagnostic d) = l\<lparr>cl_diagnostics := cl_diagnostics l @ [d]\<rparr>"
| "extend_message l (Summary s) = l\<lparr>cl_summary := Some s\<rparr>"
| "extend_message l (LoadConfig p) = l"

definition extend_log :: "compilation_log \<Rightarrow> ghc_message list \<Rightarrow> compilation_log" where
  "extend_log l msgs = foldl extend_message l msgs"

fun extend_stdout :: "compilation_log \<Rightarrow> ghc_message list \<Rightarrow> compilation_log" where
  "extend_stdout l [] = l"
| "extend_stdout l (m # msgs) =
     (let l1 = (case m of
          Diagnostic d \<Rightarrow> l\<lparr>cl_stdout_diagnostics := cl_stdout_diagnostics l @ [d]\<rparr>
        | _ \<Rightarrow> l) in
      extend_stdout (extend_log l1 [m]) msgs)"

definition append_stderr :: "compilation_log \<Rightarrow> string \<Rightarrow> compilation_log" where
  "append_stderr l s = l\<lparr>cl_stderr := cl_stderr l @ s\<rparr>"

text \<open>\<open>split_off\<close> panics (\<open>None\<close>) when the index is not on a character boundary.\<close>

definition is_char_boundary :: "string \<Rightarrow> nat \<Rightarrow> bool" where
  "is_char_boundary s i \<longleftrightarrow> i = 0 \<or> i = length s \<or> (i < length s \<and> \<not> is_cont (s ! i))"

fun push_uninterrupted :: "string \<Rightarrow> string list \<Rightarrow> string" where
  "push_uninterrupted stderr [] = stderr"
| "push_uninterrupted stderr (line # lines) =
     (if trim_end_nl line \<noteq> ''Interrupted.'' then push_uninterrupted (stderr @ line) lines
      else push_uninterrupted stderr lines)"

definition discard_interrupt_output_since :: "nat \<Rightarrow> compilation_log \<Rightarrow> compilation_log option" where
  "discard_interrupt_output_since start l =
     (if is_char_boundary (cl_stderr l) start
      then Some (l\<lparr>cl_stderr :=
        push_uninterrupted (take start (cl_stderr l)) (split_inclusive (drop start (cl_stderr l)))\<rparr>)
      else None)"

definition fill_empty_summary :: "compilation_log \<Rightarrow> compilation_log" where
  "fill_empty_summary l =
     (case cl_summary l of
        Some s \<Rightarrow> l
      | None \<Rightarrow> l\<lparr>cl_summary := Some
          \<lparr>cs_result = (if list_ex (\<lambda>d. diag_severity d = Error) (cl_diagnostics l) then CompErr else CompOk),
           cs_modules_loaded = Count 0\<rparr>\<rparr>)"

definition mark_failed :: "compilation_log \<Rightarrow> compilation_log" where
  "mark_failed l = l\<lparr>cl_summary := Some \<lparr>cs_result = CompErr, cs_modules_loaded = Count 0\<rparr>\<rparr>"

definition mark_failed_with_diagnostic :: "string \<Rightarrow> compilation_log \<Rightarrow> compilation_log" where
  "mark_failed_with_diagnostic message l =
     (let l1 = mark_failed l in
      if \<not> list_ex (\<lambda>d. diag_severity d = Error) (cl_diagnostics l1)
      then l1\<lparr>cl_diagnostics := cl_diagnostics l1 @
        [\<lparr>diag_severity = Error, diag_path = None, diag_span = position_range_default,
          diag_message = (if ends_with message [newline] then message else message @ [newline])\<rparr>]\<rparr>
      else l1)"

fun dedup_loop :: "ghc_diagnostic list \<Rightarrow> ghc_diagnostic list \<Rightarrow> ghc_diagnostic list" where
  "dedup_loop unique [] = unique"
| "dedup_loop unique (d # ds) =
     (if d \<notin> set unique then dedup_loop (unique @ [d]) ds else dedup_loop unique ds)"

definition deduplicate_diagnostics :: "compilation_log \<Rightarrow> compilation_log" where
  "deduplicate_diagnostics l = l\<lparr>cl_diagnostics := dedup_loop [] (cl_diagnostics l)\<rparr>"

section \<open>Facts about the operations\<close>

definition diagnostics_of :: "ghc_message list \<Rightarrow> ghc_diagnostic list" where
  "diagnostics_of msgs = concat (map (\<lambda>m. case m of Diagnostic d \<Rightarrow> [d] | _ \<Rightarrow> []) msgs)"

fun last_summary :: "compilation_summary option \<Rightarrow> ghc_message list \<Rightarrow> compilation_summary option" where
  "last_summary s [] = s"
| "last_summary s (m # msgs) = last_summary (case m of Summary t \<Rightarrow> Some t | _ \<Rightarrow> s) msgs"

definition attempts :: "ghc_message list \<Rightarrow> nat" where
  "attempts msgs = length (filter (\<lambda>m. case m of Compiling _ \<Rightarrow> True | _ \<Rightarrow> False) msgs)"

lemma push_uninterrupted_filter:
  "push_uninterrupted s ls = s @ concat (filter (\<lambda>l. trim_end_nl l \<noteq> ''Interrupted.'') ls)"
  by (induction s ls rule: push_uninterrupted.induct) auto

lemma dedup_loop_remdups:
  "dedup_loop unique ds = unique @ rev (remdups (filter (\<lambda>d. d \<notin> set unique) (rev ds)))"
proof (induction unique ds rule: dedup_loop.induct)
  case (2 unique d ds)
  show ?case
  proof (cases "d \<in> set unique")
    case True
    with 2(2) show ?thesis by simp
  next
    case False
    have f: "filter (\<lambda>x. x \<notin> set (unique @ [d])) (rev ds)
        = filter (\<lambda>x. x \<noteq> d) (filter (\<lambda>x. x \<notin> set unique) (rev ds))"
      by (simp add: filter_filter) (rule filter_cong, auto)
    have r: "rev (remdups (ys @ [x])) = x # rev (remdups (filter (\<lambda>y. y \<noteq> x) ys))" for x and ys :: "ghc_diagnostic list"
      by (induction ys) auto
    show ?thesis using 2(1) [OF False] False by (simp add: f r conj_commute)
  qed
qed simp

lemma extend_message_fields:
  "cl_diagnostics (extend_message l m) = cl_diagnostics l @ diagnostics_of [m]"
  "cl_summary (extend_message l m) = last_summary (cl_summary l) [m]"
  "cl_stdout_diagnostics (extend_message l m) = cl_stdout_diagnostics l"
  "cl_stderr (extend_message l m) = cl_stderr l"
  "wl_module_compile_attempts (cl_workload (extend_message l m))
     = wl_module_compile_attempts (cl_workload l) + of_nat (attempts [m])"
  by (cases m; simp add: diagnostics_of_def attempts_def)+

lemma diagnostics_of_Cons: "diagnostics_of (m # ms) = diagnostics_of [m] @ diagnostics_of ms"
  by (simp add: diagnostics_of_def)

lemma attempts_Cons: "attempts (m # ms) = attempts [m] + attempts ms"
  by (simp add: attempts_def)

lemma last_summary_Cons: "last_summary s (m # ms) = last_summary (last_summary s [m]) ms"
  by simp

section \<open>Properties\<close>

definition demo_diag :: "severity \<Rightarrow> string \<Rightarrow> ghc_diagnostic" where
  "demo_diag s m = \<lparr>diag_severity = s, diag_path = None, diag_span = position_range_default, diag_message = m\<rparr>"

text \<open>
  Feeding the messages of standard output records each diagnostic once in each of the two
  lists, in order, takes the last summary, counts the compile attempts and leaves stderr alone.
\<close>

theorem extend_stdout_records:
  "cl_diagnostics (extend_stdout l msgs) = cl_diagnostics l @ diagnostics_of msgs \<and>
   cl_stdout_diagnostics (extend_stdout l msgs) = cl_stdout_diagnostics l @ diagnostics_of msgs \<and>
   cl_summary (extend_stdout l msgs) = last_summary (cl_summary l) msgs \<and>
   wl_module_compile_attempts (cl_workload (extend_stdout l msgs))
     = wl_module_compile_attempts (cl_workload l) + of_nat (attempts msgs) \<and>
   cl_stderr (extend_stdout l msgs) = cl_stderr l"
proof (induction l msgs rule: extend_stdout.induct)
  case (1 l)
  show ?case by (simp add: diagnostics_of_def attempts_def)
next
  case (2 l m msgs)
  define l1 where "l1 = (case m of
      Diagnostic d \<Rightarrow> l\<lparr>cl_stdout_diagnostics := cl_stdout_diagnostics l @ [d]\<rparr> | _ \<Rightarrow> l)"
  have l1: "cl_diagnostics l1 = cl_diagnostics l" "cl_summary l1 = cl_summary l"
    "cl_stderr l1 = cl_stderr l" "cl_workload l1 = cl_workload l"
    "cl_stdout_diagnostics l1 = cl_stdout_diagnostics l @ diagnostics_of [m]"
    by (simp_all add: l1_def diagnostics_of_def split: ghc_message.split)
  have step: "extend_stdout l (m # msgs) = extend_stdout (extend_message l1 m) msgs"
    by (simp add: l1_def extend_log_def)
  have "extend_stdout (extend_log l1 [m]) msgs = extend_stdout (extend_message l1 m) msgs"
    by (simp add: extend_log_def)
  note IH = 2 [OF l1_def, unfolded extend_log_def foldl_Cons foldl_Nil]
  show ?case
    unfolding step diagnostics_of_Cons [of m msgs] attempts_Cons [of m msgs] last_summary_Cons [of _ m msgs]
    using IH by (simp add: extend_message_fields l1)
qed

text \<open>
  Deduplication keeps the first occurrence of every diagnostic, in order, and nothing else.
\<close>

theorem deduplicate_keeps_first:
  "cl_diagnostics (deduplicate_diagnostics l) = rev (remdups (rev (cl_diagnostics l))) \<and>
   distinct (cl_diagnostics (deduplicate_diagnostics l)) \<and>
   set (cl_diagnostics (deduplicate_diagnostics l)) = set (cl_diagnostics l)"
  by (simp add: deduplicate_diagnostics_def dedup_loop_remdups)

text \<open>
  Removing GHCi's acknowledgement of an interrupt touches only what was captured since: of
  those lines exactly the ones reading \<open>Interrupted.\<close> go, the others stay in order, byte for byte.
\<close>

theorem discard_interrupt_exact:
  assumes "discard_interrupt_output_since start l = Some l'"
  shows "take start (cl_stderr l') = take start (cl_stderr l) \<and>
    split_inclusive (drop start (cl_stderr l'))
      = filter (\<lambda>line. trim_end_nl line \<noteq> ''Interrupted.'') (split_inclusive (drop start (cl_stderr l)))"
proof -
  have "start \<le> length (cl_stderr l)" and
    l': "cl_stderr l' = take start (cl_stderr l) @
      concat (filter (\<lambda>line. trim_end_nl line \<noteq> ''Interrupted.'') (split_inclusive (drop start (cl_stderr l))))"
    using assms
    by (auto simp: discard_interrupt_output_since_def push_uninterrupted_filter is_char_boundary_def
        split: if_splits)
  then show ?thesis by (simp add: split_inclusive_filter)
qed

theorem discard_interrupt_exact_witness:
  "split_inclusive (drop 1 ''ab'') = filter (\<lambda>line. trim_end_nl line \<noteq> ''Interrupted.'')
     (split_inclusive (drop 1 (''aInterrupted.'' @ newline # ''b'')))"
proof -
  have s: "split_inclusive (''Interrupted.'' @ newline # ''b'') = [''Interrupted.'' @ [newline], ''b'']"
    by (subst split_inclusive_line) (simp_all add: split_inclusive_partial)
  have "discard_interrupt_output_since 1
      (compilation_log_default\<lparr>cl_stderr := ''aInterrupted.'' @ newline # ''b''\<rparr>)
    = Some (compilation_log_default\<lparr>cl_stderr := ''ab''\<rparr>)"
    using s by (simp add: discard_interrupt_output_since_def is_char_boundary_def trim_end_nl_def
        is_cont_def byte_def)
  from discard_interrupt_exact [OF this] show ?thesis by simp
qed

text \<open>
  A compilation marked as failed is reported as failed: the summary says so, some diagnostic
  is an error, and nothing recorded before is lost.
\<close>

theorem mark_failed_is_failed:
  "failed (mark_failed_with_diagnostic m l) \<and>
   log_result (mark_failed_with_diagnostic m l) = Some CompErr \<and>
   has_error (mark_failed_with_diagnostic m l) \<and>
   prefix (cl_diagnostics l) (cl_diagnostics (mark_failed_with_diagnostic m l)) \<and>
   cl_stderr (mark_failed_with_diagnostic m l) = cl_stderr l"
  by (auto simp: mark_failed_with_diagnostic_def mark_failed_def failed_def log_result_def has_error_def Let_def)

text \<open>
  The synthesised summary agrees with the diagnostics, so filling it in never changes whether
  the compilation counts as failed.
\<close>

theorem fill_empty_summary_failed:
  "failed (fill_empty_summary l) = failed l \<and> cl_summary (fill_empty_summary l) \<noteq> None"
  by (auto simp: fill_empty_summary_def failed_def log_result_def split: option.split)

end
