(* ===== verification/ErrorLog.thy ===== *)
theory ErrorLog
  imports CompilationLog
begin

text \<open>
  \<open>src/src/ghci/error_log.rs\<close>: publishing a compilation log as a \<open>ghcid\<close>-compatible file, through
  a temporary file that is renamed over the old one.
\<close>

section \<open>The writer\<close>

record error_log =
  el_path :: "normal_path option"
  el_temp_nonce :: u64

definition error_log_new :: "normal_path option \<Rightarrow> error_log" where
  "error_log_new p = \<lparr>el_path = p, el_temp_nonce = 0\<rparr>"

text \<open>
  The files are a map from paths to contents. Each system call can fail; \<open>wenv_write_error n\<close> is the
  outcome of the \<open>n\<close>th write to the temporary file. What a buffered writer has flushed when it
  fails is not specified: \<open>wenv_flushed\<close> says how much.
\<close>

record write_env =
  wenv_process_id :: "32 word"
  wenv_create_error :: "io_error option"
  wenv_write_error :: "nat \<Rightarrow> io_error option"
  wenv_shutdown_error :: "io_error option"
  wenv_rename_error :: "io_error option"
  wenv_flushed :: "string \<Rightarrow> string"

type_synonym files = "path \<Rightarrow> string option"

text \<open>\<open>Path::with_file_name\<close>.\<close>

definition with_file_name :: "path \<Rightarrow> string \<Rightarrow> path" where
  "with_file_name p n = (if file_name p \<noteq> None then butlast p else p) @ [Normal n]"

definition temporary_name :: "write_env \<Rightarrow> path \<Rightarrow> u64 \<Rightarrow> string" where
  "temporary_name env p nonce =
     ''.'' @ (case file_name p of Some n \<Rightarrow> n | None \<Rightarrow> ''compile'') @ ''.ghciwatch-'' @
     show_nat (unat (wenv_process_id env)) @ ''-'' @ show_word nonce @ ''.tmp''"

text \<open>The headline, written for a successful summary only.\<close>

definition headline :: "compilation_log \<Rightarrow> string list" where
  "headline l =
     (case cl_summary l of
        None \<Rightarrow> []
      | Some s \<Rightarrow>
          if cs_result s = CompOk
          then [''All good ('' @ show_modules_loaded (cs_modules_loaded s) @
                (if cs_modules_loaded s \<noteq> Count 1 then '' modules'' else '' module'') @
                '')'' @ [newline]]
          else [])"

definition published_diagnostics :: "compilation_log \<Rightarrow> ghc_diagnostic list" where
  "published_diagnostics l = (if cl_stderr l = [] then cl_diagnostics l else cl_stdout_diagnostics l)"

text \<open>The texts \<open>write\<close> passes to \<open>write_all\<close>, in order.\<close>

definition log_chunks :: "compilation_log \<Rightarrow> string list" where
  "log_chunks l = headline l @ map show_diagnostic (published_diagnostics l) @ [cl_stderr l]"

fun write_chunks ::
  "write_env \<Rightarrow> nat \<Rightarrow> string \<Rightarrow> string list \<Rightarrow> string \<times> unit res" where
  "write_chunks env n written [] = (written, Inr ())"
| "write_chunks env n written (c # cs) =
     (case wenv_write_error env n of
        Some e \<Rightarrow> (wenv_flushed env written, Inl e)
      | None \<Rightarrow> write_chunks env (Suc n) (written @ c) cs)"

definition error_log_write ::
  "write_env \<Rightarrow> compilation_log \<Rightarrow> error_log \<Rightarrow> files \<Rightarrow> error_log \<times> files \<times> unit res" where
  "error_log_write env l el files =
     (case el_path el of
        None \<Rightarrow> (el, files, Inr ())
      | Some p \<Rightarrow>
          let el1 = el\<lparr>el_temp_nonce := el_temp_nonce el + 1\<rparr>;
              temporary = with_file_name (absolute p)
                (temporary_name env (absolute p) (el_temp_nonce el1)) in
          (case wenv_create_error env of
             Some e \<Rightarrow> (el1, files, Inl e)
           | None \<Rightarrow>
               (case write_chunks env 0 [] (log_chunks l) of
                  (written, Inl e) \<Rightarrow> (el1, files(temporary \<mapsto> written), Inl e)
                | (written, Inr _) \<Rightarrow>
                    (case wenv_shutdown_error env of
                       Some e \<Rightarrow> (el1, files(temporary \<mapsto> wenv_flushed env written), Inl e)
                     | None \<Rightarrow>
                         (case wenv_rename_error env of
                            Some e \<Rightarrow> (el1, files(temporary \<mapsto> written), Inl e)
                          | None \<Rightarrow>
                              (el1, files(absolute p \<mapsto> written, temporary := None), Inr ()))))))"

text \<open>The whole text of the published file.\<close>

definition log_text :: "compilation_log \<Rightarrow> string" where
  "log_text l = concat (log_chunks l)"

lemma write_chunks_ok:
  "write_chunks env n written cs = (w, Inr u) \<Longrightarrow> w = written @ concat cs"
  by (induction env n written cs rule: write_chunks.induct) (auto split: option.splits)

lemma with_file_name_differs:
  assumes "file_name p = Some n" and "length n < length m"
  shows "with_file_name p m \<noteq> p"
proof
  assume "with_file_name p m = p"
  then have "last p = Normal m" using assms(1) by (metis last_snoc with_file_name_def)
  moreover have "last p = Normal n"
    using assms(1) by (cases p rule: rev_cases) (auto simp: file_name_def split: component.splits)
  ultimately show False using assms(2) by simp
qed

lemma temporary_differs:
  assumes "file_name p \<noteq> None"
  shows "with_file_name p (temporary_name env p nonce) \<noteq> p"
proof -
  obtain n where n: "file_name p = Some n" using assms by blast
  show ?thesis by (rule with_file_name_differs [OF n]) (simp add: temporary_name_def n)
qed

section \<open>Properties\<close>

definition good_env :: write_env where
  "good_env =
     \<lparr>wenv_process_id = 7, wenv_create_error = None, wenv_write_error = (\<lambda>_. None),
      wenv_shutdown_error = None, wenv_rename_error = None, wenv_flushed = id\<rparr>"

definition demo_log_path :: normal_path where
  "demo_log_path = \<lparr>np_normal = [RootDir, Normal ''ghcid.txt''], np_relative = None\<rparr>"

text \<open>
  C28: publication is atomic: whatever fails, the error file either keeps its old contents or holds
  the complete new text, the latter exactly when \<open>write\<close> succeeds, and no file other than it and
  its temporary sibling is touched; success leaves no temporary file behind.
\<close>

theorem error_log_write_atomic:
  assumes "el_path el = Some p" and "file_name (absolute p) \<noteq> None"
    and "error_log_write env l el files = (el', files', r)"
  defines "tmp \<equiv> with_file_name (absolute p) (temporary_name env (absolute p) (el_temp_nonce el + 1))"
  shows "(case r of Inr _ \<Rightarrow> files' (absolute p) = Some (log_text l) \<and> files' tmp = None
          | Inl _ \<Rightarrow> files' (absolute p) = files (absolute p)) \<and>
    (\<forall>q. q \<noteq> absolute p \<and> q \<noteq> tmp \<longrightarrow> files' q = files q)"
proof -
  have ne: "tmp \<noteq> absolute p" unfolding tmp_def by (rule temporary_differs [OF assms(2)])
  obtain w r1 where w: "write_chunks env 0 [] (log_chunks l) = (w, r1)"
    by (cases "write_chunks env 0 [] (log_chunks l)")
  have ok: "w = log_text l" if "r1 = Inr u" for u
    using write_chunks_ok [OF w [unfolded that]] by (simp add: log_text_def)
  show ?thesis
    using assms(1,3) ne ok
    by (auto simp: error_log_write_def Let_def w tmp_def [symmetric] split: option.splits sum.splits)
qed

theorem error_log_write_atomic_witness:
  "\<exists>el' files' r. error_log_write good_env compilation_log_default (error_log_new (Some demo_log_path)) Map.empty
     = (el', files', r) \<and> r = Inr () \<and> files' (absolute demo_log_path) = Some (log_text compilation_log_default)"
proof -
  obtain el' files' r where w: "error_log_write good_env compilation_log_default
      (error_log_new (Some demo_log_path)) Map.empty = (el', files', r)"
    using prod_cases3 by blast
  then have "r = Inr ()"
    by (auto simp: error_log_write_def error_log_new_def Let_def good_env_def log_chunks_def headline_def
        published_diagnostics_def compilation_log_default_def)
  with error_log_write_atomic [OF _ _ w, of demo_log_path] w show ?thesis
    by (auto simp: error_log_new_def demo_log_path_def file_name_def absolute_def)
qed

text \<open>
  A log marked as failed is never published as a success: the text has no headline, and it
  shows the diagnostics or the raw stderr that explain it, so it is not empty.
\<close>

theorem failed_log_text:
  "log_text (mark_failed_with_diagnostic m l)
     = concat (map show_diagnostic (published_diagnostics (mark_failed_with_diagnostic m l))) @ cl_stderr l
   \<and> log_text (mark_failed_with_diagnostic m l) \<noteq> []"
proof -
  let ?l = "mark_failed_with_diagnostic m l"
  have summary: "headline ?l = []"
    by (simp add: headline_def mark_failed_with_diagnostic_def mark_failed_def Let_def)
  have stderr: "cl_stderr ?l = cl_stderr l"
    by (simp add: mark_failed_with_diagnostic_def mark_failed_def Let_def)
  have some: "cl_diagnostics ?l \<noteq> []"
    by (auto simp: mark_failed_with_diagnostic_def mark_failed_def Let_def)
  have "show_diagnostic d \<noteq> []" for d
    by (simp add: show_diagnostic_def)
  then show ?thesis
    using summary stderr some
    by (auto simp: log_text_def log_chunks_def published_diagnostics_def neq_Nil_conv)
qed

end
