(* ===== verification/WatcherEvent.thy ===== *)
theory WatcherEvent
  imports Events
begin

text \<open>
  The events the watcher sends to the manager (\<open>WatcherEvent\<close> in \<open>src/src/ghci/manager.rs\<close>): how
  two of them merge, and when one is already applied.
\<close>

section \<open>Operations\<close>

record watcher_event =
  we_events :: "file_event list"
  we_states :: source_snapshot
  we_haskell_files :: "path list"
  we_source_snapshot :: source_snapshot
  we_startup_retry :: bool

text \<open>The newest event kind of each path: older events for its path go.\<close>

definition supersede :: "file_event \<Rightarrow> file_event list \<Rightarrow> file_event list" where
  "supersede e es = bs_insert e (filter (\<lambda>x. as_path x \<noteq> as_path e) es)"

definition we_merge :: "watcher_event \<Rightarrow> watcher_event \<Rightarrow> watcher_event" where
  "we_merge a b =
     \<lparr>we_events = fold supersede (we_events b) (we_events a),
      we_states = bm_extend (we_states a) (we_states b),
      we_haskell_files = we_haskell_files b,
      we_source_snapshot = we_source_snapshot b,
      we_startup_retry = (we_startup_retry a \<or> we_startup_retry b)\<rparr>"

definition discard_applied ::
  "source_snapshot \<Rightarrow> source_snapshot option \<Rightarrow> watcher_event \<Rightarrow> bool \<times> watcher_event" where
  "discard_applied applied_states applied_snapshot e =
     (let es = filter (\<lambda>x. map_of (we_states e) (as_path x) \<noteq> map_of applied_states (as_path x)) (we_events e) in
      (es = [] \<and> (case applied_snapshot of Some a \<Rightarrow> a = we_source_snapshot e | None \<Rightarrow> False),
       e\<lparr>we_events := es\<rparr>))"

definition mark_applied ::
  "watcher_event \<Rightarrow> source_snapshot \<Rightarrow> source_snapshot option \<Rightarrow> source_snapshot \<times> source_snapshot option" where
  "mark_applied e applied_states applied_snapshot =
     (bm_extend applied_states (we_states e), Some (we_source_snapshot e))"

definition affected_paths :: "watcher_event \<Rightarrow> string option" where
  "affected_paths e =
     (if we_events e = [] then None
      else Some (str_join [newline] (map (\<lambda>x. ''  - '' @ path_str (as_path x)) (we_events e))))"

section \<open>Well-formed events\<close>

text \<open>
  What \<open>send_event\<close> of the watcher delivers and merging keeps: sets and maps in order, one event
  per path, and the captured state of each event's path.
\<close>

definition one_per_path :: "file_event list \<Rightarrow> bool" where
  "one_per_path es \<longleftrightarrow> inj_on as_path (set es)"

definition wf_event :: "watcher_event \<Rightarrow> bool" where
  "wf_event e \<longleftrightarrow> bs_inv (we_events e) \<and> one_per_path (we_events e) \<and>
     bm_inv (we_states e) \<and> bm_inv (we_source_snapshot e) \<and>
     (\<forall>x \<in> set (we_events e). map_of (we_states e) (as_path x) \<noteq> None)"

lemma set_supersede: "set (supersede e es) = insert e {x \<in> set es. as_path x \<noteq> as_path e}"
  by (simp add: supersede_def)

lemma bs_inv_supersede: "bs_inv es \<Longrightarrow> bs_inv (supersede e es)"
  by (simp add: supersede_def bs.sinv_ins bs.sinv_retain)

lemma one_per_path_supersede: "one_per_path es \<Longrightarrow> one_per_path (supersede e es)"
  by (auto simp: one_per_path_def set_supersede inj_on_def)

lemma set_fold_supersede:
  "one_per_path bs \<Longrightarrow> distinct bs \<Longrightarrow>
   set (fold supersede bs es) = set bs \<union> {x \<in> set es. as_path x \<notin> as_path ` set bs}"
proof (induction bs arbitrary: es)
  case (Cons b bs)
  have "one_per_path bs" "b \<notin> set bs" "as_path b \<notin> as_path ` set bs"
    using Cons.prems by (auto simp: one_per_path_def)
  with Cons show ?case by (auto simp: set_supersede)
qed simp

lemma fold_supersede_inv:
  "bs_inv es \<Longrightarrow> bs_inv (fold supersede bs es)"
  "one_per_path es \<Longrightarrow> one_per_path (fold supersede bs es)"
  by (induction bs arbitrary: es) (auto simp: bs_inv_supersede one_per_path_supersede)

lemma set_we_merge:
  "wf_event b \<Longrightarrow> set (we_events (we_merge a b))
     = set (we_events b) \<union> {x \<in> set (we_events a). as_path x \<notin> as_path ` set (we_events b)}"
  by (simp add: we_merge_def wf_event_def set_fold_supersede bs_inv_distinct)

lemma paths_we_merge:
  "wf_event b \<Longrightarrow> as_path ` set (we_events (we_merge a b)) = as_path ` set (we_events a) \<union> as_path ` set (we_events b)"
  by (auto simp: set_we_merge)

lemma states_we_merge:
  "wf_event a \<Longrightarrow> wf_event b \<Longrightarrow> map_of (we_states (we_merge a b)) = map_of (we_states a) ++ map_of (we_states b)"
  by (simp add: we_merge_def wf_event_def map_of_bm_extend)

lemma wf_we_merge:
  assumes "wf_event a" and "wf_event b"
  shows "wf_event (we_merge a b)"
proof -
  have "\<forall>x \<in> set (we_events (we_merge a b)). map_of (we_states (we_merge a b)) (as_path x) \<noteq> None"
    unfolding set_we_merge [OF assms(2)] states_we_merge [OF assms]
    using assms by (auto simp: wf_event_def map_add_def split: option.splits)
  then show ?thesis
    using assms by (simp add: wf_event_def we_merge_def fold_supersede_inv bm_inv_extend)
qed

lemma wf_discard: "wf_event e \<Longrightarrow> wf_event (snd (discard_applied s a e))"
  by (auto simp: wf_event_def discard_applied_def Let_def bs.sinv_retain one_per_path_def inj_on_def)

lemma discard_fields [simp]:
  "we_source_snapshot (snd (discard_applied s a e)) = we_source_snapshot e"
  "we_haskell_files (snd (discard_applied s a e)) = we_haskell_files e"
  "we_states (snd (discard_applied s a e)) = we_states e"
  by (simp_all add: discard_applied_def Let_def)

lemma merge_fields [simp]:
  "we_source_snapshot (we_merge a b) = we_source_snapshot b"
  "we_haskell_files (we_merge a b) = we_haskell_files b"
  by (simp_all add: we_merge_def)

lemma discard_True:
  "fst (discard_applied s a e) \<Longrightarrow> a = Some (we_source_snapshot e)"
  by (auto simp: discard_applied_def Let_def split: option.splits)

section \<open>Properties\<close>

definition demo_we :: "path \<Rightarrow> u64 \<Rightarrow> watcher_event" where
  "demo_we p h =
     \<lparr>we_events = [Modify p], we_states = [(p, \<lparr>fs_kind = File, fs_content_hash = Some h\<rparr>)],
      we_haskell_files = [p],
      we_source_snapshot = [(p, \<lparr>fs_kind = File, fs_content_hash = Some h\<rparr>)],
      we_startup_retry = False\<rparr>"

lemma wf_demo_we [simp]: "wf_event (demo_we p h)"
  by (simp add: wf_event_def demo_we_def bs_inv_def bm_inv_def one_per_path_def)

text \<open>
  Merging keeps one event per path, the newer one where both have one; states and the two
  snapshots are the newer ones; no path of either event is lost.
\<close>

theorem merge_newest_wins:
  assumes "wf_event a" and "wf_event b"
  shows "wf_event (we_merge a b) \<and>
    set (we_events (we_merge a b))
      = set (we_events b) \<union> {x \<in> set (we_events a). as_path x \<notin> as_path ` set (we_events b)} \<and>
    as_path ` set (we_events (we_merge a b)) = as_path ` set (we_events a) \<union> as_path ` set (we_events b) \<and>
    map_of (we_states (we_merge a b)) = map_of (we_states a) ++ map_of (we_states b) \<and>
    we_source_snapshot (we_merge a b) = we_source_snapshot b"
  using wf_we_merge [OF assms] set_we_merge [OF assms(2), of a] states_we_merge [OF assms] by auto

theorem merge_newest_wins_witness:
  "set (we_events (we_merge (demo_we [Normal ''A.hs''] 1) (demo_we [Normal ''B.hs''] 2)))
     = {Modify [Normal ''A.hs''], Modify [Normal ''B.hs'']}"
  by (rule trans [OF merge_newest_wins [THEN conjunct2, THEN conjunct1]]) (auto simp: demo_we_def wf_event_def
      bs_inv_def bm_inv_def one_per_path_def)

text \<open>
  Merging is associative, so how a burst of events was coalesced on its way to the manager
  does not matter.
\<close>

theorem merge_assoc:
  assumes "wf_event a" and "wf_event b" and "wf_event c"
  shows "we_merge (we_merge a b) c = we_merge a (we_merge b c)"
proof -
  let ?l = "we_merge (we_merge a b) c" and ?r = "we_merge a (we_merge b c)"
  have wf: "wf_event (we_merge a b)" "wf_event (we_merge b c)" "wf_event ?l" "wf_event ?r"
    by (simp_all add: wf_we_merge assms)
  have "set (we_events ?r) = set (we_events (we_merge b c))
      \<union> {x \<in> set (we_events a). as_path x \<notin> as_path ` set (we_events b) \<union> as_path ` set (we_events c)}"
    using set_we_merge [OF wf(2), of a] unfolding paths_we_merge [OF assms(3)] .
  then have "set (we_events ?l) = set (we_events ?r)"
    unfolding set_we_merge [OF assms(3)] set_we_merge [OF assms(2)] by auto
  then have "we_events ?l = we_events ?r"
    using wf by (simp add: wf_event_def bs_inv_inject)
  moreover have "we_states ?l = we_states ?r"
    using wf assms by (intro bm_inv_inject) (simp_all add: states_we_merge, simp_all add: wf_event_def)
  ultimately show ?thesis by (simp add: we_merge_def)
qed

theorem merge_assoc_witness:
  "we_merge (we_merge (demo_we [Normal ''A.hs''] 1) (demo_we [Normal ''B.hs''] 2)) (demo_we [Normal ''A.hs''] 3)
   = we_merge (demo_we [Normal ''A.hs''] 1) (we_merge (demo_we [Normal ''B.hs''] 2) (demo_we [Normal ''A.hs''] 3))"
  by (rule merge_assoc) simp_all

text \<open>
  An event is discarded exactly when what it carries has been applied: every event path has
  the applied state and the whole source snapshot is the applied one. So marking an event makes
  its duplicates disappear, and never hides a different state.
\<close>

theorem discard_applied_exact:
  assumes "wf_event e" and "bm_inv applied"
  shows "(fst (discard_applied applied snapshot e)
      \<longleftrightarrow> (\<forall>x \<in> set (we_events e). map_of (we_states e) (as_path x) = map_of applied (as_path x))
          \<and> snapshot = Some (we_source_snapshot e)) \<and>
    fst (discard_applied (fst (mark_applied e applied snapshot)) (snd (mark_applied e applied snapshot)) e)"
proof (rule conjI)
  show "fst (discard_applied applied snapshot e)
      \<longleftrightarrow> (\<forall>x \<in> set (we_events e). map_of (we_states e) (as_path x) = map_of applied (as_path x))
          \<and> snapshot = Some (we_source_snapshot e)"
    by (simp add: discard_applied_def Let_def filter_empty_conv eq_commute [of _ "we_source_snapshot e"]
        split: option.split)
  have same: "map_of (we_states e) (as_path x) = (map_of applied ++ map_of (we_states e)) (as_path x)"
    if "x \<in> set (we_events e)" for x
  proof -
    have "map_of (we_states e) (as_path x) \<noteq> None" using assms(1) that by (simp add: wf_event_def)
    then show ?thesis by (auto simp: map_add_def)
  qed
  have "bm_inv (we_states e)" using assms(1) by (simp add: wf_event_def)
  then have "filter (\<lambda>x. map_of (we_states e) (as_path x)
      \<noteq> map_of (bm_extend applied (we_states e)) (as_path x)) (we_events e) = []"
    unfolding filter_empty_conv map_of_bm_extend [OF assms(2) \<open>bm_inv (we_states e)\<close>]
    using same by blast
  then show "fst (discard_applied (fst (mark_applied e applied snapshot)) (snd (mark_applied e applied snapshot)) e)"
    by (simp add: mark_applied_def discard_applied_def Let_def)
qed

theorem discard_applied_exact_witness:
  "fst (discard_applied (fst (mark_applied (demo_we [Normal ''A.hs''] 1) [] None))
     (snd (mark_applied (demo_we [Normal ''A.hs''] 1) [] None)) (demo_we [Normal ''A.hs''] 1))"
  by (rule discard_applied_exact [THEN conjunct2]) simp_all

end
