(* ===== verification/Hooks.thy ===== *)
theory Hooks
  imports Prelude "HOL-Library.Sublist"
begin

text \<open>
  \<open>src/src/hooks.rs\<close> and \<open>src/src/maybe_async_command.rs\<close>: lifecycle events, the hooks configured
  for them and how their shell commands run. Running a command is the operating system's: its
  outcome is a parameter.
\<close>

section \<open>Lifecycle events\<close>

datatype hook_when = Before | After

datatype lifecycle_event = TestEvent | StartupEvent hook_when | ReloadEvent hook_when | RestartEvent hook_when

datatype command_kind = ShellKind | GhciKind

fun show_when :: "hook_when \<Rightarrow> string" where
  "show_when Before = ''before''"
| "show_when After = ''after''"

fun event_name :: "lifecycle_event \<Rightarrow> string" where
  "event_name TestEvent = ''test''"
| "event_name (StartupEvent w) = ''startup''"
| "event_name (ReloadEvent w) = ''reload''"
| "event_name (RestartEvent w) = ''restart''"

fun event_noun :: "lifecycle_event \<Rightarrow> string" where
  "event_noun TestEvent = ''testing''"
| "event_noun (StartupEvent w) = ''starting up''"
| "event_noun (ReloadEvent w) = ''reloading''"
| "event_noun (RestartEvent w) = ''restarting''"

fun event_when :: "lifecycle_event \<Rightarrow> hook_when option" where
  "event_when TestEvent = None"
| "event_when (StartupEvent w) = Some w"
| "event_when (ReloadEvent w) = Some w"
| "event_when (RestartEvent w) = Some w"

definition show_event :: "lifecycle_event \<Rightarrow> string" where
  "show_event e = (case event_when e of Some w \<Rightarrow> show_when w @ ''-'' | None \<Rightarrow> []) @ event_name e"

fun supported_kind :: "lifecycle_event \<Rightarrow> command_kind list" where
  "supported_kind (StartupEvent Before) = [ShellKind]"
| "supported_kind (StartupEvent After) = [GhciKind, ShellKind]"
| "supported_kind TestEvent = [GhciKind, ShellKind]"
| "supported_kind (ReloadEvent w) = [GhciKind, ShellKind]"
| "supported_kind (RestartEvent w) = [GhciKind, ShellKind]"

fun show_kind :: "command_kind \<Rightarrow> string" where
  "show_kind ShellKind = ''shell''"
| "show_kind GhciKind = ''ghci''"

text \<open>\<open>enum_iterator::all\<close> lists the variants in order.\<close>

definition all_events :: "lifecycle_event list" where
  "all_events = [TestEvent, StartupEvent Before, StartupEvent After, ReloadEvent Before,
     ReloadEvent After, RestartEvent Before, RestartEvent After]"

definition hook_options :: "(lifecycle_event \<times> command_kind) list" where
  "hook_options = concat (map (\<lambda>e. map (\<lambda>k. (e, k)) (supported_kind e)) all_events)"

definition arg_name :: "lifecycle_event \<times> command_kind \<Rightarrow> string" where
  "arg_name h = show_event (fst h) @ ''-'' @ show_kind (snd h)"

text \<open>\<open>GhciReloadKind\<close> of \<open>src/src/ghci/mod.rs\<close>: what a dispatch publishes through a watch channel.\<close>

datatype reload_kind = KindPending | KindNone | KindReload | KindRestart

section \<open>Hooks\<close>

record maybe_async_command =
  mac_is_async :: bool
  mac_command :: string

datatype hook_command = ShellCommand maybe_async_command | GhciHook string

fun command_kind_of :: "hook_command \<Rightarrow> command_kind" where
  "command_kind_of (ShellCommand c) = ShellKind"
| "command_kind_of (GhciHook c) = GhciKind"

record hook =
  hk_event :: lifecycle_event
  hk_command :: hook_command

record hook_opts =
  ho_hooks :: "hook list"
  ho_strict :: bool

definition enable_strict :: "hook_opts \<Rightarrow> hook_opts res" where
  "enable_strict opts =
     (if list_ex (\<lambda>h. case hk_command h of ShellCommand c \<Rightarrow> mac_is_async c | GhciHook g \<Rightarrow> False) (ho_hooks opts)
      then Inl (IoError ''--debug-mem does not support async: hooks'')
      else Inr (opts\<lparr>ho_strict := True\<rparr>))"

definition select_hooks :: "hook_opts \<Rightarrow> lifecycle_event \<Rightarrow> hook list" where
  "select_hooks opts event = filter (\<lambda>h. hk_event h = event) (ho_hooks opts)"

text \<open>
  The hooks of the command line: the values of each option in the order of the options, sorted
  (stably) with the shell commands first. The values come from \<open>clap\<close>.
\<close>

definition update_from_arg_matches ::
  "(string \<Rightarrow> string list) \<Rightarrow> (string \<Rightarrow> maybe_async_command list) \<Rightarrow> hook_opts \<Rightarrow> hook_opts" where
  "update_from_arg_matches ghci_values shell_values opts =
     (let hooks = ho_hooks opts @ concat (map (\<lambda>(e, k).
          case k of
            GhciKind \<Rightarrow> map (\<lambda>c. \<lparr>hk_event = e, hk_command = GhciHook c\<rparr>) (ghci_values (arg_name (e, k)))
          | ShellKind \<Rightarrow> map (\<lambda>c. \<lparr>hk_event = e, hk_command = ShellCommand c\<rparr>) (shell_values (arg_name (e, k))))
        hook_options) in
      opts\<lparr>ho_hooks := filter (\<lambda>h. command_kind_of (hk_command h) = ShellKind) hooks
                   @ filter (\<lambda>h. command_kind_of (hk_command h) = GhciKind) hooks\<rparr>)"

section \<open>Running shell hooks\<close>

text \<open>
  What a session does is recorded in a history: the hook commands that were run and (\<open>Did\<close>) other
  effects. The exit of a synchronous command, an error to execute it or whether it succeeded, is
  \<open>shell_result\<close>, which may depend on everything done before; a background command only starts.
\<close>

datatype 'c action = RunShell lifecycle_event maybe_async_command | RunGhci lifecycle_event string | Did 'c

type_synonym 'c shell_env = "'c action list \<Rightarrow> maybe_async_command \<Rightarrow> bool res"

definition run_hook_on ::
  "'c shell_env \<Rightarrow> 'c action list \<Rightarrow> bool \<Rightarrow> maybe_async_command \<Rightarrow> unit res" where
  "run_hook_on shell_result hist strict c =
     (if mac_is_async c then Inr ()
      else res_bind (shell_result hist c) (\<lambda>success.
        if \<not> strict \<or> success then Inr () else Inl (IoError (''Hook command failed: '' @ mac_command c))))"

fun run_shell_loop ::
  "'c shell_env \<Rightarrow> bool \<Rightarrow> hook list \<Rightarrow> 'c action list \<Rightarrow> 'c action list \<times> unit res" where
  "run_shell_loop shell_result strict [] hist = (hist, Inr ())"
| "run_shell_loop shell_result strict (h # hs) hist =
     (case hk_command h of
        GhciHook g \<Rightarrow> run_shell_loop shell_result strict hs hist
      | ShellCommand c \<Rightarrow>
          (case run_hook_on shell_result hist strict c of
             Inl e \<Rightarrow>
               if strict then (hist @ [RunShell (hk_event h) c], Inl e)
               else run_shell_loop shell_result strict hs (hist @ [RunShell (hk_event h) c])
           | Inr _ \<Rightarrow> run_shell_loop shell_result strict hs (hist @ [RunShell (hk_event h) c])))"

definition run_shell_hooks ::
  "'c shell_env \<Rightarrow> hook_opts \<Rightarrow> lifecycle_event \<Rightarrow> 'c action list \<Rightarrow> 'c action list \<times> unit res" where
  "run_shell_hooks shell_result opts event hist =
     run_shell_loop shell_result (ho_strict opts) (select_hooks opts event) hist"

section \<open>Facts\<close>

text \<open>The shell runs an event owes: its shell commands, in order.\<close>

definition shell_runs :: "hook list \<Rightarrow> 'c action list" where
  "shell_runs hs = concat (map (\<lambda>h. case hk_command h of ShellCommand c \<Rightarrow> [RunShell (hk_event h) c] | GhciHook g \<Rightarrow> []) hs)"

definition owed :: "hook_opts \<Rightarrow> lifecycle_event \<Rightarrow> 'c action list" where
  "owed opts event = shell_runs (select_hooks opts event)"

lemma shell_runs_simps [simp]:
  "shell_runs [] = []"
  "shell_runs (h # hs) = (case hk_command h of ShellCommand c \<Rightarrow> RunShell (hk_event h) c # shell_runs hs
     | GhciHook g \<Rightarrow> shell_runs hs)"
  by (simp_all add: shell_runs_def split: hook_command.split)

lemma run_shell_loop_advisory:
  "\<not> strict \<Longrightarrow> run_shell_loop shell_result strict hs hist = (hist @ shell_runs hs, Inr ())"
  by (induction shell_result strict hs hist rule: run_shell_loop.induct)
     (auto split: hook_command.split sum.split)

lemma run_shell_hooks_advisory:
  "\<not> ho_strict opts \<Longrightarrow> run_shell_hooks shell_result opts event hist = (hist @ owed opts event, Inr ())"
  by (simp add: run_shell_hooks_def owed_def run_shell_loop_advisory)

text \<open>Shell commands come first among the hooks of every event.\<close>

definition shell_first :: "hook list \<Rightarrow> bool" where
  "shell_first hs \<longleftrightarrow> (\<exists>as bs. hs = as @ bs \<and>
     (\<forall>h \<in> set as. command_kind_of (hk_command h) = ShellKind) \<and>
     (\<forall>h \<in> set bs. command_kind_of (hk_command h) = GhciKind))"

lemma shell_first_filter: "shell_first hs \<Longrightarrow> shell_first (filter P hs)"
proof -
  assume "shell_first hs"
  then obtain as bs where "hs = as @ bs" "\<forall>h \<in> set as. command_kind_of (hk_command h) = ShellKind"
    "\<forall>h \<in> set bs. command_kind_of (hk_command h) = GhciKind"
    by (auto simp: shell_first_def)
  then show ?thesis
    unfolding shell_first_def by (intro exI [of _ "filter P as"] exI [of _ "filter P bs"]) auto
qed

lemma shell_first_partition:
  "shell_first (filter (\<lambda>h. command_kind_of (hk_command h) = ShellKind) hs @
                filter (\<lambda>h. command_kind_of (hk_command h) = GhciKind) hs)"
  unfolding shell_first_def by (intro exI conjI, rule refl) auto

lemma update_shell_first: "shell_first (ho_hooks (update_from_arg_matches gs ss opts))"
  unfolding update_from_arg_matches_def Let_def by (simp add: shell_first_partition del: filter_append)

section \<open>Properties\<close>

text \<open>
  The options of the hooks do not clash: no two of them share a name, so every hook given on
  the command line is found under its own event and kind.
\<close>

theorem hook_options_distinct:
  "distinct (map arg_name hook_options) \<and>
   set hook_options = {(e, k). k \<in> set (supported_kind e)}"
proof -
  have all: "e \<in> set all_events" for e
    by (cases e; cases "the (event_when e)") (auto simp: all_events_def)
  have "distinct (map arg_name hook_options)"
    by (simp add: hook_options_def all_events_def arg_name_def show_event_def)
  moreover have "set hook_options = {(e, k). k \<in> set (supported_kind e)}"
    using all by (auto simp: hook_options_def)
  ultimately show ?thesis by blast
qed

end
