(* ===== verification/Manager.thy ===== *)
theory Manager
  imports WatcherEvent Hooks
begin

text \<open>
  \<open>src/src/ghci/manager.rs\<close>: the event loop that owns the \<open>ghci\<close> session, as a function of its
  state and the next thing that happens to it. What the manager asks of the session is the trace
  \<open>mg_ops\<close>; how the session and the other tasks answer is in the labels.
\<close>

section \<open>State\<close>

text \<open>What \<open>should_interrupt\<close> reads from the channel until it closes.\<close>

fun should_interrupt :: "reload_kind list \<Rightarrow> bool" where
  "should_interrupt [] = False"
| "should_interrupt (KindPending # ks) = should_interrupt ks"
| "should_interrupt (KindNone # ks) = False"
| "should_interrupt (KindRestart # ks) = False"
| "should_interrupt (KindReload # ks) = True"

text \<open>The calls the manager makes into the session and the hooks.\<close>

datatype session_op =
    OpBeforeHooks
  | OpReload watcher_event
  | OpAbort
  | OpSigint
  | OpFinishInterrupted bool
  | OpStop
  | OpRecoverKnown
  | OpRecover "path list"
  | OpRestart "path list option"

text \<open>Where \<open>wait_and_restart\<close> was called from; a dispatch left its pending event behind.\<close>

datatype crash_origin = FromStartup | FromWait | FromDispatch "watcher_event option"

datatype crash_stage = CrashDelay | CrashWatch | CrashRestart

record crash =
  cr_origin :: crash_origin
  cr_pending :: "watcher_event option"
  cr_attempted_states :: source_snapshot
  cr_attempted_snapshot :: "source_snapshot option"
  cr_first_retry :: bool
  cr_stage :: crash_stage

text \<open>
  \<open>PhRun\<close> is the head of \<open>run\<close>, with the event to retry or none (then it waits for one);
  \<open>PhDispatch\<close> the select loop of \<open>handle_event\<close>, with the event, the pending event and whether
  the interrupt decision is still open.
\<close>

datatype phase =
    PhRun "watcher_event option"
  | PhDispatch watcher_event "watcher_event option" bool
  | PhCrash crash
  | PhExit "unit res"

record manager_config =
  mc_interrupt_reloads :: bool
  mc_restart_on_exit :: bool

record manager =
  mg_setup_pending :: "watcher_event option"
  mg_channel :: "watcher_event option"
  mg_applied_states :: source_snapshot
  mg_applied_snapshot :: "source_snapshot option"
  mg_phase :: phase
  mg_ops :: "session_op list"

definition manager_init :: manager where
  "manager_init =
     \<lparr>mg_setup_pending = None, mg_channel = None, mg_applied_states = [], mg_applied_snapshot = None,
      mg_phase = PhRun None, mg_ops = []\<rparr>"

definition issue :: "session_op list \<Rightarrow> manager \<Rightarrow> manager" where
  "issue ops m = m\<lparr>mg_ops := mg_ops m @ ops\<rparr>"

definition goto :: "phase \<Rightarrow> manager \<Rightarrow> manager" where
  "goto p m = m\<lparr>mg_phase := p\<rparr>"

definition mark :: "watcher_event \<Rightarrow> manager \<Rightarrow> manager" where
  "mark e m =
     (let (states, snapshot) = mark_applied e (mg_applied_states m) (mg_applied_snapshot m) in
      m\<lparr>mg_applied_states := states, mg_applied_snapshot := snapshot\<rparr>)"

section \<open>The queue\<close>

definition merge_option :: "watcher_event option \<Rightarrow> watcher_event \<Rightarrow> watcher_event" where
  "merge_option pending e = (case pending of Some p \<Rightarrow> we_merge p e | None \<Rightarrow> e)"

text \<open>The \<open>setup_watcher\<close> task: coalesce what arrives, send it when the channel has room.\<close>

definition setup_receive :: "watcher_event \<Rightarrow> manager \<Rightarrow> manager" where
  "setup_receive e m = m\<lparr>mg_setup_pending := Some (merge_option (mg_setup_pending m) e)\<rparr>"

definition setup_send :: "manager \<Rightarrow> manager option" where
  "setup_send m =
     (case (mg_setup_pending m, mg_channel m) of
        (Some e, None) \<Rightarrow> Some (m\<lparr>mg_setup_pending := None, mg_channel := Some e\<rparr>)
      | _ \<Rightarrow> None)"

text \<open>
  \<open>drain_pending\<close> empties the channel into an event; \<open>refill\<close> says whether the setup task sends
  its pending event while the loop runs.
\<close>

definition absorb :: "watcher_event \<Rightarrow> watcher_event option \<Rightarrow> watcher_event" where
  "absorb e newer = (case newer of Some n \<Rightarrow> we_merge e n | None \<Rightarrow> e)"

definition drain_channel :: "bool \<Rightarrow> watcher_event \<Rightarrow> manager \<Rightarrow> watcher_event \<times> manager" where
  "drain_channel refill e m =
     (if refill
      then (absorb (absorb e (mg_channel m)) (mg_setup_pending m),
            m\<lparr>mg_channel := None, mg_setup_pending := None\<rparr>)
      else (absorb e (mg_channel m), m\<lparr>mg_channel := None\<rparr>))"

definition preserve_recovery_event :: "watcher_event \<Rightarrow> watcher_event option \<Rightarrow> watcher_event" where
  "preserve_recovery_event e pending = absorb e pending"

section \<open>What can happen\<close>

datatype dispatch_result = DispatchOk | BrokenPipe | RecoveryFailure | DispatchError io_error

datatype restart_result = RestartOk | RestartOkExited | RestartExited | RestartError io_error

datatype label =
    Arrive watcher_event
  | SetupSend
  | Shutdown "io_error option"
  | ShutdownAwaitingExit
  | Begin "io_error option"
  | Receive bool "reload_kind list" bool "io_error option" "io_error option"
  | Exited dispatch_result bool "io_error option"
  | Finished dispatch_result bool "io_error option" bool
  | DelayElapsed bool
  | RestartDone restart_result bool

text \<open>An error leaves \<open>run\<close>; otherwise the manager goes on.\<close>

definition or_exit :: "io_error option \<Rightarrow> manager \<Rightarrow> manager \<Rightarrow> manager" where
  "or_exit err m m' = (case err of Some e \<Rightarrow> goto (PhExit (Inl e)) m | None \<Rightarrow> m')"

section \<open>Handlers\<close>

text \<open>The end of \<open>handle_event\<close>: retry what arrived during the dispatch unless it is applied.\<close>

definition finish_pending :: "bool \<Rightarrow> watcher_event option \<Rightarrow> manager \<Rightarrow> manager" where
  "finish_pending refill pending m =
     (case pending of
        None \<Rightarrow> goto (PhRun None) m
      | Some p \<Rightarrow>
          let (p1, m1) = drain_channel refill p m;
              (applied, p2) = discard_applied (mg_applied_states m1) (mg_applied_snapshot m1) p1 in
          if applied then goto (PhRun None) m1 else goto (PhRun (Some p2)) m1)"

text \<open>Entering \<open>wait_and_restart\<close>.\<close>

definition crash_start :: "crash_origin \<Rightarrow> watcher_event option \<Rightarrow> manager \<Rightarrow> manager" where
  "crash_start origin initial m =
     goto (PhCrash \<lparr>cr_origin = origin, cr_pending = initial, cr_attempted_states = [],
       cr_attempted_snapshot = None, cr_first_retry = True, cr_stage = CrashDelay\<rparr>) m"

text \<open>\<open>wait_for_event\<close>: a notification, or the exit of the session.\<close>

definition waiting_receive :: "manager \<Rightarrow> manager option" where
  "waiting_receive m =
     (case mg_channel m of
        None \<Rightarrow> None
      | Some e \<Rightarrow>
          let m1 = m\<lparr>mg_channel := None\<rparr>;
              (applied, e1) = discard_applied (mg_applied_states m1) (mg_applied_snapshot m1) e in
          Some (if applied then m1 else goto (PhRun (Some e1)) m1))"

definition waiting_exited :: "bool \<Rightarrow> io_error option \<Rightarrow> manager \<Rightarrow> manager" where
  "waiting_exited recovery_required err m =
     (if recovery_required
      then let m1 = issue [OpRecoverKnown] m in or_exit err m1 (goto (PhRun None) m1)
      else crash_start FromWait None m)"

text \<open>\<open>handle_event\<close> up to the spawned dispatch.\<close>

definition begin_dispatch :: "watcher_event \<Rightarrow> io_error option \<Rightarrow> manager \<Rightarrow> manager" where
  "begin_dispatch e err m =
     (let m1 = issue [OpBeforeHooks] m in
      or_exit err m1 (goto (PhDispatch e None True) (issue [OpReload e] m1)))"

text \<open>The immediate replacement after a recovery kill.\<close>

definition recover :: "watcher_event \<Rightarrow> io_error option \<Rightarrow> manager \<Rightarrow> manager" where
  "recover e err m =
     (let m1 = issue [OpRecover (we_haskell_files e)] m in or_exit err m1 (goto (PhRun None) m1))"

text \<open>A notification during a dispatch: interrupt it, or keep the notification for later.\<close>

definition dispatch_receive ::
  "manager_config \<Rightarrow> watcher_event \<Rightarrow> watcher_event option \<Rightarrow> bool
   \<Rightarrow> bool \<Rightarrow> reload_kind list \<Rightarrow> bool \<Rightarrow> io_error option \<Rightarrow> io_error option
   \<Rightarrow> manager \<Rightarrow> manager option" where
  "dispatch_receive cfg e pending undecided refill kinds sigint_ok finish_err recover_err m =
     (case mg_channel m of
        None \<Rightarrow> None
      | Some n \<Rightarrow>
          let (new_event, m1) = drain_channel refill n (m\<lparr>mg_channel := None\<rparr>) in
          Some (if mc_interrupt_reloads cfg \<and> undecided \<and> should_interrupt kinds
            then
              let merged = we_merge (absorb e pending) new_event;
                  m2 = issue [OpAbort, OpSigint, OpFinishInterrupted sigint_ok] m1 in
              or_exit finish_err m2
                (if sigint_ok then goto (PhRun (Some merged)) m2 else recover merged recover_err m2)
            else
              goto (PhDispatch e (Some (merge_option pending new_event))
                (undecided \<and> \<not> mc_interrupt_reloads cfg)) m1))"

text \<open>The exit status arrives first: the dispatch is awaited before its result is judged.\<close>

definition dispatch_exited ::
  "watcher_event \<Rightarrow> watcher_event option \<Rightarrow> dispatch_result \<Rightarrow> bool \<Rightarrow> io_error option
   \<Rightarrow> manager \<Rightarrow> manager" where
  "dispatch_exited e pending result recovery_required err m =
     (let pending1 = (if result = RecoveryFailure then Some (preserve_recovery_event e pending) else pending);
          pending2 = (if recovery_required then Some (preserve_recovery_event e pending1) else pending1) in
      case result of
        DispatchError x \<Rightarrow> goto (PhExit (Inl x)) m
      | _ \<Rightarrow>
          if result = RecoveryFailure \<or> recovery_required
          then recover (the pending2) err m
          else crash_start (FromDispatch pending) (Some e) m)"

text \<open>The dispatch finishes first; after a broken pipe the exit status is awaited.\<close>

definition dispatch_finished ::
  "watcher_event \<Rightarrow> watcher_event option \<Rightarrow> dispatch_result \<Rightarrow> bool \<Rightarrow> io_error option \<Rightarrow> bool
   \<Rightarrow> manager \<Rightarrow> manager" where
  "dispatch_finished e pending result recovery_required err refill m =
     (case result of
        DispatchOk \<Rightarrow> finish_pending refill pending (mark e m)
      | DispatchError x \<Rightarrow> goto (PhExit (Inl x)) m
      | _ \<Rightarrow>
          if result = RecoveryFailure \<or> recovery_required
          then recover (preserve_recovery_event e pending) err m
          else crash_start (FromDispatch pending) (Some e) m)"

section \<open>Crash recovery\<close>

definition start_restart :: "crash \<Rightarrow> manager \<Rightarrow> manager" where
  "start_restart c m =
     goto (PhCrash (c\<lparr>cr_stage := CrashRestart, cr_first_retry := False\<rparr>))
       (issue [OpRestart (map_option we_haskell_files (cr_pending c))] m)"

text \<open>After a second crash: wait until something differs from what was already attempted.\<close>

definition crash_watch :: "bool \<Rightarrow> crash \<Rightarrow> manager \<Rightarrow> manager" where
  "crash_watch refill c m =
     (case cr_pending c of
        None \<Rightarrow> goto (PhCrash (c\<lparr>cr_stage := CrashWatch\<rparr>)) m
      | Some e \<Rightarrow>
          let (e1, m1) = drain_channel refill e m;
              (applied, e2) = discard_applied (cr_attempted_states c) (cr_attempted_snapshot c) e1 in
          if applied then goto (PhCrash (c\<lparr>cr_pending := None, cr_stage := CrashWatch\<rparr>)) m1
          else start_restart (c\<lparr>cr_pending := Some e2\<rparr>) m1)"

definition crash_receive :: "bool \<Rightarrow> crash \<Rightarrow> manager \<Rightarrow> manager option" where
  "crash_receive refill c m =
     (case mg_channel m of
        None \<Rightarrow> None
      | Some e \<Rightarrow>
          let m1 = m\<lparr>mg_channel := None\<rparr> in
          (case cr_stage c of
             CrashDelay \<Rightarrow> Some (goto (PhCrash (c\<lparr>cr_pending := Some (merge_option (cr_pending c) e)\<rparr>)) m1)
           | CrashWatch \<Rightarrow> Some (crash_watch refill (c\<lparr>cr_pending := Some e\<rparr>) m1)
           | CrashRestart \<Rightarrow> None))"

definition delay_elapsed :: "manager_config \<Rightarrow> bool \<Rightarrow> crash \<Rightarrow> manager \<Rightarrow> manager" where
  "delay_elapsed cfg refill c m =
     (if \<not> cr_first_retry c \<and> \<not> mc_restart_on_exit cfg then crash_watch refill c m
      else start_restart c m)"

text \<open>The caller's treatment of \<open>RetryResult::Restarted\<close>.\<close>

definition crash_finish :: "bool \<Rightarrow> crash \<Rightarrow> manager \<Rightarrow> manager" where
  "crash_finish refill c m =
     (let m1 = (case cr_pending c of Some e \<Rightarrow> mark e m | None \<Rightarrow> m) in
      case cr_origin c of
        FromDispatch pending \<Rightarrow> finish_pending refill pending m1
      | _ \<Rightarrow> goto (PhRun None) m1)"

text \<open>The replacement crashed too: its state counts as attempted, newer events are pulled in.\<close>

definition crash_again :: "bool \<Rightarrow> crash \<Rightarrow> manager \<Rightarrow> manager" where
  "crash_again refill c m =
     (let (states, snapshot) =
            (case cr_pending c of
               Some e \<Rightarrow> mark_applied e (cr_attempted_states c) (cr_attempted_snapshot c)
             | None \<Rightarrow> (cr_attempted_states c, cr_attempted_snapshot c));
          (pending, m1) =
            (case mg_channel m of
               None \<Rightarrow> (None, m)
             | Some e \<Rightarrow>
                 (let (e1, m1) = drain_channel refill e (m\<lparr>mg_channel := None\<rparr>) in (Some e1, m1)));
          pending1 =
            (case pending of
               None \<Rightarrow> None
             | Some e \<Rightarrow>
                 (let (applied, e1) = discard_applied states snapshot e in
                  if applied then None else Some e1)) in
      goto (PhCrash (c\<lparr>cr_pending := pending1, cr_attempted_states := states,
        cr_attempted_snapshot := snapshot, cr_stage := CrashDelay\<rparr>)) m1)"

definition restart_done :: "restart_result \<Rightarrow> bool \<Rightarrow> crash \<Rightarrow> manager \<Rightarrow> manager" where
  "restart_done result refill c m =
     (case result of
        RestartError x \<Rightarrow> goto (PhExit (Inl x)) m
      | RestartOk \<Rightarrow> crash_finish refill c m
      | _ \<Rightarrow> crash_again refill c m)"

section \<open>The machine\<close>

text \<open>
  Shutdown stops the session from the loop and from a dispatch (which is cancelled first); a crashed
  session is already gone.
\<close>

definition on_shutdown :: "io_error option \<Rightarrow> manager \<Rightarrow> manager option" where
  "on_shutdown err m =
     (let stopped = (\<lambda>m1. or_exit err m1 (goto (PhExit (Inr ())) m1)) in
      case mg_phase m of
        PhRun None \<Rightarrow> Some (stopped (issue [OpStop] m))
      | PhDispatch e p u \<Rightarrow> Some (stopped (issue [OpAbort, OpStop] m))
      | PhCrash c \<Rightarrow> Some (goto (PhExit (Inr ())) m)
      | _ \<Rightarrow> None)"

fun mgr_step :: "manager_config \<Rightarrow> label \<Rightarrow> manager \<Rightarrow> manager option" where
  "mgr_step cfg (Arrive e) m = Some (setup_receive e m)"
| "mgr_step cfg SetupSend m = setup_send m"
| "mgr_step cfg (Shutdown err) m = on_shutdown err m"
| "mgr_step cfg ShutdownAwaitingExit m =
     (case mg_phase m of
        PhDispatch e p u \<Rightarrow> Some (goto (PhExit (Inr ())) (issue [OpAbort] m))
      | _ \<Rightarrow> None)"
| "mgr_step cfg (Begin err) m =
     (case mg_phase m of PhRun (Some e) \<Rightarrow> Some (begin_dispatch e err m) | _ \<Rightarrow> None)"
| "mgr_step cfg (Receive refill kinds sigint_ok finish_err recover_err) m =
     (case mg_phase m of
        PhRun None \<Rightarrow> waiting_receive m
      | PhDispatch e p u \<Rightarrow> dispatch_receive cfg e p u refill kinds sigint_ok finish_err recover_err m
      | PhCrash c \<Rightarrow> crash_receive refill c m
      | _ \<Rightarrow> None)"
| "mgr_step cfg (Exited result recovery_required err) m =
     (case mg_phase m of
        PhRun None \<Rightarrow> Some (waiting_exited recovery_required err m)
      | PhDispatch e p u \<Rightarrow> Some (dispatch_exited e p result recovery_required err m)
      | _ \<Rightarrow> None)"
| "mgr_step cfg (Finished result recovery_required err refill) m =
     (case mg_phase m of
        PhDispatch e p u \<Rightarrow> Some (dispatch_finished e p result recovery_required err refill m)
      | _ \<Rightarrow> None)"
| "mgr_step cfg (DelayElapsed refill) m =
     (case mg_phase m of
        PhCrash c \<Rightarrow> if cr_stage c = CrashDelay then Some (delay_elapsed cfg refill c m) else None
      | _ \<Rightarrow> None)"
| "mgr_step cfg (RestartDone result refill) m =
     (case mg_phase m of
        PhCrash c \<Rightarrow> if cr_stage c = CrashRestart then Some (restart_done result refill c m) else None
      | _ \<Rightarrow> None)"

fun mgr_run :: "manager_config \<Rightarrow> label list \<Rightarrow> manager \<Rightarrow> manager option" where
  "mgr_run cfg [] m = Some m"
| "mgr_run cfg (l # ls) m = Option.bind (mgr_step cfg l m) (mgr_run cfg ls)"

text \<open>
  \<open>run_ghci\<close> starts the manager after the initial load, or in \<open>wait_and_restart\<close> when the
  session did not survive it.
\<close>

definition manager_start :: "bool \<Rightarrow> manager" where
  "manager_start crashed = (if crashed then crash_start FromStartup None manager_init else manager_init)"

inductive mgr_reach :: "manager_config \<Rightarrow> bool \<Rightarrow> label list \<Rightarrow> manager \<Rightarrow> bool" for cfg crashed where
  reach_start: "mgr_reach cfg crashed [] (manager_start crashed)"
| reach_step: "mgr_reach cfg crashed ls m \<Longrightarrow> mgr_step cfg l m = Some m' \<Longrightarrow>
    mgr_reach cfg crashed (ls @ [l]) m'"

lemma mgr_run_append:
  "mgr_run cfg (ls @ ls') m = Option.bind (mgr_run cfg ls m) (mgr_run cfg ls')"
  by (induction ls arbitrary: m) (auto simp: Option.bind_eq_Some_conv split: Option.bind_splits)

lemma mgr_reach_run: "mgr_reach cfg crashed ls m \<longleftrightarrow> mgr_run cfg ls (manager_start crashed) = Some m"
proof
  show "mgr_reach cfg crashed ls m \<Longrightarrow> mgr_run cfg ls (manager_start crashed) = Some m"
    by (induction rule: mgr_reach.induct) (auto simp: mgr_run_append)
  show "mgr_run cfg ls (manager_start crashed) = Some m \<Longrightarrow> mgr_reach cfg crashed ls m"
  proof (induction ls arbitrary: m rule: rev_induct)
    case (snoc l ls)
    then obtain m1 where "mgr_run cfg ls (manager_start crashed) = Some m1" "mgr_step cfg l m1 = Some m"
      by (auto simp: mgr_run_append Option.bind_eq_Some_conv)
    with snoc.IH show ?case by (auto intro: mgr_reach.intros)
  qed (auto intro: mgr_reach.intros)
qed

end
