(* ===== verification/ManagerProps.thy ===== *)
theory ManagerProps
  imports Manager
begin

text \<open>
  What the manager guarantees about the changes the watcher delivers, two kinds of runs in which a
  change is lost, and when it interrupts the session.
\<close>

section \<open>The newest snapshot\<close>

text \<open>The snapshot of the last event the watcher delivered in a run.\<close>

fun last_arrived :: "label list \<Rightarrow> source_snapshot option" where
  "last_arrived [] = None"
| "last_arrived (l # ls) =
     (case last_arrived ls of
        Some s \<Rightarrow> Some s
      | None \<Rightarrow> (case l of Arrive e \<Rightarrow> Some (we_source_snapshot e) | _ \<Rightarrow> None))"

lemma last_arrived_snoc:
  "last_arrived (ls @ [l]) = (case l of Arrive e \<Rightarrow> Some (we_source_snapshot e) | _ \<Rightarrow> last_arrived ls)"
  by (induction ls) (auto split: label.splits option.splits)

text \<open>Where the manager keeps the newest snapshot: in its queues, its phase, or as applied.\<close>

definition first_of :: "'a option \<Rightarrow> 'a option \<Rightarrow> 'a option" where
  "first_of a b = (case a of Some x \<Rightarrow> Some x | None \<Rightarrow> b)"

lemma first_of_simps [simp]: "first_of None b = b" "first_of (Some x) b = Some x"
  by (simp_all add: first_of_def)

definition snap :: "watcher_event option \<Rightarrow> source_snapshot option" where
  "snap e = map_option we_source_snapshot e"

lemma snap_simps [simp]: "snap None = None" "snap (Some e) = Some (we_source_snapshot e)"
  by (simp_all add: snap_def)

fun phase_newest :: "phase \<Rightarrow> source_snapshot option \<Rightarrow> source_snapshot option" where
  "phase_newest (PhRun e) applied = first_of (snap e) applied"
| "phase_newest (PhDispatch e p u) applied = first_of (snap p) (Some (we_source_snapshot e))"
| "phase_newest (PhCrash c) applied =
     first_of (snap (cr_pending c)) (first_of (cr_attempted_snapshot c) applied)"
| "phase_newest (PhExit r) applied = applied"

definition newest :: "manager \<Rightarrow> source_snapshot option" where
  "newest m = first_of (snap (mg_setup_pending m)) (first_of (snap (mg_channel m))
     (phase_newest (mg_phase m) (mg_applied_snapshot m)))"

lemma snap_absorb [simp]:
  "we_source_snapshot (absorb e n) = (case n of Some x \<Rightarrow> we_source_snapshot x | None \<Rightarrow> we_source_snapshot e)"
  by (simp add: absorb_def split: option.split)

lemma snap_merge_option [simp]: "we_source_snapshot (merge_option p e) = we_source_snapshot e"
  by (simp add: merge_option_def split: option.split)

lemmas mgr_fields = issue_def goto_def mark_def mark_applied_def

section \<open>Runs without overtaking\<close>

text \<open>
  A crash during a dispatch that already has a pending event is left aside: see
  \<open>overtaken_snapshot_applied\<close> below.
\<close>

definition overtaken :: "manager \<Rightarrow> bool" where
  "overtaken m \<longleftrightarrow>
     (case mg_phase m of PhCrash c \<Rightarrow> (case cr_origin c of FromDispatch (Some p) \<Rightarrow> True | _ \<Rightarrow> False) | _ \<Rightarrow> False)"

definition recovered :: "manager \<Rightarrow> bool" where
  "recovered m \<longleftrightarrow> list_ex (\<lambda>op. case op of OpRecover fs \<Rightarrow> True | _ \<Rightarrow> False) (mg_ops m)"

inductive calm_reach :: "manager_config \<Rightarrow> bool \<Rightarrow> label list \<Rightarrow> manager \<Rightarrow> bool" for cfg crashed where
  calm_start: "calm_reach cfg crashed [] (manager_start crashed)"
| calm_step: "calm_reach cfg crashed ls m \<Longrightarrow> mgr_step cfg l m = Some m' \<Longrightarrow>
    \<not> overtaken m' \<Longrightarrow> \<not> recovered m' \<Longrightarrow> calm_reach cfg crashed (ls @ [l]) m'"

text \<open>A crash in the calm: a restart in progress with no event has attempted none before.\<close>

definition calm_crash :: "crash \<Rightarrow> bool" where
  "calm_crash c \<longleftrightarrow> (cr_stage c = CrashRestart \<and> cr_pending c = None \<longrightarrow> cr_attempted_snapshot c = None) \<and>
     (cr_stage c = CrashDelay \<and> cr_first_retry c \<longrightarrow> cr_attempted_snapshot c = None) \<and>
     (cr_stage c = CrashRestart \<longrightarrow> \<not> cr_first_retry c)"

definition calm_inv :: "label list \<Rightarrow> manager \<Rightarrow> bool" where
  "calm_inv ls m \<longleftrightarrow>
     (case mg_phase m of
        PhExit r \<Rightarrow> True
      | PhCrash c \<Rightarrow> calm_crash c \<and> newest m = last_arrived ls
      | _ \<Rightarrow> newest m = last_arrived ls)"

definition keeps :: "manager \<Rightarrow> manager \<Rightarrow> bool" where
  "keeps m m' \<longleftrightarrow>
     (case mg_phase m' of
        PhExit r \<Rightarrow> True
      | PhCrash c \<Rightarrow> calm_crash c \<and> newest m' = newest m
      | _ \<Rightarrow> newest m' = newest m)"

lemma keeps_or_exit: "keeps m m' \<Longrightarrow> keeps m (or_exit err m1 m')"
  by (cases err) (simp_all add: or_exit_def keeps_def goto_def)

lemma keeps_finish_pending:
  assumes "newest m = first_of (snap (mg_setup_pending m1)) (first_of (snap (mg_channel m1))
     (first_of (snap p) (mg_applied_snapshot m1)))"
  shows "keeps m (finish_pending refill p m1)"
proof (cases p)
  case None
  then show ?thesis using assms by (simp add: keeps_def finish_pending_def goto_def newest_def)
next
  case (Some e)
  obtain e1 m2 where d: "drain_channel refill e m1 = (e1, m2)" by (cases "drain_channel refill e m1")
  obtain a e2 where a: "discard_applied (mg_applied_states m2) (mg_applied_snapshot m2) e1 = (a, e2)"
    by (cases "discard_applied (mg_applied_states m2) (mg_applied_snapshot m2) e1")
  have e2: "we_source_snapshot e2 = we_source_snapshot e1"
    using discard_fields(1) [of "mg_applied_states m2" "mg_applied_snapshot m2" e1] a by simp
  have ap: "mg_applied_snapshot m2 = Some (we_source_snapshot e1)" if a
    using discard_True [of "mg_applied_states m2" "mg_applied_snapshot m2" e1] a that by simp
  have new: "first_of (snap (mg_setup_pending m2)) (Some (we_source_snapshot e1)) = newest m"
    and ch: "mg_channel m2 = None"
    using d assms Some by (auto simp: drain_channel_def first_of_def split: if_splits option.splits)
  show ?thesis
    using Some d a e2 ap new ch
    by (auto simp: finish_pending_def keeps_def goto_def newest_def Let_def)
qed

lemma drain_snap:
  "drain_channel refill e m = (e1, m1) \<Longrightarrow>
     first_of (snap (mg_setup_pending m)) (first_of (snap (mg_channel m)) (Some (we_source_snapshot e)))
       = first_of (snap (mg_setup_pending m1)) (Some (we_source_snapshot e1)) \<and>
     mg_channel m1 = None \<and> mg_applied_snapshot m1 = mg_applied_snapshot m \<and> mg_phase m1 = mg_phase m"
  by (auto simp: drain_channel_def first_of_def split: if_splits option.splits)

lemma keeps_setup_send: "setup_send m = Some m' \<Longrightarrow> newest m' = newest m \<and> mg_phase m' = mg_phase m"
  by (auto simp: setup_send_def newest_def split: option.splits)

lemma keeps_waiting_receive:
  assumes "waiting_receive m = Some m'" and "mg_phase m = PhRun None"
  shows "keeps m m'"
proof -
  obtain e where e: "mg_channel m = Some e" using assms by (auto simp: waiting_receive_def split: option.splits)
  obtain a e1 where a: "discard_applied (mg_applied_states m) (mg_applied_snapshot m) e = (a, e1)"
    by (cases "discard_applied (mg_applied_states m) (mg_applied_snapshot m) e")
  have e1: "we_source_snapshot e1 = we_source_snapshot e"
    using discard_fields(1) [of "mg_applied_states m" "mg_applied_snapshot m" e] a by simp
  have ap: "mg_applied_snapshot m = Some (we_source_snapshot e)" if a
    using discard_True [of "mg_applied_states m" "mg_applied_snapshot m" e] a that by simp
  show ?thesis
    using assms e a e1 ap by (auto simp: waiting_receive_def keeps_def newest_def goto_def Let_def)
qed

lemma keeps_waiting_exited:
  assumes "mg_phase m = PhRun None"
  shows "keeps m (waiting_exited rr err m)"
proof (cases rr)
  case True
  have "keeps m (goto (PhRun None) (issue [OpRecoverKnown] m))"
    using assms by (simp add: keeps_def goto_def newest_def issue_def)
  then show ?thesis using True by (simp add: waiting_exited_def Let_def keeps_or_exit)
next
  case False
  then show ?thesis
    using assms by (simp add: waiting_exited_def crash_start_def keeps_def goto_def newest_def calm_crash_def)
qed

lemma keeps_begin: "mg_phase m = PhRun (Some e) \<Longrightarrow> keeps m (begin_dispatch e err m)"
  unfolding begin_dispatch_def Let_def
  by (rule keeps_or_exit) (simp add: keeps_def goto_def newest_def issue_def)

lemma recovered_recover: "recovered (recover e err m)"
  by (auto simp: recover_def recovered_def or_exit_def issue_def goto_def Let_def split: option.split)

lemma keeps_dispatch_receive:
  assumes "dispatch_receive cfg e p u refill kinds ok ferr rerr m = Some m'"
    and "mg_phase m = PhDispatch e p u" and "\<not> recovered m'"
  shows "keeps m m'"
proof -
  obtain n where n: "mg_channel m = Some n"
    using assms(1) by (auto simp: dispatch_receive_def split: option.splits)
  obtain e1 m1 where d: "drain_channel refill n (m\<lparr>mg_channel := None\<rparr>) = (e1, m1)"
    by (cases "drain_channel refill n (m\<lparr>mg_channel := None\<rparr>)")
  note s = drain_snap [OF d]
  show ?thesis
  proof (cases "mc_interrupt_reloads cfg \<and> u \<and> should_interrupt kinds")
    case True
    then have m': "m' = or_exit ferr (issue [OpAbort, OpSigint, OpFinishInterrupted ok] m1)
        (if ok then goto (PhRun (Some (we_merge (absorb e p) e1))) (issue [OpAbort, OpSigint, OpFinishInterrupted ok] m1)
         else recover (we_merge (absorb e p) e1) rerr (issue [OpAbort, OpSigint, OpFinishInterrupted ok] m1))"
      using assms(1) n d by (simp add: dispatch_receive_def Let_def)
    have "ok \<or> ferr \<noteq> None"
      using assms(3) unfolding m' by (cases ok; cases ferr) (auto simp: or_exit_def recovered_recover)
    then show ?thesis
      using s n assms(2) unfolding m'
      by (cases ferr) (auto simp: or_exit_def keeps_def goto_def issue_def newest_def)
  next
    case False
    then have m': "m' = goto (PhDispatch e (Some (merge_option p e1)) (u \<and> \<not> mc_interrupt_reloads cfg)) m1"
      using assms(1) n d by (simp add: dispatch_receive_def if_not_P [OF False])
    show ?thesis using s n assms(2) by (simp add: m' keeps_def goto_def newest_def)
  qed
qed

lemma keeps_crash_start:
  assumes "mg_phase m = PhDispatch e p u" and "\<not> overtaken (crash_start (FromDispatch p) (Some e) m)"
  shows "keeps m (crash_start (FromDispatch p) (Some e) m)"
  using assms by (cases p)
    (auto simp: crash_start_def keeps_def goto_def newest_def overtaken_def calm_crash_def)

lemma keeps_dispatch_exited:
  assumes "mg_phase m = PhDispatch e p u" and "\<not> recovered (dispatch_exited e p r rr err m)"
    and "\<not> overtaken (dispatch_exited e p r rr err m)"
  shows "keeps m (dispatch_exited e p r rr err m)"
proof (cases r)
  case (DispatchError x)
  then show ?thesis by (simp add: dispatch_exited_def keeps_def goto_def)
qed (use assms recovered_recover keeps_crash_start [OF assms(1)] in
      \<open>auto simp: dispatch_exited_def Let_def split: if_splits\<close>)

lemma keeps_dispatch_finished:
  assumes "mg_phase m = PhDispatch e p u" and "\<not> recovered (dispatch_finished e p r rr err refill m)"
    and "\<not> overtaken (dispatch_finished e p r rr err refill m)"
  shows "keeps m (dispatch_finished e p r rr err refill m)"
proof (cases r)
  case (DispatchError x)
  then show ?thesis by (simp add: dispatch_finished_def keeps_def goto_def)
next
  case DispatchOk
  then show ?thesis
    using assms(1) by (auto simp: dispatch_finished_def newest_def mark_def mark_applied_def
        intro!: keeps_finish_pending)
qed (use assms recovered_recover keeps_crash_start [OF assms(1)] in
      \<open>auto simp: dispatch_finished_def Let_def split: if_splits\<close>)

definition crash_newest :: "crash \<Rightarrow> manager \<Rightarrow> source_snapshot option" where
  "crash_newest c m = first_of (snap (mg_setup_pending m)) (first_of (snap (mg_channel m))
     (first_of (snap (cr_pending c)) (first_of (cr_attempted_snapshot c) (mg_applied_snapshot m))))"

lemma keeps_start_restart:
  assumes "newest m = crash_newest c m1" and "cr_pending c \<noteq> None \<or> cr_attempted_snapshot c = None"
  shows "keeps m (start_restart c m1)"
  using assms
  by (auto simp: start_restart_def keeps_def goto_def issue_def newest_def crash_newest_def calm_crash_def)

lemma keeps_crash_watch:
  assumes "newest m = crash_newest c m1"
  shows "keeps m (crash_watch refill c m1)"
proof (cases "cr_pending c")
  case None
  then show ?thesis using assms
    by (simp add: crash_watch_def keeps_def goto_def newest_def crash_newest_def calm_crash_def)
next
  case (Some e)
  obtain e1 m2 where d: "drain_channel refill e m1 = (e1, m2)" by (cases "drain_channel refill e m1")
  obtain a e2 where a: "discard_applied (cr_attempted_states c) (cr_attempted_snapshot c) e1 = (a, e2)"
    by (cases "discard_applied (cr_attempted_states c) (cr_attempted_snapshot c) e1")
  have e2: "we_source_snapshot e2 = we_source_snapshot e1"
    using discard_fields(1) [of "cr_attempted_states c" "cr_attempted_snapshot c" e1] a by simp
  have at: "cr_attempted_snapshot c = Some (we_source_snapshot e1)" if a
    using discard_True [of "cr_attempted_states c" "cr_attempted_snapshot c" e1] a that by simp
  note s = drain_snap [OF d]
  show ?thesis
  proof (cases a)
    case True
    then show ?thesis
      using Some d a s assms at [OF True]
      by (auto simp: crash_watch_def Let_def keeps_def goto_def newest_def crash_newest_def calm_crash_def)
  next
    case False
    have "crash_watch refill c m1 = start_restart (c\<lparr>cr_pending := Some e2\<rparr>) m2"
      using Some d a False by (simp add: crash_watch_def)
    moreover have "keeps m (start_restart (c\<lparr>cr_pending := Some e2\<rparr>) m2)"
      using s assms Some e2 by (intro keeps_start_restart) (simp_all add: crash_newest_def)
    ultimately show ?thesis by simp
  qed
qed

lemma newest_crash: "mg_phase m = PhCrash c \<Longrightarrow> newest m = crash_newest c m"
  by (simp add: newest_def crash_newest_def)

lemma keeps_crash_receive:
  assumes "crash_receive refill c m = Some m'" and "mg_phase m = PhCrash c" and "calm_crash c"
  shows "keeps m m'"
proof -
  obtain e where e: "mg_channel m = Some e" using assms(1) by (auto simp: crash_receive_def split: option.splits)
  show ?thesis
  proof (cases "cr_stage c")
    case CrashDelay
    then show ?thesis using assms e
      by (auto simp: crash_receive_def Let_def keeps_def goto_def newest_def calm_crash_def)
  next
    case CrashWatch
    then have m': "m' = crash_watch refill (c\<lparr>cr_pending := Some e\<rparr>) (m\<lparr>mg_channel := None\<rparr>)"
      using assms(1) e by (simp add: crash_receive_def Let_def)
    show ?thesis unfolding m'
      using assms(2) e by (intro keeps_crash_watch) (simp add: newest_crash crash_newest_def)
  next
    case CrashRestart
    then show ?thesis using assms(1) e by (simp add: crash_receive_def Let_def)
  qed
qed

lemma keeps_delay_elapsed:
  assumes "mg_phase m = PhCrash c" and "calm_crash c" and "cr_stage c = CrashDelay"
    and "\<not> mc_restart_on_exit cfg"
  shows "keeps m (delay_elapsed cfg refill c m)"
  using assms newest_crash [OF assms(1)]
  by (auto simp: delay_elapsed_def calm_crash_def intro!: keeps_crash_watch keeps_start_restart)

lemma keeps_crash_finish:
  assumes "mg_phase m = PhCrash c" and "calm_crash c" and "cr_stage c = CrashRestart" and "\<not> overtaken m"
  shows "keeps m (crash_finish refill c m)"
proof -
  define m1 where "m1 = (case cr_pending c of Some e \<Rightarrow> mark e m | None \<Rightarrow> m)"
  have new: "newest m = first_of (snap (mg_setup_pending m1)) (first_of (snap (mg_channel m1))
     (first_of (snap None) (mg_applied_snapshot m1)))"
    using assms by (auto simp: m1_def newest_crash crash_newest_def calm_crash_def mark_def mark_applied_def
        split: option.split)
  have fin: "crash_finish refill c m = goto (PhRun None) m1 \<or> crash_finish refill c m = finish_pending refill None m1"
    using assms(1,4) by (auto simp: crash_finish_def m1_def [symmetric] overtaken_def
        split: crash_origin.splits option.splits)
  have "keeps m (goto (PhRun None) m1)" using new by (simp add: keeps_def goto_def newest_def)
  then show ?thesis using fin keeps_finish_pending [OF new] by metis
qed

lemma keeps_crash_again:
  assumes "mg_phase m = PhCrash c" and "calm_crash c" and "cr_stage c = CrashRestart"
  shows "keeps m (crash_again refill c m)"
proof -
  obtain states snapshot where s: "(case cr_pending c of
      Some e \<Rightarrow> mark_applied e (cr_attempted_states c) (cr_attempted_snapshot c)
    | None \<Rightarrow> (cr_attempted_states c, cr_attempted_snapshot c)) = (states, snapshot)"
    by fastforce
  have sn: "snapshot = first_of (snap (cr_pending c)) (cr_attempted_snapshot c)"
    using s by (auto simp: mark_applied_def split: option.splits)
  have nf: "\<not> cr_first_retry c" using assms by (simp add: calm_crash_def)
  show ?thesis
  proof (cases "mg_channel m")
    case None
    then show ?thesis using s sn nf newest_crash [OF assms(1)]
      by (auto simp: crash_again_def keeps_def goto_def newest_def crash_newest_def calm_crash_def first_of_def
          split: option.splits)
  next
    case (Some e)
    obtain e1 m1 where d: "drain_channel refill e (m\<lparr>mg_channel := None\<rparr>) = (e1, m1)"
      by (cases "drain_channel refill e (m\<lparr>mg_channel := None\<rparr>)")
    obtain a e2 where a: "discard_applied states snapshot e1 = (a, e2)"
      by (cases "discard_applied states snapshot e1")
    have e2: "we_source_snapshot e2 = we_source_snapshot e1"
      using discard_fields(1) [of states snapshot e1] a by simp
    have at: "snapshot = Some (we_source_snapshot e1)" if a
      using discard_True [of states snapshot e1] a that by simp
    show ?thesis using s a e2 at nf drain_snap [OF d] Some d newest_crash [OF assms(1)]
      by (auto simp: crash_again_def keeps_def goto_def newest_def crash_newest_def calm_crash_def Let_def)
  qed
qed

lemma calm_keeps:
  assumes "mgr_step cfg l m = Some m'" and "\<And>e. l \<noteq> Arrive e" and "\<not> mc_restart_on_exit cfg"
    and "\<not> overtaken m" and "\<not> overtaken m'" and "\<not> recovered m'"
    and "\<And>c. mg_phase m = PhCrash c \<Longrightarrow> calm_crash c"
  shows "keeps m m' \<or> (mg_phase m' = mg_phase m \<and> newest m' = newest m)"
proof (cases l)
  case SetupSend
  then show ?thesis using assms(1) keeps_setup_send by simp
next
  case (Shutdown err)
  then show ?thesis using assms(1)
    by (auto simp: on_shutdown_def Let_def keeps_def goto_def or_exit_def split: phase.splits option.splits)
next
  case ShutdownAwaitingExit
  then show ?thesis using assms(1) by (auto simp: keeps_def goto_def split: phase.splits)
next
  case (Begin err)
  then show ?thesis using assms(1) keeps_begin by (auto split: phase.splits option.splits)
next
  case (Receive refill kinds ok ferr rerr)
  then show ?thesis
    using assms(1,6,7) keeps_waiting_receive keeps_dispatch_receive keeps_crash_receive
    by (auto split: phase.splits option.splits)
next
  case (Exited r rr err)
  then show ?thesis
    using assms(1,5,6) keeps_waiting_exited keeps_dispatch_exited by (auto split: phase.splits option.splits)
next
  case (Finished r rr err refill)
  then show ?thesis
    using assms(1,5,6) keeps_dispatch_finished by (auto split: phase.splits)
next
  case (DelayElapsed refill)
  then show ?thesis
    using assms(1,3,7) keeps_delay_elapsed by (auto split: phase.splits if_splits)
next
  case (RestartDone r refill)
  then obtain c where c: "mg_phase m = PhCrash c" "cr_stage c = CrashRestart" "m' = restart_done r refill c m"
    using assms(1) by (auto split: phase.splits if_splits)
  have "keeps m (restart_done r refill c m)"
    using keeps_crash_finish [OF c(1) assms(7) [OF c(1)] c(2) assms(4)]
      keeps_crash_again [OF c(1) assms(7) [OF c(1)] c(2)]
    by (cases r) (auto simp: restart_done_def keeps_def goto_def)
  then show ?thesis using c(3) by simp
qed (use assms(2) in simp)

lemma calm_invariant:
  assumes "calm_reach cfg crashed ls m" and "\<not> mc_restart_on_exit cfg"
  shows "calm_inv ls m \<and> \<not> overtaken m"
  using assms
proof (induction rule: calm_reach.induct)
  case calm_start
  then show ?case
    by (auto simp: calm_inv_def manager_start_def crash_start_def goto_def newest_def calm_crash_def
        manager_init_def overtaken_def)
next
  case (calm_step ls m l m')
  then have IH: "calm_inv ls m" "\<not> overtaken m" by simp_all
  show ?case
  proof (cases "\<exists>e. l = Arrive e")
    case True
    then obtain e where e: "l = Arrive e" ..
    then have m': "m' = setup_receive e m" using calm_step.hyps(2) by simp
    have "newest m' = Some (we_source_snapshot e)" "mg_phase m' = mg_phase m"
      by (simp_all add: m' setup_receive_def newest_def)
    then show ?thesis
      using IH(1) calm_step.hyps(3) e by (auto simp: calm_inv_def last_arrived_snoc split: phase.splits)
  next
    case False
    then have la: "last_arrived (ls @ [l]) = last_arrived ls"
      by (auto simp: last_arrived_snoc split: label.splits)
    have crash: "\<And>c. mg_phase m = PhCrash c \<Longrightarrow> calm_crash c"
      using IH(1) by (simp add: calm_inv_def)
    have "keeps m m' \<or> (mg_phase m' = mg_phase m \<and> newest m' = newest m)"
      using calm_keeps [OF calm_step.hyps(2) _ calm_step.prems IH(2) calm_step.hyps(3,4) crash] False by blast
    moreover have "mg_phase m' = mg_phase m" if "mg_phase m = PhExit r" for r
      using calm_step.hyps(2) that
      by (cases l) (auto simp: setup_receive_def setup_send_def on_shutdown_def split: option.splits)
    ultimately have "calm_inv (ls @ [l]) m'"
      using IH(1) la by (auto simp: calm_inv_def keeps_def split: phase.splits)
    then show ?thesis using calm_step.hyps(3) by simp
  qed
qed

section \<open>Properties\<close>

definition demo_path :: path where
  "demo_path = [Normal ''A.hs'']"

definition demo_event :: "u64 \<Rightarrow> watcher_event" where
  "demo_event h = demo_we demo_path h"

definition quiet :: manager_config where
  "quiet = \<lparr>mc_interrupt_reloads = False, mc_restart_on_exit = False\<rparr>"

definition eager :: manager_config where
  "eager = \<lparr>mc_interrupt_reloads = True, mc_restart_on_exit = False\<rparr>"

definition receive :: label where
  "receive = Receive False [KindReload] False None None"

lemmas run_simps = demo_event_def demo_we_def demo_path_def quiet_def eager_def receive_def
  manager_start_def manager_init_def setup_receive_def setup_send_def merge_option_def waiting_receive_def
  discard_applied_def begin_dispatch_def or_exit_def issue_def goto_def dispatch_receive_def drain_channel_def
  absorb_def dispatch_finished_def finish_pending_def mark_def mark_applied_def crash_start_def
  crash_receive_def delay_elapsed_def start_restart_def restart_done_def crash_finish_def recover_def
  we_merge_def supersede_def bm_extend_def Let_def

text \<open>
  C2: no change is lost: in a run of a manager that does not persistently restart, in which no
  crash overtakes a pending event and no recovery kill happens, when the manager waits with empty
  queues, the applied snapshot is the one the watcher delivered last.
\<close>

theorem rest_has_newest:
  assumes "calm_reach cfg crashed ls m" and "\<not> mc_restart_on_exit cfg"
    and "mg_phase m = PhRun None" and "mg_setup_pending m = None" and "mg_channel m = None"
  shows "mg_applied_snapshot m = last_arrived ls"
  using calm_invariant [OF assms(1,2)] assms(3-5) by (simp add: calm_inv_def newest_def)

fun calm_run :: "manager_config \<Rightarrow> label list \<Rightarrow> manager \<Rightarrow> manager option" where
  "calm_run cfg [] m = Some m"
| "calm_run cfg (l # ls) m =
     Option.bind (mgr_step cfg l m) (\<lambda>m'.
       if overtaken m' \<or> recovered m' then None else calm_run cfg ls m')"

lemma calm_run_append:
  "calm_run cfg (ls @ ls') m = Option.bind (calm_run cfg ls m) (calm_run cfg ls')"
  by (induction ls arbitrary: m) (auto simp: Option.bind_eq_Some_conv split: Option.bind_splits)

lemma calm_run_reach: "calm_run cfg ls (manager_start crashed) = Some m \<Longrightarrow> calm_reach cfg crashed ls m"
proof (induction ls arbitrary: m rule: rev_induct)
  case (snoc l ls)
  then obtain m1 where "calm_run cfg ls (manager_start crashed) = Some m1" "mgr_step cfg l m1 = Some m"
    "\<not> overtaken m" "\<not> recovered m"
    by (auto simp: calm_run_append Option.bind_eq_Some_conv split: if_splits)
  with snoc.IH show ?case by (auto intro: calm_reach.intros)
qed (auto intro: calm_reach.intros)

theorem rest_has_newest_witness:
  "\<exists>m. calm_run quiet [Arrive (demo_event 1), SetupSend, receive, Begin None,
        Finished DispatchOk False None False] (manager_start False) = Some m \<and>
     mg_phase m = PhRun None \<and> mg_applied_snapshot m = Some (we_source_snapshot (demo_event 1))"
proof -
  obtain m where m: "calm_run quiet [Arrive (demo_event 1), SetupSend, receive, Begin None,
        Finished DispatchOk False None False] (manager_start False) = Some m"
    "mg_phase m = PhRun None" "mg_setup_pending m = None" "mg_channel m = None"
    by (simp add: run_simps overtaken_def recovered_def)
  have "\<not> mc_restart_on_exit quiet" by (simp add: quiet_def)
  from rest_has_newest [OF calm_run_reach [OF m(1)] this m(2-4)]
  have "mg_applied_snapshot m = Some (we_source_snapshot (demo_event 1))" by (simp add: receive_def)
  with m(1,2) show ?thesis by blast
qed



lemma drain_empty [simp]:
  "mg_channel m = None \<Longrightarrow> mg_setup_pending m = None \<Longrightarrow> drain_channel refill e m = (e, m)"
  by (cases m) (simp add: drain_channel_def absorb_def)

lemma drain_drained [simp]:
  "mg_setup_pending m = None \<Longrightarrow>
   drain_channel refill e (m\<lparr>mg_channel := None\<rparr>) = (e, m\<lparr>mg_channel := None\<rparr>)"
  by (simp add: drain_channel_def absorb_def)

lemma not_discarded:
  "a \<noteq> we_source_snapshot e \<Longrightarrow> \<not> fst (discard_applied s (Some a) e)"
  using discard_True by fastforce




text \<open>
  C23: a failed interrupt leaves the record of what is applied behind: the session is replaced
  with the files of the newest event, but whatever was applied before the interrupted dispatch
  still counts as applied, and a later event that reverts to it is discarded without any call into
  the session.
\<close>

theorem revert_after_recovery_discarded:
  assumes "mg_phase m = PhDispatch e p True" and "mc_interrupt_reloads cfg"
    and "mg_channel m = Some n" and "mg_setup_pending m = None"
    and "mg_applied_snapshot m = Some (we_source_snapshot b)"
    and "\<forall>x \<in> set (we_events b).
      map_of (we_states b) (as_path x) = map_of (mg_applied_states m) (as_path x)"
  shows "\<exists>m'. mgr_run cfg
      [Receive r1 (replicate k KindPending @ KindReload # ks) False None None,
       Arrive b, SetupSend, Receive r2 kinds ok e1 e2] m = Some m' \<and>
    mg_ops m' = mg_ops m @
      [OpAbort, OpSigint, OpFinishInterrupted False, OpRecover (we_haskell_files n)] \<and>
    mg_phase m' = PhRun None \<and> mg_channel m' = None \<and> mg_setup_pending m' = None \<and>
    mg_applied_snapshot m' = Some (we_source_snapshot b)"
proof -
  have k: "should_interrupt (replicate k KindPending @ KindReload # ks)"
    by (induction k) simp_all
  have "discard_applied (mg_applied_states m) (Some (we_source_snapshot b)) b = (True, b\<lparr>we_events := []\<rparr>)"
    using assms(6) by (simp add: discard_applied_def Let_def filter_empty_conv)
  then show ?thesis
    using assms(1-5) k by (simp add: dispatch_receive_def recover_def or_exit_def issue_def goto_def
        setup_receive_def setup_send_def merge_option_def waiting_receive_def)
qed

definition demo_revert :: manager where
  "demo_revert =
     (mark (demo_event 1) manager_init)\<lparr>mg_channel := Some (demo_event 3),
       mg_phase := PhDispatch (demo_event 2) None True\<rparr>"

theorem revert_after_recovery_discarded_witness:
  "\<exists>m'. mgr_run eager [receive, Arrive (demo_event 1), SetupSend, receive] demo_revert = Some m' \<and>
     mg_ops m' = [OpAbort, OpSigint, OpFinishInterrupted False, OpRecover (we_haskell_files (demo_event 3))] \<and>
     we_source_snapshot (demo_event 1) \<noteq> we_source_snapshot (demo_event 3)"
  using revert_after_recovery_discarded [of demo_revert "demo_event 2" None eager "demo_event 3"
      "demo_event 1" False 0 "[]" False "[KindReload]" False None None]
  by (auto simp: demo_revert_def manager_init_def mark_def mark_applied_def receive_def eager_def
      demo_event_def demo_we_def bm_extend_def)

text \<open>
  After a second crash with nothing newer the manager stops trying: when the delay is over it
  waits, a notification whose contents were already attempted keeps it waiting without a call into
  the session, and only contents that differ start another replacement.
\<close>

theorem crash_loop_waits:
  assumes "mg_phase m = PhCrash c" and "cr_stage c = CrashDelay" and "\<not> cr_first_retry c"
    and "cr_pending c = None" and "\<not> mc_restart_on_exit cfg"
    and "mg_channel m = Some e" and "mg_setup_pending m = None"
    and "mgr_run cfg [DelayElapsed False, receive] m = Some m'"
  shows "mg_ops m' = mg_ops m @
    (if fst (discard_applied (cr_attempted_states c) (cr_attempted_snapshot c) e) then []
     else [OpRestart (Some (we_haskell_files e))])"
proof -
  have "mgr_step cfg (DelayElapsed False) m = Some (goto (PhCrash (c\<lparr>cr_stage := CrashWatch\<rparr>)) m)"
    using assms by (simp add: delay_elapsed_def crash_watch_def)
  then have m': "m' = crash_watch False (c\<lparr>cr_stage := CrashWatch, cr_pending := Some e\<rparr>)
      (goto (PhCrash (c\<lparr>cr_stage := CrashWatch\<rparr>)) m\<lparr>mg_channel := None\<rparr>)"
    using assms(6,8) by (simp add: receive_def goto_def crash_receive_def Let_def)
  show ?thesis unfolding m'
    by (cases "discard_applied (cr_attempted_states c) (cr_attempted_snapshot c) e")
       (auto simp: crash_watch_def drain_channel_def absorb_def start_restart_def goto_def issue_def
         dest: arg_cong [where f = snd] simp: discard_applied_def Let_def)
qed

definition demo_crash :: manager where
  "demo_crash =
     manager_init\<lparr>mg_channel := Some (demo_event 2), mg_phase := PhCrash
       \<lparr>cr_origin = FromWait, cr_pending = None, cr_attempted_states = we_states (demo_event 1),
        cr_attempted_snapshot = Some (we_source_snapshot (demo_event 1)),
        cr_first_retry = False, cr_stage = CrashDelay\<rparr>\<rparr>"

theorem crash_loop_waits_witness:
  "\<exists>m'. mgr_run quiet [DelayElapsed False, receive] demo_crash = Some m' \<and>
     mg_ops m' = [OpRestart (Some (we_haskell_files (demo_event 2)))]"
proof -
  obtain m' where m': "mgr_run quiet [DelayElapsed False, receive] demo_crash = Some m'"
    by (simp add: demo_crash_def run_simps crash_watch_def)
  have "mg_ops m' = mg_ops demo_crash @
    (if fst (discard_applied (we_states (demo_event 1)) (Some (we_source_snapshot (demo_event 1))) (demo_event 2))
     then [] else [OpRestart (Some (we_haskell_files (demo_event 2)))])"
    using crash_loop_waits [OF _ _ _ _ _ _ _ m', of _ "demo_event 2"]
    by (simp add: demo_crash_def quiet_def manager_init_def)
  then show ?thesis using m'
    by (simp add: demo_crash_def run_simps)
qed

lemma ops_quiet [simp]:
  "mg_ops (goto p m) = mg_ops m"
  "mg_ops (issue ops m) = mg_ops m @ ops"
  "mg_ops (mark e m) = mg_ops m"
  "mg_ops (crash_start oo i m) = mg_ops m"
  "mg_ops (setup_receive e m) = mg_ops m"
  "mg_ops (snd (drain_channel refill e m)) = mg_ops m"
  by (simp_all add: goto_def issue_def mark_def mark_applied_def crash_start_def setup_receive_def
      drain_channel_def)

lemma ops_or_exit [simp]:
  "mg_ops (or_exit err m m') = (if err = None then mg_ops m' else mg_ops m)"
  by (cases err) (simp_all add: or_exit_def)

definition adds_ops :: "session_op list \<Rightarrow> manager \<Rightarrow> manager \<Rightarrow> bool" where
  "adds_ops ops m m' \<longleftrightarrow> (\<exists>new. mg_ops m' = mg_ops m @ new \<and> set new \<subseteq> set ops)"

lemma adds_ops_same: "mg_ops m' = mg_ops m \<Longrightarrow> adds_ops ops m m'"
  by (simp add: adds_ops_def)

lemma adds_ops_finish: "mg_ops (finish_pending refill p m) = mg_ops m"
  by (cases p) (auto simp: finish_pending_def Let_def drain_channel_def split: prod.split)

lemma ops_recover: "mg_ops (recover e err m) = mg_ops m @ [OpRecover (we_haskell_files e)]"
  by (simp add: recover_def Let_def)

lemma ops_start_restart:
  "mg_ops (start_restart c m) = mg_ops m @ [OpRestart (map_option we_haskell_files (cr_pending c))]"
  by (simp add: start_restart_def)

lemma ops_crash_watch: "\<exists>new. mg_ops (crash_watch refill c m) = mg_ops m @ new \<and> OpSigint \<notin> set new"
  by (cases "cr_pending c")
     (auto simp: crash_watch_def Let_def ops_start_restart drain_channel_def split: prod.split)

lemma ops_crash_again: "mg_ops (crash_again refill c m) = mg_ops m"
  by (auto simp: crash_again_def Let_def drain_channel_def split: prod.split option.split)

lemma ops_crash_finish: "mg_ops (crash_finish refill c m) = mg_ops m"
  by (auto simp: crash_finish_def Let_def adds_ops_finish split: crash_origin.split option.split)

lemma ops_waiting_receive: "waiting_receive m = Some m' \<Longrightarrow> mg_ops m' = mg_ops m"
  by (auto simp: waiting_receive_def Let_def split: option.splits prod.splits)

definition quiet_step :: "manager \<Rightarrow> manager \<Rightarrow> bool" where
  "quiet_step m m' \<longleftrightarrow> (\<exists>new. mg_ops m' = mg_ops m @ new \<and> OpSigint \<notin> set new)"

lemma quiet_dispatch_receive:
  assumes "dispatch_receive cfg e p u refill kinds ok ferr rerr m = Some m'"
    and "\<not> (mc_interrupt_reloads cfg \<and> u \<and> should_interrupt kinds)"
  shows "quiet_step m m'"
  using assms(1) unfolding dispatch_receive_def if_not_P [OF assms(2)]
  by (auto simp: quiet_step_def drain_channel_def split: option.splits prod.splits if_splits)

lemma quiet_handlers:
  "quiet_step m (waiting_exited rr err m)"
  "quiet_step m (begin_dispatch e err m)"
  "quiet_step m (dispatch_exited e p r rr err m)"
  "quiet_step m (dispatch_finished e p r rr err refill m)"
  "quiet_step m (delay_elapsed cfg refill c m)"
  "quiet_step m (restart_done rs refill c m)"
  using ops_crash_watch [of refill c m]
  by (auto simp: quiet_step_def waiting_exited_def begin_dispatch_def dispatch_exited_def
      dispatch_finished_def delay_elapsed_def restart_done_def Let_def ops_recover ops_start_restart
      adds_ops_finish ops_crash_again ops_crash_finish
      split: dispatch_result.split restart_result.split)

lemma sigint_step:
  assumes "mgr_step cfg l m = Some m'" and "mg_ops m' = mg_ops m @ new" and "OpSigint \<in> set new"
  shows "mc_interrupt_reloads cfg \<and> (\<exists>e p. mg_phase m = PhDispatch e p True) \<and>
    (\<exists>refill kinds ok ferr rerr. l = Receive refill kinds ok ferr rerr \<and> should_interrupt kinds)"
proof (rule ccontr)
  assume no: "\<not> ?thesis"
  have "quiet_step m m'"
  proof (cases l)
    case (Receive refill kinds ok ferr rerr)
    show ?thesis
    proof (cases "mg_phase m")
      case (PhDispatch e p u)
      with no Receive have "\<not> (mc_interrupt_reloads cfg \<and> u \<and> should_interrupt kinds)" by auto
      with assms(1) Receive PhDispatch show ?thesis using quiet_dispatch_receive by auto
    next
      case (PhCrash c)
      have "\<exists>new. mg_ops (crash_watch refill c1 (m\<lparr>mg_channel := None\<rparr>)) = mg_ops m @ new \<and> OpSigint \<notin> set new" for c1
        using ops_crash_watch [of refill c1 "m\<lparr>mg_channel := None\<rparr>"] by simp
      then show ?thesis using assms(1) Receive PhCrash
        by (auto simp: crash_receive_def Let_def quiet_step_def split: option.splits crash_stage.splits)
    qed (use assms(1) Receive ops_waiting_receive in
        \<open>auto simp: quiet_step_def split: option.splits\<close>)
  qed (use assms(1) quiet_handlers in
      \<open>auto simp: setup_send_def on_shutdown_def Let_def quiet_step_def split: phase.splits option.splits if_splits\<close>)
  then show False using assms(2,3) by (auto simp: quiet_step_def)
qed

lemma should_interrupt_Reload:
  "should_interrupt kinds \<Longrightarrow> \<exists>k ks. kinds = replicate k KindPending @ KindReload # ks"
proof (induction kinds rule: should_interrupt.induct)
  case (2 ks)
  then obtain k ks' where "ks = replicate k KindPending @ KindReload # ks'" by auto
  then have "KindPending # ks = replicate (Suc k) KindPending @ KindReload # ks'" by simp
  then show ?case by blast
next
  case (5 ks)
  have "KindReload # ks = replicate 0 KindPending @ KindReload # ks" by simp
  then show ?case by blast
qed simp_all

text \<open>What reaches the queue without the manager noticing.\<close>

fun queue_label :: "label \<Rightarrow> bool" where
  "queue_label (Arrive e) = True"
| "queue_label SetupSend = True"
| "queue_label l = False"

definition dispatching :: "manager \<Rightarrow> bool" where
  "dispatching m \<longleftrightarrow> (\<exists>e p. mg_phase m = PhDispatch e p True)"

lemma dispatching_simps [simp]:
  "dispatching (goto (PhRun x) m) = False"
  "dispatching (goto (PhExit r) m) = False"
  "dispatching (goto (PhCrash c) m) = False"
  "dispatching (goto (PhDispatch e p u) m) = u"
  "dispatching (crash_start oo i m) = False"
  "dispatching (start_restart c m) = False"
  "dispatching (issue ops m) = dispatching m"
  "dispatching (m\<lparr>mg_channel := ch\<rparr>) = dispatching m"
  "dispatching (m\<lparr>mg_setup_pending := sp\<rparr>) = dispatching m"
  by (simp_all add: dispatching_def goto_def crash_start_def start_restart_def issue_def)

lemma dispatching_or_exit [simp]: "dispatching (or_exit err m m') = (err = None \<and> dispatching m')"
  by (cases err) (simp_all add: or_exit_def)

lemma dispatching_frames [simp]:
  "\<not> dispatching (finish_pending refill p m)"
  "\<not> dispatching (recover e err m)"
  "\<not> dispatching (crash_watch refill c m)"
  by (auto simp: finish_pending_def recover_def crash_watch_def Let_def split: option.split prod.split)

lemma not_dispatching: "mg_phase m = PhRun x \<Longrightarrow> \<not> dispatching m" "mg_phase m = PhCrash c \<Longrightarrow> \<not> dispatching m"
  "mg_phase m = PhExit r \<Longrightarrow> \<not> dispatching m"
  by (simp_all add: dispatching_def)

lemma decided_dispatch_receive:
  assumes "dispatch_receive cfg e p u refill kinds ok ferr rerr m = Some m'" and "mc_interrupt_reloads cfg"
  shows "\<not> dispatching m'"
  using assms by (auto simp: dispatch_receive_def Let_def split: option.splits prod.splits if_splits)

lemma dispatching_step:
  assumes "mgr_step cfg l m = Some m'" and "dispatching m'" and "mc_interrupt_reloads cfg"
  shows "l = Begin None \<or> (queue_label l \<and> dispatching m)"
proof (cases l)
  case (Receive refill kinds ok ferr rerr)
  have "waiting_receive m = Some m' \<Longrightarrow> mg_phase m = PhRun None \<Longrightarrow> \<not> dispatching m'"
    by (auto simp: waiting_receive_def Let_def not_dispatching split: option.splits prod.splits if_splits)
  moreover have "crash_receive refill c m = Some m' \<Longrightarrow> \<not> dispatching m'" for c
    by (auto simp: crash_receive_def Let_def split: option.splits crash_stage.splits)
  ultimately show ?thesis using assms Receive decided_dispatch_receive
    by (auto split: phase.splits option.splits)
next
  case (Begin err)
  then show ?thesis using assms(1,2)
    by (auto simp: begin_dispatch_def Let_def split: phase.splits option.splits)
next
  case SetupSend
  then show ?thesis using assms(1,2)
    by (auto simp: setup_send_def dispatching_def split: option.splits)
qed (use assms(1,2) in
    \<open>auto simp: setup_receive_def on_shutdown_def waiting_exited_def dispatch_exited_def
       dispatch_finished_def delay_elapsed_def restart_done_def crash_finish_def crash_again_def Let_def
       split: phase.splits option.splits if_splits prod.splits dispatch_result.splits
         restart_result.splits crash_origin.splits\<close>)

lemma undecided_since_begin:
  assumes "mgr_reach cfg crashed ls m" and "dispatching m" and "mc_interrupt_reloads cfg"
  shows "\<exists>ls1 ls2. ls = ls1 @ Begin None # ls2 \<and> list_all queue_label ls2"
  using assms
proof (induction rule: mgr_reach.induct)
  case reach_start
  then show ?case by (simp add: dispatching_def manager_start_def manager_init_def crash_start_def goto_def split: if_splits)
next
  case (reach_step ls m l m')
  from dispatching_step [OF reach_step(2) reach_step.prems] consider "l = Begin None" | "queue_label l" "dispatching m"
    by blast
  then show ?case
  proof cases
    case 1
    then have "ls @ [l] = ls @ Begin None # [] \<and> list_all queue_label []" by simp
    then show ?thesis by blast
  next
    case 2
    with reach_step obtain ls1 ls2 where "ls = ls1 @ Begin None # ls2" "list_all queue_label ls2" by blast
    with 2 have "ls @ [l] = ls1 @ Begin None # (ls2 @ [l]) \<and> list_all queue_label (ls2 @ [l])" by simp
    then show ?thesis by blast
  qed
qed

text \<open>
  C21: in every run of the manager the session is interrupted only when a notification is received
  with interrupts enabled, while the first kind the dispatch publishes that is not pending is a
  reload (not a restart, and not the hooks after a compilation), and it is the first notification
  the manager receives in that dispatch: since the dispatch began nothing happened but arrivals in
  the queue.
\<close>

theorem interrupts_justified:
  assumes "mgr_reach cfg crashed ls m" and "mgr_step cfg l m = Some m'"
    and "mg_ops m' = mg_ops m @ new" and "OpSigint \<in> set new"
  shows "mc_interrupt_reloads cfg \<and>
    (\<exists>refill k ks ok ferr rerr.
       l = Receive refill (replicate k KindPending @ KindReload # ks) ok ferr rerr) \<and>
    (\<exists>ls1 ls2. ls = ls1 @ Begin None # ls2 \<and> list_all queue_label ls2)"
proof -
  from sigint_step [OF assms(2-4)] obtain e p refill kinds ok ferr rerr
    where s: "mc_interrupt_reloads cfg" "mg_phase m = PhDispatch e p True"
      "l = Receive refill kinds ok ferr rerr" "should_interrupt kinds"
    by blast
  from s(2) have "dispatching m" by (simp add: dispatching_def)
  with assms(1) have "\<exists>ls1 ls2. ls = ls1 @ Begin None # ls2 \<and> list_all queue_label ls2"
    using s(1) by (rule undecided_since_begin)
  moreover obtain k ks where "kinds = replicate k KindPending @ KindReload # ks"
    using should_interrupt_Reload [OF s(4)] by (elim exE)
  then have "\<exists>refill k ks ok ferr rerr.
      l = Receive refill (replicate k KindPending @ KindReload # ks) ok ferr rerr"
    unfolding s(3) by (intro exI) simp
  ultimately show ?thesis using s(1) by (intro conjI)
qed

theorem interrupts_justified_witness:
  "\<exists>m m' new. mgr_run eager [Arrive (demo_event 1), SetupSend, receive, Begin None,
        Arrive (demo_event 2), SetupSend] (manager_start False) = Some m \<and>
     mgr_step eager receive m = Some m' \<and> mg_ops m' = mg_ops m @ new \<and> OpSigint \<in> set new \<and>
     mc_interrupt_reloads eager"
proof -
  obtain m m' where m: "mgr_run eager [Arrive (demo_event 1), SetupSend, receive, Begin None,
        Arrive (demo_event 2), SetupSend] (manager_start False) = Some m"
    and m': "mgr_step eager receive m = Some m'"
    and ops: "mg_ops m' = mg_ops m @ [OpAbort, OpSigint, OpFinishInterrupted False,
      OpRecover (we_haskell_files (demo_event 2))]"
    by (simp add: run_simps)
  from interrupts_justified [OF mgr_reach_run [THEN iffD2, OF m] m' ops] show ?thesis
    using m m' ops by auto
qed

end
