(* ===== verification/Memory.thy ===== *)
theory Memory
  imports CompilationLog
begin

text \<open>
  \<open>src/src/ghci/memory.rs\<close>: which two processes the memory watchdog charges, and how their pages
  are counted. \<open>/proc\<close> is a parameter: a snapshot of the processes and the text of each report.
  Process ids are \<open>int\<close>; the texts of \<open>procfs\<close> are ASCII, so white space is ASCII white space.
\<close>

section \<open>Words and numbers\<close>

definition is_space :: "char \<Rightarrow> bool" where
  "is_space c \<longleftrightarrow> c = CHR '' '' \<or> (9 \<le> (of_char c :: nat) \<and> of_char c \<le> (13 :: nat))"

function split_whitespace :: "string \<Rightarrow> string list" where
  "split_whitespace s =
     (let t = dropWhile is_space s in
      if t = [] then []
      else takeWhile (\<lambda>c. \<not> is_space c) t # split_whitespace (dropWhile (\<lambda>c. \<not> is_space c) t))"
  by pat_completeness auto
termination
proof (relation "measure length")
  fix s t :: string
  assume t: "t = dropWhile is_space s" and ne: "t \<noteq> []"
  then have "\<not> is_space (hd t)" using hd_dropWhile by blast
  then have "length (dropWhile (\<lambda>c. \<not> is_space c) t) < length t"
    using ne by (cases t) (auto simp: le_imp_less_Suc length_dropWhile_le)
  also have "length t \<le> length s" by (simp add: t length_dropWhile_le)
  finally show "(dropWhile (\<lambda>c. \<not> is_space c) t, s) \<in> measure length" by simp
qed simp

declare split_whitespace.simps [simp del]

lemma split_whitespace_Nil [simp]: "split_whitespace [] = []"
  by (subst split_whitespace.simps) simp

lemma split_whitespace_space:
  "is_space c \<Longrightarrow> split_whitespace (c # s) = split_whitespace s"
  by (subst (1 2) split_whitespace.simps) simp

lemma split_whitespace_word:
  assumes "w \<noteq> []" and "\<forall>c \<in> set w. \<not> is_space c" and "s = [] \<or> is_space (hd s)"
  shows "split_whitespace (w @ s) = w # split_whitespace s"
proof -
  have "dropWhile is_space (w @ s) = w @ s" using assms(1,2) by (cases w) auto
  moreover have "takeWhile (\<lambda>c. \<not> is_space c) (w @ s) = w" "dropWhile (\<lambda>c. \<not> is_space c) (w @ s) = s"
    using assms(2,3) by (cases s; simp add: takeWhile_append2 dropWhile_append2)+
  ultimately show ?thesis using assms(1) by (subst split_whitespace.simps) (simp add: Let_def)
qed

text \<open>\<open>str::parse\<close> for unsigned and signed numbers: an optional sign, digits, no overflow.\<close>

definition strip_sign :: "string \<Rightarrow> bool \<times> string" where
  "strip_sign s =
     (case s of
        [] \<Rightarrow> (False, [])
      | c # cs \<Rightarrow> if c = CHR ''+'' then (False, cs) else if c = CHR ''-'' then (True, cs) else (False, s))"

definition parse_u64 :: "string \<Rightarrow> u64 option" where
  "parse_u64 s =
     (let t = (case s of c # cs \<Rightarrow> if c = CHR ''+'' then cs else s | [] \<Rightarrow> s) in
      if t \<noteq> [] \<and> list_all is_digit t \<and> read_digits 0 t < 2 ^ 64
      then Some (of_nat (read_digits 0 t)) else None)"

definition parse_i32 :: "string \<Rightarrow> int option" where
  "parse_i32 s =
     (let (neg, t) = strip_sign s; n = int (read_digits 0 t) in
      if t = [] \<or> \<not> list_all is_digit t then None
      else if neg then (if n \<le> 2 ^ 31 then Some (- n) else None)
      else if n < 2 ^ 31 then Some n else None)"

lemma parse_show_word: "parse_u64 (show_word w) = Some w"
proof -
  have d: "\<forall>c \<in> set (show_word w). is_digit c"
    using show_nat_digits unfolding show_word_def by blast
  have "\<not> is_digit CHR ''+''" by (simp add: is_digit_def)
  with d have "(case show_word w of c # cs \<Rightarrow> if c = CHR ''+'' then cs else show_word w | [] \<Rightarrow> show_word w)
      = show_word w"
    by (auto split: list.split)
  moreover have "unat w < 2 ^ 64" using unsigned_less [of w] by simp
  ultimately show ?thesis
    using d by (simp add: parse_u64_def Let_def list_all_iff) (simp add: show_word_def read_show_nat)
qed

section \<open>Reports\<close>

definition find_map :: "('a \<Rightarrow> 'b option) \<Rightarrow> 'a list \<Rightarrow> 'b option" where
  "find_map f xs = (case filter (\<lambda>x. f x \<noteq> None) xs of [] \<Rightarrow> None | x # _ \<Rightarrow> f x)"

lemma find_map_simps [simp]:
  "find_map f [] = None"
  "find_map f (x # xs) = (case f x of Some y \<Rightarrow> Some y | None \<Rightarrow> find_map f xs)"
  by (auto simp: find_map_def split: option.split)

definition line_value :: "string \<Rightarrow> string \<Rightarrow> string option" where
  "line_value report name = find_map (strip_prefix name) (str_lines report)"

definition checked_mul :: "u64 \<Rightarrow> u64 \<Rightarrow> u64 option" where
  "checked_mul a b = (if unat a * unat b < 2 ^ 64 then Some (a * b) else None)"

definition rollup_bytes :: "string \<Rightarrow> string \<Rightarrow> u64 option" where
  "rollup_bytes report name =
     Option.bind (line_value report name) (\<lambda>v.
       case split_whitespace v of
         [n, unit] \<Rightarrow>
           Option.bind (parse_u64 n) (\<lambda>kib. if unit = ''kB'' then checked_mul kib 1024 else None)
       | _ \<Rightarrow> None)"

definition parse_rollup :: "string \<Rightarrow> (u64 \<times> u64 \<times> u64) option" where
  "parse_rollup report =
     Option.bind (rollup_bytes report ''Rss:'') (\<lambda>rss.
     Option.bind (rollup_bytes report ''LazyFree:'') (\<lambda>lazy_free.
     Option.bind (rollup_bytes report ''Swap:'') (\<lambda>swap.
       if lazy_free \<le> rss then Some (rss, lazy_free, swap) else None)))"

definition status_value :: "string \<Rightarrow> string \<Rightarrow> int option" where
  "status_value status name =
     Option.bind (line_value status name) (\<lambda>v.
       case split_whitespace v of w # _ \<Rightarrow> parse_i32 w | [] \<Rightarrow> None)"

definition parse_process_status :: "string \<Rightarrow> (int \<times> int \<times> u64) option" where
  "parse_process_status status =
     Option.bind (status_value status ''PPid:'') (\<lambda>parent_pid.
     Option.bind (status_value status ''NSpgid:'') (\<lambda>process_group_id.
       let resident_kib =
         (case Option.bind (line_value status ''VmRSS:'') (\<lambda>v.
            case split_whitespace v of w # _ \<Rightarrow> parse_u64 w | [] \<Rightarrow> None) of
            Some n \<Rightarrow> n
          | None \<Rightarrow> 0) in
       Some (parent_pid, process_group_id, sat_mul resident_kib 1024)))"

section \<open>Processes\<close>

record process =
  pr_pid :: int
  pr_parent_pid :: int
  pr_process_group_id :: int
  pr_resident_bytes :: u64
  pr_interactive :: bool
  pr_ghc_executable :: bool
  pr_cabal_executable :: bool

type_synonym process_table = "(int, process) btmap"

definition is_ghc_executable :: "path \<Rightarrow> bool" where
  "is_ghc_executable p \<longleftrightarrow>
     (case file_name p of
        None \<Rightarrow> False
      | Some n \<Rightarrow> n = ''ghc'' \<or> (case strip_prefix ''ghc-'' n of Some v \<Rightarrow> v \<noteq> [] | None \<Rightarrow> False))"

definition is_cabal_executable :: "path \<Rightarrow> bool" where
  "is_cabal_executable p \<longleftrightarrow>
     (case file_name p of
        None \<Rightarrow> False
      | Some n \<Rightarrow> n = ''cabal'' \<or> n = ''.cabal-wrapped''
          \<or> (case strip_prefix ''cabal-'' n of Some v \<Rightarrow> v \<noteq> [] | None \<Rightarrow> False))"

text \<open>
  What a scan of \<open>/proc\<close> finds for one entry: its name as a number, its status file, its arguments
  and its executable; anything that cannot be read is \<open>None\<close>.
\<close>

record proc_entry =
  pe_name :: string
  pe_status :: "string option"
  pe_cmdline :: "string option"
  pe_exe :: "path option"

fun split_zero :: "string \<Rightarrow> string list" where
  "split_zero [] = [[]]"
| "split_zero (c # cs) =
     (if c = CHR 0x00 then [] # split_zero cs
      else case split_zero cs of a # as \<Rightarrow> (c # a) # as | [] \<Rightarrow> [[c]])"

definition entry_process :: "proc_entry \<Rightarrow> process option" where
  "entry_process e =
     Option.bind (parse_i32 (pe_name e)) (\<lambda>pid.
     Option.bind (pe_status e) (\<lambda>status.
     Option.bind (parse_process_status (utf8_lossy status)) (\<lambda>(parent, group, resident).
       Some \<lparr>pr_pid = pid, pr_parent_pid = parent, pr_process_group_id = group,
             pr_resident_bytes = resident,
             pr_interactive = (case pe_cmdline e of
                Some c \<Rightarrow> ''--interactive'' \<in> set (split_zero c) | None \<Rightarrow> False),
             pr_ghc_executable = (case pe_exe e of Some p \<Rightarrow> is_ghc_executable p | None \<Rightarrow> False),
             pr_cabal_executable = (case pe_exe e of Some p \<Rightarrow> is_cabal_executable p | None \<Rightarrow> False)\<rparr>)))"

text \<open>An unreadable directory entry is skipped like an unreadable process.\<close>

fun process_snapshot :: "proc_entry option list \<Rightarrow> process_table \<Rightarrow> process_table" where
  "process_snapshot [] processes = processes"
| "process_snapshot (e # es) processes =
     (case Option.bind e entry_process of
        Some p \<Rightarrow> process_snapshot es (bm_insert (pr_pid p) p processes)
      | None \<Rightarrow> process_snapshot es processes)"

fun depth_loop :: "nat \<Rightarrow> nat \<Rightarrow> int \<Rightarrow> int \<Rightarrow> process_table \<Rightarrow> nat option" where
  "depth_loop 0 depth pid ancestor processes = None"
| "depth_loop (Suc n) depth pid ancestor processes =
     (if pid = ancestor then Some depth
      else case map_of processes pid of
        None \<Rightarrow> None
      | Some p \<Rightarrow>
          if pr_parent_pid p = pid then None
          else depth_loop n (Suc depth) (pr_parent_pid p) ancestor processes)"

definition descendant_depth :: "int \<Rightarrow> int \<Rightarrow> process_table \<Rightarrow> nat option" where
  "descendant_depth pid ancestor processes = depth_loop (length processes) 0 pid ancestor processes"

definition tree_bytes :: "int \<Rightarrow> process_table \<Rightarrow> u64" where
  "tree_bytes root processes =
     foldl (\<lambda>total p. sat_add total (pr_resident_bytes p)) 0
       (filter (\<lambda>p. descendant_depth (pr_pid p) root processes \<noteq> None) (map snd processes))"

record memory_usage =
  mu_bytes :: u64
  mu_lazy_free_bytes :: u64
  mu_swap_bytes :: u64
  mu_command_pid :: int
  mu_cabal_parent :: "(int \<times> u64) option"
  mu_interactive_ghc :: "(int \<times> u64) option"

definition charged_bytes :: "memory_usage \<Rightarrow> u64" where
  "charged_bytes u = sat_add (sat_sub (mu_bytes u) (mu_lazy_free_bytes u)) (mu_swap_bytes u)"

text \<open>The pair a candidate GHC makes with its immediate Cabal parent.\<close>

definition repl_pair :: "int \<Rightarrow> process_table \<Rightarrow> process \<Rightarrow> (process \<times> process) option" where
  "repl_pair command_pid processes ghc =
     (if pr_interactive ghc \<and> pr_ghc_executable ghc
         \<and> descendant_depth (pr_pid ghc) command_pid processes = Some 2
      then Option.bind (map_of processes (pr_parent_pid ghc)) (\<lambda>cabal.
        if pr_cabal_executable cabal \<and> descendant_depth (pr_pid cabal) command_pid processes = Some 1
        then Some (cabal, ghc) else None)
      else None)"

text \<open>\<open>min_by_key\<close> returns the first of several minima.\<close>

fun min_by_pid :: "(process \<times> process) list \<Rightarrow> (process \<times> process) option" where
  "min_by_pid [] = None"
| "min_by_pid (x # xs) =
     (case min_by_pid xs of
        None \<Rightarrow> Some x
      | Some y \<Rightarrow> if pr_pid (snd y) < pr_pid (snd x) then Some y else Some x)"

definition select_pair :: "int \<Rightarrow> int \<Rightarrow> process_table \<Rightarrow> (process \<times> process) option" where
  "select_pair command_pid process_group_id processes =
     (if (case map_of processes command_pid of
            Some p \<Rightarrow> pr_process_group_id p = process_group_id | None \<Rightarrow> False)
      then min_by_pid (List.map_filter (repl_pair command_pid processes) (map snd processes))
      else None)"

definition select_repl_processes :: "int \<Rightarrow> int \<Rightarrow> process_table \<Rightarrow> memory_usage" where
  "select_repl_processes command_pid process_group_id processes =
     (let selected = select_pair command_pid process_group_id processes in
      \<lparr>mu_bytes = (case selected of
         Some (cabal, ghc) \<Rightarrow> sat_add (pr_resident_bytes cabal) (pr_resident_bytes ghc) | None \<Rightarrow> 0),
       mu_lazy_free_bytes = 0, mu_swap_bytes = 0, mu_command_pid = command_pid,
       mu_cabal_parent = map_option (\<lambda>(cabal, ghc). (pr_pid cabal, pr_resident_bytes cabal)) selected,
       mu_interactive_ghc = map_option (\<lambda>(cabal, ghc). (pr_pid ghc, pr_resident_bytes ghc)) selected\<rparr>)"

text \<open>Reading one rollup report into the usage; \<open>reports pid\<close> is the file of a process.\<close>

definition add_rollup ::
  "(int \<Rightarrow> string res) \<Rightarrow> (int \<times> u64) option \<Rightarrow> memory_usage
   \<Rightarrow> ((int \<times> u64) option \<times> memory_usage) res" where
  "add_rollup reports selected u =
     (case selected of
        None \<Rightarrow> Inr (None, u)
      | Some (pid, rss) \<Rightarrow>
          res_bind (reports pid) (\<lambda>report.
          case parse_rollup report of
            None \<Rightarrow> Inl (IoError ''Invalid RSS/LazyFree/Swap'')
          | Some (resident, lazy_free, swap) \<Rightarrow>
              Inr (Some (pid, resident),
                u\<lparr>mu_swap_bytes := sat_add (mu_swap_bytes u) swap,
                  mu_bytes := sat_add (mu_bytes u) resident,
                  mu_lazy_free_bytes := sat_add (mu_lazy_free_bytes u) lazy_free\<rparr>)))"

definition repl_resident_memory ::
  "(int \<Rightarrow> string res) \<Rightarrow> int \<Rightarrow> int \<Rightarrow> process_table \<Rightarrow> memory_usage res" where
  "repl_resident_memory reports command_pid process_group_id processes =
     (let u = (select_repl_processes command_pid process_group_id processes)\<lparr>mu_bytes := 0\<rparr> in
      res_bind (add_rollup reports (mu_cabal_parent u) u) (\<lambda>(cabal, u1).
      res_bind (add_rollup reports (mu_interactive_ghc u) u1) (\<lambda>(ghc, u2).
        Inr (u2\<lparr>mu_cabal_parent := cabal, mu_interactive_ghc := ghc\<rparr>))))"

end
