(* ===== verification/MemoryProps.thy ===== *)
theory MemoryProps
  imports Memory
begin

text \<open>
  What the memory accounting promises: the depth search finds exactly the ancestors, the charged
  pair is the interactive GHC under its Cabal parent under the command, reports parse back.
\<close>

section \<open>Depth in the process tree\<close>

text \<open>\<open>ancestor_at ps d pid a\<close>: following parents from \<open>pid\<close>, \<open>a\<close> is met first after \<open>d\<close> steps.\<close>

fun ancestor_at :: "process_table \<Rightarrow> nat \<Rightarrow> int \<Rightarrow> int \<Rightarrow> bool" where
  "ancestor_at ps 0 pid a \<longleftrightarrow> pid = a"
| "ancestor_at ps (Suc d) pid a \<longleftrightarrow> pid \<noteq> a \<and>
     (case map_of ps pid of None \<Rightarrow> False | Some p \<Rightarrow> pr_parent_pid p \<noteq> pid \<and> ancestor_at ps d (pr_parent_pid p) a)"

lemma depth_loop_iff:
  "depth_loop n k pid a ps = Some r \<longleftrightarrow> (\<exists>d < n. r = k + d \<and> ancestor_at ps d pid a)"
proof (induction n arbitrary: k pid)
  case (Suc n)
  show ?case
  proof (cases "pid = a")
    case True
    have "\<not> ancestor_at ps (Suc d) pid a" for d using True by simp
    then have "(\<exists>d < Suc n. r = k + d \<and> ancestor_at ps d pid a) \<longleftrightarrow> r = k"
      using True by (metis add_0_right ancestor_at.simps(1) not0_implies_Suc zero_less_Suc)
    then show ?thesis using True by auto
  next
    case False
    have "(\<exists>d < Suc n. r = k + d \<and> ancestor_at ps d pid a)
        \<longleftrightarrow> (\<exists>d < n. r = k + Suc d \<and> ancestor_at ps (Suc d) pid a)"
      using False by (metis Suc_less_eq ancestor_at.simps(1) not0_implies_Suc)
    then show ?thesis using False Suc.IH
      by (auto split: option.split)
  qed
qed simp

lemma ancestor_at_unique:
  "ancestor_at ps d pid a \<Longrightarrow> ancestor_at ps d' pid a \<Longrightarrow> d = d'"
proof (induction d arbitrary: pid d')
  case 0
  then show ?case by (cases d') auto
next
  case (Suc d)
  obtain e where e: "d' = Suc e" using Suc.prems by (cases d') auto
  obtain p where "map_of ps pid = Some p" "ancestor_at ps d (pr_parent_pid p) a"
    "ancestor_at ps e (pr_parent_pid p) a"
    using Suc.prems by (auto simp: e split: option.splits)
  then show ?case using Suc.IH e by blast
qed

lemma ancestor_at_path:
  "ancestor_at ps d pid a \<Longrightarrow>
   \<exists>xs. length xs = Suc d \<and> distinct xs \<and> set xs \<subseteq> insert a (fst ` set ps) \<and>
     (\<forall>x \<in> set xs. \<exists>k \<le> d. ancestor_at ps k x a)"
proof (induction d arbitrary: pid)
  case 0
  then show ?case by (intro exI [of _ "[pid]"]) auto
next
  case (Suc d)
  then obtain p where p: "map_of ps pid = Some p" "ancestor_at ps d (pr_parent_pid p) a"
    by (auto split: option.splits)
  from Suc.IH [OF p(2)] obtain xs where xs: "length xs = Suc d" "distinct xs"
    "set xs \<subseteq> insert a (fst ` set ps)" "\<forall>x \<in> set xs. \<exists>k \<le> d. ancestor_at ps k x a"
    by blast
  have "pid \<notin> set xs"
  proof
    assume "pid \<in> set xs"
    then obtain k where "k \<le> d" "ancestor_at ps k pid a" using xs(4) by blast
    with ancestor_at_unique [OF Suc.prems] show False by force
  qed
  moreover have "\<exists>k \<le> Suc d. ancestor_at ps k x a" if "x \<in> set (pid # xs)" for x
    using that xs(4) Suc.prems by (auto intro: le_SucI)
  moreover have "pid \<in> fst ` set ps" using p(1) by (rule map_of_Some_key)
  ultimately show ?case using xs by (intro exI [of _ "pid # xs"]) auto
qed

lemma ancestor_at_bound:
  assumes "ancestor_at ps d pid a" and "a \<in> fst ` set ps"
  shows "d < length ps"
proof -
  obtain xs where xs: "length xs = Suc d" "distinct xs" "set xs \<subseteq> insert a (fst ` set ps)"
    using ancestor_at_path [OF assms(1)] by blast
  then have "Suc d \<le> card (fst ` set ps)"
    using assms(2) by (metis card_mono distinct_card finite_imageI finite_set insert_absorb)
  also have "card (fst ` set ps) \<le> length ps"
    using card_image_le [of "set ps" fst] card_length [of ps] by simp
  finally show ?thesis by simp
qed

text \<open>
  The depth search is exact: for an ancestor that is in the snapshot it returns \<open>d\<close> exactly
  when following parents from the process meets the ancestor first after \<open>d\<close> steps; cycles and
  missing processes end it.
\<close>

theorem descendant_depth_exact:
  assumes "map_of ps a \<noteq> None"
  shows "descendant_depth pid a ps = Some d \<longleftrightarrow> ancestor_at ps d pid a"
proof -
  obtain v where "map_of ps a = Some v" using assms by blast
  then have "a \<in> fst ` set ps" by (rule map_of_Some_key)
  then show ?thesis
    using ancestor_at_bound [of ps d pid a] by (auto simp: descendant_depth_def depth_loop_iff)
qed

definition demo_process :: "int \<Rightarrow> int \<Rightarrow> process" where
  "demo_process pid ppid =
     \<lparr>pr_pid = pid, pr_parent_pid = ppid, pr_process_group_id = 10, pr_resident_bytes = 4096,
      pr_interactive = (pid = 12), pr_ghc_executable = (pid = 12), pr_cabal_executable = (pid = 11)\<rparr>"

definition demo_table :: process_table where
  "demo_table = [(10, demo_process 10 1), (11, demo_process 11 10), (12, demo_process 12 11)]"

theorem descendant_depth_exact_witness:
  "descendant_depth 12 10 demo_table = Some 2 \<longleftrightarrow> ancestor_at demo_table 2 12 10"
  by (rule descendant_depth_exact) (simp add: demo_table_def)

section \<open>The charged pair\<close>

definition keyed :: "process_table \<Rightarrow> bool" where
  "keyed ps \<longleftrightarrow> bm_inv ps \<and> (\<forall>(k, p) \<in> set ps. pr_pid p = k)"

lemma keyed_insert: "keyed ps \<Longrightarrow> keyed (bm_insert (pr_pid p) p ps)"
  using set_bm_insert [of "pr_pid p" p ps] unfolding keyed_def
  by (intro conjI bm_inv_insert) blast+

lemma process_snapshot_keyed: "keyed ps \<Longrightarrow> keyed (process_snapshot es ps)"
  by (induction es ps rule: process_snapshot.induct) (auto simp: keyed_insert split: option.split)

lemma keyed_map_of: "keyed ps \<Longrightarrow> p \<in> snd ` set ps \<longleftrightarrow> map_of ps (pr_pid p) = Some p"
  using strict_sorted_iff [of "map fst ps"]
  by (auto simp: keyed_def bm_inv_def dest: map_of_SomeD intro: map_of_is_SomeI image_eqI [of _ snd, rotated])

lemma min_by_pid_None: "min_by_pid xs = None \<longleftrightarrow> xs = []"
  by (cases xs) (auto split: option.splits)

lemma min_by_pid_Some:
  "min_by_pid xs = Some x \<Longrightarrow> x \<in> set xs \<and> (\<forall>y \<in> set xs. pr_pid (snd x) \<le> pr_pid (snd y))"
proof (induction xs arbitrary: x)
  case (Cons a xs)
  show ?case
  proof (cases "min_by_pid xs")
    case None
    then have "xs = []" by (simp add: min_by_pid_None)
    then show ?thesis using Cons.prems by simp
  next
    case (Some y)
    from Cons.IH [OF Some] show ?thesis using Cons.prems Some by (auto split: if_splits)
  qed
qed simp

text \<open>The specification of an eligible pair: two parent links below the command.\<close>

definition eligible :: "int \<Rightarrow> process_table \<Rightarrow> process \<Rightarrow> process \<Rightarrow> bool" where
  "eligible command_pid ps cabal ghc \<longleftrightarrow>
     map_of ps (pr_pid ghc) = Some ghc \<and> map_of ps (pr_pid cabal) = Some cabal \<and>
     pr_interactive ghc \<and> pr_ghc_executable ghc \<and> pr_cabal_executable cabal \<and>
     pr_parent_pid ghc = pr_pid cabal \<and> pr_parent_pid cabal = command_pid \<and>
     distinct [pr_pid ghc, pr_pid cabal, command_pid]"

lemma repl_pair_eligible:
  assumes "keyed ps" and "map_of ps c \<noteq> None" and "map_of ps (pr_pid ghc) = Some ghc"
  shows "repl_pair c ps ghc = Some (cabal, g) \<longleftrightarrow> g = ghc \<and> eligible c ps cabal ghc"
proof -
  have key: "pr_pid p = k" if "map_of ps k = Some p" for k p
    using assms(1) map_of_SomeD [OF that] by (auto simp: keyed_def)
  have two: "descendant_depth (pr_pid ghc) c ps = Some 2 \<longleftrightarrow> pr_pid ghc \<noteq> c \<and> pr_parent_pid ghc \<noteq> pr_pid ghc \<and>
      pr_parent_pid ghc \<noteq> c \<and> (case map_of ps (pr_parent_pid ghc) of None \<Rightarrow> False
        | Some p \<Rightarrow> pr_parent_pid p \<noteq> pr_parent_pid ghc \<and> pr_parent_pid p = c)"
    by (simp add: descendant_depth_exact [OF assms(2)] numeral_2_eq_2 assms(3) cong: option.case_cong)
  show ?thesis
  proof (cases "map_of ps (pr_parent_pid ghc)")
    case None
    then show ?thesis by (auto simp: repl_pair_def two eligible_def)
  next
    case (Some p)
    have p: "pr_pid p = pr_parent_pid ghc" using key [OF Some] .
    have one: "descendant_depth (pr_pid p) c ps = Some 1 \<longleftrightarrow>
        pr_pid p \<noteq> c \<and> pr_parent_pid p \<noteq> pr_pid p \<and> pr_parent_pid p = c"
      using Some p by (simp add: descendant_depth_exact [OF assms(2)])
    show ?thesis
      using Some p assms(3) one by (auto simp: repl_pair_def two eligible_def)
  qed
qed

text \<open>
  The watchdog charges the right pair: when the command still has its process group, the pair
  selected is an interactive GHC whose parent is a Cabal process whose parent is the command, the
  one with the least process id; nothing is selected exactly when there is no such pair.
\<close>

theorem select_pair_exact:
  assumes "keyed ps" and "map_of ps command_pid = Some command"
    and "pr_process_group_id command = pgid"
  shows "case select_pair command_pid pgid ps of
      Some (cabal, ghc) \<Rightarrow> eligible command_pid ps cabal ghc \<and>
        (\<forall>c g. eligible command_pid ps c g \<longrightarrow> pr_pid ghc \<le> pr_pid g)
    | None \<Rightarrow> \<forall>c g. \<not> eligible command_pid ps c g"
proof -
  let ?xs = "List.map_filter (repl_pair command_pid ps) (map snd ps)"
  have mem: "(c, g) \<in> set ?xs \<longleftrightarrow> eligible command_pid ps c g" for c g
  proof -
    have "(c, g) \<in> set ?xs \<longleftrightarrow> (\<exists>q \<in> snd ` set ps. repl_pair command_pid ps q = Some (c, g))"
      by (simp add: set_map_filter)
    also have "\<dots> \<longleftrightarrow> (\<exists>q. map_of ps (pr_pid q) = Some q \<and> repl_pair command_pid ps q = Some (c, g))"
      using keyed_map_of [OF assms(1)] by blast
    also have "\<dots> \<longleftrightarrow> eligible command_pid ps c g"
      using repl_pair_eligible [OF assms(1)] assms(2) by (auto simp: eligible_def)
    finally show ?thesis .
  qed
  have sel: "select_pair command_pid pgid ps = min_by_pid ?xs"
    using assms by (simp add: select_pair_def)
  show ?thesis
  proof (cases "min_by_pid ?xs")
    case None
    then have "?xs = []" by (simp add: min_by_pid_None)
    then have "\<not> eligible command_pid ps c g" for c g using mem [of c g] by simp
    then show ?thesis using sel None by simp
  next
    case (Some x)
    obtain c g where x: "x = (c, g)" by (cases x)
    note least = min_by_pid_Some [OF Some]
    have "eligible command_pid ps c g" using least mem x by blast
    moreover have "pr_pid g \<le> pr_pid g'" if "eligible command_pid ps c' g'" for c' g'
    proof -
      have "(c', g') \<in> set ?xs" using mem that by blast
      with least show ?thesis by (force simp: x)
    qed
    ultimately show ?thesis using sel Some x by simp
  qed
qed

lemma demo_selected: "select_pair 10 10 demo_table = Some (demo_process 11 10, demo_process 12 11)"
  by (simp add: select_pair_def demo_table_def demo_process_def List.map_filter_def repl_pair_def
      descendant_depth_def eval_nat_numeral)

theorem select_pair_exact_witness:
  "eligible 10 demo_table (demo_process 11 10) (demo_process 12 11) \<and>
   select_pair 10 10 demo_table = Some (demo_process 11 10, demo_process 12 11)"
proof -
  have k: "keyed demo_table" by (simp add: keyed_def demo_table_def bm_inv_def demo_process_def)
  have "map_of demo_table 10 = Some (demo_process 10 1)" "pr_process_group_id (demo_process 10 1) = 10"
    by (simp_all add: demo_table_def demo_process_def)
  from select_pair_exact [OF k this] show ?thesis by (simp add: demo_selected)
qed

section \<open>Reports and charges\<close>

lemma rollup_line:
  assumes "unat n * 1024 < 2 ^ 64"
  shows "(case split_whitespace ('' '' @ show_word n @ '' kB'') of
      [k, unit] \<Rightarrow> Option.bind (parse_u64 k) (\<lambda>kib. if unit = ''kB'' then checked_mul kib 1024 else None)
    | _ \<Rightarrow> None) = Some (n * 1024)"
proof -
  have "\<not> is_space c" if "c \<in> set (show_word n)" for c
  proof -
    have "is_digit c" using show_nat_digits that unfolding show_word_def .
    then show ?thesis by (auto simp: is_digit_def is_space_def)
  qed
  moreover have "show_word n \<noteq> []" by (simp add: show_word_def)
  ultimately have "split_whitespace (show_word n @ '' kB'') = show_word n # split_whitespace '' kB''"
    by (intro split_whitespace_word) (simp_all add: is_space_def)
  moreover have "split_whitespace '' kB'' = [''kB'']"
    using split_whitespace_word [of "''kB''" "[]"] by (simp add: split_whitespace_space is_space_def)
  ultimately have "split_whitespace ('' '' @ show_word n @ '' kB'') = [show_word n, ''kB'']"
    by (simp add: split_whitespace_space is_space_def)
  then show ?thesis using assms by (simp add: parse_show_word checked_mul_def)
qed

definition rollup_report :: "u64 \<Rightarrow> u64 \<Rightarrow> u64 \<Rightarrow> string" where
  "rollup_report rss lazy_free swap = unlines
     [''Rss: '' @ show_word rss @ '' kB'', ''LazyFree: '' @ show_word lazy_free @ '' kB'',
      ''Swap: '' @ show_word swap @ '' kB'']"

lemma show_word_chars: "c \<in> set (show_word n) \<Longrightarrow> c \<noteq> newline \<and> c \<noteq> CHR 0x0D"
  using show_nat_digits [of c "unat n"] unfolding show_word_def by (auto simp: is_digit_def)

lemma lines_rollup_report:
  "str_lines (rollup_report a b c) =
     [''Rss: '' @ show_word a @ '' kB'', ''LazyFree: '' @ show_word b @ '' kB'', ''Swap: '' @ show_word c @ '' kB'']"
proof -
  have nl: "newline \<notin> set (show_word n)" for n using show_word_chars by blast
  have "complete_lines (rollup_report a b c @ []) =
     [''Rss: '' @ show_word a @ '' kB'', ''LazyFree: '' @ show_word b @ '' kB'', ''Swap: '' @ show_word c @ '' kB''] @ []"
    unfolding rollup_report_def by (subst complete_lines_unlines) (auto simp: nl)
  moreover have "last_partial (unlines ls) = []" if "\<forall>l \<in> set ls. newline \<notin> set l" for ls
    using that by (induction ls) auto
  then have "last_partial (rollup_report a b c) = []"
    unfolding rollup_report_def by (auto simp: nl simp del: unlines_simps)
  ultimately show ?thesis by (simp add: str_lines_def strip_cr_def suffix_def)
qed

lemma parse_rollup_report:
  assumes "unat a * 1024 < 2 ^ 64" and "unat b * 1024 < 2 ^ 64" and "unat c * 1024 < 2 ^ 64"
  shows "parse_rollup (rollup_report a b c)
    = (if b \<le> a then Some (a * 1024, b * 1024, c * 1024) else None)"
proof -
  have le: "b * 1024 \<le> a * 1024 \<longleftrightarrow> b \<le> a"
    using assms(1,2) by (simp add: word_le_nat_alt unat_mult_lem [THEN iffD1])
  have "line_value (rollup_report a b c) ''Rss:'' = Some ('' '' @ show_word a @ '' kB'')"
    "line_value (rollup_report a b c) ''LazyFree:'' = Some ('' '' @ show_word b @ '' kB'')"
    "line_value (rollup_report a b c) ''Swap:'' = Some ('' '' @ show_word c @ '' kB'')"
    by (simp_all add: line_value_def lines_rollup_report strip_prefix_def)
  then show ?thesis
    using rollup_line [OF assms(1)] rollup_line [OF assms(2)] rollup_line [OF assms(3)] le
    by (simp add: parse_rollup_def rollup_bytes_def)
qed

text \<open>
  A rollup report reads back: the kernel's kilobytes come out as bytes, in any order of sizes,
  except that more lazily freed than resident memory makes the sample unusable.
\<close>

theorem parse_rollup_roundtrip:
  assumes "unat a * 1024 < 2 ^ 64" and "unat b * 1024 < 2 ^ 64" and "unat c * 1024 < 2 ^ 64"
  shows "parse_rollup (rollup_report a b c)
    = (if b \<le> a then Some (a * 1024, b * 1024, c * 1024) else None)"
  by (rule parse_rollup_report [OF assms])

theorem parse_rollup_roundtrip_witness:
  "parse_rollup (rollup_report 8 4 2) = Some (8192, 4096, 2048)"
  using parse_rollup_roundtrip [of 8 4 2] by simp

lemma parse_rollup_lazy: "parse_rollup r = Some (rss, lazy_free, swap) \<Longrightarrow> lazy_free \<le> rss"
  by (auto simp: parse_rollup_def Option.bind_eq_Some_conv split: if_splits)

lemma sat_add_mono: "a \<le> b \<Longrightarrow> c \<le> d \<Longrightarrow> sat_add a c \<le> sat_add b d"
  by (simp add: word_le_nat_alt unat_sat_add)

lemma add_rollup_lazy:
  assumes "add_rollup reports sel u = Inr (sel', u')" and "mu_lazy_free_bytes u \<le> mu_bytes u"
  shows "mu_lazy_free_bytes u' \<le> mu_bytes u'"
proof (cases sel)
  case None
  then show ?thesis using assms by (simp add: add_rollup_def)
next
  case (Some x)
  obtain pid rss where x: "x = (pid, rss)" by (cases x)
  obtain report r l s where "parse_rollup report = Some (r, l, s)"
    and u': "u' = u\<lparr>mu_swap_bytes := sat_add (mu_swap_bytes u) s, mu_bytes := sat_add (mu_bytes u) r,
      mu_lazy_free_bytes := sat_add (mu_lazy_free_bytes u) l\<rparr>"
    using assms(1) by (auto simp: add_rollup_def Some x res_simps split: option.splits)
  then have "l \<le> r" by (simp add: parse_rollup_lazy)
  then show ?thesis using assms(2) by (simp add: u' sat_add_mono)
qed

text \<open>
  A sample that is taken is consistent: no more memory is lazily freed than resident, so the
  charge is what is resident, less what is reclaimable, plus what is swapped out, capped at the
  largest \<open>u64\<close>.
\<close>

theorem repl_resident_memory_charge:
  assumes "repl_resident_memory reports command_pid pgid ps = Inr u"
  shows "mu_lazy_free_bytes u \<le> mu_bytes u \<and>
    unat (charged_bytes u)
      = min (unat (mu_bytes u) - unat (mu_lazy_free_bytes u) + unat (mu_swap_bytes u)) (2 ^ 64 - 1)"
proof -
  have "mu_lazy_free_bytes u \<le> mu_bytes u"
    using assms
    by (auto simp: repl_resident_memory_def select_repl_processes_def Let_def res_simps
        dest!: add_rollup_lazy)
  then show ?thesis by (simp add: charged_bytes_def unat_sat_add unat_sat_sub)
qed

theorem repl_resident_memory_charge_witness:
  "\<exists>u. repl_resident_memory (\<lambda>_. Inr (rollup_report 8 4 2)) 10 10 demo_table = Inr u \<and>
     mu_lazy_free_bytes u \<le> mu_bytes u"
proof -
  obtain u where u: "repl_resident_memory (\<lambda>_. Inr (rollup_report 8 4 2)) 10 10 demo_table = Inr u"
    using parse_rollup_report [of 8 4 2] demo_selected
    by (simp add: repl_resident_memory_def select_repl_processes_def add_rollup_def)
  from repl_resident_memory_charge [OF u] u show ?thesis by blast
qed

end
