(* ===== verification/ProcTree.thy ===== *)
theory ProcTree
  imports Memory
begin

text \<open>
  \<open>src/src/ghci/process.rs\<close>, the part that finds and kills the process tree of a session. The
  signals sent are a trace; the snapshots of \<open>/proc\<close>, the outcome of pinning a process and of
  sending a signal come from the kernel and are parameters.
\<close>

section \<open>Snapshots\<close>

record process_stat =
  st_pid :: int
  st_parent_pid :: int
  st_process_group_id :: int
  st_start_time :: u64

type_synonym stat_table = "(int, process_stat) btmap"

text \<open>\<open>rsplit_once(')')\<close>: what follows the last closing parenthesis.\<close>

definition after_last_paren :: "string \<Rightarrow> string option" where
  "after_last_paren s =
     (if CHR '')'' \<in> set s then Some (rev (takeWhile (\<lambda>c. c \<noteq> CHR '')'') (rev s))) else None)"

definition nth_option :: "'a list \<Rightarrow> nat \<Rightarrow> 'a option" where
  "nth_option xs n = (if n < length xs then Some (xs ! n) else None)"

definition parse_process_stat :: "int \<Rightarrow> string \<Rightarrow> process_stat option" where
  "parse_process_stat pid stat =
     Option.bind (after_last_paren stat) (\<lambda>rest.
       let fields = split_whitespace rest in
       Option.bind (Option.bind (nth_option fields 1) parse_i32) (\<lambda>parent_pid.
       Option.bind (Option.bind (nth_option fields 2) parse_i32) (\<lambda>process_group_id.
       Option.bind (Option.bind (nth_option fields 19) parse_u64) (\<lambda>start_time.
         Some \<lparr>st_pid = pid, st_parent_pid = parent_pid, st_process_group_id = process_group_id,
               st_start_time = start_time\<rparr>))))"

fun stat_snapshot :: "(string \<times> string option) option list \<Rightarrow> stat_table \<Rightarrow> stat_table" where
  "stat_snapshot [] snapshot = snapshot"
| "stat_snapshot (entry # entries) snapshot =
     (case Option.bind entry (\<lambda>(name, text).
        Option.bind (parse_i32 name) (\<lambda>pid. Option.bind text (parse_process_stat pid))) of
        Some st \<Rightarrow> stat_snapshot entries (bm_insert (st_pid st) st snapshot)
      | None \<Rightarrow> stat_snapshot entries snapshot)"

section \<open>The process tree\<close>

text \<open>One pass over the snapshot adds the children of the family.\<close>

fun tree_pass ::
  "process_stat list \<Rightarrow> int list \<Rightarrow> process_stat list \<Rightarrow> bool \<Rightarrow> int list \<times> process_stat list \<times> bool" where
  "tree_pass [] family processes changed = (family, processes, changed)"
| "tree_pass (st # stats) family processes changed =
     (if st_pid st \<notin> set family \<and> st_parent_pid st \<in> set family
      then tree_pass stats (bs_insert (st_pid st) family) (processes @ [st]) True
      else tree_pass stats family processes changed)"

text \<open>The passes shrink the part of the snapshot outside the family.\<close>

definition outside :: "process_stat list \<Rightarrow> int list \<Rightarrow> nat" where
  "outside stats family = card (st_pid ` set stats - set family)"

lemma tree_pass_family:
  "tree_pass stats family processes changed = (family', processes', changed') \<Longrightarrow>
   set family \<subseteq> set family' \<and> set family' \<subseteq> set family \<union> st_pid ` set stats \<and>
   (changed' \<longrightarrow> changed \<or> (\<exists>st \<in> set stats. st_pid st \<in> set family' - set family))"
  by (induction stats family processes changed rule: tree_pass.induct) (auto split: if_splits)

function tree_loop ::
  "process_stat list \<Rightarrow> int list \<Rightarrow> process_stat list \<Rightarrow> int list \<times> process_stat list" where
  "tree_loop stats family processes =
     (let (family', processes', changed) = tree_pass stats family processes False in
      if changed then tree_loop stats family' processes' else (family', processes'))"
  by pat_completeness auto
termination
proof (relation "measure (\<lambda>(stats, family, processes). outside stats family)")
  fix stats family processes x family' y processes' changed
  assume "x = tree_pass stats family processes False" and "(family', y) = x" and "(processes', changed) = y"
    and changed
  then have p: "tree_pass stats family processes False = (family', processes', True)" by simp
  from tree_pass_family [OF p] obtain st where st: "st \<in> set stats" "st_pid st \<in> set family'"
    "st_pid st \<notin> set family" "set family \<subseteq> set family'"
    by auto
  then have "st_pid ` set stats - set family' \<subset> st_pid ` set stats - set family" by blast
  then have "outside stats family' < outside stats family"
    unfolding outside_def by (rule psubset_card_mono [rotated]) simp
  then show "((stats, family', processes'), stats, family, processes)
      \<in> measure (\<lambda>(stats, family, processes). outside stats family)"
    by simp
qed simp

declare tree_loop.simps [simp del]

definition initial_family :: "int \<Rightarrow> int \<Rightarrow> stat_table \<Rightarrow> int list" where
  "initial_family process_id process_group_id snapshot =
     bs_insert process_id (bs_collect (map st_pid
       (filter (\<lambda>st. st_pid st = process_id \<or> st_process_group_id st = process_group_id)
         (map snd snapshot))))"

definition process_tree :: "int \<Rightarrow> int \<Rightarrow> stat_table \<Rightarrow> process_stat list" where
  "process_tree process_id process_group_id snapshot =
     (let family = initial_family process_id process_group_id snapshot in
      snd (tree_loop (map snd snapshot) family (List.map_filter (map_of snapshot) family)))"

section \<open>Killing the tree\<close>

datatype sig = SIGSTOP | SIGKILL

text \<open>Who a signal is sent to: the process group, or one captured process.\<close>

datatype target = Group int | One process_stat

record kill_env =
  ke_track :: "nat \<Rightarrow> process_stat \<Rightarrow> bool"
  ke_signal_error :: "sig \<Rightarrow> target \<Rightarrow> io_error option"

text \<open>
  One pass: every process of the tree that is not captured yet makes the pass unstable; one that is
  still there (\<open>ke_track\<close>, in the given pass) is stopped and captured.
\<close>

fun capture_pass ::
  "kill_env \<Rightarrow> nat \<Rightarrow> process_stat list \<Rightarrow> stat_table \<Rightarrow> (sig \<times> target) list \<Rightarrow> bool
   \<Rightarrow> stat_table \<times> (sig \<times> target) list \<times> bool" where
  "capture_pass env n [] captured signals found_new = (captured, signals, found_new)"
| "capture_pass env n (st # stats) captured signals found_new =
     (if map_of captured (st_pid st) \<noteq> None then capture_pass env n stats captured signals found_new
      else if ke_track env n st
      then capture_pass env n stats (bm_insert (st_pid st) st captured)
             (signals @ [(SIGSTOP, One st)]) True
      else capture_pass env n stats captured signals True)"

text \<open>
  The discovery loop over the snapshots \<open>/proc\<close> gives, ending at a stable pass or a failed
  snapshot (whose error is kept); \<open>None\<close> when the snapshots end before it does.
\<close>

fun capture_loop ::
  "kill_env \<Rightarrow> int \<Rightarrow> int \<Rightarrow> nat \<Rightarrow> stat_table res list \<Rightarrow> stat_table \<Rightarrow> (sig \<times> target) list
   \<Rightarrow> (stat_table \<times> (sig \<times> target) list \<times> io_error option) option" where
  "capture_loop env pid pgid n [] captured signals = None"
| "capture_loop env pid pgid n (Inl e # snapshots) captured signals = Some (captured, signals, Some e)"
| "capture_loop env pid pgid n (Inr snapshot # snapshots) captured signals =
     (let (captured', signals', found_new) =
            capture_pass env n (process_tree pid pgid snapshot) captured signals False in
      if found_new then capture_loop env pid pgid (Suc n) snapshots captured' signals'
      else Some (captured', signals', None))"

definition first_error :: "io_error option list \<Rightarrow> io_error option" where
  "first_error errs = (case filter (\<lambda>e. e \<noteq> None) errs of [] \<Rightarrow> None | e # _ \<Rightarrow> e)"

definition kill_process_tree ::
  "kill_env \<Rightarrow> int \<Rightarrow> int \<Rightarrow> stat_table res list \<Rightarrow> ((sig \<times> target) list \<times> unit res) option" where
  "kill_process_tree env pid pgid snapshots =
     map_option (\<lambda>(captured, signals, err).
       let kills = map (\<lambda>st. (SIGKILL, One st)) (rev (map snd captured)) @ [(SIGKILL, Group pgid)];
           errs = err # map (\<lambda>(s, t). ke_signal_error env s t) kills in
       (signals @ kills, case first_error errs of Some e \<Rightarrow> Inl e | None \<Rightarrow> Inr ()))
     (capture_loop env pid pgid 0 snapshots [] [(SIGSTOP, Group pgid)])"

section \<open>The tree is the closure\<close>

text \<open>The family: the command, its group, and every descendant of a member.\<close>

inductive in_family :: "int \<Rightarrow> int \<Rightarrow> process_stat set \<Rightarrow> int \<Rightarrow> bool" for pid pgid stats where
  family_root: "in_family pid pgid stats pid"
| family_group: "st \<in> stats \<Longrightarrow> st_process_group_id st = pgid \<Longrightarrow> in_family pid pgid stats (st_pid st)"
| family_child: "in_family pid pgid stats (st_parent_pid st) \<Longrightarrow> st \<in> stats \<Longrightarrow>
    in_family pid pgid stats (st_pid st)"

definition stat_keyed :: "stat_table \<Rightarrow> bool" where
  "stat_keyed t \<longleftrightarrow> bm_inv t \<and> (\<forall>(k, st) \<in> set t. st_pid st = k)"

text \<open>What a pass keeps: the list holds the snapshot entries of the family, once each.\<close>

definition tree_inv :: "process_stat list \<Rightarrow> int list \<Rightarrow> process_stat list \<Rightarrow> bool" where
  "tree_inv stats family processes \<longleftrightarrow>
     set processes = {st \<in> set stats. st_pid st \<in> set family} \<and> distinct (map st_pid processes)"

lemma tree_pass_inv:
  "tree_pass rest family processes changed = (family', processes', changed') \<Longrightarrow>
   inj_on st_pid (set stats) \<Longrightarrow> set rest \<subseteq> set stats \<Longrightarrow> tree_inv stats family processes \<Longrightarrow>
   tree_inv stats family' processes'"
proof (induction rest family processes changed rule: tree_pass.induct)
  case (2 st rest family processes changed)
  show ?case
  proof (cases "st_pid st \<notin> set family \<and> st_parent_pid st \<in> set family")
    case True
    have "tree_inv stats (bs_insert (st_pid st) family) (processes @ [st])"
      using 2(5,4,6) True by (auto simp: tree_inv_def inj_on_def)
    with 2 True show ?thesis by simp
  next
    case False
    with 2 show ?thesis by (auto split: if_splits)
  qed
qed simp

lemma tree_pass_sound:
  "tree_pass rest family processes changed = (family', processes', changed') \<Longrightarrow>
   set rest \<subseteq> stats \<Longrightarrow> (\<forall>p \<in> set family. in_family pid pgid stats p) \<Longrightarrow>
   \<forall>p \<in> set family'. in_family pid pgid stats p"
  by (induction rest family processes changed rule: tree_pass.induct)
     (auto split: if_splits intro: family_child)

lemma tree_pass_stable:
  "tree_pass rest family processes changed = (family', processes', False) \<Longrightarrow>
   family' = family \<and> processes' = processes \<and> \<not> changed \<and>
   (\<forall>st \<in> set rest. st_parent_pid st \<in> set family \<longrightarrow> st_pid st \<in> set family)"
  by (induction rest family processes changed rule: tree_pass.induct) (auto split: if_splits)

lemma tree_loop_spec:
  assumes "tree_loop stats family processes = (family', processes')"
    and "inj_on st_pid (set stats)" and "tree_inv stats family processes"
    and "\<forall>p \<in> set family. in_family pid pgid (set stats) p"
  shows "tree_inv stats family' processes' \<and> set family \<subseteq> set family' \<and>
    (\<forall>p \<in> set family'. in_family pid pgid (set stats) p) \<and>
    (\<forall>st \<in> set stats. st_parent_pid st \<in> set family' \<longrightarrow> st_pid st \<in> set family')"
  using assms
proof (induction stats family processes rule: tree_loop.induct)
  case (1 stats family processes)
  obtain f p c where pass: "tree_pass stats family processes False = (f, p, c)"
    by (cases "tree_pass stats family processes False")
  have inv: "tree_inv stats f p" "\<forall>q \<in> set f. in_family pid pgid (set stats) q" "set family \<subseteq> set f"
    using tree_pass_inv [OF pass "1.prems"(2) subset_refl "1.prems"(3)]
      tree_pass_sound [OF pass subset_refl "1.prems"(4)] tree_pass_family [OF pass] by auto
  show ?case
  proof (cases c)
    case True
    then have "tree_loop stats f p = (family', processes')"
      using "1.prems"(1) pass by (subst (asm) tree_loop.simps) simp
    from "1.IH" [OF pass [symmetric] refl refl True this "1.prems"(2) inv(1,2)] inv(3)
    show ?thesis by blast
  next
    case False
    then have "family' = f" "processes' = p"
      using "1.prems"(1) pass by (subst (asm) tree_loop.simps, simp)+
    then show ?thesis using inv tree_pass_stable [of stats family processes False f p] pass False by simp
  qed
qed

end
