(* ===== verification/ProcTreeProps.thy ===== *)
theory ProcTreeProps
  imports ProcTree MemoryProps
begin

text \<open>
  What killing a session promises: the tree is the whole family of the command, and whatever the
  last snapshot still shows of it has been stopped and is killed.
\<close>

section \<open>The tree\<close>

lemma stat_keyed_inj: "stat_keyed t \<Longrightarrow> inj_on st_pid (set (map snd t))"
proof (rule inj_onI)
  fix x y
  assume t: "stat_keyed t" and "x \<in> set (map snd t)" "y \<in> set (map snd t)" "st_pid x = st_pid y"
  then have "(st_pid x, x) \<in> set t" "(st_pid x, y) \<in> set t" by (auto simp: stat_keyed_def)
  moreover have "distinct (map fst t)" using t by (simp add: stat_keyed_def bm_inv_def strict_sorted_iff)
  ultimately show "x = y" by (metis eq_key_imp_eq_value)
qed

lemma stat_keyed_map_of: "stat_keyed t \<Longrightarrow> map_of t k = Some st \<longleftrightarrow> st \<in> set (map snd t) \<and> st_pid st = k"
proof
  assume t: "stat_keyed t"
  show "map_of t k = Some st \<Longrightarrow> st \<in> set (map snd t) \<and> st_pid st = k"
    using t by (force simp: stat_keyed_def dest: map_of_SomeD)
  assume "st \<in> set (map snd t) \<and> st_pid st = k"
  then have "(k, st) \<in> set t" using t by (auto simp: stat_keyed_def)
  moreover have "distinct (map fst t)" using t by (simp add: stat_keyed_def bm_inv_def strict_sorted_iff)
  ultimately show "map_of t k = Some st" by simp
qed

lemma set_initial_family:
  "set (initial_family pid pgid t)
     = insert pid (st_pid ` {st \<in> set (map snd t). st_pid st = pid \<or> st_process_group_id st = pgid})"
  by (auto simp: initial_family_def)

lemma distinct_found:
  assumes "\<And>k st. f k = Some st \<Longrightarrow> st_pid st = k" and "distinct ks"
  shows "distinct (map st_pid (List.map_filter f ks)) \<and> st_pid ` set (List.map_filter f ks) \<subseteq> set ks"
  using assms(2)
proof (induction ks)
  case (Cons k ks)
  then show ?case using assms(1) by (cases "f k") (auto simp: List.map_filter_def)
qed (simp add: List.map_filter_def)

lemma initial_tree_inv:
  assumes "stat_keyed t"
  shows "tree_inv (map snd t) (initial_family pid pgid t)
    (List.map_filter (map_of t) (initial_family pid pgid t))"
proof -
  let ?f = "initial_family pid pgid t"
  have "distinct ?f"
    by (simp add: initial_family_def bs_inv_distinct bs_inv_insert bs_inv_collect)
  then have "distinct (map st_pid (List.map_filter (map_of t) ?f))"
    using distinct_found [of "map_of t"] stat_keyed_map_of [OF assms] by blast
  then show ?thesis
    by (auto simp: tree_inv_def set_map_filter stat_keyed_map_of [OF assms] simp del: set_map)
qed

lemma process_tree_exact:
  assumes "stat_keyed t"
  shows "set (process_tree pid pgid t)
      = {st \<in> set (map snd t). in_family pid pgid (set (map snd t)) (st_pid st)} \<and>
    distinct (map st_pid (process_tree pid pgid t))"
proof -
  let ?stats = "map snd t" and ?f = "initial_family pid pgid t"
  obtain family processes where loop:
    "tree_loop ?stats ?f (List.map_filter (map_of t) ?f) = (family, processes)"
    by (cases "tree_loop ?stats ?f (List.map_filter (map_of t) ?f)")
  have "\<forall>p \<in> set ?f. in_family pid pgid (set ?stats) p"
    unfolding set_initial_family by (auto intro: family_root family_group)
  note spec = tree_loop_spec [OF loop stat_keyed_inj [OF assms] initial_tree_inv [OF assms] this]
  have "p \<in> set family" if "in_family pid pgid (set ?stats) p" for p
    using that
  proof (induction rule: in_family.induct)
    case family_root
    then show ?case using spec unfolding set_initial_family by blast
  next
    case (family_group st)
    then show ?case using spec unfolding set_initial_family by blast
  next
    case (family_child st)
    then show ?case using spec by blast
  qed
  then have "set family = {p. in_family pid pgid (set ?stats) p}" using spec by blast
  then show ?thesis using spec loop by (simp add: process_tree_def tree_inv_def)
qed

section \<open>Killing\<close>

definition stopped_inv :: "int \<Rightarrow> stat_table \<Rightarrow> (sig \<times> target) list \<Rightarrow> bool" where
  "stopped_inv pgid captured signals \<longleftrightarrow> bm_inv captured \<and>
     signals \<noteq> [] \<and> hd signals = (SIGSTOP, Group pgid) \<and>
     (\<forall>k st. map_of captured k = Some st \<longrightarrow> st_pid st = k \<and> (SIGSTOP, One st) \<in> set signals) \<and>
     (\<forall>x \<in> set signals. fst x = SIGSTOP)"

lemma capture_pass_inv:
  "capture_pass env n stats captured signals found = (captured', signals', found') \<Longrightarrow>
   stopped_inv pgid captured signals \<Longrightarrow> stopped_inv pgid captured' signals'"
proof (induction env n stats captured signals found rule: capture_pass.induct)
  case (2 env n st stats captured signals found)
  show ?case
  proof (cases "map_of captured (st_pid st) \<noteq> None")
    case True
    with 2 show ?thesis by simp
  next
    case False
    note new = False
    show ?thesis
    proof (cases "ke_track env n st")
      case True
      have "stopped_inv pgid (bm_insert (st_pid st) st captured) (signals @ [(SIGSTOP, One st)])"
        using "2.prems"(2) unfolding stopped_inv_def
        by (simp add: bm_inv_insert map_of_bm_insert)
      with 2 True new show ?thesis by simp
    next
      case False
      with 2 new show ?thesis by simp
    qed
  qed
qed simp

lemma capture_pass_stable:
  "capture_pass env n stats captured signals found = (captured', signals', False) \<Longrightarrow>
   captured' = captured \<and> signals' = signals \<and> \<not> found \<and>
   (\<forall>st \<in> set stats. map_of captured (st_pid st) \<noteq> None)"
proof (induction env n stats captured signals found rule: capture_pass.induct)
  case (2 env n st stats captured signals found)
  show ?case
  proof (cases "map_of captured (st_pid st) \<noteq> None")
    case True
    with "2.IH"(1) "2.prems" show ?thesis by simp
  next
    case False
    then have new: "map_of captured (st_pid st) = None" by simp
    show ?thesis
    proof (cases "ke_track env n st")
      case True
      then have "capture_pass env n stats (bm_insert (st_pid st) st captured)
          (signals @ [(SIGSTOP, One st)]) True = (captured', signals', False)"
        using "2.prems" new by simp
      from "2.IH"(2) [OF False True this] show ?thesis by blast
    next
      case untracked: False
      then have "capture_pass env n stats captured signals True = (captured', signals', False)"
        using "2.prems" new by simp
      from "2.IH"(3) [OF False untracked this] show ?thesis by blast
    qed
  qed
qed simp

lemma capture_loop_spec:
  "capture_loop env pid pgid n snapshots captured signals = Some (captured', signals', err) \<Longrightarrow>
   stopped_inv pgid captured signals \<Longrightarrow>
   stopped_inv pgid captured' signals' \<and>
   (err = None \<longrightarrow> (\<exists>s. Inr s \<in> set snapshots \<and>
      (\<forall>st \<in> set (process_tree pid pgid s). map_of captured' (st_pid st) \<noteq> None)))"
proof (induction env pid pgid n snapshots captured signals rule: capture_loop.induct)
  case (3 env pid pgid n snapshot snapshots captured signals)
  obtain c s f where pass: "capture_pass env n (process_tree pid pgid snapshot) captured signals False = (c, s, f)"
    by (cases "capture_pass env n (process_tree pid pgid snapshot) captured signals False")
  have inv: "stopped_inv pgid c s" by (rule capture_pass_inv [OF pass "3.prems"(2)])
  show ?case
  proof (cases f)
    case True
    then have "capture_loop env pid pgid (Suc n) snapshots c s = Some (captured', signals', err)"
      using "3.prems"(1) pass by simp
    from "3.IH" [OF pass [symmetric] refl refl True this inv] show ?thesis by auto
  next
    case False
    then have "c = captured'" "s = signals'" "err = None" using "3.prems"(1) pass by simp_all
    moreover have "\<forall>st \<in> set (process_tree pid pgid snapshot). map_of c (st_pid st) \<noteq> None"
      using capture_pass_stable [of env n "process_tree pid pgid snapshot" captured signals False c s]
        pass False by simp
    ultimately show ?thesis using inv by auto
  qed
qed auto

lemma capture_loop_error:
  "capture_loop env pid pgid n snapshots captured signals = Some (captured', signals', err) \<Longrightarrow>
   (\<And>e. Inl e \<notin> set snapshots) \<Longrightarrow> err = None"
  by (induction env pid pgid n snapshots captured signals rule: capture_loop.induct)
     (auto split: prod.splits if_splits)

section \<open>Properties\<close>

definition demo_stat :: "int \<Rightarrow> int \<Rightarrow> int \<Rightarrow> process_stat" where
  "demo_stat pid ppid pgid =
     \<lparr>st_pid = pid, st_parent_pid = ppid, st_process_group_id = pgid, st_start_time = 1\<rparr>"

definition demo_stats :: stat_table where
  "demo_stats = [(10, demo_stat 10 1 10), (20, demo_stat 20 10 20), (30, demo_stat 30 20 30), (40, demo_stat 40 1 40)]"

lemma demo_stats_keyed: "stat_keyed demo_stats"
  by (simp add: stat_keyed_def demo_stats_def demo_stat_def bm_inv_def)

text \<open>
  C24: the tree is the family: the discovery returns, once each, exactly the processes of the
  snapshot that are the command, belong to its group, or descend from such a process, through any
  number of generations and across groups.
\<close>

theorem process_tree_is_family:
  assumes "stat_keyed t"
  shows "set (process_tree pid pgid t)
      = {st \<in> set (map snd t). in_family pid pgid (set (map snd t)) (st_pid st)} \<and>
    distinct (map st_pid (process_tree pid pgid t))"
  by (rule process_tree_exact [OF assms])

theorem process_tree_is_family_witness:
  "set (process_tree 10 10 demo_stats)
     = {st \<in> set (map snd demo_stats). in_family 10 10 (set (map snd demo_stats)) (st_pid st)}"
  using process_tree_is_family [OF demo_stats_keyed] by blast

text \<open>
  Killing covers the tree: when discovery ends without a failed snapshot, the signals are all
  the stops followed by all the kills, and every process of the tree in the snapshot that ended it
  has been both stopped and killed; the group is stopped first and killed last.
\<close>

theorem kill_covers_tree:
  assumes "kill_process_tree env pid pgid snapshots = Some (signals, r)"
    and "\<And>e. Inl e \<notin> set snapshots"
  shows "\<exists>stops kills s. signals = (SIGSTOP, Group pgid) # stops @ kills @ [(SIGKILL, Group pgid)] \<and>
    fst ` set stops \<subseteq> {SIGSTOP} \<and> fst ` set kills \<subseteq> {SIGKILL} \<and> Inr s \<in> set snapshots \<and>
    (\<forall>st \<in> set (process_tree pid pgid s). \<exists>st'. st_pid st' = st_pid st \<and>
       (SIGSTOP, One st') \<in> set stops \<and> (SIGKILL, One st') \<in> set kills)"
proof -
  obtain captured sent err where loop:
    "capture_loop env pid pgid 0 snapshots [] [(SIGSTOP, Group pgid)] = Some (captured, sent, err)"
    and signals: "signals = sent @ map (\<lambda>st. (SIGKILL, One st)) (rev (map snd captured)) @ [(SIGKILL, Group pgid)]"
    using assms(1) by (auto simp: kill_process_tree_def Let_def)
  have "stopped_inv pgid [] [(SIGSTOP, Group pgid)]" by (simp add: stopped_inv_def)
  note spec = capture_loop_spec [OF loop this]
  have "err = None" by (rule capture_loop_error [OF loop assms(2)])
  with spec obtain s where s: "Inr s \<in> set snapshots"
    "\<forall>st \<in> set (process_tree pid pgid s). map_of captured (st_pid st) \<noteq> None" by blast
  obtain stops where stops: "sent = (SIGSTOP, Group pgid) # stops"
    using spec by (cases sent) (auto simp: stopped_inv_def)
  let ?kills = "map (\<lambda>st. (SIGKILL, One st)) (rev (map snd captured))"
  have "\<exists>st'. st_pid st' = st_pid st \<and> (SIGSTOP, One st') \<in> set stops \<and> (SIGKILL, One st') \<in> set ?kills"
    if st: "st \<in> set (process_tree pid pgid s)" for st
  proof -
    obtain st' where st': "map_of captured (st_pid st) = Some st'" using s(2) st by blast
    then have "st_pid st' = st_pid st" "(SIGSTOP, One st') \<in> set sent"
      using spec by (simp_all add: stopped_inv_def)
    moreover have "st' \<in> snd ` set captured" using map_of_SomeD [OF st'] by force
    ultimately show ?thesis using stops by auto
  qed
  moreover have "fst ` set stops \<subseteq> {SIGSTOP}" using spec stops by (auto simp: stopped_inv_def)
  moreover have "fst ` set ?kills \<subseteq> {SIGKILL}" by auto
  ultimately show ?thesis using signals stops s(1) by (intro exI [of _ stops] exI [of _ ?kills] exI [of _ s]) auto
qed

definition demo_kill :: kill_env where
  "demo_kill = \<lparr>ke_track = (\<lambda>_ _. True), ke_signal_error = (\<lambda>_ _. None)\<rparr>"

lemma demo_tree: "process_tree 10 10 demo_stats = [demo_stat 10 1 10, demo_stat 20 10 20, demo_stat 30 20 30]"
  by (simp add: process_tree_def initial_family_def bs_collect_def demo_stats_def demo_stat_def
      List.map_filter_def tree_loop.simps)

theorem kill_covers_tree_witness:
  "\<exists>signals. kill_process_tree demo_kill 10 10 [Inr demo_stats, Inr demo_stats] = Some (signals, Inr ()) \<and>
     (SIGKILL, Group 10) \<in> set signals"
proof -
  obtain signals where k: "kill_process_tree demo_kill 10 10 [Inr demo_stats, Inr demo_stats] = Some (signals, Inr ())"
    by (simp add: kill_process_tree_def demo_tree demo_kill_def demo_stat_def first_error_def)
  have "Inl e \<notin> set [Inr demo_stats, Inr demo_stats]" for e :: io_error by simp
  from kill_covers_tree [OF k this] k show ?thesis by auto
qed

end
