(* ===== verification/ShowPaths.thy ===== *)
theory ShowPaths
  imports Modules
begin

text \<open>
  \<open>src/src/ghci/parse/show_paths.rs\<close> and \<open>show_targets.rs\<close>: turning the targets GHCi lists into
  source paths and source paths into module names. Their parsers are in \<open>ShowParser\<close>; what exists on
  disk is a parameter.
\<close>

section \<open>More of the standard library's paths\<close>

fun split_on :: "char \<Rightarrow> string \<Rightarrow> string list" where
  "split_on d [] = [[]]"
| "split_on d (c # cs) =
     (if c = d then [] # split_on d cs
      else (case split_on d cs of [] \<Rightarrow> [[c]] | s # ss \<Rightarrow> (c # s) # ss))"

text \<open>Reading a path: repeated slashes and a \<open>.\<close> that is not leading vanish.\<close>

fun component_of :: "string \<Rightarrow> component" where
  "component_of s = (if s = ''.'' then CurDir else if s = ''..'' then ParentDir else Normal s)"

definition path_of_str :: "string \<Rightarrow> path" where
  "path_of_str s =
     (let parts = filter (\<lambda>p. p \<noteq> []) (split_on CHR ''/'' s);
          cs = map component_of parts in
      if prefix ''/'' s then RootDir # filter (\<lambda>c. c \<noteq> CurDir) cs
      else (case cs of
          [] \<Rightarrow> []
        | c # rest \<Rightarrow> c # filter (\<lambda>c. c \<noteq> CurDir) rest))"

definition name_stem :: "string \<Rightarrow> string" where
  "name_stem n = (case name_extension n of None \<Rightarrow> n | Some e \<Rightarrow> take (length n - length e - 1) n)"

text \<open>\<open>set_extension\<close>: a path without a file name stays, an empty extension only removes.\<close>

definition with_extension :: "string \<Rightarrow> path \<Rightarrow> path" where
  "with_extension e p =
     (case file_name p of
        None \<Rightarrow> p
      | Some n \<Rightarrow> butlast p @ [Normal (name_stem n @ (if e = [] then [] else CHR ''.'' # e))])"

definition path_strip_prefix :: "path \<Rightarrow> path \<Rightarrow> path option" where
  "path_strip_prefix base p = (if prefix base p then Some (drop (length base) p) else None)"

text \<open>\<open>max_by_key\<close> takes the last of several greatest elements.\<close>

fun max_by_key :: "('a \<Rightarrow> nat) \<Rightarrow> 'a list \<Rightarrow> 'a option" where
  "max_by_key f [] = None"
| "max_by_key f (x # xs) =
     (case max_by_key f xs of None \<Rightarrow> Some x | Some y \<Rightarrow> if f x \<le> f y then Some y else Some x)"

section \<open>Search paths\<close>

record show_paths =
  sp_cwd :: path
  sp_search_paths :: "path list"

definition absolute_search_paths :: "show_paths \<Rightarrow> path list" where
  "absolute_search_paths sp =
     map (\<lambda>p. if is_absolute p then p else path_join (sp_cwd sp) p) (sp_search_paths sp)"

text \<open>The candidates in the order they are tried: every extension over all the search paths.\<close>

definition target_candidates :: "show_paths \<Rightarrow> string \<Rightarrow> path list" where
  "target_candidates sp target =
     (let p = fold (\<lambda>s p. path_join p (path_of_str s)) (split_on CHR ''.'' target) [] in
      concat (map (\<lambda>e. map (\<lambda>root. path_join root (with_extension e p)) (absolute_search_paths sp))
        HASKELL_SOURCE_EXTENSIONS))"

definition target_to_path ::
  "path_env \<Rightarrow> (path \<Rightarrow> bool) \<Rightarrow> show_paths \<Rightarrow> string \<Rightarrow> loaded_module res" where
  "target_to_path penv exists_path sp target =
     (let target_path = path_of_str target in
      if is_haskell_source_file target_path
      then res_bind (normal_path_new penv (path_join (sp_cwd sp) target_path) (sp_cwd sp)) (\<lambda>np.
             Inr (loaded_module_new np))
      else (case find exists_path (target_candidates sp target) of
          Some p \<Rightarrow> res_bind (normal_path_new penv p (sp_cwd sp)) (\<lambda>np. Inr (with_name np target))
        | None \<Rightarrow> Inl (IoError (''Couldn't find source path for '' @ target))))"

definition path_to_module :: "show_paths \<Rightarrow> path \<Rightarrow> string res" where
  "path_to_module sp original =
     (let p = with_extension [] original;
          failure = IoError (''Couldn't convert '' @ path_str p @ '' to module name'');
          found = max_by_key fst (List.map_filter
            (\<lambda>root. map_option (\<lambda>s. (length root, s)) (path_strip_prefix root p)) (absolute_search_paths sp)) in
      case found of
        None \<Rightarrow> Inl failure
      | Some (n, rest) \<Rightarrow>
          let name = str_join ''.''
            (List.map_filter (\<lambda>c. case c of Normal s \<Rightarrow> Some s | _ \<Rightarrow> None) rest) in
          if name = [] then Inl failure else Inr name)"

text \<open>\<open>parse_show_targets\<close> after the lines have been split.\<close>

definition targets_of_lines ::
  "path_env \<Rightarrow> (path \<Rightarrow> bool) \<Rightarrow> show_paths \<Rightarrow> string list \<Rightarrow> module_set res" where
  "targets_of_lines penv exists_path sp lines =
     res_bind (res_map (target_to_path penv exists_path sp) lines) (\<lambda>ms. Inr (module_set_from_iter ms))"

section \<open>Facts\<close>

lemma split_on_nonempty: "split_on d s \<noteq> []"
  by (induction s) (auto split: list.split)

lemma split_on_free: "p \<in> set (split_on d s) \<Longrightarrow> d \<notin> set p"
proof (induction s arbitrary: p)
  case (Cons c cs)
  then show ?case by (cases "split_on d cs") (auto split: if_splits)
qed simp

lemma split_on_chars: "p \<in> set (split_on d s) \<Longrightarrow> set p \<subseteq> set s"
proof (induction s arbitrary: p)
  case (Cons c cs)
  then show ?case by (cases "split_on d cs") (fastforce split: if_splits)+
qed simp

lemma str_join_Cons_char: "ss \<noteq> [] \<Longrightarrow> str_join sep (s # ss) = s @ sep @ str_join sep ss"
  by (cases ss) auto

lemma join_split_on: "str_join [d] (split_on d s) = s"
proof (induction s)
  case (Cons c cs)
  obtain x xs where x: "split_on d cs = x # xs" using split_on_nonempty [of d cs] by (cases "split_on d cs") auto
  show ?case
  proof (cases "c = d")
    case True
    with Cons x show ?thesis by simp
  next
    case False
    with Cons x show ?thesis by (cases xs) auto
  qed
qed simp

lemma split_on_absent: "d \<notin> set s \<Longrightarrow> split_on d s = [s]"
  by (induction s) auto

text \<open>A part of a module name is one component of the path.\<close>

definition name_part :: "string \<Rightarrow> bool" where
  "name_part s \<longleftrightarrow> s \<noteq> [] \<and> CHR ''/'' \<notin> set s \<and> CHR ''.'' \<notin> set s"

lemma path_of_name_part: "name_part s \<Longrightarrow> path_of_str s = [Normal s]"
  by (cases s) (auto simp: name_part_def path_of_str_def Let_def split_on_absent prefix_def)

lemma is_absolute_simps [simp]:
  "\<not> is_absolute []" "\<not> is_absolute (Normal s # p)" "is_absolute (RootDir # p)"
  by (simp_all add: is_absolute_def)

lemma fold_name_parts:
  "\<forall>s \<in> set ss. name_part s \<Longrightarrow> fold (\<lambda>s p. path_join p (path_of_str s)) ss p = p @ map Normal ss"
  by (induction ss arbitrary: p) (auto simp: path_of_name_part path_join_def)

lemma file_name_append [simp]: "file_name (p @ [Normal n]) = Some n"
  by (simp add: file_name_def)

lemma name_stem_plain: "CHR ''.'' \<notin> set n \<Longrightarrow> name_stem n = n"
  by (simp add: name_stem_def name_extension_def)

lemma name_stem_extended:
  "n \<noteq> [] \<Longrightarrow> CHR ''.'' \<notin> set e \<Longrightarrow> name_stem (n @ CHR ''.'' # e) = n"
  by (simp add: name_stem_def name_extension_Some)

lemma with_extension_name:
  "CHR ''.'' \<notin> set n \<Longrightarrow> e \<noteq> [] \<Longrightarrow>
   with_extension e (p @ [Normal n]) = p @ [Normal (n @ CHR ''.'' # e)]"
  by (simp add: with_extension_def name_stem_plain)

lemma without_extension_name:
  "n \<noteq> [] \<Longrightarrow> CHR ''.'' \<notin> set e \<Longrightarrow>
   with_extension [] (p @ [Normal (n @ CHR ''.'' # e)]) = p @ [Normal n]"
  by (simp add: with_extension_def name_stem_extended)

lemma extensions_plain: "e \<in> set HASKELL_SOURCE_EXTENSIONS \<Longrightarrow> e \<noteq> [] \<and> CHR ''.'' \<notin> set e"
  by (auto simp: HASKELL_SOURCE_EXTENSIONS_def)

lemma max_by_key_None: "max_by_key f xs = None \<longleftrightarrow> xs = []"
  by (cases xs) (auto split: option.splits)

lemma max_by_key_Some:
  "max_by_key f xs = Some x \<Longrightarrow> x \<in> set xs \<and> (\<forall>y \<in> set xs. f y \<le> f x)"
proof (induction xs arbitrary: x)
  case (Cons a xs)
  then show ?case
    by (cases "max_by_key f xs") (fastforce simp: max_by_key_None split: if_splits)+
qed simp

lemma map_filter_Normal:
  "List.map_filter (\<lambda>c. case c of Normal s \<Rightarrow> Some s | _ \<Rightarrow> None) (map Normal ss) = ss"
  by (induction ss) (auto simp: List.map_filter_simps)

lemma target_candidates_named:
  assumes "\<forall>s \<in> set (split_on CHR ''.'' target). name_part s"
    and "p \<in> set (target_candidates sp target)"
  obtains root ss n e where "root \<in> set (absolute_search_paths sp)"
    and "split_on CHR ''.'' target = ss @ [n]" and "e \<in> set HASKELL_SOURCE_EXTENSIONS"
    and "p = root @ map Normal ss @ [Normal (n @ CHR ''.'' # e)]"
proof -
  obtain ss n where s: "split_on CHR ''.'' target = ss @ [n]"
    using split_on_nonempty by (metis append_butlast_last_id)
  have q: "fold (\<lambda>s p. path_join p (path_of_str s)) (split_on CHR ''.'' target) [] = map Normal ss @ [Normal n]"
    using fold_name_parts [OF assms(1), of "[]"] s by simp
  obtain e root where e: "e \<in> set HASKELL_SOURCE_EXTENSIONS" "root \<in> set (absolute_search_paths sp)"
    "p = path_join root (with_extension e (map Normal ss @ [Normal n]))"
    using assms(2) by (auto simp: target_candidates_def Let_def q)
  have n: "CHR ''.'' \<notin> set n" using assms(1) s by (auto simp: name_part_def)
  have "\<not> is_absolute (map Normal ss @ [Normal (n @ CHR ''.'' # e)])" by (cases ss) auto
  then have "p = root @ map Normal ss @ [Normal (n @ CHR ''.'' # e)]"
    using e extensions_plain [OF e(1)] n by (simp add: with_extension_name path_join_def)
  with that e s show thesis by blast
qed

lemma path_to_module_named:
  assumes "root \<in> set (absolute_search_paths sp)"
    and "\<And>r r'. r \<in> set (absolute_search_paths sp) \<Longrightarrow> r' \<in> set (absolute_search_paths sp) \<Longrightarrow>
      prefix r r' \<Longrightarrow> r = r'"
    and "with_extension [] p = root @ map Normal ss" and "str_join ''.'' ss \<noteq> []"
  shows "path_to_module sp p = Inr (str_join ''.'' ss)"
proof -
  let ?found = "List.map_filter
    (\<lambda>r. map_option (\<lambda>s. (length r, s)) (path_strip_prefix r (root @ map Normal ss))) (absolute_search_paths sp)"
  have all: "x = (length root, map Normal ss)" if "x \<in> set ?found" for x
  proof -
    obtain r where r: "r \<in> set (absolute_search_paths sp)" "prefix r (root @ map Normal ss)"
      "x = (length r, drop (length r) (root @ map Normal ss))"
      using \<open>x \<in> set ?found\<close> by (auto simp: set_map_filter path_strip_prefix_def split: if_splits)
    have "prefix r root \<or> prefix root r" using r(2) by (meson prefixI prefix_same_cases)
    with assms(1,2) r(1) have "r = root" by blast
    with r(3) show ?thesis by simp
  qed
  have "(length root, map Normal ss) \<in> set ?found"
    using assms(1) by (auto simp: set_map_filter path_strip_prefix_def intro!: bexI [of _ root])
  then obtain x where "max_by_key fst ?found = Some x" by (cases "max_by_key fst ?found") (auto simp: max_by_key_None)
  with all max_by_key_Some [OF this] have "max_by_key fst ?found = Some (length root, map Normal ss)" by auto
  then show ?thesis
    using assms(3,4) by (simp add: path_to_module_def Let_def map_filter_Normal)
qed

section \<open>Properties\<close>

text \<open>
  A module name found as a source file is the name that file is added by: going from the target
  to its path and back gives the target, whenever the search roots are not nested in each other.
\<close>

theorem target_path_roundtrip:
  assumes "target_to_path penv exists_path sp target = Inr m" and "lm_name m = Some target"
    and "\<forall>s \<in> set (split_on CHR ''.'' target). name_part s"
    and "\<forall>r \<in> set (absolute_search_paths sp). \<forall>r' \<in> set (absolute_search_paths sp). prefix r r' \<longrightarrow> r = r'"
    and "\<forall>p \<in> set (target_candidates sp target). penv_absolutize penv p (sp_cwd sp) = Inr p"
  shows "path_to_module sp (np_normal (lm_path m)) = Inr target"
proof -
  obtain p where p: "find exists_path (target_candidates sp target) = Some p"
    "normal_path_new penv p (sp_cwd sp) = Inr (lm_path m)"
    using assms(1,2)
    by (auto simp: target_to_path_def Let_def res_simps loaded_module_new_def with_name_def
        split: if_splits option.splits)
  then have pc: "p \<in> set (target_candidates sp target)" by (auto simp: find_Some_iff)
  with p(2) assms(5) have "lm_path m = \<lparr>np_normal = p, np_relative = penv_diff penv p (sp_cwd sp)\<rparr>"
    by (simp add: normal_path_new_def)
  then have np: "np_normal (lm_path m) = p" by simp
  obtain root ss n e where e: "root \<in> set (absolute_search_paths sp)"
    "split_on CHR ''.'' target = ss @ [n]" "e \<in> set HASKELL_SOURCE_EXTENSIONS"
    "p = (root @ map Normal ss) @ [Normal (n @ CHR ''.'' # e)]"
    using target_candidates_named [OF assms(3) pc] by (metis append.assoc)
  have n: "n \<noteq> []" using assms(3) e(2) by (auto simp: name_part_def)
  have "with_extension [] p = root @ map Normal (ss @ [n])"
    using without_extension_name [OF n, of e "root @ map Normal ss"] extensions_plain [OF e(3)] e(4) by simp
  moreover have t: "str_join ''.'' (ss @ [n]) = target"
    using join_split_on [of "CHR ''.''" target] e(2) by simp
  moreover have "target \<noteq> []" using e(2) n by (cases target) auto
  ultimately show ?thesis
    using path_to_module_named [OF e(1), of p "ss @ [n]"] assms(4) np by auto
qed

definition demo_search :: show_paths where
  "demo_search = \<lparr>sp_cwd = [RootDir, Normal ''w''], sp_search_paths = [[Normal ''src''], [Normal ''test'']]\<rparr>"

definition demo_penv :: path_env where
  "demo_penv = \<lparr>penv_absolutize = (\<lambda>p base. Inr (path_join base p)), penv_diff = (\<lambda>_ _. None)\<rparr>"

theorem target_path_roundtrip_witness:
  "path_to_module demo_search [RootDir, Normal ''w'', Normal ''test'', Normal ''A'', Normal ''B.hs''] = Inr ''A.B''"
proof -
  let ?p = "[RootDir, Normal ''w'', Normal ''test'', Normal ''A'', Normal ''B.hs'']"
  let ?m = "with_name \<lparr>np_normal = ?p, np_relative = None\<rparr> ''A.B''"
  have s: "split_on CHR ''.'' ''A.B'' = [''A'', ''B'']" by simp
  have parts: "\<forall>s \<in> set (split_on CHR ''.'' ''A.B''). name_part s" by (simp add: name_part_def)
  have roots: "absolute_search_paths demo_search = [[RootDir, Normal ''w'', Normal ''src''], [RootDir, Normal ''w'', Normal ''test'']]"
    by (simp add: absolute_search_paths_def demo_search_def path_join_def)
  have abs: "\<forall>p \<in> set (target_candidates demo_search ''A.B''). penv_absolutize demo_penv p (sp_cwd demo_search) = Inr p"
  proof
    fix p assume "p \<in> set (target_candidates demo_search ''A.B'')"
    from target_candidates_named [OF parts this] obtain root q where "root \<in> set (absolute_search_paths demo_search)" "p = root @ q"
      by metis
    then show "penv_absolutize demo_penv p (sp_cwd demo_search) = Inr p"
      by (auto simp: roots demo_penv_def path_join_def)
  qed
  have "find (\<lambda>q. q = ?p) (target_candidates demo_search ''A.B'') = Some ?p"
    by (simp add: target_candidates_def Let_def roots path_of_str_def
        with_extension_def name_stem_def name_extension_def HASKELL_SOURCE_EXTENSIONS_def
        path_join_def file_name_def is_absolute_def)
  moreover have "normal_path_new demo_penv ?p (sp_cwd demo_search) = Inr \<lparr>np_normal = ?p, np_relative = None\<rparr>"
    by (simp add: normal_path_new_def demo_penv_def path_join_def)
  moreover have "\<not> is_haskell_source_file (path_of_str ''A.B'')"
    by (simp add: path_of_str_def is_haskell_source_file_def extension_def file_name_def name_extension_def
        HASKELL_SOURCE_EXTENSIONS_def)
  ultimately have "target_to_path demo_penv (\<lambda>q. q = ?p) demo_search ''A.B'' = Inr ?m"
    by (simp add: target_to_path_def)
  from target_path_roundtrip [OF this _ parts _ abs] show ?thesis
    by (simp add: with_name_def roots)
qed

end
