(* ===== verification/SessionState.thy ===== *)
theory SessionState
  imports Classifier ErrorLog Hooks ShowPaths
begin

text \<open>
  The state of a \<open>ghci\<close> session (the structures \<open>Ghci\<close> and \<open>GhciOpts\<close> of \<open>src/src/ghci/mod.rs\<close>)
  and the actions its methods are made of. An action changes the session and the compilation log it
  is given, and ends with a value, an error, cancellation (its future is dropped at an await) or a
  panic. Everything the session asks of GHCi, the operating system, the watcher and the parsers is a
  \<open>request\<close>; the answers are parameters that may depend on the whole history of the session.
\<close>

section \<open>What a session asks for\<close>

datatype prompt_place = AtLineStart | AtAnywhere

datatype timer = CompilationTimer | RecoveryTimer | CleanupTimer | HookTimer | SyncTimer | EvalTimer

datatype request =
    ClearStderr
  | SetForwarding bool bool
  | ArmInterruptOnError
  | DisarmInterruptOnError
  | WriteStdin string
  | ReadBanner
  | ReadPrompt prompt_place
  | ReadProgress timer bool
  | CollectStderr string
  | AwaitReady string
  | AwaitStderr string
  | DrainStderr
  | ReadShown
  | ReadMarker string
  | BeforeInterrupt
  | Sigint
  | DrainPrompts
  | BeforeKill
  | KillTree
  | ValidateSnapshot source_snapshot
  | Publish compilation_log
  | MemoryRecord string
  | ReplaceAutoAdd maybe_async_command
  | ReadSource path
  | SetupCommand string
  | AwaitChange
  | StopProcess
  | StartProcess
  | SendKind reload_kind

type_synonym history = "request action list"

text \<open>How a read that watches compilation progress ends.\<close>

datatype progress = PromptReached string | NoProgress | ErrorSeen

text \<open>
  \<open>se_deadline\<close> says after how many awaits a timer started now fires (\<open>None\<close>: the work is done
  first); \<open>se_backoff\<close> is how many signals the backoff allows, \<open>se_shutdown_after\<close> how often setup is tried
  before a shutdown is requested.
\<close>

record session_env =
  se_classify :: classify_env
  se_exists :: "history \<Rightarrow> path \<Rightarrow> bool"
  se_shell :: "request shell_env"
  se_unit :: "history \<Rightarrow> request \<Rightarrow> unit res"
  se_text :: "history \<Rightarrow> request \<Rightarrow> string res"
  se_progress :: "history \<Rightarrow> request \<Rightarrow> progress res"
  se_count :: "history \<Rightarrow> request \<Rightarrow> nat res"
  se_valid :: "history \<Rightarrow> request \<Rightarrow> bool res"
  se_deadline :: "history \<Rightarrow> timer \<Rightarrow> nat option"
  se_backoff :: "history \<Rightarrow> nat"
  se_setup :: "history \<Rightarrow> request \<Rightarrow> string option res"
  se_shutdown_after :: "history \<Rightarrow> nat"
  se_current_dir :: "path res"
  se_write_env :: "history \<Rightarrow> write_env"
  se_parse_messages :: "string \<Rightarrow> ghc_message list res"
  se_parse_show_paths :: "string \<Rightarrow> show_paths res"
  se_parse_target_lines :: "string \<Rightarrow> string list res"
  se_parse_eval :: "string \<Rightarrow> string list res"
  se_parse_sample :: "string \<Rightarrow> rts_sample option"
  se_broken_pipe :: "io_error \<Rightarrow> bool"
  se_process_id :: nat

section \<open>The session\<close>

record ghci_opts =
  op_hooks :: hook_opts
  op_enable_eval :: bool
  op_extra_search_paths :: "path list"
  op_interrupt_on_error :: bool
  op_auto_reload :: bool
  op_restart_on_add :: bool
  op_replace_auto_add_shell :: "string option"
  op_debug_mem :: bool
  op_setup_shell :: "string list"
  op_error_path :: "path option"
  op_restart_globs :: glob_matcher
  op_reload_globs :: glob_matcher

text \<open>\<open>BTreeSet<NormalPath>\<close>: ascending by normalised path; a later equal element replaces.\<close>

type_synonym path_set = "normal_path list"

definition np_mem :: "normal_path \<Rightarrow> normal_path list \<Rightarrow> bool" where
  "np_mem p ps \<longleftrightarrow> list_ex (normal_path_eq p) ps"

definition np_difference :: "path_set \<Rightarrow> path_set \<Rightarrow> normal_path list" where
  "np_difference a b = filter (\<lambda>p. \<not> np_mem p b) a"

definition np_remove :: "normal_path \<Rightarrow> path_set \<Rightarrow> path_set" where
  "np_remove p s = filter (\<lambda>q. \<not> normal_path_eq p q) s"

definition np_collect :: "normal_path list \<Rightarrow> path_set" where
  "np_collect ps = map snd (bm_extend [] (map (\<lambda>p. (np_normal p, p)) ps))"

text \<open>
  The last fields are no fields of the source's structure: the phase of an eval command
  (\<open>src/src/my.rs\<close>), the process-wide counter of its markers, what was asked for so far, and the number
  of requests after which the future at hand is dropped.
\<close>

datatype eval_phase =
    ClearStderrPhase
  | WriteInput nat
  | ReadInputPrompt nat
  | RegisterStderrMarker
  | WriteStderrMarker
  | ReadStderrPrompt
  | ReadStderrMarker

record ghci =
  gh_opts :: ghci_opts
  gh_classifier :: file_classifier
  gh_targets :: module_set
  gh_known :: path_set
  gh_publication :: "source_snapshot option"
  gh_pending_test :: bool
  gh_init_failure :: "compilation_log option"
  gh_eval_commands :: "(path, normal_path \<times> string list) btmap"
  gh_search_paths :: show_paths
  gh_error_log :: error_log
  gh_files :: files
  gh_sync_nonce :: u64
  gh_stderr_nonce :: u64
  gh_phase :: string
  gh_recovery :: bool
  gh_eval_phase :: eval_phase
  gh_eval_nonce :: u64
  gh_hist :: history
  gh_deadline :: "nat option"

section \<open>Actions\<close>

datatype 'a outcome = Done 'a | Failed io_error | Cancelled | Panicked

type_synonym world = "ghci \<times> compilation_log"

type_synonym 'a act = "world \<Rightarrow> world \<times> 'a outcome"

definition aret :: "'a \<Rightarrow> 'a act" where
  "aret x = (\<lambda>w. (w, Done x))"

definition afail :: "io_error \<Rightarrow> 'a act" where
  "afail e = (\<lambda>w. (w, Failed e))"

definition abind :: "'a act \<Rightarrow> ('a \<Rightarrow> 'b act) \<Rightarrow> 'b act" where
  "abind m f = (\<lambda>w. case m w of
     (w', Done x) \<Rightarrow> f x w'
   | (w', Failed e) \<Rightarrow> (w', Failed e)
   | (w', Cancelled) \<Rightarrow> (w', Cancelled)
   | (w', Panicked) \<Rightarrow> (w', Panicked))"

text \<open>Sequencing, lifting a result, and keeping an error as a value (\<open>let result = async { .. }.await\<close>).\<close>

definition athen :: "'a act \<Rightarrow> 'b act \<Rightarrow> 'b act" where
  "athen m n = abind m (\<lambda>_. n)"

definition alift :: "'a res \<Rightarrow> 'a act" where
  "alift r = (case r of Inl e \<Rightarrow> afail e | Inr x \<Rightarrow> aret x)"

definition attempt :: "'a act \<Rightarrow> 'a res act" where
  "attempt m = (\<lambda>w. case m w of
     (w', Done x) \<Rightarrow> (w', Done (Inr x))
   | (w', Failed e) \<Rightarrow> (w', Done (Inl e))
   | (w', Cancelled) \<Rightarrow> (w', Cancelled)
   | (w', Panicked) \<Rightarrow> (w', Panicked))"

definition aget :: "(ghci \<Rightarrow> 'a) \<Rightarrow> 'a act" where
  "aget f = (\<lambda>w. (w, Done (f (fst w))))"

definition aput :: "(ghci \<Rightarrow> ghci) \<Rightarrow> unit act" where
  "aput f = (\<lambda>(g, log). ((f g, log), Done ()))"

definition log_get :: "(compilation_log \<Rightarrow> 'a) \<Rightarrow> 'a act" where
  "log_get f = (\<lambda>w. (w, Done (f (snd w))))"

definition log_put :: "(compilation_log \<Rightarrow> compilation_log) \<Rightarrow> unit act" where
  "log_put f = (\<lambda>(g, log). ((g, f log), Done ()))"

text \<open>Run with another log; the log it leaves is part of the value.\<close>

definition with_log :: "compilation_log \<Rightarrow> 'a act \<Rightarrow> (compilation_log \<times> 'a) act" where
  "with_log l m = (\<lambda>(g, log). case m (g, l) of
     ((g', l'), Done x) \<Rightarrow> ((g', log), Done (l', x))
   | ((g', l'), Failed e) \<Rightarrow> ((g', log), Failed e)
   | ((g', l'), Cancelled) \<Rightarrow> ((g', log), Cancelled)
   | ((g', l'), Panicked) \<Rightarrow> ((g', log), Panicked))"

fun amap :: "('a \<Rightarrow> unit act) \<Rightarrow> 'a list \<Rightarrow> unit act" where
  "amap f [] = aret ()"
| "amap f (x # xs) = athen (f x) (amap f xs)"

text \<open>An await: a dropped future stops here, before the request is made.\<close>

definition expired :: "ghci \<Rightarrow> bool" where
  "expired g \<longleftrightarrow> (case gh_deadline g of None \<Rightarrow> False | Some d \<Rightarrow> d \<le> List.length (gh_hist g))"

definition record_action :: "request action \<Rightarrow> ghci \<Rightarrow> ghci" where
  "record_action a g = g\<lparr>gh_hist := gh_hist g @ [a]\<rparr>"

definition ask :: "(history \<Rightarrow> request \<Rightarrow> 'a res) \<Rightarrow> request \<Rightarrow> 'a act" where
  "ask answer r = (\<lambda>(g, log).
     if expired g then ((g, log), Cancelled)
     else alift (answer (gh_hist g) r) (record_action (Did r) g, log))"

text \<open>A synchronous effect, which is no await.\<close>

definition tell :: "request \<Rightarrow> unit act" where
  "tell r = aput (record_action (Did r))"

text \<open>
  \<open>tokio::time::timeout\<close>: \<open>None\<close> when the timer fires first; when the surrounding future is dropped
  first the whole action is cancelled.
\<close>

definition sooner :: "nat option \<Rightarrow> nat option \<Rightarrow> nat option" where
  "sooner a b = (case a of None \<Rightarrow> b | Some x \<Rightarrow> (case b of None \<Rightarrow> a | Some y \<Rightarrow> Some (min x y)))"

definition atimeout :: "session_env \<Rightarrow> timer \<Rightarrow> 'a act \<Rightarrow> 'a res option act" where
  "atimeout env t m = (\<lambda>(g, log).
     let outer = gh_deadline g;
         inner = map_option (\<lambda>k. List.length (gh_hist g) + k) (se_deadline env (gh_hist g) t) in
     case m (g\<lparr>gh_deadline := sooner outer inner\<rparr>, log) of
       ((g', log'), r) \<Rightarrow>
         let g'' = g'\<lparr>gh_deadline := outer\<rparr> in
         (case r of
            Done x \<Rightarrow> ((g'', log'), Done (Some (Inr x)))
          | Failed e \<Rightarrow> ((g'', log'), Done (Some (Inl e)))
          | Cancelled \<Rightarrow> ((g'', log'), if expired g'' then Cancelled else Done None)
          | Panicked \<Rightarrow> ((g'', log'), Panicked)))"

end
