(* ===== verification/Protocol.thy ===== *)
theory Protocol
  imports SessionState
begin

text \<open>
  \<open>src/src/ghci/stdin.rs\<close>, \<open>src/src/ghci/stdout.rs\<close> and the capture of \<open>src/src/ghci/memory_log.rs\<close>:
  the dialogue with GHCi over its pipes. The readers and the stderr task answer requests; the
  parsers of GHC's output are parameters.
\<close>

section \<open>Standard output\<close>

text \<open>\<open>memory_log::capture\<close>: a malformed newer sample removes the older one.\<close>

fun capture_lines :: "session_env \<Rightarrow> string list \<Rightarrow> rts_sample option \<Rightarrow> rts_sample option" where
  "capture_lines env [] sample = sample"
| "capture_lines env (line # lines) sample =
     capture_lines env lines
       (if prefix ''GHCIWATCH_MEMORY '' line
        then se_parse_sample env (drop (length ''GHCIWATCH_MEMORY '') line) else sample)"

definition capture_sample :: "session_env \<Rightarrow> string \<Rightarrow> rts_sample option \<Rightarrow> rts_sample option" where
  "capture_sample env output sample = capture_lines env (str_lines output) sample"

definition set_phase :: "string \<Rightarrow> unit act" where
  "set_phase p = aput (\<lambda>g. g\<lparr>gh_phase := p\<rparr>)"

definition stderr_marker :: "session_env \<Rightarrow> u64 \<Rightarrow> string" where
  "stderr_marker env nonce =
     ''__GHCIWATCH_STDERR_END_'' @ show_nat (se_process_id env) @ ''_'' @ show_word nonce @ ''__''"

definition stderr_buffer_through_marker :: "session_env \<Rightarrow> string act" where
  "stderr_buffer_through_marker env =
     abind (aget (\<lambda>g. stderr_marker env (gh_stderr_nonce g))) (\<lambda>marker.
     athen (aput (\<lambda>g. g\<lparr>gh_stderr_nonce := gh_stderr_nonce g + 1\<rparr>)) (
     athen (set_phase ''requesting stderr marker collection'') (
     athen (ask (se_unit env) (CollectStderr marker)) (
     athen (set_phase ''waiting for stderr marker collector acknowledgement'') (
     athen (ask (se_unit env) (AwaitReady marker)) (
     athen (set_phase ''writing stderr marker command'') (
     athen (ask (se_unit env)
       (WriteStdin ('':! printf '' @ [CHR 0x27] @ ''%s'' @ [CHR 0x5C] @ ''n'' @ [CHR 0x27, CHR 0x20, CHR 0x27]
          @ marker @ [CHR 0x27] @ '' >&2'' @ [newline]))) (
     athen (set_phase ''waiting for stderr marker command stdout prompt'') (
     athen (ask (se_text env) (ReadPrompt AtAnywhere)) (
     athen (set_phase ''waiting for stderr marker on stderr'')
       (ask (se_text env) (AwaitStderr marker))))))))))))"

definition parse_into_log :: "session_env \<Rightarrow> string \<Rightarrow> unit act" where
  "parse_into_log env data =
     abind (stderr_buffer_through_marker env) (\<lambda>stderr_data.
     athen (log_put (\<lambda>l. append_stderr l stderr_data)) (
     athen (log_put (\<lambda>l. l\<lparr>cl_memory_sample := capture_sample env data (cl_memory_sample l)\<rparr>)) (
     abind (alift (se_parse_messages env data)) (\<lambda>msgs.
     athen (log_put (\<lambda>l. extend_stdout l msgs)) (
     abind (alift (se_parse_messages env stderr_data)) (\<lambda>errs.
       log_put (\<lambda>l. extend_log l errs)))))))"

definition stdout_initialize :: "session_env \<Rightarrow> unit act" where
  "stdout_initialize env =
     abind (ask (se_text env) ReadBanner) (\<lambda>data.
     abind (alift (se_parse_messages env data)) (\<lambda>msgs.
       log_put (\<lambda>l. extend_stdout l msgs)))"

definition drain_stderr_after_exit :: "session_env \<Rightarrow> string act" where
  "drain_stderr_after_exit env =
     abind (ask (se_text env) DrainStderr) (\<lambda>data.
     athen (log_put (\<lambda>l. append_stderr l data)) (
     abind (alift (se_parse_messages env data)) (\<lambda>msgs.
     athen (log_put (\<lambda>l. extend_log l msgs)) (aret data))))"

definition capture_stderr :: "session_env \<Rightarrow> unit act" where
  "capture_stderr env = parse_into_log env []"

definition read_prompt :: "session_env \<Rightarrow> prompt_place \<Rightarrow> unit act" where
  "read_prompt env f = abind (ask (se_text env) (ReadPrompt f)) (parse_into_log env)"

datatype wait_status = Complete | Inactive | ErrorStatus

definition prompt_with_progress_timeout :: "session_env \<Rightarrow> timer \<Rightarrow> bool \<Rightarrow> wait_status act" where
  "prompt_with_progress_timeout env t interrupt_on_error =
     athen (if interrupt_on_error then ask (se_unit env) ArmInterruptOnError else aret ()) (
     abind (ask (se_progress env) (ReadProgress t interrupt_on_error)) (\<lambda>result.
     athen (ask (se_unit env) DisarmInterruptOnError) (
     case result of
       PromptReached data \<Rightarrow> athen (parse_into_log env data) (aret Complete)
     | NoProgress \<Rightarrow> aret Inactive
     | ErrorSeen \<Rightarrow> aret ErrorStatus)))"

definition stdout_show_paths :: "session_env \<Rightarrow> show_paths act" where
  "stdout_show_paths env =
     abind (ask (se_text env) ReadShown) (\<lambda>lines. alift (se_parse_show_paths env lines))"

definition stdout_show_targets :: "session_env \<Rightarrow> show_paths \<Rightarrow> module_set act" where
  "stdout_show_targets env sp =
     abind (ask (se_text env) ReadShown) (\<lambda>lines.
     abind (alift (se_parse_target_lines env lines)) (\<lambda>targets.
     abind (aget gh_hist) (\<lambda>hist.
       alift (targets_of_lines (ce_paths (se_classify env)) (se_exists env hist) sp targets))))"

section \<open>Standard input\<close>

definition write_line_with_prompt_at :: "session_env \<Rightarrow> string \<Rightarrow> prompt_place \<Rightarrow> unit act" where
  "write_line_with_prompt_at env line f =
     athen (set_phase ''clearing stderr buffer before command submission'') (
     athen (ask (se_unit env) ClearStderr) (
     athen (set_phase ''writing command to GHCi stdin'') (
     athen (ask (se_unit env) (WriteStdin line)) (
     athen (set_phase ''waiting for command stdout prompt'')
       (read_prompt env f)))))"

definition stdin_write_line :: "session_env \<Rightarrow> string \<Rightarrow> unit act" where
  "stdin_write_line env line = write_line_with_prompt_at env line AtLineStart"

definition write_line_with_progress_timeout ::
  "session_env \<Rightarrow> string \<Rightarrow> timer \<Rightarrow> bool \<Rightarrow> wait_status act" where
  "write_line_with_progress_timeout env line t interrupt_on_error =
     athen (ask (se_unit env) ClearStderr) (
     athen (ask (se_unit env) (WriteStdin line))
       (prompt_with_progress_timeout env t interrupt_on_error))"

definition is_explicit_multiline :: "string \<Rightarrow> bool" where
  "is_explicit_multiline command \<longleftrightarrow>
     (case str_lines command of
        [] \<Rightarrow> False
      | first # rest \<Rightarrow>
          str_trim first = '':{'' \<and>
          (case rev rest of [] \<Rightarrow> False | final # _ \<Rightarrow> str_trim final = '':}''))"

definition run_command :: "session_env \<Rightarrow> string \<Rightarrow> unit act" where
  "run_command env command =
     (if is_explicit_multiline command then stdin_write_line env (command @ [newline])
      else amap (\<lambda>line. stdin_write_line env (line @ [newline])) (str_lines command))"

definition PROMPT :: string where
  "PROMPT = ''###~GHCIWATCH-PROMPT~###''"

definition write_set_prompt :: "session_env \<Rightarrow> string \<Rightarrow> unit act" where
  "write_set_prompt env p =
     ask (se_unit env) (WriteStdin ('':set prompt '' @ [CHR 0x22] @ p @ [CHR 0x22, newline]))"

definition stdin_initialize :: "session_env \<Rightarrow> unit act" where
  "stdin_initialize env =
     athen (write_set_prompt env PROMPT) (
     athen (read_prompt env AtAnywhere)
       (stdin_write_line env ('':set prompt-cont '' @ PROMPT @ [newline])))"

definition stdin_reload :: "session_env \<Rightarrow> timer \<Rightarrow> bool \<Rightarrow> wait_status act" where
  "stdin_reload env t interrupt_on_error =
     write_line_with_progress_timeout env ('':reload'' @ [newline]) t interrupt_on_error"

definition modules_line :: "string \<Rightarrow> loaded_module list \<Rightarrow> string" where
  "modules_line verb ms = verb @ str_join '' '' (map loaded_module_str ms) @ [newline]"

definition stdin_add_modules :: "session_env \<Rightarrow> loaded_module list \<Rightarrow> timer \<Rightarrow> bool \<Rightarrow> wait_status act" where
  "stdin_add_modules env ms t interrupt_on_error =
     write_line_with_progress_timeout env (modules_line '':add '' ms) t interrupt_on_error"

definition stdin_remove_modules :: "session_env \<Rightarrow> loaded_module list \<Rightarrow> timer \<Rightarrow> bool \<Rightarrow> wait_status act" where
  "stdin_remove_modules env ms t interrupt_on_error =
     write_line_with_progress_timeout env (modules_line '':unadd '' ms) t interrupt_on_error"

definition stdin_interpret_module :: "session_env \<Rightarrow> loaded_module \<Rightarrow> unit act" where
  "stdin_interpret_module env m = stdin_write_line env ('':add *'' @ loaded_module_str m @ [newline])"

definition add_module_to_scope :: "session_env \<Rightarrow> string \<Rightarrow> unit act" where
  "add_module_to_scope env name = stdin_write_line env ('':module + *'' @ name @ [newline])"

definition remove_module_from_scope :: "session_env \<Rightarrow> string \<Rightarrow> unit act" where
  "remove_module_from_scope env name = stdin_write_line env ('':module - *'' @ name @ [newline])"

definition stdin_show_paths :: "session_env \<Rightarrow> show_paths act" where
  "stdin_show_paths env =
     athen (ask (se_unit env) (WriteStdin ('':show paths'' @ [newline]))) (stdout_show_paths env)"

definition stdin_show_targets :: "session_env \<Rightarrow> show_paths \<Rightarrow> module_set act" where
  "stdin_show_targets env sp =
     athen (ask (se_unit env) (WriteStdin ('':show targets'' @ [newline]))) (stdout_show_targets env sp)"

end
