(* ===== verification/Session.thy ===== *)
theory Session
  imports Protocol
begin

text \<open>
  The methods of \<open>Ghci\<close> in \<open>src/src/ghci/mod.rs\<close>: reacting to file events, keeping GHCi's targets in
  step with the watched files, recovering from stuck compilations, hooks, and finishing a
  compilation. Messages for people (tracing, printed errors) are not modelled.
\<close>

section \<open>Interrupting and recovering\<close>

definition run_before_signal_commands :: "session_env \<Rightarrow> request \<Rightarrow> unit act" where
  "run_before_signal_commands env r = athen (attempt (ask (se_unit env) r)) (aret ())"

text \<open>The error of a force-kill is always an error; the flag is set before anything is signalled.\<close>

definition force_kill_for_recovery :: "session_env \<Rightarrow> io_error \<Rightarrow> 'a act" where
  "force_kill_for_recovery env err =
     athen (aput (\<lambda>g. g\<lparr>gh_recovery := True\<rparr>)) (
     athen (run_before_signal_commands env BeforeKill) (
     abind (attempt (ask (se_unit env) KillTree)) (\<lambda>r.
       case r of Inr _ \<Rightarrow> afail err | Inl kill_error \<Rightarrow> afail kill_error)))"

definition sync_marker :: "u64 \<Rightarrow> string" where
  "sync_marker nonce = ''~~~GHCIWATCH-SYNC-'' @ show_word nonce @ ''~~~''"

definition sync_barrier :: "session_env \<Rightarrow> unit act" where
  "sync_barrier env =
     athen (aput (\<lambda>g. g\<lparr>gh_sync_nonce := gh_sync_nonce g + 1\<rparr>)) (
     abind (aget (\<lambda>g. sync_marker (gh_sync_nonce g))) (\<lambda>marker.
     athen (write_set_prompt env marker) (
     abind (atimeout env SyncTimer (ask (se_text env) (ReadMarker marker))) (\<lambda>read.
     case read of
       Some (Inr _) \<Rightarrow>
         abind (atimeout env SyncTimer (athen (write_set_prompt env PROMPT) (read_prompt env AtLineStart)))
           (\<lambda>restored. case restored of
              Some r \<Rightarrow> alift r
            | None \<Rightarrow> afail (IoError ''Timed out restoring the GHCi prompt''))
     | Some (Inl e) \<Rightarrow> afail e
     | None \<Rightarrow> afail (IoError ''Timed out waiting for GHCi sync marker'')))))"

text \<open>Signals until a clean prompt is seen, as often as the backoff allows.\<close>

fun sigint_loop :: "session_env \<Rightarrow> nat \<Rightarrow> unit act" where
  "sigint_loop env 0 = afail (IoError ''Timed out waiting for GHCi to respond to SIGINT'')"
| "sigint_loop env (Suc n) =
     athen (ask (se_unit env) Sigint) (
     abind (ask (se_count env) DrainPrompts) (\<lambda>found.
       if found > 0 then aret () else sigint_loop env n))"

definition send_sigint_inner :: "session_env \<Rightarrow> unit act" where
  "send_sigint_inner env =
     athen (ask (se_unit env) (SetForwarding True False)) (
     athen (run_before_signal_commands env BeforeInterrupt) (
     abind (aget (\<lambda>g. se_backoff env (gh_hist g))) (\<lambda>n.
     athen (sigint_loop env n) (sync_barrier env))))"

definition discard_interrupt_output :: "nat \<Rightarrow> unit act" where
  "discard_interrupt_output start = (\<lambda>(g, log).
     case discard_interrupt_output_since start log of
       Some l \<Rightarrow> ((g, l), Done ())
     | None \<Rightarrow> ((g, log), Panicked))"

definition send_sigint_capturing :: "session_env \<Rightarrow> unit act" where
  "send_sigint_capturing env =
     abind (log_get (\<lambda>l. List.length (cl_stderr l))) (\<lambda>start.
     abind (attempt (send_sigint_inner env)) (\<lambda>result.
     athen (discard_interrupt_output start) (
     case result of Inr _ \<Rightarrow> aret () | Inl e \<Rightarrow> force_kill_for_recovery env e)))"

definition send_sigint :: "session_env \<Rightarrow> unit act" where
  "send_sigint env = abind (with_log compilation_log_default (send_sigint_capturing env)) (\<lambda>_. aret ())"

definition capture_interrupted_stderr :: "session_env \<Rightarrow> unit act" where
  "capture_interrupted_stderr env =
     abind (log_get (\<lambda>l. List.length (cl_stderr l))) (\<lambda>start.
     abind (atimeout env CleanupTimer (capture_stderr env)) (\<lambda>result.
     athen (discard_interrupt_output start) (
     case result of
       Some r \<Rightarrow> alift r
     | None \<Rightarrow> force_kill_for_recovery env (IoError ''Timed out capturing diagnostics after interrupting GHCi''))))"

definition interrupt_and_retry_reload :: "session_env \<Rightarrow> unit act" where
  "interrupt_and_retry_reload env =
     athen (send_sigint_capturing env) (
     abind (stdin_reload env RecoveryTimer False) (\<lambda>status.
       if status = Complete then aret ()
       else force_kill_for_recovery env (IoError ''Recovery :reload stopped reporting compilation progress'')))"

text \<open>What a compiling command's status asks for; shared by \<open>:reload\<close>, \<open>:add\<close> and \<open>:unadd\<close>.\<close>

definition settle_compilation :: "session_env \<Rightarrow> wait_status \<Rightarrow> unit act" where
  "settle_compilation env status =
     (case status of
        Complete \<Rightarrow> aret ()
      | ErrorStatus \<Rightarrow>
          athen (send_sigint_capturing env) (
          athen (capture_interrupted_stderr env) (log_put mark_failed))
      | Inactive \<Rightarrow> interrupt_and_retry_reload env)"

definition reload_targets :: "session_env \<Rightarrow> wait_status act" where
  "reload_targets env =
     abind (aget gh_opts) (\<lambda>opts.
     abind (stdin_reload env CompilationTimer (op_interrupt_on_error opts)) (\<lambda>status.
     athen (settle_compilation env status) (aret status)))"

section \<open>Targets and eval commands\<close>

definition refresh_paths :: "session_env \<Rightarrow> unit act" where
  "refresh_paths env =
     abind (stdin_show_paths env) (\<lambda>sp.
     aput (\<lambda>g.
       let sp' = fold (\<lambda>p sp. if p \<in> set (sp_search_paths sp) then sp
               else sp\<lparr>sp_search_paths := sp_search_paths sp @ [p]\<rparr>)
             (op_extra_search_paths (gh_opts g)) sp in
       g\<lparr>gh_search_paths := sp', gh_classifier := set_cwd (sp_cwd sp') (gh_classifier g)\<rparr>))"

definition refresh_targets :: "session_env \<Rightarrow> unit act" where
  "refresh_targets env =
     athen (refresh_paths env) (
     abind (aget gh_search_paths) (\<lambda>sp.
     abind (stdin_show_targets env sp) (\<lambda>ts.
       aput (\<lambda>g. g\<lparr>gh_targets := ts\<rparr>))))"

definition read_eval_commands :: "session_env \<Rightarrow> path \<Rightarrow> string list act" where
  "read_eval_commands env p =
     abind (ask (se_text env) (ReadSource p)) (\<lambda>contents. alift (se_parse_eval env contents))"

text \<open>\<open>BTreeMap::insert\<close> keeps the key that is there and replaces its value.\<close>

definition eval_insert ::
  "normal_path \<Rightarrow> string list \<Rightarrow> (path, normal_path \<times> string list) btmap
   \<Rightarrow> (path, normal_path \<times> string list) btmap" where
  "eval_insert p commands m =
     bm_insert (np_normal p)
       (case map_of m (np_normal p) of Some (q, _) \<Rightarrow> q | None \<Rightarrow> p, commands) m"

fun collect_eval_commands ::
  "session_env \<Rightarrow> loaded_module list \<Rightarrow> (path, normal_path \<times> string list) btmap
   \<Rightarrow> (path, normal_path \<times> string list) btmap act" where
  "collect_eval_commands env [] acc = aret acc"
| "collect_eval_commands env (t # ts) acc =
     abind (read_eval_commands env (np_normal (lm_path t))) (\<lambda>commands.
       collect_eval_commands env ts
         (if commands = [] then acc
          else eval_insert (lm_path t) commands acc))"

definition refresh_eval_commands :: "session_env \<Rightarrow> unit act" where
  "refresh_eval_commands env =
     abind (aget id) (\<lambda>g.
       if \<not> op_enable_eval (gh_opts g) then aret ()
       else abind (collect_eval_commands env (gh_targets g) []) (\<lambda>m.
         aput (\<lambda>g. g\<lparr>gh_eval_commands := m\<rparr>)))"

definition refresh_eval_path :: "session_env \<Rightarrow> normal_path \<Rightarrow> unit act" where
  "refresh_eval_path env p =
     abind (aget gh_search_paths) (\<lambda>sp.
     case path_to_module sp (np_normal p) of
       Inl _ \<Rightarrow> aput (\<lambda>g. g\<lparr>gh_eval_commands := bm_remove (np_normal p) (gh_eval_commands g)\<rparr>)
     | Inr _ \<Rightarrow>
         abind (read_eval_commands env (np_normal p)) (\<lambda>commands.
         aput (\<lambda>g. g\<lparr>gh_eval_commands :=
           (if commands = [] then bm_remove (np_normal p) (gh_eval_commands g)
            else eval_insert p commands (gh_eval_commands g))\<rparr>)))"

definition refresh_eval_commands_for_paths :: "session_env \<Rightarrow> normal_path list \<Rightarrow> unit act" where
  "refresh_eval_commands_for_paths env ps =
     abind (aget gh_opts) (\<lambda>opts.
       if \<not> op_enable_eval opts then aret () else amap (refresh_eval_path env) ps)"

definition clear_eval_commands_for_paths :: "normal_path list \<Rightarrow> unit act" where
  "clear_eval_commands_for_paths ps =
     abind (aget gh_opts) (\<lambda>opts.
       if \<not> op_enable_eval opts then aret ()
       else aput (\<lambda>g. g\<lparr>gh_eval_commands := fold (\<lambda>p. bm_remove (np_normal p)) ps (gh_eval_commands g)\<rparr>))"

definition interpret_module :: "session_env \<Rightarrow> normal_path \<Rightarrow> unit act" where
  "interpret_module env p =
     abind (aget gh_targets) (\<lambda>targets.
     athen (stdin_interpret_module env (get_import_name p targets)) (
     athen (if contains_source_path (np_normal p) targets then aret ()
            else aput (\<lambda>g. g\<lparr>gh_targets := snd (insert_module (loaded_module_new p) (gh_targets g))\<rparr>))
       (refresh_eval_commands_for_paths env [p])))"

fun eval_paths :: "session_env \<Rightarrow> (path \<times> normal_path \<times> string list) list \<Rightarrow> unit act" where
  "eval_paths env [] = aret ()"
| "eval_paths env ((_, p, commands) # rest) =
     (if commands = [] then eval_paths env rest
      else athen (interpret_module env p) (
        abind (aget gh_search_paths) (\<lambda>sp.
        abind (alift (path_to_module sp (np_normal p))) (\<lambda>name.
        athen (add_module_to_scope env name) (
        athen (amap (run_command env) commands) (
        athen (remove_module_from_scope env name)
          (eval_paths env rest)))))))"

definition run_eval :: "session_env \<Rightarrow> unit act" where
  "run_eval env =
     abind (aget id) (\<lambda>g.
       if \<not> op_enable_eval (gh_opts g) then aret () else eval_paths env (gh_eval_commands g))"

section \<open>Adding and removing targets\<close>

definition unresolved :: "normal_path list \<Rightarrow> module_set \<Rightarrow> normal_path list" where
  "unresolved ps targets = filter (\<lambda>p. \<not> contains_source_path (np_normal p) targets) ps"

definition add_loaded_modules :: "session_env \<Rightarrow> loaded_module list \<Rightarrow> bool \<Rightarrow> unit act" where
  "add_loaded_modules env ms interrupt_on_error =
     abind (stdin_add_modules env ms CompilationTimer interrupt_on_error) (settle_compilation env)"

definition named_modules :: "show_paths \<Rightarrow> normal_path list \<Rightarrow> loaded_module list" where
  "named_modules sp ps =
     List.map_filter (\<lambda>p. case path_to_module sp (np_normal p) of
        Inr name \<Rightarrow> Some (with_name p name) | Inl _ \<Rightarrow> None) ps"

text \<open>The speculative \<open>:add\<close> by name, with its own log and nothing shown.\<close>

definition add_named :: "session_env \<Rightarrow> loaded_module list \<Rightarrow> compilation_log act" where
  "add_named env named =
     (if named = [] then aret compilation_log_default
      else athen (ask (se_unit env) (SetForwarding False False)) (
        abind (with_log compilation_log_default
          (attempt (athen (add_loaded_modules env named False) (refresh_targets env)))) (\<lambda>(named_log, result).
        case result of
          Inl e \<Rightarrow> athen (ask (se_unit env) (SetForwarding True True)) (afail e)
        | Inr _ \<Rightarrow>
            abind (aget gh_targets) (\<lambda>targets.
            athen (ask (se_unit env) (SetForwarding True (unresolved (map lm_path named) targets = [])))
              (aret named_log)))))"

definition merge_named_log :: "compilation_log \<Rightarrow> compilation_log \<Rightarrow> compilation_log" where
  "merge_named_log named l =
     l\<lparr>cl_diagnostics := cl_diagnostics l @ cl_diagnostics named,
       cl_stdout_diagnostics := cl_stdout_diagnostics l @ cl_stdout_diagnostics named,
       cl_stderr := cl_stderr l @ cl_stderr named,
       cl_summary := (case cl_summary named of Some s \<Rightarrow> Some s | None \<Rightarrow> cl_summary l)\<rparr>"

definition add_modules :: "session_env \<Rightarrow> normal_path list \<Rightarrow> normal_path list act" where
  "add_modules env paths =
     abind (aget id) (\<lambda>g0.
     if unresolved paths (gh_targets g0) \<noteq> paths
     then afail (IoError ''Attempting to add already-loaded module'')
     else abind (add_named env (named_modules (gh_search_paths g0) paths)) (\<lambda>named_log.
     abind (aget (\<lambda>g. unresolved paths (gh_targets g))) (\<lambda>rest.
     athen (if rest = [] then log_put (merge_named_log named_log)
            else athen (add_loaded_modules env (map loaded_module_new rest)
                   (op_interrupt_on_error (gh_opts g0))) (refresh_targets env)) (
     abind (aget gh_targets) (\<lambda>targets.
     athen (log_put (if unresolved paths targets = [] then fill_empty_summary else mark_failed)) (
     athen (refresh_eval_commands_for_paths env
             (filter (\<lambda>p. contains_source_path (np_normal p) targets) paths))
       (aret (unresolved paths targets))))))))"

definition remove_modules :: "session_env \<Rightarrow> normal_path list \<Rightarrow> unit act" where
  "remove_modules env paths =
     abind (aget id) (\<lambda>g.
     abind (stdin_remove_modules env (map (\<lambda>p. get_import_name p (gh_targets g)) paths)
       CompilationTimer (op_interrupt_on_error (gh_opts g))) (\<lambda>status.
     athen (settle_compilation env status) (
     athen (aput (\<lambda>g. g\<lparr>gh_targets := fold (\<lambda>p ts. snd (remove_source_path (np_normal p) ts)) paths (gh_targets g)\<rparr>))
       (clear_eval_commands_for_paths paths))))"

definition run_add_replacement :: "session_env \<Rightarrow> bool act" where
  "run_add_replacement env =
     abind (aget gh_opts) (\<lambda>opts.
     case op_replace_auto_add_shell opts of
       None \<Rightarrow> aret False
     | Some c \<Rightarrow>
         athen (ask (se_valid env) (ReplaceAutoAdd \<lparr>mac_is_async = False, mac_command = c\<rparr>)) (aret True))"

definition is_target :: "session_env \<Rightarrow> ghci \<Rightarrow> normal_path \<Rightarrow> bool" where
  "is_target env g p = is_target_source (se_classify env) (gh_classifier g) p"

definition synchronize_haskell_files :: "session_env \<Rightarrow> path_set \<Rightarrow> unit act" where
  "synchronize_haskell_files env files =
     abind (aget id) (\<lambda>g.
     let to_remove = filter (\<lambda>p. is_target env g p \<and> contains_source_path (np_normal p) (gh_targets g))
           (np_difference (gh_known g) files);
         to_add = filter (\<lambda>p. is_target env g p \<and> \<not> contains_source_path (np_normal p) (gh_targets g)) files in
     athen (if to_remove = [] then aret () else remove_modules env to_remove) (
     abind (if to_add = [] then aret []
            else abind (run_add_replacement env) (\<lambda>replaced.
              if replaced then athen (reload_targets env) (aret [])
              else add_modules env to_add)) (\<lambda>unresolved_adds.
     aput (\<lambda>g. g\<lparr>gh_known := filter (\<lambda>p. \<not> np_mem p unresolved_adds) files\<rparr>))))"

section \<open>Hooks\<close>

definition shell_hooks :: "session_env \<Rightarrow> lifecycle_event \<Rightarrow> unit act" where
  "shell_hooks env event = (\<lambda>(g, log).
     let (hist, r) = run_shell_hooks (se_shell env) (op_hooks (gh_opts g)) event (gh_hist g) in
     alift r (g\<lparr>gh_hist := hist\<rparr>, log))"

fun run_shell_lifecycle_events :: "session_env \<Rightarrow> lifecycle_event list \<Rightarrow> unit act" where
  "run_shell_lifecycle_events env [] = aret ()"
| "run_shell_lifecycle_events env (e # es) =
     athen (shell_hooks env e) (run_shell_lifecycle_events env es)"

text \<open>\<open>run_hook_command\<close>: a hook that does not return costs the session.\<close>

definition run_hook_command :: "session_env \<Rightarrow> string \<Rightarrow> unit act" where
  "run_hook_command env command =
     abind (atimeout env HookTimer (run_command env command)) (\<lambda>result.
     case result of
       Some r \<Rightarrow> alift r
     | None \<Rightarrow> force_kill_for_recovery env (IoError (''GHCi lifecycle hook timed out: '' @ command)))"

definition run_one_shell :: "session_env \<Rightarrow> bool \<Rightarrow> lifecycle_event \<Rightarrow> maybe_async_command \<Rightarrow> unit act" where
  "run_one_shell env strict event c = (\<lambda>(g, log).
     alift (run_hook_on (se_shell env) (gh_hist g) strict c) (record_action (RunShell event c) g, log))"

fun hook_loop :: "session_env \<Rightarrow> bool \<Rightarrow> bool \<Rightarrow> bool \<Rightarrow> hook list \<Rightarrow> unit act" where
  "hook_loop env debug_mem skip_shell ghci_failed [] = aret ()"
| "hook_loop env debug_mem skip_shell ghci_failed (h # hs) =
     (case hk_command h of
        ShellCommand c \<Rightarrow>
          if skip_shell then hook_loop env debug_mem skip_shell ghci_failed hs
          else abind (attempt (run_one_shell env debug_mem (hk_event h) c)) (\<lambda>r.
            case r of
              Inl e \<Rightarrow> if debug_mem then afail e else hook_loop env debug_mem skip_shell ghci_failed hs
            | Inr _ \<Rightarrow> hook_loop env debug_mem skip_shell ghci_failed hs)
      | GhciHook c \<Rightarrow>
          if ghci_failed then hook_loop env debug_mem skip_shell ghci_failed hs
          else athen (aput (record_action (RunGhci (hk_event h) c))) (
            if hk_event h = TestEvent
            then athen (run_command env c) (hook_loop env debug_mem skip_shell ghci_failed hs)
            else abind (with_log compilation_log_default (run_hook_command env c)) (\<lambda>(hook_log, _).
              athen (case cl_memory_sample hook_log of
                  Some s \<Rightarrow> log_put (\<lambda>l. l\<lparr>cl_memory_sample := Some s\<rparr>)
                | None \<Rightarrow> aret ()) (
              if failed hook_log
              then athen (log_put (\<lambda>l. l\<lparr>cl_hook_failed := True, cl_memory_sample := None\<rparr>)) (
                if debug_mem then afail (IoError (''Memory diagnostic aborted: command failed: '' @ c))
                else hook_loop env debug_mem skip_shell True hs)
              else hook_loop env debug_mem skip_shell ghci_failed hs))))"

definition run_hooks :: "session_env \<Rightarrow> lifecycle_event \<Rightarrow> unit act" where
  "run_hooks env event =
     (let skip_shell = (event = ReloadEvent Before) in
      athen (if skip_shell then shell_hooks env event else aret ()) (
      abind (aget gh_opts) (\<lambda>opts.
        hook_loop env (op_debug_mem opts) skip_shell False (select_hooks (op_hooks opts) event))))"

fun ghci_hook_loop :: "session_env \<Rightarrow> hook list \<Rightarrow> unit act" where
  "ghci_hook_loop env [] = aret ()"
| "ghci_hook_loop env (h # hs) =
     (case hk_command h of
        ShellCommand c \<Rightarrow> ghci_hook_loop env hs
      | GhciHook c \<Rightarrow>
          athen (aput (record_action (RunGhci (hk_event h) c))) (
          abind (with_log compilation_log_default (run_hook_command env c)) (\<lambda>(hook_log, _).
            if failed hook_log then aret () else ghci_hook_loop env hs)))"

definition run_ghci_hooks :: "session_env \<Rightarrow> lifecycle_event \<Rightarrow> unit act" where
  "run_ghci_hooks env event =
     abind (aget gh_opts) (\<lambda>opts. ghci_hook_loop env (select_hooks (op_hooks opts) event))"

section \<open>Finishing a compilation\<close>

definition compilation_snapshot_is_current :: "session_env \<Rightarrow> bool act" where
  "compilation_snapshot_is_current env =
     abind (aget gh_publication) (\<lambda>p.
     athen (aput (\<lambda>g. g\<lparr>gh_publication := None\<rparr>)) (
     case p of None \<Rightarrow> aret True | Some s \<Rightarrow> ask (se_valid env) (ValidateSnapshot s)))"

definition write_error_log :: "session_env \<Rightarrow> unit act" where
  "write_error_log env = (\<lambda>(g, log).
     if expired g then ((g, log), Cancelled)
     else (case error_log_write (se_write_env env (gh_hist g)) log (gh_error_log g) (gh_files g) of
       (el, files, r) \<Rightarrow>
         alift r (record_action (Did (Publish log)) (g\<lparr>gh_error_log := el, gh_files := files\<rparr>), log)))"

text \<open>After a hook has failed only shell hooks follow; the first error is kept.\<close>

fun completion_hooks ::
  "session_env \<Rightarrow> lifecycle_event list \<Rightarrow> bool \<Rightarrow> unit res \<Rightarrow> unit res act" where
  "completion_hooks env [] hooks_have_ghci result = aret result"
| "completion_hooks env (e # es) hooks_have_ghci result =
     abind (attempt (if hooks_have_ghci then run_hooks env e else shell_hooks env e)) (\<lambda>r.
     case r of
       Inr _ \<Rightarrow> completion_hooks env es hooks_have_ghci result
     | Inl err \<Rightarrow> completion_hooks env es False
         (case result of Inr _ \<Rightarrow> Inl err | Inl first \<Rightarrow> Inl first))"

definition run_test :: "session_env \<Rightarrow> unit act" where
  "run_test env = run_hooks env TestEvent"

definition is_Inr :: "'a + 'b \<Rightarrow> bool" where
  "is_Inr r = (case r of Inr _ \<Rightarrow> True | Inl _ \<Rightarrow> False)"

definition write_memory_record :: "session_env \<Rightarrow> string \<Rightarrow> unit act" where
  "write_memory_record env outcome =
     athen (log_put (\<lambda>l. l\<lparr>cl_memory_sample := None, cl_workload := cl_workload compilation_log_default\<rparr>))
       (athen (attempt (ask (se_unit env) (MemoryRecord outcome))) (aret ()))"

text \<open>The eval and test actions after the hooks.\<close>

definition post_actions :: "session_env \<Rightarrow> bool \<Rightarrow> unit act" where
  "post_actions env run_post_actions =
     abind (aget id) (\<lambda>g.
     athen (if run_post_actions then run_eval env else aret ()) (
     athen (if run_post_actions \<or> gh_pending_test g
            then athen (run_test env) (aput (\<lambda>g. g\<lparr>gh_pending_test := False\<rparr>)) else aret ()) (
     abind (log_get failed) (\<lambda>bad.
       if op_debug_mem (gh_opts g) \<and> run_post_actions \<and> bad
       then afail (IoError ''Memory diagnostic aborted: eval/test command failed'') else aret ()))))"

definition finish_compilation ::
  "session_env \<Rightarrow> lifecycle_event list \<Rightarrow> bool \<Rightarrow> bool \<Rightarrow> bool \<Rightarrow> unit act" where
  "finish_compilation env events ghci_available operation_succeeded run_post_actions =
     athen (log_put deduplicate_diagnostics) (
     abind (attempt (compilation_snapshot_is_current env)) (\<lambda>snapshot_result.
     let snapshot_current = (snapshot_result = Inr True) in
     abind (case snapshot_result of
              Inr True \<Rightarrow> attempt (write_error_log env)
            | Inr False \<Rightarrow> aret (Inr ())
            | Inl e \<Rightarrow> aret (Inl e)) (\<lambda>error_log_result.
     abind (log_get log_result) (\<lambda>result.
     let compilation_succeeded =
           (snapshot_current \<and> operation_succeeded \<and> ghci_available \<and> result \<noteq> Some CompErr) in
     athen (log_put (\<lambda>l. l\<lparr>cl_memory_sample := None, cl_hook_failed := False\<rparr>)) (
     abind (completion_hooks env events compilation_succeeded (Inr ())) (\<lambda>hook_result.
     abind (log_get (\<lambda>l. (failed l, cl_hook_failed l))) (\<lambda>(bad, hook_failed).
     athen (write_memory_record env
       (if \<not> snapshot_current then ''superseded''
        else if compilation_succeeded \<and> is_Inr hook_result \<and> \<not> bad \<and> \<not> hook_failed then ''success''
        else ''failed'')) (
     athen (alift error_log_result) (
     athen (alift hook_result) (
     abind (aget gh_opts) (\<lambda>opts.
     athen (if op_debug_mem opts \<and> \<not> (compilation_succeeded \<and> \<not> bad)
            then afail (IoError ''Memory diagnostic aborted: compilation failed'') else aret ()) (
     abind (log_get log_result) (\<lambda>final.
     athen (aput (\<lambda>g.
       if \<not> operation_succeeded \<or> \<not> ghci_available \<or> final = Some CompErr
       then g\<lparr>gh_pending_test := False\<rparr>
       else if \<not> snapshot_current \<and> run_post_actions then g\<lparr>gh_pending_test := True\<rparr> else g)) (
     if compilation_succeeded then post_actions env run_post_actions else aret ()))))))))))))))"

end
