(* ===== verification/Reload.thy ===== *)
theory Reload
  imports Session
begin

text \<open>
  The operations of \<open>Ghci\<close> the manager calls (\<open>src/src/ghci/mod.rs\<close>, \<open>src/src/ghci/setup.rs\<close>):
  starting and initialising a session, reloading on file events, restarting, and closing a reload
  that was interrupted.
\<close>

section \<open>What a batch of events asks for\<close>

text \<open>A Haskell event's kind is taken from the snapshot, which is newer than the notification.\<close>

definition reconcile :: "session_env \<Rightarrow> ghci \<Rightarrow> path_set \<Rightarrow> file_event \<Rightarrow> file_event res" where
  "reconcile env g files e =
     res_bind (relative_path (se_classify env) (gh_classifier g) (as_path e)) (\<lambda>np.
       if \<not> is_haskell_source_file (np_normal np) then Inr e
       else Inr (if np_mem np files then Modify (as_path e) else Remove (as_path e)))"

fun push_new :: "normal_path list \<Rightarrow> normal_path list \<Rightarrow> normal_path list" where
  "push_new acc [] = acc"
| "push_new acc (p # ps) = push_new (if np_mem p acc then acc else acc @ [p]) ps"

definition recovery_paths :: "session_env \<Rightarrow> ghci \<Rightarrow> file_event list \<Rightarrow> normal_path list res" where
  "recovery_paths env g events =
     (if gh_init_failure g \<noteq> None \<and> \<not> op_auto_reload (gh_opts g)
      then res_map (\<lambda>e. relative_path (se_classify env) (gh_classifier g) (as_path e))
             (filter (\<lambda>e. is_haskell_source_file (as_path e)) events)
      else Inr [])"

text \<open>Differences of the whole snapshot to the last accepted one, confirmed with the targets.\<close>

definition missed_adds :: "session_env \<Rightarrow> ghci \<Rightarrow> path_set \<Rightarrow> normal_path list" where
  "missed_adds env g files =
     filter (\<lambda>p. is_target env g p \<and> \<not> contains_source_path (np_normal p) (gh_targets g))
       (np_difference files (gh_known g))"

definition missed_removes :: "session_env \<Rightarrow> ghci \<Rightarrow> path_set \<Rightarrow> normal_path list" where
  "missed_removes env g files =
     filter (\<lambda>p. is_target env g p \<and> contains_source_path (np_normal p) (gh_targets g))
       (np_difference (gh_known g) files)"

definition add_policy :: "ghci \<Rightarrow> reload_actions \<Rightarrow> reload_actions" where
  "add_policy g a =
     (if op_replace_auto_add_shell (gh_opts g) \<noteq> None
      then a\<lparr>needs_reload := needs_reload a @ filter (\<lambda>p. np_mem p (gh_known g)) (needs_add a),
             needs_add := filter (\<lambda>p. \<not> np_mem p (gh_known g)) (needs_add a)\<rparr>
      else if op_restart_on_add (gh_opts g) \<and> needs_add a \<noteq> []
      then a\<lparr>needs_restart := needs_restart a @ needs_add a, needs_add := []\<rparr>
      else a)"

definition get_reload_actions ::
  "session_env \<Rightarrow> ghci \<Rightarrow> file_event list \<Rightarrow> path_set \<Rightarrow> reload_actions res" where
  "get_reload_actions env g events files =
     res_bind (res_map (reconcile env g files) events) (\<lambda>reconciled.
     let events' = bs_collect reconciled in
     res_bind (recovery_paths env g events') (\<lambda>recovery.
     res_bind (classify (se_classify env) (gh_classifier g) (gh_targets g) events') (\<lambda>a.
     Inr (add_policy g
       \<lparr>needs_restart = push_new (needs_restart a) recovery,
        needs_reload = (if op_auto_reload (gh_opts g) then needs_reload a else []),
        needs_add = push_new (needs_add a) (missed_adds env g files),
        needs_remove = push_new (needs_remove a) (missed_removes env g files)\<rparr>))))"

section \<open>Starting a session\<close>

text \<open>
  \<open>setup::run\<close>: the setup commands in order, again after a watched file changed, until they succeed.
  \<open>None\<close> of a command is success, a text its failure.
\<close>

fun setup_commands :: "session_env \<Rightarrow> string list \<Rightarrow> string option act" where
  "setup_commands env [] = aret None"
| "setup_commands env (c # cs) =
     abind (attempt (ask (se_setup env) (SetupCommand c))) (\<lambda>r.
     case r of
       Inr None \<Rightarrow> setup_commands env cs
     | Inr (Some message) \<Rightarrow> aret (Some message)
     | Inl (IoError e) \<Rightarrow> aret (Some (''setup-shell command `'' @ c @ ''` failed: '' @ e @ [newline])))"

definition publish_setup_failure :: "session_env \<Rightarrow> string \<Rightarrow> error_log \<Rightarrow> error_log act" where
  "publish_setup_failure env message el = (\<lambda>(g, log).
     let l = mark_failed_with_diagnostic message compilation_log_default in
     if expired g then ((g, log), Cancelled)
     else (case error_log_write (se_write_env env (gh_hist g)) l el (gh_files g) of
       (el', files, r) \<Rightarrow>
         alift (res_bind r (\<lambda>_. Inr el')) (record_action (Did (Publish l)) (g\<lparr>gh_files := files\<rparr>), log)))"

fun setup_loop :: "session_env \<Rightarrow> nat \<Rightarrow> error_log \<Rightarrow> unit act" where
  "setup_loop env 0 el = afail (IoError ''Shutdown during setup'')"
| "setup_loop env (Suc n) el =
     abind (aget gh_opts) (\<lambda>opts.
     abind (setup_commands env (op_setup_shell opts)) (\<lambda>failure.
     case failure of
       None \<Rightarrow> aret ()
     | Some message \<Rightarrow>
         abind (publish_setup_failure env message el) (\<lambda>el'.
         athen (shell_hooks env (ReloadEvent After)) (
         if op_debug_mem opts then afail (IoError (''Memory diagnostic setup failed: '' @ message))
         else athen (ask (se_unit env) AwaitChange) (setup_loop env n el')))))"

definition error_path :: "session_env \<Rightarrow> ghci_opts \<Rightarrow> normal_path option res" where
  "error_path env opts =
     (case op_error_path opts of
        None \<Rightarrow> Inr None
      | Some p \<Rightarrow> res_bind (se_current_dir env) (\<lambda>cwd.
          res_bind (normal_path_new (ce_paths (se_classify env)) p cwd) (\<lambda>np. Inr (Some np))))"

definition setup_run :: "session_env \<Rightarrow> unit act" where
  "setup_run env =
     abind (aget gh_opts) (\<lambda>opts.
     if op_setup_shell opts = [] then aret ()
     else abind (alift (error_path env opts)) (\<lambda>p.
       abind (aget (\<lambda>g. se_shutdown_after env (gh_hist g))) (\<lambda>n.
         setup_loop env n (error_log_new p))))"

text \<open>\<open>Ghci::new\<close>: the session it returns replaces the one at hand, keeping only the options.\<close>

definition fresh_session ::
  "path \<Rightarrow> normal_path option \<Rightarrow> file_classifier \<Rightarrow> ghci \<Rightarrow> ghci" where
  "fresh_session cwd p c g =
     g\<lparr>gh_classifier := c, gh_targets := [], gh_known := [], gh_publication := None,
       gh_pending_test := False, gh_init_failure := None, gh_eval_commands := [],
       gh_search_paths := \<lparr>sp_cwd = cwd, sp_search_paths = op_extra_search_paths (gh_opts g)\<rparr>,
       gh_error_log := error_log_new p, gh_sync_nonce := 0, gh_stderr_nonce := 0,
       gh_phase := ''initializing'', gh_recovery := False\<rparr>"

definition session_new :: "session_env \<Rightarrow> unit act" where
  "session_new env =
     athen (setup_run env) (
     athen (shell_hooks env (StartupEvent Before)) (
     athen (ask (se_unit env) StartProcess) (
     abind (aget gh_opts) (\<lambda>opts.
     abind (alift (error_path env opts)) (\<lambda>p.
     abind (alift (file_classifier_new (se_current_dir env) (op_restart_globs opts) (op_reload_globs opts))) (\<lambda>c.
     abind (alift (se_current_dir env)) (\<lambda>cwd.
       aput (fresh_session cwd p c))))))))"

definition initialize_inner :: "session_env \<Rightarrow> unit act" where
  "initialize_inner env =
     athen (stdout_initialize env) (
     athen (stdin_initialize env) (
     athen (refresh_targets env) (refresh_eval_commands env)))"

text \<open>The diagnostic of a failed start, with what the command printed when it is gone.\<close>

definition startup_failure :: "session_env \<Rightarrow> io_error \<Rightarrow> string act" where
  "startup_failure env err =
     (if se_broken_pipe env err
      then abind (attempt (drain_stderr_after_exit env)) (\<lambda>r.
        let output = str_trim (case r of Inr s \<Rightarrow> s | Inl _ \<Rightarrow> []) in
        aret (if output = [] then ''Configured GHCi command exited before startup completed''
              else ''Configured GHCi command exited before startup completed:'' @ newline # output))
      else aret (''GHCi initialization failed: '' @ (case err of IoError s \<Rightarrow> s)))"

definition initialize :: "session_env \<Rightarrow> lifecycle_event list \<Rightarrow> path_set option \<Rightarrow> unit act" where
  "initialize env events files =
     abind (attempt (athen (initialize_inner env)
       (case files of None \<Rightarrow> aret () | Some fs \<Rightarrow> synchronize_haskell_files env fs))) (\<lambda>result.
     athen (case result of
              Inr _ \<Rightarrow> aret ()
            | Inl err \<Rightarrow> abind (startup_failure env err) (\<lambda>message.
                log_put (mark_failed_with_diagnostic message))) (
     athen (log_put fill_empty_summary) (
     athen (abind (log_get id) (\<lambda>l. aput (\<lambda>g. g\<lparr>gh_init_failure :=
              (if log_result l = Some CompErr then Some l else None)\<rparr>))) (
     athen (finish_compilation env events (is_Inr result) (is_Inr result) True)
       (alift result)))))"

section \<open>Restarting\<close>

text \<open>A command that cannot be started still closes every lifecycle event of the attempt.\<close>

definition run_new_session ::
  "session_env \<Rightarrow> lifecycle_event list \<Rightarrow> path_set option \<Rightarrow> source_snapshot option \<Rightarrow> unit res \<Rightarrow> unit act" where
  "run_new_session env events files publication started =
     (case started of
        Inl (IoError e) \<Rightarrow>
          athen (log_put (mark_failed_with_diagnostic (''Failed to start configured GHCi command: '' @ e))) (
          athen (finish_compilation env events False False True) (afail (IoError e)))
      | Inr _ \<Rightarrow>
          athen (aput (\<lambda>g. g\<lparr>gh_publication := publication\<rparr>)) (initialize env events files))"

definition restart_inner ::
  "session_env \<Rightarrow> lifecycle_event list \<Rightarrow> path_set option \<Rightarrow> bool \<Rightarrow> unit act" where
  "restart_inner env events files stop_old_process =
     abind (attempt (if stop_old_process then ask (se_unit env) StopProcess else aret ())) (\<lambda>stopped.
     case stopped of
       Inl e \<Rightarrow> athen (run_shell_lifecycle_events env events) (afail e)
     | Inr _ \<Rightarrow>
         abind (aget gh_publication) (\<lambda>publication.
         abind (attempt (session_new env)) (run_new_session env events files publication)))"

definition restart :: "session_env \<Rightarrow> path_set \<Rightarrow> bool \<Rightarrow> string list \<Rightarrow> unit act" where
  "restart env files before_reload_shell_ran changed_paths =
     athen (log_put (\<lambda>_. compilation_log_default\<lparr>cl_workload :=
       (cl_workload compilation_log_default)\<lparr>wl_changed_paths := changed_paths\<rparr>\<rparr>)) (
     abind (attempt (if before_reload_shell_ran then run_ghci_hooks env (ReloadEvent Before)
                     else run_hooks env (ReloadEvent Before))) (\<lambda>before_reload.
     case before_reload of
       Inl e \<Rightarrow> athen (run_shell_lifecycle_events env [ReloadEvent After]) (afail e)
     | Inr _ \<Rightarrow>
         abind (attempt (run_hooks env (RestartEvent Before))) (\<lambda>before_restart.
         case before_restart of
           Inl e \<Rightarrow> athen (run_shell_lifecycle_events env [RestartEvent After, ReloadEvent After]) (afail e)
         | Inr _ \<Rightarrow> restart_inner env [StartupEvent After, RestartEvent After, ReloadEvent After]
             (Some files) True)))"

definition restart_after_recovery_kill :: "session_env \<Rightarrow> path_set \<Rightarrow> unit act" where
  "restart_after_recovery_kill env files =
     athen (log_put (\<lambda>_. compilation_log_default))
       (restart_inner env [StartupEvent After, RestartEvent After] (Some files) False)"

definition normalize_files :: "session_env \<Rightarrow> ghci \<Rightarrow> path list \<Rightarrow> path_set res" where
  "normalize_files env g files =
     res_bind (res_map (relative_path (se_classify env) (gh_classifier g)) files) (\<lambda>ps. Inr (np_collect ps))"

definition startup_restart :: "session_env \<Rightarrow> path list \<Rightarrow> unit act" where
  "startup_restart env haskell_files =
     abind (aget id) (\<lambda>g.
     abind (alift (normalize_files env g haskell_files)) (\<lambda>files.
     athen (shell_hooks env (ReloadEvent Before)) (
     athen (shell_hooks env (RestartEvent Before))
       (restart_inner env [StartupEvent After, RestartEvent After, ReloadEvent After] (Some files) False))))"

section \<open>Reloading\<close>

text \<open>The part between the before-hooks and the after-hooks, which a newer event may interrupt.\<close>

definition reload_targets_and_sync :: "session_env \<Rightarrow> reload_actions \<Rightarrow> path_set \<Rightarrow> unit act" where
  "reload_targets_and_sync env a files =
     athen (if needs_remove a \<noteq> [] then remove_modules env (needs_remove a) else aret ()) (
     abind (if needs_add a \<noteq> [] then add_modules env (needs_add a) else aret []) (\<lambda>rejected.
     athen (aput (\<lambda>g. g\<lparr>gh_known := fold np_remove rejected files\<rparr>)) (
     if needs_reload a \<noteq> []
     then abind (reload_targets env) (\<lambda>status.
       if status \<noteq> ErrorStatus then refresh_eval_commands_for_paths env (needs_reload a) else aret ())
     else aret ())))"

definition reload_body :: "session_env \<Rightarrow> reload_actions \<Rightarrow> path_set \<Rightarrow> unit act" where
  "reload_body env a files =
     abind (if needs_add a \<noteq> [] then run_add_replacement env else aret False) (\<lambda>replaced.
     let a' = (if replaced then a\<lparr>needs_reload := needs_reload a @ needs_add a, needs_add := []\<rparr> else a) in
     athen (run_ghci_hooks env (ReloadEvent Before)) (
     athen (tell (SendKind KindReload))
       (reload_targets_and_sync env a' files)))"

text \<open>Closing an attempt: after-hooks always, and the attempt's own error first.\<close>

definition conclude :: "session_env \<Rightarrow> unit res \<Rightarrow> unit act" where
  "conclude env reload_result =
     abind (aget gh_recovery) (\<lambda>recovery.
     let ghci_available = (case reload_result of Inr _ \<Rightarrow> True
           | Inl e \<Rightarrow> \<not> se_broken_pipe env e \<and> \<not> recovery) in
     abind (attempt (finish_compilation env [ReloadEvent After] ghci_available (is_Inr reload_result) True))
       (\<lambda>finish_result. athen (alift reload_result) (alift finish_result)))"

definition reload :: "session_env \<Rightarrow> file_event list \<Rightarrow> path list \<Rightarrow> source_snapshot \<Rightarrow> unit act" where
  "reload env events haskell_files snapshot =
     athen (aput (\<lambda>g. g\<lparr>gh_publication := Some snapshot\<rparr>)) (
     abind (aget id) (\<lambda>g.
     abind (alift (normalize_files env g haskell_files)) (\<lambda>files.
     let changed_paths = map (\<lambda>e. path_str (as_path e)) events in
     abind (alift (get_reload_actions env g events files)) (\<lambda>a.
     if any_restart a
     then athen (tell (SendKind KindRestart)) (restart env files True changed_paths)
     else athen (log_put (\<lambda>_. compilation_log_default\<lparr>cl_workload :=
       (cl_workload compilation_log_default)\<lparr>wl_changed_paths := changed_paths\<rparr>\<rparr>)) (
     if \<not> needs_modify a
     then athen (tell (SendKind KindNone)) (
       athen (aput (\<lambda>g. g\<lparr>gh_known := files\<rparr>))
         (finish_compilation env [ReloadEvent After] True True False))
     else abind (attempt (reload_body env a files)) (\<lambda>reload_result.
       athen (tell (SendKind KindNone)) (conclude env reload_result)))))))"

definition finish_interrupted_reload :: "session_env \<Rightarrow> bool \<Rightarrow> unit act" where
  "finish_interrupted_reload env ghci_available =
     athen (log_put (\<lambda>_. compilation_log_default)) (
     athen (aput (\<lambda>g. g\<lparr>gh_publication := None\<rparr>))
       (if ghci_available then run_hooks env (ReloadEvent After) else shell_hooks env (ReloadEvent After)))"

definition reload_from_eval :: "session_env \<Rightarrow> unit act" where
  "reload_from_eval env =
     athen (log_put (\<lambda>_. compilation_log_default)) (
     abind (attempt (athen (run_hooks env (ReloadEvent Before)) (
       abind (reload_targets env) (\<lambda>status.
         if status \<noteq> ErrorStatus then refresh_eval_commands env else aret ()))))
       (conclude env))"

definition debug_memory_reload :: "session_env \<Rightarrow> unit act" where
  "debug_memory_reload env =
     abind (with_log compilation_log_default (run_hook_command env '':set -fforce-recomp'')) (\<lambda>(l, _).
       if failed l then afail (IoError ''Cannot enable full recompilation for memory diagnostic'')
       else reload_from_eval env)"

end
