(* ===== verification/SessionRel.thy ===== *)
theory SessionRel
  imports Reload
begin

text \<open>
  Reasoning about actions. A relation between the session before and after that the dialogue with
  GHCi respects is respected by every composition of it (locale \<open>bookkeeping\<close>
  and its extensions, by what else the relation leaves out).
\<close>

section \<open>Running actions\<close>

datatype status = Returned | Raised | Dropped | Crashed

fun status_of :: "'a outcome \<Rightarrow> status" where
  "status_of (Done x) = Returned"
| "status_of (Failed e) = Raised"
| "status_of Cancelled = Dropped"
| "status_of Panicked = Crashed"

definition rel :: "(ghci \<Rightarrow> ghci \<Rightarrow> status \<Rightarrow> bool) \<Rightarrow> 'a act \<Rightarrow> bool" where
  "rel R m \<longleftrightarrow> (\<forall>g log. R g (fst (fst (m (g, log)))) (status_of (snd (m (g, log)))))"

lemma relD: "rel R m \<Longrightarrow> m (g, log) = ((g', log'), r) \<Longrightarrow> R g g' (status_of r)"
  unfolding rel_def by (metis fst_conv snd_conv)

lemma relI: "(\<And>g log g' log' r. m (g, log) = ((g', log'), r) \<Longrightarrow> R g g' (status_of r)) \<Longrightarrow> rel R m"
  unfolding rel_def by (metis prod.collapse)

lemma aret_run [simp]: "aret x w = (w, Done x)"
  by (simp add: aret_def)

lemma afail_run [simp]: "afail e w = (w, Failed e)"
  by (simp add: afail_def)

lemma aget_run [simp]: "aget f (g, log) = ((g, log), Done (f g))"
  by (simp add: aget_def)

lemma aput_run [simp]: "aput f (g, log) = ((f g, log), Done ())"
  by (simp add: aput_def)

lemma log_get_run [simp]: "log_get f (g, log) = ((g, log), Done (f log))"
  by (simp add: log_get_def)

lemma log_put_run [simp]: "log_put f (g, log) = ((g, f log), Done ())"
  by (simp add: log_put_def)

lemma alift_run [simp]: "alift (Inr x) w = (w, Done x)" "alift (Inl e) w = (w, Failed e)"
  by (simp_all add: alift_def)

lemma abind_Done: "m w = (w', Done x) \<Longrightarrow> abind m f w = f x w'"
  by (simp add: abind_def)

lemma abind_cases:
  assumes "abind m f w = (w'', r)"
  obtains (returned) w' x where "m w = (w', Done x)" "f x w' = (w'', r)"
  | (raised) e where "m w = (w'', Failed e)" "r = Failed e"
  | (dropped) "m w = (w'', Cancelled)" "r = Cancelled"
  | (crashed) "m w = (w'', Panicked)" "r = Panicked"
proof (cases "snd (m w)")
  case (Done x)
  then show ?thesis using assms returned [of "fst (m w)" x]
    by (cases "m w") (simp add: abind_def)
next
  case (Failed e)
  then show ?thesis using assms raised [of e] by (cases "m w") (simp add: abind_def)
next
  case Cancelled
  then show ?thesis using assms dropped by (cases "m w") (simp add: abind_def)
next
  case Panicked
  then show ?thesis using assms crashed by (cases "m w") (simp add: abind_def)
qed

lemma attempt_run:
  "m w = (w', r) \<Longrightarrow> attempt m w = (w', case r of Done x \<Rightarrow> Done (Inr x) | Failed e \<Rightarrow> Done (Inl e)
     | Cancelled \<Rightarrow> Cancelled | Panicked \<Rightarrow> Panicked)"
  by (simp add: attempt_def split: outcome.split)

lemma attempt_cases:
  assumes "attempt m w = (w', r)"
  obtains s where "m w = (w', s)" and "r = (case s of Done x \<Rightarrow> Done (Inr x) | Failed e \<Rightarrow> Done (Inl e)
     | Cancelled \<Rightarrow> Cancelled | Panicked \<Rightarrow> Panicked)"
  using assms attempt_run [of m w "fst (m w)" "snd (m w)"] by (metis prod.collapse prod.inject)

lemma with_log_cases:
  assumes "with_log l m (g, log) = ((g', log'), r)"
  obtains l' s where "m (g, l) = ((g', l'), s)" and "log' = log"
    and "r = (case s of Done x \<Rightarrow> Done (l', x) | Failed e \<Rightarrow> Failed e
      | Cancelled \<Rightarrow> Cancelled | Panicked \<Rightarrow> Panicked)"
proof -
  obtain h l' s where m: "m (g, l) = ((h, l'), s)" by (cases "m (g, l)") auto
  show thesis using assms m that [of l' s] by (cases s) (simp_all add: with_log_def)
qed

lemma athen_Done: "m w = (w', Done x) \<Longrightarrow> athen m n w = n w'"
  by (simp add: athen_def abind_Done)

lemma athen_log_put: "athen (log_put f) n (g, log) = n (g, f log)"
  by (rule athen_Done) (rule log_put_run)

lemma abind_log_get: "abind (log_get f) k (g, log) = k (f log) (g, log)"
  by (rule abind_Done) (rule log_get_run)

lemma athen_aput: "athen (aput f) n (g, log) = n (f g, log)"
  by (rule athen_Done) (rule aput_run)

lemma abind_aget: "abind (aget f) k (g, log) = k (f g) (g, log)"
  by (rule abind_Done) (rule aget_run)

lemma abind_Done_iff: "abind m f w = (w'', Done y) \<longleftrightarrow> (\<exists>w' x. m w = (w', Done x) \<and> f x w' = (w'', Done y))"
proof
  assume "abind m f w = (w'', Done y)"
  then show "\<exists>w' x. m w = (w', Done x) \<and> f x w' = (w'', Done y)"
    by (cases rule: abind_cases) auto
qed (auto simp: abind_Done)

lemma athen_Done_iff: "athen m n w = (w'', Done y) \<longleftrightarrow> (\<exists>w' x. m w = (w', Done x) \<and> n w' = (w'', Done y))"
  by (simp add: athen_def abind_Done_iff)

lemma alift_Done_iff: "alift r w = (w', Done x) \<longleftrightarrow> r = Inr x \<and> w' = w"
  by (cases r) auto

text \<open>A sequence stops in its first part, or goes on.\<close>

lemma abind_related:
  assumes "rel R m" and "abind m f (g, log) = ((g', log'), r)"
  obtains (stopped) "R g g' (status_of r)" "\<And>x. r \<noteq> Done x"
  | (continued) h l x where "m (g, log) = ((h, l), Done x)" "R g h Returned" "f x (h, l) = ((g', log'), r)"
  using assms(2)
proof (cases rule: abind_cases)
  case (returned w x)
  obtain h l where w: "w = (h, l)" by (cases w)
  from relD [OF assms(1) returned(1) [unfolded w]] continued returned w show ?thesis by simp
next
  case (raised e)
  from relD [OF assms(1) raised(1)] raised(2) stopped show ?thesis by simp
next
  case dropped
  from relD [OF assms(1) dropped(1)] dropped(2) stopped show ?thesis by simp
next
  case crashed
  from relD [OF assms(1) crashed(1)] crashed(2) stopped show ?thesis by simp
qed

text \<open>What is known of the value an action ends with.\<close>

definition gives :: "('a \<Rightarrow> bool) \<Rightarrow> 'a act \<Rightarrow> bool" where
  "gives P m \<longleftrightarrow> (\<forall>w w' x. m w = (w', Done x) \<longrightarrow> P x)"

lemma gives_abind: "(\<And>x. gives P (f x)) \<Longrightarrow> gives P (abind m f)"
  unfolding gives_def abind_Done_iff by blast

lemma gives_athen: "gives P n \<Longrightarrow> gives P (athen m n)"
  unfolding athen_def by (rule gives_abind)

lemma gives_alift: "(\<And>x. r = Inr x \<Longrightarrow> P x) \<Longrightarrow> gives P (alift r)"
  by (auto simp: gives_def alift_Done_iff)

lemma gives_aret: "P x \<Longrightarrow> gives P (aret x)"
  by (simp add: gives_def)

section \<open>Well-formed sessions\<close>

text \<open>
  The targets are a set keyed by path; the eval commands are an index in path order, each entry under
  its own path and with commands.
\<close>

definition eval_index_ok :: "(path, normal_path \<times> string list) btmap \<Rightarrow> bool" where
  "eval_index_ok m \<longleftrightarrow> bm_inv m \<and> (\<forall>(k, p, commands) \<in> set m. np_normal p = k \<and> commands \<noteq> [])"

lemma eval_index_Nil: "eval_index_ok []"
  by (simp add: eval_index_ok_def)

lemma eval_index_insert:
  assumes "eval_index_ok m" and "commands \<noteq> []"
  shows "eval_index_ok (eval_insert p commands m)"
proof -
  have "np_normal (case map_of m (np_normal p) of Some (q, cs) \<Rightarrow> q | None \<Rightarrow> p) = np_normal p"
  proof (cases "map_of m (np_normal p)")
    case (Some e)
    with assms(1) map_of_SomeD [OF Some] show ?thesis by (cases e) (auto simp: eval_index_ok_def)
  qed simp
  then have new: "(case (np_normal p, case map_of m (np_normal p) of Some (q, cs) \<Rightarrow> q | None \<Rightarrow> p, commands) of
      (k, p, commands) \<Rightarrow> np_normal p = k \<and> commands \<noteq> [])"
    using assms(2) by (simp only: prod.case) simp
  have "bm_inv (eval_insert p commands m)"
    using assms(1) unfolding eval_index_ok_def eval_insert_def by (blast intro: bm_inv_insert)
  moreover have "case e of (k, p, commands) \<Rightarrow> np_normal p = k \<and> commands \<noteq> []"
    if "e \<in> set (eval_insert p commands m)" for e
    using subsetD [OF set_bm_insert that [unfolded eval_insert_def]] new assms(1)
    unfolding eval_index_ok_def by blast
  ultimately show ?thesis unfolding eval_index_ok_def by blast
qed

lemma eval_index_remove: "eval_index_ok m \<Longrightarrow> eval_index_ok (bm_remove k m)"
  by (auto simp: eval_index_ok_def bm_inv_remove) (auto simp: bm_remove_def)

lemma eval_index_fold_remove: "eval_index_ok m \<Longrightarrow> eval_index_ok (fold (\<lambda>p. bm_remove (f p)) ps m)"
  by (induction ps arbitrary: m) (simp_all add: eval_index_remove)

lemma targets_fold_remove:
  "module_set_inv ts \<Longrightarrow> module_set_inv (fold (\<lambda>p ts. snd (remove_source_path (f p) ts)) ps ts)"
  by (induction ps arbitrary: ts) (simp_all add: ms.rem_inv)

lemma gives_targets: "gives module_set_inv (stdin_show_targets env sp)"
  unfolding stdin_show_targets_def stdout_show_targets_def
  by (intro gives_athen gives_abind gives_alift)
     (auto simp: targets_of_lines_def res_simps module_set_from_iter_def module_set_extend_eq module_set_inv_def
       intro!: ms.extend_inv [unfolded module_set_inv_def])

lemma gives_eval_index: "eval_index_ok acc \<Longrightarrow> gives eval_index_ok (collect_eval_commands env ts acc)"
proof (induction ts arbitrary: acc)
  case (Cons t ts)
  then show ?case
    unfolding collect_eval_commands.simps by (intro gives_abind) (simp add: eval_index_insert)
next
  case Nil
  then show ?case unfolding collect_eval_commands.simps by (rule gives_aret)
qed

section \<open>Relations between the session before and after\<close>

text \<open>
  \<open>R g g' s\<close> relates a session before an action, after it, and how the action ended. An error and
  a value are treated alike, so that errors can be caught.
\<close>

locale session_relation =
  fixes R :: "ghci \<Rightarrow> ghci \<Rightarrow> status \<Rightarrow> bool"
  assumes R_refl: "R g g Returned"
    and R_trans: "R g g' Returned \<Longrightarrow> R g' g'' s \<Longrightarrow> R g g'' s"
    and R_raised: "R g g' Raised = R g g' Returned"
begin

lemma rel_aret: "rel R (aret x)"
  by (simp add: rel_def R_refl)

lemma rel_afail: "rel R (afail e)"
  by (simp add: rel_def R_raised R_refl)

lemma rel_alift: "rel R (alift r)"
  by (cases r) (simp_all add: rel_def R_raised R_refl)

lemma rel_aget: "rel R (aget f)"
  by (simp add: rel_def R_refl)

lemma rel_log_get: "rel R (log_get f)"
  by (simp add: rel_def R_refl)

lemma rel_log_put: "rel R (log_put f)"
  by (simp add: rel_def R_refl)

lemma rel_aput: "(\<And>g. R g (f g) Returned) \<Longrightarrow> rel R (aput f)"
  by (simp add: rel_def)

lemma rel_abind:
  assumes "rel R m" and "\<And>x. rel R (f x)"
  shows "rel R (abind m f)"
proof (rule relI)
  fix g log g' log' r assume "abind m f (g, log) = ((g', log'), r)"
  then show "R g g' (status_of r)"
  proof (cases rule: abind_cases)
    case (returned w' x)
    obtain h l where w': "w' = (h, l)" by (cases w')
    from R_trans [OF relD [OF assms(1) returned(1) [unfolded w'], simplified]
        relD [OF assms(2) returned(2) [unfolded w']]]
    show ?thesis .
  next
    case (raised e)
    from relD [OF assms(1) raised(1)] raised(2) show ?thesis by simp
  next
    case dropped
    from relD [OF assms(1) dropped(1)] dropped(2) show ?thesis by simp
  next
    case crashed
    from relD [OF assms(1) crashed(1)] crashed(2) show ?thesis by simp
  qed
qed

lemma rel_if: "rel R m \<Longrightarrow> rel R n \<Longrightarrow> rel R (if b then m else n)"
  by simp

lemma rel_athen: "rel R m \<Longrightarrow> rel R n \<Longrightarrow> rel R (athen m n)"
  by (simp add: athen_def rel_abind)

lemma rel_attempt: "rel R m \<Longrightarrow> rel R (attempt m)"
proof (rule relI)
  fix g log g' log' r assume "rel R m" and "attempt m (g, log) = ((g', log'), r)"
  from this(2) show "R g g' (status_of r)"
  proof (rule attempt_cases)
    fix s assume s: "m (g, log) = ((g', log'), s)" "r = (case s of Done x \<Rightarrow> Done (Inr x)
      | Failed e \<Rightarrow> Done (Inl e) | Cancelled \<Rightarrow> Cancelled | Panicked \<Rightarrow> Panicked)"
    from relD [OF \<open>rel R m\<close> s(1)] s(2) show ?thesis by (cases s) (simp_all add: R_raised)
  qed
qed

lemma rel_with_log: "rel R m \<Longrightarrow> rel R (with_log l m)"
proof (rule relI)
  fix g log g' log' r assume "rel R m" and "with_log l m (g, log) = ((g', log'), r)"
  from this(2) show "R g g' (status_of r)"
  proof (rule with_log_cases)
    fix l' s assume s: "m (g, l) = ((g', l'), s)" "r = (case s of Done x \<Rightarrow> Done (l', x)
      | Failed e \<Rightarrow> Failed e | Cancelled \<Rightarrow> Cancelled | Panicked \<Rightarrow> Panicked)"
    from relD [OF \<open>rel R m\<close> s(1)] s(2) show ?thesis by (cases s) simp_all
  qed
qed

text \<open>Only the values an action can give have to be followed.\<close>

lemma rel_abind_gives:
  assumes "rel R m" and "gives P m" and "\<And>x. P x \<Longrightarrow> rel R (f x)"
  shows "rel R (abind m f)"
proof -
  define f' where "f' x = (if P x then f x else aret undefined)" for x
  have "abind m f w = abind m f' w" for w
    using assms(2) unfolding gives_def
    by (cases "m w"; cases "snd (m w)") (auto simp del: split_paired_All simp: abind_def f'_def)
  then have "abind m f = abind m f'" ..
  moreover have "rel R (f' x)" for x
    using assms(3) rel_aret by (cases "P x") (simp_all add: f'_def)
  ultimately show ?thesis using rel_abind [OF assms(1), of f'] by simp
qed

lemma rel_amap: "(\<And>x. rel R (f x)) \<Longrightarrow> rel R (amap f xs)"
  by (induction xs) (simp_all add: rel_aret rel_athen)

lemma rel_ask_one:
  assumes "\<And>g. R g (record_action (Did r) g) Returned" and "\<And>g. expired g \<Longrightarrow> R g g Dropped"
  shows "rel R (ask answer r)"
proof (rule relI)
  fix g log g' log' x assume "ask answer r (g, log) = ((g', log'), x)"
  then show "R g g' (status_of x)"
    by (cases "answer (gh_hist g) r") (auto simp: ask_def assms R_raised split: if_splits)
qed

lemmas structure_rules = rel_aret rel_afail rel_alift rel_aget rel_log_get rel_log_put rel_abind
  rel_athen rel_attempt rel_with_log rel_amap

end

text \<open>
  Relations that only see what the dialogue with GHCi leaves alone. A timer replaces the deadline
  for a while and turns a dropped action into an answer.
\<close>

locale bookkeeping = session_relation +
  assumes R_did: "R g (record_action (Did r) g) Returned"
    and R_dropped: "expired g \<Longrightarrow> R g g Dropped"
    and R_timer: "R (g\<lparr>gh_deadline := d\<rparr>) h s \<Longrightarrow> s \<noteq> Dropped \<Longrightarrow>
      R g (h\<lparr>gh_deadline := gh_deadline g\<rparr>) s"
    and R_timer_outer: "R (g\<lparr>gh_deadline := d\<rparr>) h Dropped \<Longrightarrow>
      expired (h\<lparr>gh_deadline := gh_deadline g\<rparr>) \<Longrightarrow> R g (h\<lparr>gh_deadline := gh_deadline g\<rparr>) Dropped"
    and R_timer_fired: "R (g\<lparr>gh_deadline := d\<rparr>) h Dropped \<Longrightarrow>
      R g (h\<lparr>gh_deadline := gh_deadline g\<rparr>) Returned"
    and R_phase: "R g (g\<lparr>gh_phase := p\<rparr>) Returned"
    and R_stderr_nonce: "R g (g\<lparr>gh_stderr_nonce := n\<rparr>) Returned"
    and R_eval_phase: "R g (g\<lparr>gh_eval_phase := q\<rparr>) Returned"
    and R_eval_nonce: "R g (g\<lparr>gh_eval_nonce := n\<rparr>) Returned"
    and R_sync_nonce: "R g (g\<lparr>gh_sync_nonce := n\<rparr>) Returned"
    and R_recovery: "R g (g\<lparr>gh_recovery := b\<rparr>) Returned"
begin

lemma rel_ask: "rel R (ask answer r)"
  by (rule rel_ask_one) (simp_all add: R_did R_dropped)

lemma rel_tell: "rel R (tell r)"
  by (simp add: tell_def rel_aput R_did)

lemma rel_atimeout:
  assumes "rel R m"
  shows "rel R (atimeout env t m)"
proof (rule relI)
  fix g log g' log' r
  assume run: "atimeout env t m (g, log) = ((g', log'), r)"
  define d where "d = sooner (gh_deadline g) (map_option (\<lambda>k. length (gh_hist g) + k) (se_deadline env (gh_hist g) t))"
  obtain h l x where m: "m (g\<lparr>gh_deadline := d\<rparr>, log) = ((h, l), x)"
    by (cases "m (g\<lparr>gh_deadline := d\<rparr>, log)") auto
  have R: "R (g\<lparr>gh_deadline := d\<rparr>) h (status_of x)" by (rule relD [OF assms m])
  show "R g g' (status_of r)"
  proof (cases x)
    case (Done y)
    with R_timer [OF R] run m show ?thesis by (auto simp: atimeout_def d_def Let_def)
  next
    case (Failed e)
    with R_timer [OF R] run m show ?thesis by (auto simp: atimeout_def d_def Let_def R_raised)
  next
    case Panicked
    with R_timer [OF R] run m show ?thesis by (auto simp: atimeout_def d_def Let_def)
  next
    case Cancelled
    with R have dropped: "R (g\<lparr>gh_deadline := d\<rparr>) h Dropped" by simp
    from Cancelled run m show ?thesis
      using R_timer_outer [OF dropped] R_timer_fired [OF dropped]
      by (auto simp: atimeout_def d_def Let_def split: if_splits)
  qed
qed

lemmas dialogue_rules = structure_rules rel_ask rel_tell rel_atimeout

lemma rel_set_phase: "rel R (set_phase p)"
  by (simp add: set_phase_def rel_aput R_phase)

lemma rel_stderr_marker: "rel R (stderr_buffer_through_marker env)"
  unfolding stderr_buffer_through_marker_def
  by (intro dialogue_rules rel_set_phase rel_aput R_stderr_nonce)

lemma rel_parse_into_log: "rel R (parse_into_log env data)"
  unfolding parse_into_log_def by (intro dialogue_rules rel_stderr_marker)

lemma rel_read_prompt: "rel R (read_prompt env f)"
  unfolding read_prompt_def by (intro dialogue_rules rel_parse_into_log)

lemma rel_write_line: "rel R (stdin_write_line env l)"
  unfolding stdin_write_line_def write_line_with_prompt_at_def
  by (intro dialogue_rules rel_set_phase rel_read_prompt)

lemma rel_run_command: "rel R (run_command env c)"
  unfolding run_command_def by (simp add: rel_write_line rel_amap)

lemma rel_progress_line: "rel R (write_line_with_progress_timeout env l t b)"
  unfolding write_line_with_progress_timeout_def prompt_with_progress_timeout_def
  by (intro dialogue_rules) (auto split: progress.split intro!: dialogue_rules rel_parse_into_log)

lemma rel_force_kill: "rel R (force_kill_for_recovery env e)"
  unfolding force_kill_for_recovery_def run_before_signal_commands_def
  by (intro dialogue_rules rel_aput R_recovery) (auto split: sum.split intro!: dialogue_rules)

lemma rel_write_set_prompt: "rel R (write_set_prompt env p)"
  unfolding write_set_prompt_def by (rule rel_ask)

lemma rel_sync_barrier: "rel R (sync_barrier env)"
  unfolding sync_barrier_def
  by (intro dialogue_rules rel_aput R_sync_nonce rel_write_set_prompt)
     (auto split: option.split sum.split intro!: dialogue_rules rel_write_set_prompt rel_read_prompt)

lemma rel_sigint_loop: "rel R (sigint_loop env n)"
proof (induction n)
  case (Suc n)
  then show ?case unfolding sigint_loop.simps by (intro dialogue_rules) (simp_all add: rel_aret)
next
  case 0
  show ?case unfolding sigint_loop.simps by (rule rel_afail)
qed

lemma rel_send_sigint_inner: "rel R (send_sigint_inner env)"
  unfolding send_sigint_inner_def run_before_signal_commands_def
  by (intro dialogue_rules rel_sigint_loop rel_sync_barrier)

lemma rel_stdin_reload: "rel R (stdin_reload env t b)"
  unfolding stdin_reload_def by (rule rel_progress_line)

lemma rel_run_hook_command: "rel R (run_hook_command env c)"
  unfolding run_hook_command_def
  by (intro dialogue_rules rel_run_command) (auto split: option.split intro!: dialogue_rules rel_force_kill)

lemma rel_run_add_replacement: "rel R (run_add_replacement env)"
  unfolding run_add_replacement_def
  by (intro dialogue_rules) (auto split: option.split intro!: dialogue_rules)

lemma rel_drain_stderr: "rel R (drain_stderr_after_exit env)"
  unfolding drain_stderr_after_exit_def by (intro dialogue_rules)

lemma rel_write_memory_record: "rel R (write_memory_record env s)"
  unfolding write_memory_record_def by (intro dialogue_rules)

lemmas session_rules = dialogue_rules rel_set_phase rel_parse_into_log rel_read_prompt rel_write_line
  rel_run_command rel_progress_line rel_force_kill rel_write_set_prompt rel_sync_barrier
  rel_stdin_reload rel_run_hook_command rel_run_add_replacement rel_drain_stderr rel_write_memory_record

end

text \<open>Trimming the captured stderr can panic.\<close>

locale crashing = bookkeeping +
  assumes R_crash: "R g g Crashed"
begin

lemma rel_discard: "rel R (discard_interrupt_output n)"
  unfolding discard_interrupt_output_def rel_def by (simp add: R_refl R_crash split: option.split)

lemma rel_send_sigint_capturing: "rel R (send_sigint_capturing env)"
  unfolding send_sigint_capturing_def
  by (intro dialogue_rules rel_send_sigint_inner rel_discard)
     (auto split: sum.split intro!: dialogue_rules rel_force_kill)

lemma rel_capture_interrupted: "rel R (capture_interrupted_stderr env)"
  unfolding capture_interrupted_stderr_def capture_stderr_def
  by (intro dialogue_rules rel_parse_into_log rel_discard)
     (auto split: option.split intro!: dialogue_rules rel_force_kill)

lemma rel_interrupt_and_retry: "rel R (interrupt_and_retry_reload env)"
  unfolding interrupt_and_retry_reload_def
  by (intro dialogue_rules rel_send_sigint_capturing rel_stdin_reload)
     (auto intro!: dialogue_rules rel_force_kill)

lemma rel_settle: "rel R (settle_compilation env status)"
  unfolding settle_compilation_def
  by (auto split: wait_status.split
      intro!: dialogue_rules rel_send_sigint_capturing rel_capture_interrupted rel_interrupt_and_retry)

lemma rel_reload_targets: "rel R (reload_targets env)"
  unfolding reload_targets_def by (intro dialogue_rules rel_stdin_reload rel_settle)

lemma rel_add_loaded: "rel R (add_loaded_modules env ms b)"
  unfolding add_loaded_modules_def stdin_add_modules_def
  by (intro dialogue_rules rel_progress_line rel_settle)

end

text \<open>Relations that leave the eval commands out.\<close>

locale eval_free = bookkeeping +
  assumes R_eval: "(eval_index_ok (gh_eval_commands g) \<Longrightarrow> eval_index_ok m) \<Longrightarrow>
      R g (g\<lparr>gh_eval_commands := m\<rparr>) Returned"
begin

lemma rel_read_eval: "rel R (read_eval_commands env p)"
  unfolding read_eval_commands_def by (intro dialogue_rules)

lemma rel_collect_eval: "rel R (collect_eval_commands env ts acc)"
  by (induction ts arbitrary: acc) (simp_all add: rel_aret rel_abind rel_read_eval)

lemma rel_refresh_eval: "rel R (refresh_eval_commands env)"
  unfolding refresh_eval_commands_def
  by (rule rel_abind, rule rel_aget)
     (auto intro!: rel_aret rel_abind_gives [OF rel_collect_eval gives_eval_index] rel_aput R_eval eval_index_Nil)

lemma rel_refresh_eval_path: "rel R (refresh_eval_path env p)"
  unfolding refresh_eval_path_def
  by (rule rel_abind, rule rel_aget)
     (auto split: sum.split intro!: dialogue_rules rel_read_eval rel_aput R_eval eval_index_remove eval_index_insert)

lemma rel_refresh_eval_paths: "rel R (refresh_eval_commands_for_paths env ps)"
  unfolding refresh_eval_commands_for_paths_def
  by (rule rel_abind, rule rel_aget) (auto intro!: dialogue_rules rel_refresh_eval_path)

lemma rel_clear_eval: "rel R (clear_eval_commands_for_paths ps)"
  unfolding clear_eval_commands_for_paths_def
  by (rule rel_abind, rule rel_aget) (auto intro!: dialogue_rules rel_aput R_eval eval_index_fold_remove)

end

text \<open>Relations that also leave the targets and search paths out.\<close>

locale target_free = eval_free +
  assumes R_targets: "(module_set_inv (gh_targets g) \<Longrightarrow> module_set_inv ts) \<Longrightarrow>
      R g (g\<lparr>gh_targets := ts\<rparr>) Returned"
    and R_paths: "R g (g\<lparr>gh_search_paths := sp, gh_classifier := c\<rparr>) Returned"
begin

lemma rel_refresh_paths: "rel R (refresh_paths env)"
  unfolding refresh_paths_def stdin_show_paths_def stdout_show_paths_def Let_def
  by (intro dialogue_rules rel_aput R_paths)

lemma rel_show_targets: "rel R (stdin_show_targets env sp)"
  unfolding stdin_show_targets_def stdout_show_targets_def by (intro dialogue_rules)

lemma rel_refresh_targets: "rel R (refresh_targets env)"
  unfolding refresh_targets_def
  by (intro rel_athen rel_abind rel_aget rel_refresh_paths rel_abind_gives [OF rel_show_targets gives_targets]
      rel_aput R_targets)

lemma rel_interpret_module: "rel R (interpret_module env p)"
  unfolding interpret_module_def stdin_interpret_module_def
  by (intro dialogue_rules rel_write_line)
     (auto intro!: dialogue_rules rel_aput R_targets rel_refresh_eval_paths ms.ins_inv)

lemma rel_eval_paths: "rel R (eval_paths env xs)"
proof (induction env xs rule: eval_paths.induct)
  case (2 env k p commands rest)
  then show ?case
    by (cases "commands = []")
       (auto simp: add_module_to_scope_def remove_module_from_scope_def
        intro!: dialogue_rules rel_interpret_module rel_write_line rel_run_command)
qed (subst eval_paths.simps, rule rel_aret)

lemma rel_run_eval: "rel R (run_eval env)"
  unfolding run_eval_def
  by (rule rel_abind, rule rel_aget) (auto intro!: dialogue_rules rel_eval_paths)

lemmas target_rules = rel_refresh_targets rel_refresh_eval rel_refresh_eval_paths rel_interpret_module
  rel_run_eval rel_clear_eval

end

locale target_free_crashing = target_free + crashing
begin

lemma rel_add_named: "rel R (add_named env named)"
proof -
  have "rel R (case x of (l, r) \<Rightarrow> case r of
      Inl e \<Rightarrow> athen (ask (se_unit env) (SetForwarding True True)) (afail e)
    | Inr _ \<Rightarrow> abind (aget gh_targets) (\<lambda>targets.
        athen (ask (se_unit env) (SetForwarding True (unresolved (map lm_path named) targets = [])))
          (aret l)))" for x :: "compilation_log \<times> (unit res)"
    by (auto split: prod.split sum.split intro!: dialogue_rules)
  then show ?thesis
    unfolding add_named_def
    by (auto intro!: dialogue_rules rel_add_loaded rel_refresh_targets)
qed

lemma rel_add_modules: "rel R (add_modules env ps)"
proof -
  have "rel R (if unresolved ps (gh_targets g) \<noteq> ps then afail e else m)" if "rel R m" for g e
    and m :: "normal_path list act"
    using that by (simp add: rel_afail)
  then show ?thesis
    unfolding add_modules_def
    by (intro dialogue_rules rel_add_named)
       (auto intro!: dialogue_rules rel_add_named rel_add_loaded rel_refresh_targets rel_refresh_eval_paths)
qed

lemma rel_remove_modules: "rel R (remove_modules env ps)"
  unfolding remove_modules_def stdin_remove_modules_def
  by (intro dialogue_rules rel_progress_line rel_settle rel_clear_eval rel_aput R_targets targets_fold_remove)

end

text \<open>
  Relations that leave hook commands out: \<open>free e\<close> says that shell commands of the event \<open>e\<close> do
  not matter, GHCi commands never do.
\<close>

locale hook_free = bookkeeping R for R +
  fixes free :: "lifecycle_event \<Rightarrow> bool"
  assumes R_ghci: "R g (record_action (RunGhci e c) g) Returned"
    and R_shell: "free e \<Longrightarrow> R g (record_action (RunShell e s) g) Returned"
begin

lemma R_shell_runs:
  "\<forall>a \<in> set acts. \<exists>e s. a = RunShell e s \<and> free e \<Longrightarrow> R g (g\<lparr>gh_hist := gh_hist g @ acts\<rparr>) Returned"
proof (induction acts arbitrary: g)
  case (Cons a acts)
  then obtain e s where a: "a = RunShell e s" "free e" by auto
  have "R (record_action a g) ((record_action a g)\<lparr>gh_hist := gh_hist (record_action a g) @ acts\<rparr>) Returned"
    using Cons by simp
  from R_trans [OF R_shell [OF a(2), of g s] this [unfolded a(1)]] show ?case
    by (simp add: a(1) record_action_def)
qed (simp add: R_refl)

lemma run_shell_loop_extends:
  "\<exists>acts. fst (run_shell_loop shell strict hs hist) = hist @ acts \<and>
     (\<forall>a \<in> set acts. \<exists>h s. h \<in> set hs \<and> a = RunShell (hk_event h) s)"
proof (induction shell strict hs hist rule: run_shell_loop.induct)
  case (2 shell strict h hs hist)
  show ?case
  proof (cases "hk_command h")
    case (GhciHook c)
    with 2(3) [OF GhciHook] show ?thesis by fastforce
  next
    case (ShellCommand c)
    show ?thesis
    proof (cases "run_hook_on shell hist strict c")
      case (Inr u)
      with 2(2) [OF ShellCommand Inr] ShellCommand show ?thesis by fastforce
    next
      case (Inl e)
      with 2(1) [OF ShellCommand Inl] ShellCommand show ?thesis by (cases strict) fastforce+
    qed
  qed
qed simp

lemma rel_shell_hooks:
  assumes "free e"
  shows "rel R (shell_hooks env e)"
proof (rule relI)
  fix g log g' log' r assume run: "shell_hooks env e (g, log) = ((g', log'), r)"
  let ?hs = "select_hooks (op_hooks (gh_opts g)) e"
  obtain acts where acts: "fst (run_shell_hooks (se_shell env) (op_hooks (gh_opts g)) e (gh_hist g)) = gh_hist g @ acts"
    "\<forall>a \<in> set acts. \<exists>h s. h \<in> set ?hs \<and> a = RunShell (hk_event h) s"
    unfolding run_shell_hooks_def using run_shell_loop_extends by blast
  have "\<forall>a \<in> set acts. \<exists>e s. a = RunShell e s \<and> free e"
    using acts(2) assms by (force simp: select_hooks_def)
  moreover have "g' = g\<lparr>gh_hist := gh_hist g @ acts\<rparr>"
    using run acts(1)
    by (cases "run_shell_hooks (se_shell env) (op_hooks (gh_opts g)) e (gh_hist g)"; cases "snd (run_shell_hooks (se_shell env) (op_hooks (gh_opts g)) e (gh_hist g))")
       (auto simp: shell_hooks_def)
  moreover have "status_of r = Returned \<or> status_of r = Raised"
    using run by (cases "snd (run_shell_hooks (se_shell env) (op_hooks (gh_opts g)) e (gh_hist g))")
      (auto simp: shell_hooks_def split: prod.splits)
  ultimately show "R g g' (status_of r)" using R_shell_runs by (auto simp: R_raised)
qed

lemma rel_run_one_shell: "free e \<Longrightarrow> rel R (run_one_shell env strict e c)"
proof (rule relI)
  fix g log g' log' r
  assume "free e" and "run_one_shell env strict e c (g, log) = ((g', log'), r)"
  then show "R g g' (status_of r)"
    by (cases "run_hook_on (se_shell env) (gh_hist g) strict c") (auto simp: run_one_shell_def R_shell R_raised)
qed

lemma rel_hook_loop:
  "\<forall>h \<in> set hs. command_kind_of (hk_command h) = GhciKind \<or> free (hk_event h) \<Longrightarrow>
   rel R (hook_loop env debug skip bad hs)"
proof (induction hs arbitrary: bad)
  case (Cons h hs)
  then have IH: "rel R (hook_loop env debug skip b hs)" for b by simp
  show ?case
  proof (cases "hk_command h")
    case (ShellCommand c)
    with Cons.prems have "free (hk_event h)" by simp
    with ShellCommand IH show ?thesis
      by (auto intro!: dialogue_rules rel_run_one_shell split: sum.split)
  next
    case (GhciHook c)
    have "rel R (case x of (hook_log, y) \<Rightarrow>
        athen (case cl_memory_sample hook_log of
            Some s \<Rightarrow> log_put (\<lambda>l. l\<lparr>cl_memory_sample := Some s\<rparr>) | None \<Rightarrow> aret ()) (
        if failed hook_log
        then athen (log_put (\<lambda>l. l\<lparr>cl_hook_failed := True, cl_memory_sample := None\<rparr>)) (
          if debug then afail (IoError (''Memory diagnostic aborted: command failed: '' @ c))
          else hook_loop env debug skip True hs)
        else hook_loop env debug skip bad hs))" for x :: "compilation_log \<times> unit"
      using IH by (auto split: prod.split option.split intro!: dialogue_rules)
    with GhciHook IH show ?thesis
      by (auto split: option.split intro!: dialogue_rules rel_run_command rel_run_hook_command rel_aput R_ghci)
  qed
qed (subst hook_loop.simps, rule rel_aret)

lemma rel_run_hooks: "free e \<Longrightarrow> rel R (run_hooks env e)"
  unfolding run_hooks_def Let_def
  by (auto intro!: dialogue_rules rel_shell_hooks rel_hook_loop simp: select_hooks_def)

lemma rel_ghci_hook_loop: "rel R (ghci_hook_loop env hs)"
proof (induction hs)
  case (Cons h hs)
  show ?case
  proof (cases "hk_command h")
    case (ShellCommand c)
    with Cons show ?thesis by simp
  next
    case (GhciHook c)
    have "rel R (case x of (hook_log, y) \<Rightarrow> if failed hook_log then aret () else ghci_hook_loop env hs)"
      for x :: "compilation_log \<times> unit"
      using Cons by (auto split: prod.split intro!: dialogue_rules)
    with GhciHook show ?thesis
      by (auto intro!: dialogue_rules rel_run_hook_command rel_aput R_ghci)
  qed
qed (subst ghci_hook_loop.simps, rule rel_aret)

lemma rel_run_ghci_hooks: "rel R (run_ghci_hooks env e)"
  unfolding run_ghci_hooks_def by (intro dialogue_rules rel_ghci_hook_loop)

lemma rel_lifecycle_events: "\<forall>e \<in> set es. free e \<Longrightarrow> rel R (run_shell_lifecycle_events env es)"
  by (induction es) (auto intro!: dialogue_rules rel_shell_hooks)

lemma rel_completion_hooks:
  "\<forall>e \<in> set es. free e \<Longrightarrow> rel R (completion_hooks env es b r)"
proof (induction es arbitrary: b r)
  case (Cons e es)
  then have "rel R (attempt (if b then run_hooks env e else shell_hooks env e))"
    by (auto intro!: rel_attempt rel_run_hooks rel_shell_hooks)
  with Cons show ?case by (auto intro!: rel_abind split: sum.split)
qed (subst completion_hooks.simps, rule rel_aret)

end

text \<open>Relations that leave out validating and publishing a compilation.\<close>

locale publishing = session_relation +
  assumes R_published: "R g (record_action (Did (Publish l)) (g\<lparr>gh_error_log := el, gh_files := fs\<rparr>)) Returned"
    and R_publication: "R g (g\<lparr>gh_publication := p\<rparr>) Returned"
    and R_validated: "R g (record_action (Did (ValidateSnapshot s)) g) Returned"
    and R_not_published: "expired g \<Longrightarrow> R g g Dropped"
begin

lemma rel_validate: "rel R (ask answer (ValidateSnapshot s))"
  by (rule rel_ask_one) (simp_all add: R_validated R_not_published)

lemma rel_snapshot: "rel R (compilation_snapshot_is_current env)"
  unfolding compilation_snapshot_is_current_def
  by (intro structure_rules rel_aput R_publication) (auto split: option.split intro!: structure_rules rel_validate)

lemma rel_write_error_log: "rel R (write_error_log env)"
proof (rule relI)
  fix g log g' log' r assume run: "write_error_log env (g, log) = ((g', log'), r)"
  obtain el fs x where w: "error_log_write (se_write_env env (gh_hist g)) log (gh_error_log g) (gh_files g) = (el, fs, x)"
    by (cases "error_log_write (se_write_env env (gh_hist g)) log (gh_error_log g) (gh_files g)") auto
  then show "R g g' (status_of r)"
    using run by (cases x) (auto simp: write_error_log_def R_published R_not_published R_raised split: if_splits)
qed

lemma rel_before_hooks:
  "rel R (case snapshot_result of
      Inr True \<Rightarrow> attempt (write_error_log env) | Inr False \<Rightarrow> aret (Inr ()) | Inl e \<Rightarrow> aret (Inl e))"
  by (auto split: sum.split bool.split intro!: structure_rules rel_write_error_log)

end

text \<open>Relations that leave out whether a test is owed.\<close>

locale owing = session_relation +
  assumes R_pending: "R g (g\<lparr>gh_pending_test := b\<rparr>) Returned"
    and R_memory: "R g (record_action (Did (MemoryRecord s)) g) Returned"
    and R_not_recorded: "expired g \<Longrightarrow> R g g Dropped"
begin

lemma rel_memory_record: "rel R (write_memory_record env s)"
  unfolding write_memory_record_def
  by (intro structure_rules rel_ask_one) (simp_all add: R_memory R_not_recorded)

lemma rel_owe:
  "rel R (aput (\<lambda>g. if c then g\<lparr>gh_pending_test := False\<rparr>
     else if d then g\<lparr>gh_pending_test := True\<rparr> else g))"
  by (rule rel_aput) (simp add: R_pending R_refl)

lemma rel_unsuccessful_end:
  "rel R (abind (log_get (\<lambda>l. (failed l, cl_hook_failed l))) (\<lambda>(bad, hook_failed).
     athen (write_memory_record env (outcome bad hook_failed)) (
     athen (alift error_log_result) (
     athen (alift hook_result) (
     abind (aget gh_opts) (\<lambda>opts.
     athen (if op_debug_mem opts \<and> \<not> (False \<and> \<not> bad)
            then afail (IoError ''Memory diagnostic aborted: compilation failed'') else aret ()) (
     abind (log_get log_result) (\<lambda>final.
     athen (aput (\<lambda>g. if c final then g\<lparr>gh_pending_test := False\<rparr>
       else if d then g\<lparr>gh_pending_test := True\<rparr> else g)) (
     if False then post_actions env post else aret ())))))))))"
proof -
  have "rel R (case x of (bad, hook_failed) \<Rightarrow>
     athen (write_memory_record env (outcome bad hook_failed)) (
     athen (alift error_log_result) (
     athen (alift hook_result) (
     abind (aget gh_opts) (\<lambda>opts.
     athen (if op_debug_mem opts \<and> \<not> (False \<and> \<not> bad)
            then afail (IoError ''Memory diagnostic aborted: compilation failed'') else aret ()) (
     abind (log_get log_result) (\<lambda>final.
     athen (aput (\<lambda>g. if c final then g\<lparr>gh_pending_test := False\<rparr>
       else if d then g\<lparr>gh_pending_test := True\<rparr> else g)) (
     if False then post_actions env post else aret ()))))))))" for x
    by (cases x) (simp only: prod.case if_False, intro structure_rules rel_if rel_memory_record rel_owe)
  then show ?thesis by (intro rel_abind rel_log_get)
qed

text \<open>The part of \<open>finish_compilation\<close> after publication, when there was no success.\<close>

lemma rel_if_unsuccessful:
  assumes "\<And>r. rel R (completion_hooks env evs False r)"
  shows "rel R (athen (log_put h) (
     abind (completion_hooks env evs False (Inr ())) (\<lambda>hook_result.
     abind (log_get (\<lambda>l. (failed l, cl_hook_failed l))) (\<lambda>(bad, hook_failed).
     athen (write_memory_record env (outcome hook_result bad hook_failed)) (
     athen (alift error_log_result) (
     athen (alift hook_result) (
     abind (aget gh_opts) (\<lambda>opts.
     athen (if op_debug_mem opts \<and> \<not> (False \<and> \<not> bad)
            then afail (IoError ''Memory diagnostic aborted: compilation failed'') else aret ()) (
     abind (log_get log_result) (\<lambda>final.
     athen (aput (\<lambda>g. if c final then g\<lparr>gh_pending_test := False\<rparr>
       else if d then g\<lparr>gh_pending_test := True\<rparr> else g)) (
     if False then post_actions env post else aret ())))))))))))"
  by (intro rel_athen rel_log_put rel_abind [OF assms] rel_unsuccessful_end)

end

text \<open>Relations that also leave out what finishing a compilation changes.\<close>

locale finishing = target_free R + hook_free R free + publishing R + owing R for R free
begin

lemma rel_post_actions: "free TestEvent \<Longrightarrow> rel R (post_actions env b)"
  unfolding post_actions_def run_test_def
  by (rule rel_abind, rule rel_aget)
     (auto intro!: dialogue_rules rel_run_eval rel_run_hooks rel_aput R_pending)

lemma rel_after_hooks:
  assumes "free TestEvent"
  shows "rel R (abind (log_get (\<lambda>l. (failed l, cl_hook_failed l))) (\<lambda>(bad, hook_failed).
     athen (write_memory_record env (outcome bad hook_failed)) (
     athen (alift error_log_result) (
     athen (alift hook_result) (
     abind (aget gh_opts) (\<lambda>opts.
     athen (if op_debug_mem opts \<and> \<not> (ok \<and> \<not> bad)
            then afail (IoError ''Memory diagnostic aborted: compilation failed'') else aret ()) (
     abind (log_get log_result) (\<lambda>final.
     athen (aput (\<lambda>g.
       if \<not> done1 \<or> \<not> available \<or> final = Some CompErr
       then g\<lparr>gh_pending_test := False\<rparr>
       else if \<not> current \<and> post then g\<lparr>gh_pending_test := True\<rparr> else g)) (
     if ok then post_actions env post else aret ())))))))))"
proof -
  note rel_owe
  moreover have "rel R (if b then afail e else aret ())" for b e by (simp add: rel_afail rel_aret)
  moreover have "rel R (if ok then post_actions env post else aret ())"
    using rel_post_actions [OF assms] by (simp add: rel_aret)
  ultimately have "rel R (case x of (bad, hook_failed) \<Rightarrow>
     athen (write_memory_record env (outcome bad hook_failed)) (
     athen (alift error_log_result) (
     athen (alift hook_result) (
     abind (aget gh_opts) (\<lambda>opts.
     athen (if op_debug_mem opts \<and> \<not> (ok \<and> \<not> bad)
            then afail (IoError ''Memory diagnostic aborted: compilation failed'') else aret ()) (
     abind (log_get log_result) (\<lambda>final.
     athen (aput (\<lambda>g.
       if \<not> done1 \<or> \<not> available \<or> final = Some CompErr
       then g\<lparr>gh_pending_test := False\<rparr>
       else if \<not> current \<and> post then g\<lparr>gh_pending_test := True\<rparr> else g)) (
     if ok then post_actions env post else aret ()))))))))" for x
    by (cases x) (simp only: prod.case, intro dialogue_rules rel_write_memory_record)
  then show ?thesis by (intro rel_abind rel_log_get)
qed

lemma rel_finish:
  assumes "free TestEvent" and "\<forall>e \<in> set events. free e"
  shows "rel R (finish_compilation env events a b c)"
  unfolding finish_compilation_def Let_def
  by (intro rel_athen rel_abind rel_log_put rel_attempt rel_snapshot rel_before_hooks rel_log_get
      rel_completion_hooks assms rel_after_hooks)

end

text \<open>Relations that leave out what compiling changes: everything before a compilation is finished.\<close>

locale compilations = target_free_crashing R + hook_free R free for R free +
  assumes R_known: "R g (g\<lparr>gh_known := ps\<rparr>) Returned"
    and R_init: "R g (g\<lparr>gh_init_failure := l\<rparr>) Returned"
begin

lemma rel_synchronize: "rel R (synchronize_haskell_files env files)"
proof -
  have "rel R (if r then athen (reload_targets env) (aret []) else add_modules env ps)" for r ps
    by (auto intro!: dialogue_rules rel_reload_targets rel_add_modules)
  then show ?thesis
    unfolding synchronize_haskell_files_def Let_def
    by (intro dialogue_rules rel_aput R_known)
       (auto intro!: dialogue_rules rel_remove_modules rel_run_add_replacement)
qed

lemma rel_startup_failure: "rel R (startup_failure env e)"
  unfolding startup_failure_def Let_def
  by (auto intro!: dialogue_rules rel_drain_stderr)

lemma rel_initialize_inner: "rel R (initialize_inner env)"
  unfolding initialize_inner_def stdout_initialize_def stdin_initialize_def
  by (intro dialogue_rules rel_write_set_prompt rel_read_prompt rel_write_line rel_refresh_targets rel_refresh_eval)

lemma rel_before_finish:
  "rel R (case files of None \<Rightarrow> aret () | Some fs \<Rightarrow> synchronize_haskell_files env fs)"
  "rel R (case result of Inr u \<Rightarrow> aret ()
     | Inl err \<Rightarrow> abind (startup_failure env err) (\<lambda>m. log_put (mark_failed_with_diagnostic m)))"
  "rel R (abind (log_get id) (\<lambda>l. aput (\<lambda>g. g\<lparr>gh_init_failure := f l\<rparr>)))"
  by (auto split: option.split sum.split
      intro!: dialogue_rules rel_synchronize rel_startup_failure rel_aput R_init)

lemma rel_reload_targets_and_sync: "rel R (reload_targets_and_sync env a files)"
proof -
  have "rel R (if b then m else aret x)" if "rel R m" for b and m :: "'x act" and x
    using that by (simp add: rel_aret)
  then show ?thesis
    unfolding reload_targets_and_sync_def
    by (intro dialogue_rules rel_aput R_known rel_remove_modules rel_add_modules)
       (auto intro!: dialogue_rules rel_remove_modules rel_add_modules rel_reload_targets rel_refresh_eval_paths)
qed

lemma rel_reload_body: "rel R (reload_body env a files)"
  unfolding reload_body_def Let_def
  by (intro dialogue_rules rel_run_ghci_hooks rel_reload_targets_and_sync)
     (auto intro!: dialogue_rules rel_run_add_replacement)

end

text \<open>Relations that leave out everything the operations of a session change.\<close>

locale lifecycle = finishing R free + compilations R free for R free +
  assumes R_fresh: "R g (fresh_session cwd p c g) Returned"
begin

lemma rel_initialize:
  assumes "free TestEvent" and "\<forall>e \<in> set events. free e"
  shows "rel R (initialize env events files)"
  unfolding initialize_def
  by (intro rel_abind rel_athen rel_attempt rel_initialize_inner rel_before_finish rel_log_put
      rel_finish assms rel_alift)

lemma rel_setup_commands: "rel R (setup_commands env cs)"
proof (induction cs)
  case (Cons c cs)
  have "rel R (case r of Inr None \<Rightarrow> setup_commands env cs | Inr (Some m) \<Rightarrow> aret (Some m)
      | Inl (IoError e) \<Rightarrow> aret (Some (''setup-shell command `'' @ c @ ''` failed: '' @ e @ [newline])))" for r
    using Cons by (auto split: sum.split option.split io_error.split intro!: dialogue_rules)
  then show ?case unfolding setup_commands.simps by (intro rel_abind rel_attempt rel_ask)
next
  case Nil
  show ?case unfolding setup_commands.simps by (rule rel_aret)
qed

lemma rel_start_process:
  "rel R (athen (ask (se_unit env) StartProcess) (
     abind (aget gh_opts) (\<lambda>opts.
     abind (alift (error_path env opts)) (\<lambda>p.
     abind (alift (file_classifier_new (se_current_dir env) (op_restart_globs opts) (op_reload_globs opts))) (\<lambda>c.
     abind (alift (se_current_dir env)) (\<lambda>cwd.
       aput (fresh_session cwd p c)))))))"
  by (intro rel_abind rel_athen rel_ask rel_aget rel_alift rel_aput R_fresh)

lemma rel_run_new_session:
  assumes "free TestEvent" and "\<forall>e \<in> set events. free e"
  shows "rel R (run_new_session env events files publication started)"
proof (cases started)
  case (Inl e)
  then show ?thesis
    by (cases e) (simp only: run_new_session_def sum.case io_error.case,
        intro rel_athen rel_log_put rel_finish assms rel_afail)
next
  case (Inr u)
  then show ?thesis
    by (simp only: run_new_session_def sum.case)
       (intro rel_athen rel_aput R_publication rel_initialize assms)
qed

lemma rel_restart_inner:
  assumes "rel R (session_new env)" and "free TestEvent" and "\<forall>e \<in> set events. free e"
  shows "rel R (restart_inner env events files stop)"
proof -
  have "rel R (case stopped of Inl e \<Rightarrow> athen (run_shell_lifecycle_events env events) (afail e)
    | Inr _ \<Rightarrow> abind (aget gh_publication) (\<lambda>publication.
        abind (attempt (session_new env)) (run_new_session env events files publication)))" for stopped
    by (cases stopped; simp only: sum.case)
       (intro rel_athen rel_abind rel_lifecycle_events rel_afail rel_aget rel_attempt rel_run_new_session assms)+
  moreover have "rel R (attempt (if stop then ask (se_unit env) StopProcess else aret ()))"
    by (auto intro!: dialogue_rules)
  ultimately show ?thesis unfolding restart_inner_def by (intro rel_abind)
qed

lemma rel_publish_setup_failure: "rel R (publish_setup_failure env message el)"
proof (rule relI)
  fix g log g' log' r
  assume run: "publish_setup_failure env message el (g, log) = ((g', log'), r)"
  let ?l = "mark_failed_with_diagnostic message compilation_log_default"
  obtain el' fs x where w: "error_log_write (se_write_env env (gh_hist g)) ?l el (gh_files g) = (el', fs, x)"
    by (cases "error_log_write (se_write_env env (gh_hist g)) ?l el (gh_files g)") auto
  have "R g (record_action (Did (Publish ?l)) (g\<lparr>gh_files := fs\<rparr>)) Returned"
    using R_published [where g = g and l = ?l and el = "gh_error_log g" and fs = fs]
    by (cases g) (simp add: record_action_def)
  with run w show "R g g' (status_of r)"
    by (cases x) (auto simp: publish_setup_failure_def Let_def R_dropped R_raised split: if_splits)
qed

lemma rel_setup_loop:
  assumes "free (ReloadEvent After)"
  shows "rel R (setup_loop env n el)"
proof (induction n arbitrary: el)
  case (Suc n)
  have fail_or: "rel R (if b then afail e else athen (ask (se_unit env) AwaitChange) (setup_loop env n el'))" for b e el'
    using Suc by (auto intro!: dialogue_rules)
  have "rel R (case failure of None \<Rightarrow> aret () | Some message \<Rightarrow>
      abind (publish_setup_failure env message el) (\<lambda>el'. athen (shell_hooks env (ReloadEvent After)) (
        if op_debug_mem opts then afail (IoError (''Memory diagnostic setup failed: '' @ message))
        else athen (ask (se_unit env) AwaitChange) (setup_loop env n el'))))" for failure opts
    by (cases failure; simp only: option.case)
       (intro rel_aret rel_abind rel_athen rel_publish_setup_failure rel_shell_hooks assms fail_or)+
  then show ?case unfolding setup_loop.simps by (intro rel_abind rel_aget rel_setup_commands)
next
  case 0
  show ?case unfolding setup_loop.simps by (rule rel_afail)
qed

lemma rel_setup_run: "free (ReloadEvent After) \<Longrightarrow> rel R (setup_run env)"
  unfolding setup_run_def
  by (rule rel_abind, rule rel_aget) (auto intro!: dialogue_rules rel_setup_loop)

lemma rel_session_new:
  "rel R (setup_run env) \<Longrightarrow> free (StartupEvent Before) \<Longrightarrow> rel R (session_new env)"
  unfolding session_new_def by (intro rel_athen rel_shell_hooks rel_start_process)

lemma rel_conclude: "free TestEvent \<Longrightarrow> free (ReloadEvent After) \<Longrightarrow> rel R (conclude env r)"
  unfolding conclude_def Let_def
  by (intro rel_abind rel_aget rel_attempt rel_finish rel_athen rel_alift) auto

lemma rel_restart:
  assumes "\<And>e. free e"
  shows "rel R (restart env files b changed)"
proof -
  have new: "rel R (session_new env)"
    by (intro rel_session_new rel_setup_run assms)
  have inner: "rel R (restart_inner env es fs stop)" for es fs stop
    using rel_restart_inner [OF new] assms by blast
  have "rel R (case r of Inl e \<Rightarrow> athen (run_shell_lifecycle_events env [RestartEvent After, ReloadEvent After]) (afail e)
      | Inr _ \<Rightarrow> restart_inner env [StartupEvent After, RestartEvent After, ReloadEvent After] (Some files) True)" for r
    by (cases r; simp only: sum.case) (intro rel_athen rel_lifecycle_events rel_afail inner ballI assms)+
  then have "rel R (case r of Inl e \<Rightarrow> athen (run_shell_lifecycle_events env [ReloadEvent After]) (afail e)
      | Inr _ \<Rightarrow> abind (attempt (run_hooks env (RestartEvent Before))) (\<lambda>r. case r of
          Inl e \<Rightarrow> athen (run_shell_lifecycle_events env [RestartEvent After, ReloadEvent After]) (afail e)
        | Inr _ \<Rightarrow> restart_inner env [StartupEvent After, RestartEvent After, ReloadEvent After] (Some files) True))" for r
    by (cases r; simp only: sum.case)
       (intro rel_athen rel_abind rel_attempt rel_run_hooks rel_lifecycle_events rel_afail ballI assms; fact?)+
  moreover have "rel R (attempt (if b then run_ghci_hooks env (ReloadEvent Before) else run_hooks env (ReloadEvent Before)))"
    using assms by (auto intro!: rel_attempt rel_run_ghci_hooks rel_run_hooks)
  ultimately show ?thesis unfolding restart_def by (intro rel_athen rel_abind rel_log_put)
qed

lemma rel_reload:
  assumes "\<And>e. free e"
  shows "rel R (reload env events files snapshot)"
  unfolding reload_def Let_def
  by (intro dialogue_rules rel_if rel_aput R_publication R_known rel_restart rel_finish rel_reload_body
      rel_conclude assms ballI)

lemma rel_restart_after:
  assumes "\<And>e. free e"
  shows "rel R (restart_after_recovery_kill env files)"
  unfolding restart_after_recovery_kill_def
  by (intro rel_athen rel_log_put rel_restart_inner rel_session_new rel_setup_run assms ballI)

lemma rel_startup_restart:
  assumes "\<And>e. free e"
  shows "rel R (startup_restart env haskell_files)"
  unfolding startup_restart_def
  by (intro rel_athen rel_abind rel_aget rel_alift rel_shell_hooks rel_restart_inner rel_session_new
      rel_setup_run assms ballI)

lemma rel_send_sigint: "rel R (send_sigint env)"
  unfolding send_sigint_def by (intro dialogue_rules rel_send_sigint_capturing)

lemma rel_finish_interrupted:
  "(\<And>e. free e) \<Longrightarrow> rel R (finish_interrupted_reload env available)"
  unfolding finish_interrupted_reload_def
  by (intro dialogue_rules rel_if rel_aput R_publication rel_run_hooks rel_shell_hooks)

lemma rel_reload_from_eval: "(\<And>e. free e) \<Longrightarrow> rel R (reload_from_eval env)"
  unfolding reload_from_eval_def
  by (intro dialogue_rules rel_if rel_run_hooks rel_reload_targets rel_refresh_eval rel_conclude)

lemma rel_debug_memory:
  assumes "\<And>e. free e"
  shows "rel R (debug_memory_reload env)"
proof -
  have "rel R (reload_from_eval env)" by (rule rel_reload_from_eval) (rule assms)
  then have "rel R (case x of (l, u) \<Rightarrow> if failed l
      then afail (IoError ''Cannot enable full recompilation for memory diagnostic'')
      else reload_from_eval env)" for x :: "compilation_log \<times> unit"
    by (cases x) (simp add: rel_afail)
  then show ?thesis
    unfolding debug_memory_reload_def
    by (intro rel_abind rel_with_log rel_run_hook_command)
qed

end

end
