(* ===== verification/SessionFrames.thy ===== *)
theory SessionFrames
  imports SessionRel
begin

text \<open>
  The relations the properties of a session rest on, each an interpretation of the interfaces of
  \<open>SessionRel\<close>: actions end properly (\<open>ends\<close>, \<open>ends_or_panics\<close>), they keep the hook runs of some
  events (\<open>same_runs\<close>), the accepted source files (\<open>same_known\<close>), the targets (\<open>same_targets\<close>).
\<close>

section \<open>Ending\<close>

text \<open>The deadline is as before; without one nothing is cancelled.\<close>

definition ends_or_panics :: "ghci \<Rightarrow> ghci \<Rightarrow> status \<Rightarrow> bool" where
  "ends_or_panics g g' s \<longleftrightarrow> gh_deadline g' = gh_deadline g \<and> (s = Dropped \<longrightarrow> gh_deadline g \<noteq> None)"

definition ends :: "ghci \<Rightarrow> ghci \<Rightarrow> status \<Rightarrow> bool" where
  "ends g g' s \<longleftrightarrow> ends_or_panics g g' s \<and> s \<noteq> Crashed"

interpretation ep: session_relation ends_or_panics
  by unfold_locales (auto simp: ends_or_panics_def)

interpretation ep: target_free_crashing ends_or_panics
  by unfold_locales (auto simp: ends_or_panics_def record_action_def expired_def split: option.splits)

interpretation ep: hook_free ends_or_panics "\<lambda>_. True"
  by unfold_locales (auto simp: ends_or_panics_def record_action_def)

interpretation en: session_relation ends
  by unfold_locales (auto simp: ends_def ends_or_panics_def)

interpretation en: target_free ends
  by unfold_locales (auto simp: ends_def ends_or_panics_def record_action_def expired_def split: option.splits)

interpretation en: hook_free ends "\<lambda>_. True"
  by unfold_locales (auto simp: ends_def ends_or_panics_def record_action_def)

interpretation ep: finishing ends_or_panics "\<lambda>_. True"
  by unfold_locales (auto simp: ends_or_panics_def record_action_def expired_def split: option.splits)

interpretation en: finishing ends "\<lambda>_. True"
  by unfold_locales (auto simp: ends_def ends_or_panics_def record_action_def expired_def split: option.splits)

interpretation ep: lifecycle ends_or_panics "\<lambda>_. True"
  by unfold_locales (auto simp: ends_or_panics_def fresh_session_def)

section \<open>Hook runs\<close>

text \<open>The shell commands run for the events \<open>es\<close>, in order.\<close>

definition runs_of :: "lifecycle_event list \<Rightarrow> history \<Rightarrow> history" where
  "runs_of es hist = filter (\<lambda>a. case a of RunShell e c \<Rightarrow> e \<in> set es | _ \<Rightarrow> False) hist"

lemma runs_of_append [simp]: "runs_of es (xs @ ys) = runs_of es xs @ runs_of es ys"
  by (simp add: runs_of_def)

lemma runs_of_Nil [simp]: "runs_of es [] = []"
  by (simp add: runs_of_def)

text \<open>
  An ordinary configuration: hooks are advisory (no memory diagnostic), each event's shell commands
  come before its GHCi commands (which \<open>update_shell_first\<close> ensures), and nothing is set up.
\<close>

definition ordinary :: "ghci_opts \<Rightarrow> bool" where
  "ordinary opts \<longleftrightarrow> \<not> ho_strict (op_hooks opts) \<and> \<not> op_debug_mem opts
     \<and> shell_first (ho_hooks (op_hooks opts)) \<and> op_setup_shell opts = []"

definition same_runs :: "lifecycle_event list \<Rightarrow> ghci \<Rightarrow> ghci \<Rightarrow> status \<Rightarrow> bool" where
  "same_runs es g g' s \<longleftrightarrow> (ordinary (gh_opts g) \<longrightarrow>
     gh_opts g' = gh_opts g \<and> runs_of es (gh_hist g') = runs_of es (gh_hist g))"

interpretation sr: session_relation "same_runs es" for es
  by unfold_locales (auto simp: same_runs_def)

interpretation sr: target_free_crashing "same_runs es" for es
  by unfold_locales (auto simp: same_runs_def record_action_def runs_of_def)

interpretation sr: hook_free "same_runs es" "\<lambda>e. e \<notin> set es" for es
  by unfold_locales (auto simp: same_runs_def record_action_def runs_of_def)

interpretation sr: finishing "same_runs es" "\<lambda>e. e \<notin> set es" for es
  by unfold_locales (auto simp: same_runs_def record_action_def runs_of_def)

interpretation sr: lifecycle "same_runs es" "\<lambda>e. e \<notin> set es" for es
  by unfold_locales (auto simp: same_runs_def fresh_session_def)

section \<open>Known files and targets\<close>

definition same_known :: "ghci \<Rightarrow> ghci \<Rightarrow> status \<Rightarrow> bool" where
  "same_known g g' s \<longleftrightarrow> gh_known g' = gh_known g \<and> gh_opts g' = gh_opts g"

definition same_targets :: "ghci \<Rightarrow> ghci \<Rightarrow> status \<Rightarrow> bool" where
  "same_targets g g' s \<longleftrightarrow> gh_targets g' = gh_targets g \<and> gh_opts g' = gh_opts g
     \<and> gh_known g' = gh_known g"

interpretation kn: session_relation same_known
  by unfold_locales (auto simp: same_known_def)

interpretation kn: target_free_crashing same_known
  by unfold_locales (auto simp: same_known_def record_action_def)

interpretation kn: hook_free same_known "\<lambda>_. True"
  by unfold_locales (auto simp: same_known_def record_action_def)

interpretation kn: finishing same_known "\<lambda>_. True"
  by unfold_locales (auto simp: same_known_def record_action_def)

interpretation tg: session_relation same_targets
  by unfold_locales (auto simp: same_targets_def)

interpretation tg: crashing same_targets
  by unfold_locales (auto simp: same_targets_def record_action_def)

interpretation tg: eval_free same_targets
  by unfold_locales (auto simp: same_targets_def)

interpretation tg: hook_free same_targets "\<lambda>_. True"
  by unfold_locales (auto simp: same_targets_def record_action_def)

section \<open>What was asked for\<close>

text \<open>The history only grows.\<close>

definition grows :: "ghci \<Rightarrow> ghci \<Rightarrow> status \<Rightarrow> bool" where
  "grows g g' s \<longleftrightarrow> prefix (gh_hist g) (gh_hist g')"

interpretation hi: session_relation grows
  by unfold_locales (auto simp: grows_def intro: prefix_order.trans)

interpretation hi: target_free_crashing grows
  by unfold_locales (auto simp: grows_def record_action_def)

section \<open>A small session for the witnesses\<close>

definition demo_cmd :: maybe_async_command where
  "demo_cmd = \<lparr>mac_is_async = False, mac_command = ''notify''\<rparr>"

definition demo_opts :: ghci_opts where
  "demo_opts = \<lparr>op_hooks = \<lparr>ho_hooks = [\<lparr>hk_event = ReloadEvent After, hk_command = ShellCommand demo_cmd\<rparr>,
       \<lparr>hk_event = TestEvent, hk_command = GhciHook ''main''\<rparr>], ho_strict = False\<rparr>,
     op_enable_eval = False, op_extra_search_paths = [], op_interrupt_on_error = True, op_auto_reload = True,
     op_restart_on_add = False, op_replace_auto_add_shell = None, op_debug_mem = False, op_setup_shell = [],
     op_error_path = None, op_restart_globs = empty_matcher, op_reload_globs = empty_matcher\<rparr>"

definition demo_session :: ghci where
  "demo_session = \<lparr>gh_opts = demo_opts, gh_classifier = demo_classifier, gh_targets = [], gh_known = [],
     gh_publication = None, gh_pending_test = False, gh_init_failure = None, gh_eval_commands = [],
     gh_search_paths = \<lparr>sp_cwd = [RootDir], sp_search_paths = [[RootDir]]\<rparr>, gh_error_log = error_log_new None,
     gh_files = Map.empty, gh_sync_nonce = 0, gh_stderr_nonce = 0, gh_phase = [], gh_recovery = False,
     gh_eval_phase = ClearStderrPhase, gh_eval_nonce = 0, gh_hist = [], gh_deadline = None\<rparr>"

definition demo_senv :: session_env where
  "demo_senv = \<lparr>se_classify = demo_env, se_exists = (\<lambda>_ _. True), se_shell = (\<lambda>_ _. Inr True),
     se_unit = (\<lambda>_ _. Inr ()), se_text = (\<lambda>_ _. Inr []),
     se_progress = (\<lambda>_ _. Inr (PromptReached [])), se_count = (\<lambda>_ _. Inr 1), se_valid = (\<lambda>_ _. Inr True),
     se_deadline = (\<lambda>_ _. None), se_backoff = (\<lambda>_. 3), se_setup = (\<lambda>_ _. Inr None), se_shutdown_after = (\<lambda>_. 1),
     se_current_dir = Inr [RootDir],
     se_write_env = (\<lambda>_. \<lparr>wenv_process_id = 1, wenv_create_error = None, wenv_write_error = (\<lambda>_. None),
       wenv_shutdown_error = None, wenv_rename_error = None, wenv_flushed = id\<rparr>),
     se_parse_messages = (\<lambda>_. Inr []),
     se_parse_show_paths = (\<lambda>_. Inr \<lparr>sp_cwd = [RootDir], sp_search_paths = [[RootDir]]\<rparr>),
     se_parse_target_lines = (\<lambda>_. Inr [''A'']), se_parse_eval = (\<lambda>_. Inr []), se_parse_sample = (\<lambda>_. None),
     se_broken_pipe = (\<lambda>_. False), se_process_id = 7\<rparr>"

lemma ordinary_demo: "ordinary demo_opts"
  unfolding ordinary_def shell_first_def
  by (simp add: demo_opts_def demo_cmd_def)
     (intro exI [of _ "[\<lparr>hk_event = ReloadEvent After, hk_command = ShellCommand demo_cmd\<rparr>]"]
        exI [of _ "[\<lparr>hk_event = TestEvent, hk_command = GhciHook ''main''\<rparr>]"], simp add: demo_cmd_def)

lemmas demo_session_simps = demo_session_def demo_opts_def demo_cmd_def

definition demo_new_file :: path where
  "demo_new_file = [RootDir, Normal ''A.hs'']"

end
