(* ===== verification/HookRuns.thy ===== *)
theory HookRuns
  imports SessionFrames
begin

text \<open>
  How often hooks run: a reload attempt runs the shell commands of its completion events exactly
  once, and completion hooks only reach GHCi after a compilation that succeeded on current sources.
\<close>

section \<open>Counting hook runs\<close>

definition gives_up :: "'a outcome \<Rightarrow> bool" where
  "gives_up r \<longleftrightarrow> (case r of Done _ \<Rightarrow> False | Failed _ \<Rightarrow> False | Cancelled \<Rightarrow> True | Panicked \<Rightarrow> True)"

lemma gives_up_simps [simp]:
  "\<not> gives_up (Done x)" "\<not> gives_up (Failed e)" "gives_up Cancelled" "gives_up Panicked"
  by (simp_all add: gives_up_def)

text \<open>\<open>adds es d m\<close>: unless it is dropped or panics, \<open>m\<close> runs exactly \<open>d\<close> among the hooks of \<open>es\<close>.\<close>

definition adds :: "lifecycle_event list \<Rightarrow> (ghci_opts \<Rightarrow> history) \<Rightarrow> 'a act \<Rightarrow> bool" where
  "adds es d m \<longleftrightarrow> (\<forall>g log g' log' r. ordinary (gh_opts g) \<longrightarrow> m (g, log) = ((g', log'), r) \<longrightarrow> \<not> gives_up r \<longrightarrow>
     gh_opts g' = gh_opts g \<and> runs_of es (gh_hist g') = runs_of es (gh_hist g) @ d (gh_opts g))"

definition never_fails :: "'a act \<Rightarrow> bool" where
  "never_fails m \<longleftrightarrow> (\<forall>w e. snd (m w) \<noteq> Failed e)"

lemma addsI:
  "(\<And>g log g' log' r. ordinary (gh_opts g) \<Longrightarrow> m (g, log) = ((g', log'), r) \<Longrightarrow> \<not> gives_up r \<Longrightarrow>
     gh_opts g' = gh_opts g \<and> runs_of es (gh_hist g') = runs_of es (gh_hist g) @ d (gh_opts g)) \<Longrightarrow> adds es d m"
  by (simp add: adds_def)

lemma addsD:
  "adds es d m \<Longrightarrow> m (g, log) = ((g', log'), r) \<Longrightarrow> ordinary (gh_opts g) \<Longrightarrow> \<not> gives_up r \<Longrightarrow>
   gh_opts g' = gh_opts g \<and> runs_of es (gh_hist g') = runs_of es (gh_hist g) @ d (gh_opts g)"
  by (simp add: adds_def)

lemma adds_nothing: "rel (same_runs es) m \<Longrightarrow> adds es (\<lambda>_. []) m"
  by (rule addsI) (auto dest: relD simp: same_runs_def)

text \<open>Composition: after what is counted only the rest may still fail.\<close>

lemma adds_abind:
  assumes m: "adds es d m" "never_fails m" and f: "\<And>x. adds es e (f x)"
  shows "adds es (\<lambda>opts. d opts @ e opts) (abind m f)"
proof (rule addsI)
  fix g log g' log' r
  assume ord: "ordinary (gh_opts g)" and run: "abind m f (g, log) = ((g', log'), r)" and fin: "\<not> gives_up r"
  from run show "gh_opts g' = gh_opts g \<and> runs_of es (gh_hist g') = runs_of es (gh_hist g) @ d (gh_opts g) @ e (gh_opts g)"
  proof (cases rule: abind_cases)
    case (returned w x)
    obtain h l where w: "w = (h, l)" by (cases w)
    from addsD [OF m(1) returned(1) [unfolded w] ord] have
      h: "gh_opts h = gh_opts g" "runs_of es (gh_hist h) = runs_of es (gh_hist g) @ d (gh_opts g)" by auto
    with addsD [OF f returned(2) [unfolded w] _ fin] ord show ?thesis by simp
  next
    case (raised err)
    with m(2) show ?thesis by (simp add: never_fails_def) (metis snd_conv)
  qed (use fin in auto)
qed

lemma adds_athen:
  "adds es d m \<Longrightarrow> never_fails m \<Longrightarrow> adds es e n \<Longrightarrow> adds es (\<lambda>opts. d opts @ e opts) (athen m n)"
  unfolding athen_def by (rule adds_abind)

lemma adds_then_quiet:
  assumes m: "adds es d m" and f: "\<And>x. rel (same_runs es) (f x)"
  shows "adds es d (abind m f)"
proof (rule addsI)
  fix g log g' log' r
  assume ord: "ordinary (gh_opts g)" and run: "abind m f (g, log) = ((g', log'), r)" and fin: "\<not> gives_up r"
  from run show "gh_opts g' = gh_opts g \<and> runs_of es (gh_hist g') = runs_of es (gh_hist g) @ d (gh_opts g)"
  proof (cases rule: abind_cases)
    case (returned w x)
    obtain h l where w: "w = (h, l)" by (cases w)
    from addsD [OF m(1) returned(1) [unfolded w] ord] relD [OF f returned(2) [unfolded w]] ord
    show ?thesis by (auto simp: same_runs_def)
  next
    case (raised err)
    with addsD [OF m raised(1) ord] show ?thesis by simp
  qed (use fin in auto)
qed

lemma quiet_then_adds:
  "rel (same_runs es) m \<Longrightarrow> never_fails m \<Longrightarrow> (\<And>x. adds es d (f x)) \<Longrightarrow> adds es d (abind m f)"
  using adds_abind [OF adds_nothing, of es m d f] by simp

lemma quiet_athen_adds:
  "rel (same_runs es) m \<Longrightarrow> never_fails m \<Longrightarrow> adds es d n \<Longrightarrow> adds es d (athen m n)"
  unfolding athen_def by (rule quiet_then_adds)

lemma adds_athen_quiet:
  "adds es d m \<Longrightarrow> rel (same_runs es) n \<Longrightarrow> adds es d (athen m n)"
  unfolding athen_def by (rule adds_then_quiet)

lemma adds_attempt: "adds es d m \<Longrightarrow> adds es d (attempt m)"
proof (rule addsI)
  fix g log g' log' r
  assume a: "adds es d m" "ordinary (gh_opts g)" "attempt m (g, log) = ((g', log'), r)" "\<not> gives_up r"
  from a(3) show "gh_opts g' = gh_opts g \<and> runs_of es (gh_hist g') = runs_of es (gh_hist g) @ d (gh_opts g)"
  proof (rule attempt_cases)
    fix s assume s: "m (g, log) = ((g', log'), s)" "r = (case s of Done x \<Rightarrow> Done (Inr x)
      | Failed e \<Rightarrow> Done (Inl e) | Cancelled \<Rightarrow> Cancelled | Panicked \<Rightarrow> Panicked)"
    with a(4) have "\<not> gives_up s" by (cases s) auto
    from addsD [OF a(1) s(1) a(2) this] show ?thesis .
  qed
qed

section \<open>Actions that never fail\<close>

lemma nf_attempt: "never_fails (attempt m)"
  by (auto simp: never_fails_def attempt_def split: prod.split outcome.split)

lemma nf_aret: "never_fails (aret x)"
  by (simp add: never_fails_def)

lemma nf_aget: "never_fails (aget f)"
  by (simp add: never_fails_def aget_def)

lemma nf_aput: "never_fails (aput f)"
  by (simp add: never_fails_def aput_def split: prod.split)

lemma nf_log_get: "never_fails (log_get f)"
  by (simp add: never_fails_def log_get_def)

lemma nf_log_put: "never_fails (log_put f)"
  by (simp add: never_fails_def log_put_def split: prod.split)

lemma nf_tell: "never_fails (tell r)"
  by (simp add: tell_def nf_aput)

lemma nf_abind: "never_fails m \<Longrightarrow> (\<And>x. never_fails (f x)) \<Longrightarrow> never_fails (abind m f)"
proof (unfold never_fails_def, intro allI notI)
  fix w e
  assume nf: "\<forall>w e. snd (m w) \<noteq> Failed e" "\<And>x. \<forall>w e. snd (f x w) \<noteq> Failed e"
    and "snd (abind m f w) = Failed e"
  then have "abind m f w = (fst (abind m f w), Failed e)" by (metis prod.collapse)
  then show False
  proof (cases rule: abind_cases)
    case (returned w' x)
    with nf(2) [of x, THEN spec, of w', THEN spec, of e] show ?thesis by simp
  next
    case (raised e')
    with nf(1) [THEN spec, of w, THEN spec, of e'] show ?thesis by simp
  qed simp_all
qed

lemma nf_athen: "never_fails m \<Longrightarrow> never_fails n \<Longrightarrow> never_fails (athen m n)"
  by (simp add: athen_def nf_abind)

lemmas nf_rules = nf_attempt nf_aret nf_aget nf_aput nf_log_get nf_log_put nf_tell nf_abind nf_athen

section \<open>Shell hooks of an event\<close>

definition owed_by :: "lifecycle_event list \<Rightarrow> ghci_opts \<Rightarrow> history" where
  "owed_by es opts = concat (map (owed (op_hooks opts)) es)"

text \<open>What the events \<open>evs\<close> owe, as far as it is counted in \<open>es\<close>.\<close>

definition due :: "lifecycle_event list \<Rightarrow> lifecycle_event list \<Rightarrow> ghci_opts \<Rightarrow> history" where
  "due es evs opts = runs_of es (owed_by evs opts)"

lemma due_simps [simp]:
  "due es [] opts = []"
  "due es (e # evs) opts = runs_of es (owed (op_hooks opts) e) @ due es evs opts"
  by (simp_all add: due_def owed_by_def)

lemma select_event: "h \<in> set (select_hooks opts e) \<Longrightarrow> hk_event h = e"
  by (simp add: select_hooks_def)

lemma shell_runs_events: "a \<in> set (shell_runs hs) \<Longrightarrow> \<exists>h c. h \<in> set hs \<and> a = RunShell (hk_event h) c"
  by (induction hs) (fastforce split: hook_command.splits)+

lemma runs_of_owed: "e \<in> set es \<Longrightarrow> runs_of es (owed opts e) = owed opts e"
  unfolding runs_of_def by (rule filter_True) (auto simp: owed_def dest!: shell_runs_events select_event)

lemma runs_of_other: "e \<notin> set es \<Longrightarrow> runs_of es (owed opts e) = []"
  unfolding runs_of_def by (rule filter_False) (auto simp: owed_def dest!: shell_runs_events select_event)

lemma shell_hooks_run:
  "\<not> ho_strict (op_hooks (gh_opts g)) \<Longrightarrow>
   shell_hooks env e (g, log) = ((g\<lparr>gh_hist := gh_hist g @ owed (op_hooks (gh_opts g)) e\<rparr>, log), Done ())"
  by (simp add: shell_hooks_def run_shell_hooks_advisory)

lemma adds_shell_hooks: "adds es (\<lambda>opts. runs_of es (owed (op_hooks opts) e)) (shell_hooks env e)"
proof (rule addsI)
  fix g log g' log' r
  assume "ordinary (gh_opts g)" and run: "shell_hooks env e (g, log) = ((g', log'), r)"
  then have "g' = g\<lparr>gh_hist := gh_hist g @ owed (op_hooks (gh_opts g)) e\<rparr>"
    by (simp add: shell_hooks_run ordinary_def)
  then show "gh_opts g' = gh_opts g \<and>
      runs_of es (gh_hist g') = runs_of es (gh_hist g) @ runs_of es (owed (op_hooks (gh_opts g)) e)"
    by simp
qed

text \<open>The shell part of a hook loop runs as a whole before the first GHCi command.\<close>

lemma hook_loop_shells:
  assumes "\<forall>h \<in> set hs. command_kind_of (hk_command h) = ShellKind"
  shows "hook_loop env False False bad (hs @ rest) (g, log)
    = hook_loop env False False bad rest (g\<lparr>gh_hist := gh_hist g @ shell_runs hs\<rparr>, log)"
  using assms
proof (induction hs arbitrary: g)
  case (Cons h hs)
  then obtain c where c: "hk_command h = ShellCommand c" by (cases "hk_command h") auto
  have r: "run_one_shell env False (hk_event h) c (g, log)
      = (let r = run_hook_on (se_shell env) (gh_hist g) False c in
         alift r (record_action (RunShell (hk_event h) c) g, log))"
    by (simp add: run_one_shell_def Let_def)
  have "attempt (run_one_shell env False (hk_event h) c) (g, log)
      = ((record_action (RunShell (hk_event h) c) g, log), Done (run_hook_on (se_shell env) (gh_hist g) False c))"
    by (cases "run_hook_on (se_shell env) (gh_hist g) False c") (simp_all add: attempt_def run_one_shell_def)
  then have "hook_loop env False False bad ((h # hs) @ rest) (g, log)
      = hook_loop env False False bad (hs @ rest) (record_action (RunShell (hk_event h) c) g, log)"
    by (cases "run_hook_on (se_shell env) (gh_hist g) False c") (simp_all add: c abind_Done)
  also have "\<dots> = hook_loop env False False bad rest
      ((record_action (RunShell (hk_event h) c) g)\<lparr>gh_hist :=
        gh_hist (record_action (RunShell (hk_event h) c) g) @ shell_runs hs\<rparr>, log)"
    using Cons by simp
  finally show ?case by (simp add: c record_action_def)
qed simp

lemma shell_runs_ghci: "\<forall>h \<in> set hs. command_kind_of (hk_command h) = GhciKind \<Longrightarrow> shell_runs hs = []"
  by (induction hs) (auto split: hook_command.split)

lemma shell_runs_append: "shell_runs (xs @ ys) = shell_runs xs @ shell_runs ys"
  by (simp add: shell_runs_def)

lemma adds_run_hooks:
  assumes "e \<noteq> ReloadEvent Before"
  shows "adds es (\<lambda>opts. runs_of es (owed (op_hooks opts) e)) (run_hooks env e)"
proof (rule addsI)
  fix g log g' log' r
  assume ord: "ordinary (gh_opts g)" and run: "run_hooks env e (g, log) = ((g', log'), r)"
  let ?opts = "op_hooks (gh_opts g)"
  have "shell_first (select_hooks ?opts e)"
    using ord by (simp add: ordinary_def select_hooks_def shell_first_filter)
  then obtain as bs where hs: "select_hooks ?opts e = as @ bs"
    "\<forall>h \<in> set as. command_kind_of (hk_command h) = ShellKind"
    "\<forall>h \<in> set bs. command_kind_of (hk_command h) = GhciKind"
    by (auto simp: shell_first_def)
  have ow: "owed ?opts e = shell_runs as"
    using shell_runs_ghci [OF hs(3)] by (simp add: owed_def hs(1) shell_runs_append)
  let ?g = "g\<lparr>gh_hist := gh_hist g @ shell_runs as\<rparr>"
  have "hook_loop env False False False bs (?g, log) = ((g', log'), r)"
    using run assms ord hook_loop_shells [OF hs(2), of env False bs g log]
    by (simp add: run_hooks_def athen_Done abind_Done hs(1) ordinary_def)
  from relD [OF sr.rel_hook_loop this] hs(3) have "same_runs es ?g g' (status_of r)" by blast
  then show "gh_opts g' = gh_opts g \<and> runs_of es (gh_hist g') = runs_of es (gh_hist g) @ runs_of es (owed ?opts e)"
    using ord by (simp add: same_runs_def ow)
qed

lemma nf_completion_hooks: "never_fails (completion_hooks env evs b r)"
proof (induction evs arbitrary: b r)
  case (Cons e evs)
  then show ?case
    unfolding completion_hooks.simps by (intro nf_abind nf_attempt) (auto split: sum.split)
next
  case Nil
  show ?case unfolding completion_hooks.simps by (rule nf_aret)
qed

lemma adds_completion_hooks:
  "ReloadEvent Before \<notin> set evs \<Longrightarrow> adds es (due es evs) (completion_hooks env evs b r)"
proof (induction evs arbitrary: b r)
  case Nil
  show ?case
    unfolding completion_hooks.simps due_def owed_by_def
    by (simp only: list.map concat.simps runs_of_Nil) (rule adds_nothing, rule sr.rel_aret)
next
  case (Cons e evs)
  have "adds es (\<lambda>opts. runs_of es (owed (op_hooks opts) e)) (attempt (if b then run_hooks env e else shell_hooks env e))"
    using Cons.prems by (cases b) (auto intro!: adds_attempt adds_run_hooks adds_shell_hooks)
  moreover have "adds es (due es evs) (case r' of Inr u \<Rightarrow> completion_hooks env evs b r
      | Inl err \<Rightarrow> completion_hooks env evs False (case r of Inr u \<Rightarrow> Inl err | Inl first \<Rightarrow> Inl first))" for r'
    using Cons by (cases r') auto
  ultimately show ?case
    unfolding completion_hooks.simps due_simps [abs_def] by (rule adds_abind [OF _ nf_attempt])
qed

section \<open>A whole attempt\<close>

lemma adds_finish:
  assumes "ReloadEvent Before \<notin> set evs" and "TestEvent \<notin> set es"
  shows "adds es (due es evs) (finish_compilation env evs a b c)"
  unfolding finish_compilation_def Let_def
  using assms
  by (intro quiet_athen_adds quiet_then_adds adds_then_quiet sr.rel_log_put sr.rel_attempt sr.rel_snapshot
      sr.rel_before_hooks sr.rel_log_get sr.rel_after_hooks nf_rules)
     (auto simp: adds_completion_hooks nf_completion_hooks nf_rules split: sum.split bool.split)

lemma adds_lifecycle_events: "adds es (due es evs) (run_shell_lifecycle_events env evs)"
proof (induction evs)
  case Nil
  show ?case
    unfolding run_shell_lifecycle_events.simps due_def owed_by_def
    by (simp only: list.map concat.simps runs_of_Nil) (rule adds_nothing, rule sr.rel_aret)
next
  case (Cons e evs)
  show ?case
  proof (rule addsI)
    fix g log g' log' r
    assume ord: "ordinary (gh_opts g)" and run: "run_shell_lifecycle_events env (e # evs) (g, log) = ((g', log'), r)"
      and fin: "\<not> gives_up r"
    let ?g = "g\<lparr>gh_hist := gh_hist g @ owed (op_hooks (gh_opts g)) e\<rparr>"
    have "run_shell_lifecycle_events env evs (?g, log) = ((g', log'), r)"
      using run ord shell_hooks_run [of g env e log] by (simp add: athen_Done ordinary_def)
    from addsD [OF Cons this] ord fin
    show "gh_opts g' = gh_opts g \<and> runs_of es (gh_hist g') = runs_of es (gh_hist g) @ due es (e # evs) (gh_opts g)"
      by simp
  qed
qed

lemma adds_then_fails:
  "adds es d m \<Longrightarrow> adds es d (athen m (afail e))"
  by (rule adds_athen_quiet, assumption, rule sr.rel_afail)

text \<open>Without setup commands a new session starts without closing an attempt.\<close>

lemma quiet_setup: "rel (same_runs es) (setup_run env)"
proof (rule relI)
  fix g log g' log' r assume "setup_run env (g, log) = ((g', log'), r)"
  then show "same_runs es g g' (status_of r)"
    by (auto simp: setup_run_def abind_Done same_runs_def ordinary_def)
qed

lemma quiet_session_new: "StartupEvent Before \<notin> set es \<Longrightarrow> rel (same_runs es) (session_new env)"
  by (intro sr.rel_session_new quiet_setup)

lemma adds_initialize:
  assumes "ReloadEvent Before \<notin> set evs" and "TestEvent \<notin> set es"
  shows "adds es (due es evs) (initialize env evs files)"
proof -
  have nf: "never_fails (case result of Inr u \<Rightarrow> aret () | Inl err \<Rightarrow> abind (startup_failure env err) (\<lambda>m. log_put (mark_failed_with_diagnostic m)))"
    for result :: "unit res"
    unfolding startup_failure_def Let_def by (cases result) (auto intro!: nf_rules)
  show ?thesis
    unfolding initialize_def
    by (intro quiet_athen_adds quiet_then_adds adds_athen_quiet sr.rel_attempt sr.rel_athen sr.rel_initialize_inner
        sr.rel_before_finish sr.rel_log_put nf_rules nf adds_finish assms sr.rel_alift)
qed

lemma adds_run_new_session:
  assumes "ReloadEvent Before \<notin> set evs" and "TestEvent \<notin> set es"
  shows "adds es (due es evs) (run_new_session env evs files publication started)"
proof (cases started)
  case (Inl e)
  then show ?thesis
    by (cases e) (simp only: run_new_session_def sum.case io_error.case,
        intro quiet_athen_adds sr.rel_log_put nf_rules adds_then_fails adds_finish assms)
next
  case (Inr u)
  then show ?thesis
    by (simp only: run_new_session_def sum.case)
       (intro quiet_athen_adds sr.rel_aput sr.R_publication nf_rules adds_initialize assms)
qed

lemma adds_restart_inner:
  assumes "ReloadEvent Before \<notin> set evs" and "TestEvent \<notin> set es"
    and "StartupEvent Before \<notin> set es"
  shows "adds es (due es evs) (restart_inner env evs files stop)"
proof -
  have "adds es (due es evs) (case stopped of Inl e \<Rightarrow> athen (run_shell_lifecycle_events env evs) (afail e)
    | Inr _ \<Rightarrow> abind (aget gh_publication) (\<lambda>publication.
        abind (attempt (session_new env)) (run_new_session env evs files publication)))" for stopped
    by (cases stopped; simp only: sum.case)
       (intro adds_then_fails adds_lifecycle_events quiet_then_adds sr.rel_aget sr.rel_attempt
          quiet_session_new nf_rules adds_run_new_session assms)+
  moreover have "rel (same_runs es) (attempt (if stop then ask (se_unit env) StopProcess else aret ()))"
    by (intro sr.rel_attempt sr.rel_if sr.rel_ask sr.rel_aret)
  ultimately show ?thesis unfolding restart_inner_def by (intro quiet_then_adds nf_rules)
qed

lemma adds_conclude:
  "TestEvent \<notin> set es \<Longrightarrow> adds es (due es [ReloadEvent After]) (conclude env r)"
  unfolding conclude_def Let_def
  by (intro quiet_then_adds adds_then_quiet adds_attempt adds_finish sr.rel_aget sr.rel_athen sr.rel_alift nf_rules)
     simp_all

lemma due_reload:
  "due [ReloadEvent After] [ReloadEvent After] = (\<lambda>opts. owed (op_hooks opts) (ReloadEvent After))"
  "due [ReloadEvent After] [RestartEvent After, ReloadEvent After]
     = (\<lambda>opts. owed (op_hooks opts) (ReloadEvent After))"
  "due [ReloadEvent After] [StartupEvent After, RestartEvent After, ReloadEvent After]
     = (\<lambda>opts. owed (op_hooks opts) (ReloadEvent After))"
  by (simp_all add: fun_eq_iff runs_of_owed runs_of_other)

text \<open>Setting the snapshot to validate does not change what a reload decides.\<close>

lemma decisions_publication [simp]:
  "normalize_files env (g\<lparr>gh_publication := p\<rparr>) = normalize_files env g"
  "get_reload_actions env (g\<lparr>gh_publication := p\<rparr>) = get_reload_actions env g"
proof -
  have "reconcile env (g\<lparr>gh_publication := p\<rparr>) = reconcile env g"
    "add_policy (g\<lparr>gh_publication := p\<rparr>) = add_policy g"
    "recovery_paths env (g\<lparr>gh_publication := p\<rparr>) = recovery_paths env g"
    "missed_adds env (g\<lparr>gh_publication := p\<rparr>) = missed_adds env g"
    "missed_removes env (g\<lparr>gh_publication := p\<rparr>) = missed_removes env g"
    by (simp_all add: fun_eq_iff reconcile_def add_policy_def recovery_paths_def missed_adds_def
        missed_removes_def is_target_def)
  then show "normalize_files env (g\<lparr>gh_publication := p\<rparr>) = normalize_files env g"
    and "get_reload_actions env (g\<lparr>gh_publication := p\<rparr>) = get_reload_actions env g"
    by (intro ext, simp add: normalize_files_def get_reload_actions_def)+
qed

lemma adds_restart:
  "adds [ReloadEvent After] (\<lambda>opts. owed (op_hooks opts) (ReloadEvent After)) (restart env files b changed)"
proof -
  let ?es = "[ReloadEvent After]" and ?d = "\<lambda>opts. owed (op_hooks opts) (ReloadEvent After)"
  have fails: "adds ?es ?d (athen (run_shell_lifecycle_events env evs) (afail e))"
    if "evs = [ReloadEvent After] \<or> evs = [RestartEvent After, ReloadEvent After]" for evs e
  proof -
    have "due ?es evs = ?d" using that by (elim disjE) (simp_all only: due_reload)
    then show ?thesis using adds_then_fails [OF adds_lifecycle_events, of ?es evs env e] by simp
  qed
  have inner: "adds ?es ?d (restart_inner env [StartupEvent After, RestartEvent After, ReloadEvent After] fs stop)" for fs stop
    using adds_restart_inner [of "[StartupEvent After, RestartEvent After, ReloadEvent After]" ?es env fs stop]
    by (simp only: due_reload list.set) simp
  have "adds ?es ?d (case r of Inl e \<Rightarrow> athen (run_shell_lifecycle_events env [RestartEvent After, ReloadEvent After]) (afail e)
      | Inr u \<Rightarrow> restart_inner env [StartupEvent After, RestartEvent After, ReloadEvent After] (Some files) True)" for r
    using fails inner by (cases r) (auto simp del: run_shell_lifecycle_events.simps)
  then have "adds ?es ?d (abind (attempt (run_hooks env (RestartEvent Before))) (\<lambda>r.
      case r of Inl e \<Rightarrow> athen (run_shell_lifecycle_events env [RestartEvent After, ReloadEvent After]) (afail e)
      | Inr u \<Rightarrow> restart_inner env [StartupEvent After, RestartEvent After, ReloadEvent After] (Some files) True))"
    by (intro quiet_then_adds nf_rules sr.rel_attempt sr.rel_run_hooks) simp
  then have "adds ?es ?d (case r of Inl e \<Rightarrow> athen (run_shell_lifecycle_events env [ReloadEvent After]) (afail e)
      | Inr u \<Rightarrow> abind (attempt (run_hooks env (RestartEvent Before))) (\<lambda>r.
          case r of Inl e \<Rightarrow> athen (run_shell_lifecycle_events env [RestartEvent After, ReloadEvent After]) (afail e)
          | Inr u \<Rightarrow> restart_inner env [StartupEvent After, RestartEvent After, ReloadEvent After] (Some files) True))" for r
    using fails by (cases r) (auto simp del: run_shell_lifecycle_events.simps)
  then show ?thesis
    unfolding restart_def
    by (intro quiet_athen_adds quiet_then_adds sr.rel_log_put sr.rel_attempt sr.rel_if sr.rel_run_ghci_hooks
        sr.rel_run_hooks nf_rules) simp
qed

lemma adds_reload_actions:
  "adds [ReloadEvent After] (\<lambda>opts. owed (op_hooks opts) (ReloadEvent After))
     (if any_restart a
      then athen (tell (SendKind KindRestart)) (restart env files True changed)
      else athen (log_put f) (
        if \<not> needs_modify a
        then athen (tell (SendKind KindNone)) (
          athen (aput (\<lambda>g. g\<lparr>gh_known := files\<rparr>)) (finish_compilation env [ReloadEvent After] True True False))
        else abind (attempt (reload_body env a files)) (\<lambda>reload_result.
          athen (tell (SendKind KindNone)) (conclude env reload_result))))"
proof -
  let ?es = "[ReloadEvent After]" and ?d = "\<lambda>opts. owed (op_hooks opts) (ReloadEvent After)"
  have "adds ?es ?d (finish_compilation env [ReloadEvent After] x y z)" for x y z
    using adds_finish [of ?es ?es env x y z] by (simp only: due_reload list.set) simp
  moreover have "adds ?es ?d (conclude env r)" for r
    using adds_conclude [of ?es env r] by (simp only: due_reload list.set) simp
  ultimately show ?thesis
    by (auto intro!: quiet_athen_adds quiet_then_adds sr.rel_tell adds_restart sr.rel_log_put nf_rules
        sr.rel_aput sr.R_known sr.rel_attempt sr.rel_reload_body)
qed

section \<open>Properties\<close>

text \<open>
  C1: a reload that begins is closed exactly once. In a configuration whose hooks are advisory, without
  setup commands and memory diagnostic, every reload that is not interrupted and does not panic
  runs the shell commands of \<open>after-reload\<close> exactly once, in order, whatever happens in it: a restart, no
  work, added, removed or failing modules, errors of GHCi, a stuck session, a failing start. Only when
  the watched files or the events cannot be put in relation to the working directory the
  reload does not begin, and they do not run at all.
\<close>

theorem reload_closed_once:
  assumes "ordinary (gh_opts g)" and "gh_deadline g = None"
    and "reload env events haskell_files snapshot (g, log) = ((g', log'), r)" and "r \<noteq> Panicked"
  shows "runs_of [ReloadEvent After] (gh_hist g') = runs_of [ReloadEvent After] (gh_hist g) @
    (if \<exists>files a. normalize_files env g haskell_files = Inr files \<and> get_reload_actions env g events files = Inr a
     then owed (op_hooks (gh_opts g)) (ReloadEvent After) else [])"
proof -
  let ?g = "g\<lparr>gh_publication := Some snapshot\<rparr>"
  have "ends_or_panics g g' (status_of r)" using relD [OF ep.rel_reload assms(3)] by simp
  then have fin: "\<not> gives_up r" using assms(2,4) by (cases r) (auto simp: ends_or_panics_def)
  show ?thesis
  proof (cases "normalize_files env g haskell_files")
    case (Inl e)
    with assms(3) show ?thesis by (auto simp: reload_def athen_Done abind_def)
  next
    case (Inr files)
    note files = this
    show ?thesis
    proof (cases "get_reload_actions env g events files")
      case (Inl e)
      with files assms(3) show ?thesis by (auto simp: reload_def athen_Done abind_def Let_def)
    next
      case (Inr a)
      from assms(3) files Inr addsD [OF adds_reload_actions _ _ fin, of a env files] assms(1)
      have "runs_of [ReloadEvent After] (gh_hist g')
          = runs_of [ReloadEvent After] (gh_hist ?g) @ owed (op_hooks (gh_opts ?g)) (ReloadEvent After)"
        by (simp add: reload_def athen_Done abind_Done Let_def)
      with files Inr show ?thesis by auto
    qed
  qed
qed

text \<open>A new file that GHCi accepts.\<close>

theorem reload_closed_once_witness:
  "runs_of [ReloadEvent After] (gh_hist (fst (fst (reload demo_senv [Modify demo_new_file] [demo_new_file] []
     (demo_session, compilation_log_default))))) = [RunShell (ReloadEvent After) demo_cmd]"
proof -
  have r: "snd (reload demo_senv [Modify demo_new_file] [demo_new_file] [] (demo_session, compilation_log_default)) = Done ()"
    by code_simp
  obtain g' log' where run: "reload demo_senv [Modify demo_new_file] [demo_new_file] []
      (demo_session, compilation_log_default) = ((g', log'), Done ())"
    using r by (metis prod.collapse)
  have n: "normalize_files demo_senv demo_session [demo_new_file]
      = Inr [\<lparr>np_normal = demo_new_file, np_relative = None\<rparr>]"
    by code_simp
  have a: "get_reload_actions demo_senv demo_session [Modify demo_new_file]
        [\<lparr>np_normal = demo_new_file, np_relative = None\<rparr>]
      = Inr \<lparr>needs_restart = [], needs_reload = [],
          needs_add = [\<lparr>np_normal = demo_new_file, np_relative = None\<rparr>], needs_remove = []\<rparr>"
    by code_simp
  from reload_closed_once [OF _ _ run] n a show ?thesis
    using ordinary_demo run
    by (simp add: demo_session_def) (simp add: demo_opts_def owed_def select_hooks_def)
qed

text \<open>
  Finishing a compilation ends, never by a panic, and runs the shell commands of exactly the
  events it was given, once each and in order, however publication, hooks, eval or tests fail.
\<close>

theorem finish_runs_events_once:
  assumes "ordinary (gh_opts g)" and "gh_deadline g = None"
    and "ReloadEvent Before \<notin> set evs" and "TestEvent \<notin> set evs"
    and "finish_compilation env evs available succeeded post (g, log) = ((g', log'), r)"
  shows "\<not> gives_up r \<and> runs_of evs (gh_hist g') = runs_of evs (gh_hist g) @ owed_by evs (gh_opts g)"
proof -
  have "ends g g' (status_of r)" by (rule relD [OF en.rel_finish assms(5)]) simp_all
  then have "\<not> gives_up r" using assms(2) by (cases r) (auto simp: ends_def ends_or_panics_def)
  moreover have "due evs evs' opts = owed_by evs' opts" if "set evs' \<subseteq> set evs" for evs' opts
    using that by (induction evs') (auto simp: owed_by_def runs_of_owed)
  ultimately show ?thesis
    using addsD [OF adds_finish assms(5,1)] assms(3,4) by simp
qed

theorem finish_runs_events_once_witness:
  "runs_of [StartupEvent After, ReloadEvent After] (gh_hist (fst (fst (finish_compilation demo_senv
     [StartupEvent After, ReloadEvent After] False False True (demo_session, compilation_log_default)))))
   = [RunShell (ReloadEvent After) demo_cmd]"
proof -
  obtain g' log' r where run: "finish_compilation demo_senv
      [StartupEvent After, ReloadEvent After] False False True (demo_session, compilation_log_default) = ((g', log'), r)"
    by (metis prod.collapse)
  from finish_runs_events_once [OF _ _ _ _ run] show ?thesis
    using ordinary_demo run
    by (simp add: demo_session_def)
       (simp add: demo_opts_def owed_by_def owed_def select_hooks_def)
qed

section \<open>When GHCi is given hooks\<close>

text \<open>
  Everything that reaches GHCi, its process or a test: all but the shell commands of other events, the
  validation of the sources and the records of the outcome.
\<close>

definition reaches_ghci :: "request action \<Rightarrow> bool" where
  "reaches_ghci a \<longleftrightarrow>
     (case a of
        RunGhci e c \<Rightarrow> True
      | RunShell e c \<Rightarrow> e = TestEvent
      | Did r \<Rightarrow> (case r of ValidateSnapshot s \<Rightarrow> False | Publish l \<Rightarrow> False | MemoryRecord s \<Rightarrow> False | _ \<Rightarrow> True))"

definition ghci_runs :: "history \<Rightarrow> history" where
  "ghci_runs hist = filter reaches_ghci hist"

definition same_ghci_runs :: "ghci \<Rightarrow> ghci \<Rightarrow> status \<Rightarrow> bool" where
  "same_ghci_runs g g' s \<longleftrightarrow> ghci_runs (gh_hist g') = ghci_runs (gh_hist g)"

interpretation gr: session_relation same_ghci_runs
  by unfold_locales (auto simp: same_ghci_runs_def)

interpretation gr: publishing same_ghci_runs
  by unfold_locales (auto simp: same_ghci_runs_def ghci_runs_def record_action_def reaches_ghci_def)

interpretation gr: owing same_ghci_runs
  by unfold_locales (auto simp: same_ghci_runs_def ghci_runs_def record_action_def reaches_ghci_def)

lemma quiet_shell_hooks: "e \<noteq> TestEvent \<Longrightarrow> rel same_ghci_runs (shell_hooks env e)"
proof (rule relI)
  fix g log g' log' r
  assume e: "e \<noteq> TestEvent" and run: "shell_hooks env e (g, log) = ((g', log'), r)"
  let ?run = "run_shell_hooks (se_shell env) (op_hooks (gh_opts g)) e (gh_hist g)"
  obtain acts where acts: "fst ?run = gh_hist g @ acts"
    "\<forall>a \<in> set acts. \<exists>h s. h \<in> set (select_hooks (op_hooks (gh_opts g)) e) \<and> a = RunShell (hk_event h) s"
    unfolding run_shell_hooks_def using sr.run_shell_loop_extends by blast
  have "ghci_runs acts = []"
    using acts(2) e unfolding ghci_runs_def by (intro filter_False) (fastforce dest: select_event simp: reaches_ghci_def)
  moreover have "gh_hist g' = gh_hist g @ acts"
    using run acts(1) by (cases ?run; cases "snd ?run") (auto simp: shell_hooks_def)
  ultimately show "same_ghci_runs g g' (status_of r)" by (simp add: same_ghci_runs_def ghci_runs_def)
qed

lemma quiet_completion_hooks:
  "TestEvent \<notin> set evs \<Longrightarrow> rel same_ghci_runs (completion_hooks env evs False r)"
proof (induction evs arbitrary: r)
  case (Cons e evs)
  have "rel same_ghci_runs (case r' of Inr u \<Rightarrow> completion_hooks env evs False r
      | Inl err \<Rightarrow> completion_hooks env evs False (case r of Inr u \<Rightarrow> Inl err | Inl first \<Rightarrow> Inl first))" for r'
    using Cons by (cases r') auto
  then show ?case
    unfolding completion_hooks.simps if_False using Cons.prems
    by (intro gr.rel_abind gr.rel_attempt quiet_shell_hooks) auto
next
  case Nil
  show ?case unfolding completion_hooks.simps by (rule gr.rel_aret)
qed

text \<open>Whether the sources a session compiled are still current, when it asks.\<close>

definition snapshot_valid :: "session_env \<Rightarrow> ghci \<Rightarrow> bool" where
  "snapshot_valid env g \<longleftrightarrow> (case gh_publication g of None \<Rightarrow> True
     | Some s \<Rightarrow> se_valid env (gh_hist g) (ValidateSnapshot s) = Inr True)"

lemma snapshot_result:
  assumes "attempt (compilation_snapshot_is_current env) (g, log) = (w, Done r)"
  shows "r = Inr True \<longleftrightarrow> snapshot_valid env g"
  using assms
proof (cases "gh_publication g")
  case (Some s)
  with assms show ?thesis
    by (cases "se_valid env (gh_hist g) (ValidateSnapshot s)")
       (auto simp: attempt_def compilation_snapshot_is_current_def abind_Done athen_Done ask_def expired_def
          snapshot_valid_def split: prod.splits outcome.splits option.splits if_splits)
qed (auto simp: attempt_def compilation_snapshot_is_current_def abind_Done athen_Done snapshot_valid_def)

lemma log_result_deduplicate [simp]: "log_result (deduplicate_diagnostics l) = log_result l"
  by (simp add: log_result_def deduplicate_diagnostics_def)

lemma snapshot_keeps_log:
  "attempt (compilation_snapshot_is_current env) (g, log) = ((g', log'), r) \<Longrightarrow> log' = log"
proof (cases "gh_publication g")
  case (Some s)
  then show "attempt (compilation_snapshot_is_current env) (g, log) = ((g', log'), r) \<Longrightarrow> log' = log"
    by (cases "se_valid env (gh_hist g) (ValidateSnapshot s)")
       (auto simp: attempt_def compilation_snapshot_is_current_def abind_Done athen_Done ask_def
          split: prod.splits outcome.splits if_splits)
qed (auto simp: attempt_def compilation_snapshot_is_current_def abind_Done athen_Done)

lemma publishing_keeps_log:
  assumes "(case x of Inr True \<Rightarrow> attempt (write_error_log env) | Inr False \<Rightarrow> aret (Inr ()) | Inl e \<Rightarrow> aret (Inl e))
      (g, log) = ((g', log'), r)"
  shows "log' = log"
proof -
  have "snd (fst (write_error_log env (g, log))) = log"
    by (auto simp: write_error_log_def alift_def split: prod.split sum.split)
  then have "snd (fst (attempt (write_error_log env) (g, log))) = log"
    by (cases "write_error_log env (g, log)"; cases "snd (write_error_log env (g, log))") (auto simp: attempt_def)
  with assms show ?thesis by (auto split: sum.splits bool.splits)
qed

text \<open>
  C6: completion hooks reach GHCi only after a success. When a compilation is finished whose sources
  have changed since, that found an error, was not carried out or left no usable prompt, then nothing is
  asked of GHCi or its process: no GHCi command of a completion hook, no eval comment, no test,
  and no shell command of the test event runs either.
\<close>

theorem ghci_hooks_need_success:
  assumes "TestEvent \<notin> set evs"
    and "\<not> (snapshot_valid env g \<and> succeeded \<and> available \<and> log_result log \<noteq> Some CompErr)"
    and "finish_compilation env evs available succeeded post (g, log) = ((g', log'), r)"
  shows "ghci_runs (gh_hist g') = ghci_runs (gh_hist g)"
proof -
  let ?log = "deduplicate_diagnostics log"
  note run = assms(3) [unfolded finish_compilation_def Let_def athen_log_put]
  from run show ?thesis
  proof (cases rule: abind_cases)
    case (returned w x)
    obtain h l where w: "w = (h, l)" by (cases w)
    have l: "l = ?log" using snapshot_keeps_log returned(1) w by blast
    have h: "same_ghci_runs g h Returned"
      using relD [OF gr.rel_attempt [OF gr.rel_snapshot] returned(1) [unfolded w]] by simp
    from returned(2) [unfolded w] show ?thesis
    proof (cases rule: abind_cases)
      case (returned w1 y)
      obtain h1 l1 where w1: "w1 = (h1, l1)" by (cases w1)
      have l1: "l1 = ?log" using publishing_keeps_log [OF returned(1) [unfolded w1]] l by simp
      have h1: "same_ghci_runs h h1 Returned"
        using relD [OF gr.rel_before_hooks returned(1) [unfolded w1]] by simp
      have "\<not> (x = Inr True \<and> succeeded \<and> available \<and> log_result l1 \<noteq> Some CompErr)"
        using assms(2) snapshot_result [OF \<open>attempt _ _ = (w, Done x)\<close>] l1 by simp
      then have no: "(x = Inr True \<and> succeeded \<and> available \<and> log_result l1 \<noteq> Some CompErr) = False" by simp
      note rest = returned(2) [unfolded w1 abind_log_get no]
      from relD [OF gr.rel_if_unsuccessful [OF quiet_completion_hooks [OF assms(1)]] rest] h h1 show ?thesis
        by (simp add: same_ghci_runs_def)
    next
      case (raised e)
      with relD [OF gr.rel_before_hooks raised(1)] h show ?thesis by (simp add: same_ghci_runs_def)
    next
      case dropped
      with relD [OF gr.rel_before_hooks dropped(1)] h show ?thesis by (simp add: same_ghci_runs_def)
    next
      case crashed
      with relD [OF gr.rel_before_hooks crashed(1)] h show ?thesis by (simp add: same_ghci_runs_def)
    qed
  qed (auto dest!: relD [OF gr.rel_attempt [OF gr.rel_snapshot]] simp: same_ghci_runs_def)
qed

theorem ghci_hooks_need_success_witness:
  "ghci_runs (gh_hist (fst (fst (finish_compilation demo_senv [ReloadEvent After] True True True
     (demo_session, mark_failed compilation_log_default))))) = []"
proof -
  obtain g' log' r where run: "finish_compilation demo_senv [ReloadEvent After] True True True
      (demo_session, mark_failed compilation_log_default) = ((g', log'), r)"
    by (metis prod.collapse)
  have "log_result (mark_failed compilation_log_default) = Some CompErr"
    by (simp add: log_result_def mark_failed_def)
  with ghci_hooks_need_success [OF _ _ run] run show ?thesis
    by (simp add: demo_session_def ghci_runs_def)
qed

end
