(* ===== verification/Publication.thy ===== *)
theory Publication
  imports HookRuns
begin

text \<open>
  What reaches the error file: a compilation whose sources the watcher does not confirm is withheld,
  in every way a reload can go.
\<close>

section \<open>Superseded compilations\<close>

definition same_files :: "ghci \<Rightarrow> ghci \<Rightarrow> status \<Rightarrow> bool" where
  "same_files g g' s \<longleftrightarrow> gh_files g' = gh_files g \<and> gh_error_log g' = gh_error_log g"

interpretation fl: session_relation same_files
  by unfold_locales (auto simp: same_files_def)

interpretation fl: hook_free same_files "\<lambda>_. True"
  by unfold_locales (auto simp: same_files_def record_action_def)

interpretation fl: owing same_files
  by unfold_locales (auto simp: same_files_def record_action_def)

lemma fl_snapshot: "rel same_files (attempt (compilation_snapshot_is_current env))"
  unfolding compilation_snapshot_is_current_def
  by (intro fl.dialogue_rules fl.rel_aput) (auto simp: same_files_def split: option.split intro!: fl.dialogue_rules)

lemma fl_finish:
  assumes "\<not> snapshot_valid env g"
    and "finish_compilation env evs available succeeded post (g, log) = ((g', log'), r)"
  shows "gh_files g' = gh_files g"
proof -
  note run = assms(2) [unfolded finish_compilation_def Let_def athen_log_put]
  have "same_files g g' (status_of r)"
    using run
  proof (cases rule: abind_cases)
    case (returned w x)
    obtain h l where w: "w = (h, l)" by (cases w)
    have x: "x \<noteq> Inr True" using snapshot_result [OF returned(1)] assms(1) by simp
    have h: "same_files g h Returned" using relD [OF fl_snapshot returned(1) [unfolded w]] by simp
    have pub: "rel same_files (case x of Inr True \<Rightarrow> attempt (write_error_log env)
        | Inr False \<Rightarrow> aret (Inr ()) | Inl e \<Rightarrow> aret (Inl e))"
      using x by (auto split: sum.split bool.split intro!: fl.rel_aret)
    have no: "(x = Inr True \<and> b) = False" for b using x by simp
    note rest = returned(2) [unfolded w no]
    have "same_files h g' (status_of r)"
      using rest by (rule relD [where R = same_files, rotated]) (intro fl.rel_abind [OF pub] fl.rel_abind [OF fl.rel_log_get]
          fl.rel_if_unsuccessful fl.rel_completion_hooks ballI TrueI)
    with h show ?thesis by (simp add: same_files_def)
  qed (auto dest!: relD [OF fl_snapshot])
  then show ?thesis by (simp add: same_files_def)
qed

text \<open>Until a compilation is finished, nothing is published and its snapshot stays.\<close>

definition unpublished :: "ghci \<Rightarrow> ghci \<Rightarrow> status \<Rightarrow> bool" where
  "unpublished g g' s \<longleftrightarrow> gh_files g' = gh_files g \<and> gh_publication g' = gh_publication g \<and> gh_opts g' = gh_opts g"

interpretation un: session_relation unpublished
  by unfold_locales (auto simp: unpublished_def)

interpretation un: compilations unpublished "\<lambda>_. True"
  by unfold_locales (auto simp: unpublished_def record_action_def)

text \<open>\<open>withheld s m\<close>: without setup commands, \<open>m\<close> publishes nothing while \<open>s\<close> is to be validated.\<close>

definition withheld :: "source_snapshot \<Rightarrow> 'a act \<Rightarrow> bool" where
  "withheld s m \<longleftrightarrow> (\<forall>g log g' log' r. gh_publication g = Some s \<longrightarrow> op_setup_shell (gh_opts g) = [] \<longrightarrow>
     m (g, log) = ((g', log'), r) \<longrightarrow> gh_files g' = gh_files g)"

lemma withheldD:
  "withheld s m \<Longrightarrow> m (g, log) = ((g', log'), r) \<Longrightarrow> gh_publication g = Some s \<Longrightarrow> op_setup_shell (gh_opts g) = [] \<Longrightarrow>
   gh_files g' = gh_files g"
  unfolding withheld_def by blast

lemma unpublished_withheld: "rel unpublished m \<Longrightarrow> withheld s m"
  unfolding withheld_def by (auto dest: relD simp: unpublished_def)

lemma withheld_abind:
  assumes "rel unpublished m" and "\<And>x. withheld s (f x)"
  shows "withheld s (abind m f)"
  unfolding withheld_def
proof (intro allI impI)
  fix g log g' log' r
  assume g: "gh_publication g = Some s" "op_setup_shell (gh_opts g) = []" and run: "abind m f (g, log) = ((g', log'), r)"
  from assms(1) run show "gh_files g' = gh_files g"
  proof (cases rule: abind_related)
    case (continued h l x)
    with withheldD [OF assms(2) continued(3)] g show ?thesis by (simp add: unpublished_def)
  qed (simp add: unpublished_def)
qed

lemma withheld_athen: "rel unpublished m \<Longrightarrow> withheld s n \<Longrightarrow> withheld s (athen m n)"
  unfolding athen_def by (rule withheld_abind)

lemma withheld_then:
  assumes "withheld s m" and "\<And>x. rel same_files (f x)"
  shows "withheld s (abind m f)"
  unfolding withheld_def
proof (intro allI impI)
  fix g log g' log' r
  assume g: "gh_publication g = Some s" "op_setup_shell (gh_opts g) = []" and run: "abind m f (g, log) = ((g', log'), r)"
  from run show "gh_files g' = gh_files g"
  proof (cases rule: abind_cases)
    case (returned w x)
    obtain h l where w: "w = (h, l)" by (cases w)
    from withheldD [OF assms(1) returned(1) [unfolded w] g] relD [OF assms(2) returned(2) [unfolded w]]
    show ?thesis by (simp add: same_files_def)
  qed (use withheldD [OF assms(1) _ g] in auto)
qed

lemma withheld_athen_then: "withheld s m \<Longrightarrow> rel same_files n \<Longrightarrow> withheld s (athen m n)"
  unfolding athen_def by (rule withheld_then)

lemma withheld_attempt:
  assumes "withheld s m"
  shows "withheld s (attempt m)"
  unfolding withheld_def
proof (intro allI impI)
  fix g log g' log' r
  assume g: "gh_publication g = Some s" "op_setup_shell (gh_opts g) = []" and run: "attempt m (g, log) = ((g', log'), r)"
  from run show "gh_files g' = gh_files g"
    by (rule attempt_cases) (use withheldD [OF assms _ g] in blast)
qed

section \<open>Reloads of superseded sources\<close>

lemma withheld_finish:
  assumes "\<forall>h. se_valid env h (ValidateSnapshot s) \<noteq> Inr True"
  shows "withheld s (finish_compilation env evs a b c)"
  unfolding withheld_def
  using assms by (auto simp: snapshot_valid_def dest!: fl_finish [rotated])

lemma withheld_initialize:
  assumes "\<forall>h. se_valid env h (ValidateSnapshot s) \<noteq> Inr True"
  shows "withheld s (initialize env evs files)"
  unfolding initialize_def
  by (intro withheld_abind withheld_athen withheld_athen_then un.rel_attempt un.rel_athen un.rel_initialize_inner
      un.rel_before_finish un.rel_log_put withheld_finish assms fl.rel_alift)

text \<open>Starting a new session publishes nothing without setup commands, and loses the snapshot only by replacing the session.\<close>

lemma session_new_unpublished:
  assumes "session_new env (g, log) = ((g', log'), r)" and "op_setup_shell (gh_opts g) = []"
  shows "gh_files g' = gh_files g \<and> gh_opts g' = gh_opts g \<and> ((\<forall>x. r \<noteq> Done x) \<longrightarrow> gh_publication g' = gh_publication g)"
proof -
  have "setup_run env (g, log) = ((g, log), Done ())" using assms(2) by (simp add: setup_run_def abind_Done)
  note no_setup = this
  let ?rest = "abind (shell_hooks env (StartupEvent Before)) (\<lambda>_. abind (ask (se_unit env) StartProcess) (\<lambda>_.
     abind (aget gh_opts) (\<lambda>opts. abind (alift (error_path env opts)) (\<lambda>p.
     abind (alift (file_classifier_new (se_current_dir env) (op_restart_globs opts) (op_reload_globs opts))) (\<lambda>c.
     abind (alift (se_current_dir env)) (\<lambda>cwd. aput (fresh_session cwd p c)))))))"
  have "session_new env (g, log) = ?rest (g, log)"
    unfolding session_new_def athen_def by (rule abind_Done) (rule no_setup)
  with assms(1) have run: "?rest (g, log) = ((g', log'), r)" by simp
  from un.rel_shell_hooks [OF TrueI] run show ?thesis
  proof (cases rule: abind_related)
    case (continued h l x)
    from un.rel_ask continued(3) show ?thesis
    proof (cases rule: abind_related)
      case c: (continued h2 l2 x2)
      from c(3) have "(gh_files g' = gh_files h2 \<and> gh_opts g' = gh_opts h2) \<and> ((\<forall>x. r \<noteq> Done x) \<longrightarrow> gh_publication g' = gh_publication h2)"
        by (cases "error_path env (gh_opts h2)";
            cases "file_classifier_new (se_current_dir env) (op_restart_globs (gh_opts h2)) (op_reload_globs (gh_opts h2))";
            cases "se_current_dir env")
           (auto simp: abind_def fresh_session_def)
      with continued(2) c(2) show ?thesis by (simp add: unpublished_def)
    qed (use continued(2) in \<open>simp add: unpublished_def\<close>)
  qed (simp add: unpublished_def)
qed

lemma withheld_restart_inner:
  assumes invalid: "\<forall>h. se_valid env h (ValidateSnapshot s) \<noteq> Inr True"
  shows "withheld s (restart_inner env evs files stop)"
proof -
  have new: "withheld s (abind (attempt (session_new env)) (run_new_session env evs files (Some s)))"
    unfolding withheld_def
  proof (intro allI impI)
    fix g log g' log' r
    assume g: "gh_publication g = Some s" "op_setup_shell (gh_opts g) = []"
      and run: "abind (attempt (session_new env)) (run_new_session env evs files (Some s)) (g, log) = ((g', log'), r)"
    obtain h l x where h: "session_new env (g, log) = ((h, l), x)" by (metis prod.collapse)
    note kept = session_new_unpublished [OF h g(2)]
    show "gh_files g' = gh_files g"
    proof (cases x)
      case (Done u)
      let ?h = "h\<lparr>gh_publication := Some s\<rparr>"
      from run h Done have "initialize env evs files (?h, l) = ((g', log'), r)"
        by (simp add: abind_Done attempt_run run_new_session_def athen_Done)
      from withheldD [OF withheld_initialize [OF invalid] this] kept g show ?thesis by simp
    next
      case (Failed e)
      obtain m where m: "e = IoError m" by (cases e)
      let ?failing = "athen (log_put (mark_failed_with_diagnostic (''Failed to start configured GHCi command: '' @ m))) (
        athen (finish_compilation env evs False False True) (afail (IoError m :: io_error)))"
      from run h Failed have "?failing (h, l) = ((g', log'), r)"
        by (simp add: abind_Done attempt_run run_new_session_def m)
      moreover have "withheld s (?failing :: unit act)"
        by (intro withheld_athen withheld_athen_then un.rel_log_put withheld_finish invalid fl.rel_afail)
      ultimately show ?thesis using withheldD kept g Failed by fastforce
    qed (use run h kept in \<open>auto simp: abind_def attempt_run\<close>)
  qed
  have "withheld s (abind (aget gh_publication) (\<lambda>p. abind (attempt (session_new env)) (run_new_session env evs files p)))"
    using new unfolding withheld_def by (simp add: abind_aget)
  then have "withheld s (case stopped of Inl e \<Rightarrow> athen (run_shell_lifecycle_events env evs) (afail e)
      | Inr _ \<Rightarrow> abind (aget gh_publication) (\<lambda>p. abind (attempt (session_new env)) (run_new_session env evs files p)))" for stopped
    by (cases stopped) (auto intro!: unpublished_withheld un.rel_athen un.rel_lifecycle_events un.rel_afail)
  moreover have "rel unpublished (attempt (if stop then ask (se_unit env) StopProcess else aret ()))"
    by (auto intro!: un.dialogue_rules)
  ultimately show ?thesis unfolding restart_inner_def by (intro withheld_abind)
qed

lemma withheld_restart:
  assumes "\<forall>h. se_valid env h (ValidateSnapshot s) \<noteq> Inr True"
  shows "withheld s (restart env files b changed)"
proof -
  note inner = withheld_restart_inner [OF assms]
  have quiet: "withheld s (athen (run_shell_lifecycle_events env evs) (afail e) :: unit act)" for evs e
    by (intro unpublished_withheld un.rel_athen un.rel_lifecycle_events un.rel_afail) simp
  have "withheld s (case r of Inl e \<Rightarrow> athen (run_shell_lifecycle_events env [RestartEvent After, ReloadEvent After]) (afail e)
      | Inr u \<Rightarrow> restart_inner env [StartupEvent After, RestartEvent After, ReloadEvent After] (Some files) True)" for r
    using quiet inner by (cases r) (simp_all only: sum.case)
  then have "withheld s (abind (attempt (run_hooks env (RestartEvent Before))) (\<lambda>r.
      case r of Inl e \<Rightarrow> athen (run_shell_lifecycle_events env [RestartEvent After, ReloadEvent After]) (afail e)
      | Inr u \<Rightarrow> restart_inner env [StartupEvent After, RestartEvent After, ReloadEvent After] (Some files) True))"
    by (intro withheld_abind un.rel_attempt un.rel_run_hooks TrueI)
  then have "withheld s (case r of Inl e \<Rightarrow> athen (run_shell_lifecycle_events env [ReloadEvent After]) (afail e)
      | Inr u \<Rightarrow> abind (attempt (run_hooks env (RestartEvent Before))) (\<lambda>r.
          case r of Inl e \<Rightarrow> athen (run_shell_lifecycle_events env [RestartEvent After, ReloadEvent After]) (afail e)
          | Inr u \<Rightarrow> restart_inner env [StartupEvent After, RestartEvent After, ReloadEvent After] (Some files) True))" for r
    using quiet by (cases r) (simp_all only: sum.case)
  then show ?thesis
    unfolding restart_def
    by (intro withheld_athen withheld_abind un.rel_log_put un.rel_attempt un.rel_if un.rel_run_ghci_hooks
        un.rel_run_hooks TrueI)
qed

lemma withheld_conclude:
  "\<forall>h. se_valid env h (ValidateSnapshot s) \<noteq> Inr True \<Longrightarrow> withheld s (conclude env r)"
  unfolding conclude_def Let_def
  by (intro withheld_abind withheld_then withheld_attempt withheld_finish un.rel_aget fl.rel_athen fl.rel_alift) auto

text \<open>
  C5: a superseded reload is not published. When a reload that file events asked for compiled sources
  that the watcher does not confirm as current, because they have changed since or because it cannot
  tell, it leaves the published files as they were, whatever it found, also when it restarted the session
  or failed to. (The failure of a setup command is published, but is no compilation; a reload
  from the eval socket and a first start have no snapshot to validate.)
\<close>

theorem superseded_not_published:
  assumes "\<forall>h. se_valid env h (ValidateSnapshot snapshot) \<noteq> Inr True" and "op_setup_shell (gh_opts g) = []"
    and "reload env events haskell_files snapshot (g, log) = ((g', log'), r)"
  shows "gh_files g' = gh_files g"
proof -
  let ?g = "g\<lparr>gh_publication := Some snapshot\<rparr>"
  let ?rest = "\<lambda>g files a. if any_restart a
     then athen (tell (SendKind KindRestart)) (restart env files True (map (\<lambda>e. path_str (as_path e)) events))
     else athen (log_put (\<lambda>_. compilation_log_default\<lparr>cl_workload :=
       (cl_workload compilation_log_default)\<lparr>wl_changed_paths := map (\<lambda>e. path_str (as_path e)) events\<rparr>\<rparr>)) (
     if \<not> needs_modify a
     then athen (tell (SendKind KindNone)) (
       athen (aput (\<lambda>g. g\<lparr>gh_known := files\<rparr>))
         (finish_compilation env [ReloadEvent After] True True False))
     else abind (attempt (reload_body env a files)) (\<lambda>reload_result.
       athen (tell (SendKind KindNone)) (conclude env reload_result)))"
  have rest: "withheld snapshot (?rest g files a)" for g files a
    by (auto intro!: withheld_athen withheld_abind un.rel_tell withheld_restart un.rel_log_put un.rel_aput un.R_known
        withheld_finish un.rel_attempt un.rel_reload_body withheld_conclude assms(1))
  have "withheld snapshot (abind (aget id) (\<lambda>g. abind (alift (normalize_files env g haskell_files)) (\<lambda>files.
      abind (alift (get_reload_actions env g events files)) (?rest g files))))"
    by (intro withheld_abind un.rel_aget un.rel_alift rest)
  moreover have "abind (aget id) (\<lambda>g. abind (alift (normalize_files env g haskell_files)) (\<lambda>files.
      abind (alift (get_reload_actions env g events files)) (?rest g files))) (?g, log) = ((g', log'), r)"
    using assms(3) by (simp add: reload_def athen_Done Let_def)
  ultimately show ?thesis using withheldD assms(2) by fastforce
qed

theorem superseded_not_published_witness:
  "gh_files (fst (fst (reload (demo_senv\<lparr>se_valid := (\<lambda>_ _. Inr False)\<rparr>) [Modify demo_new_file] [demo_new_file] []
     (demo_session, compilation_log_default)))) = Map.empty"
proof -
  let ?env = "demo_senv\<lparr>se_valid := (\<lambda>_ _. Inr False)\<rparr>"
  obtain g' log' r where run: "reload ?env [Modify demo_new_file] [demo_new_file] []
      (demo_session, compilation_log_default) = ((g', log'), r)"
    by (metis prod.collapse)
  have "op_setup_shell (gh_opts demo_session) = []" by (simp add: demo_session_def demo_opts_def)
  from superseded_not_published [OF _ this run] run show ?thesis
    by (simp add: demo_session_def)
qed

end
