(* ===== verification/Dialogue.thy ===== *)
theory Dialogue
  imports SessionFrames
begin

text \<open>What is written to GHCi, and when: the exact exchange of a command.\<close>

lemma ask_Done_iff:
  "ask answer r (g, log) = (w, Done x) \<longleftrightarrow>
   \<not> expired g \<and> answer (gh_hist g) r = Inr x \<and> w = (record_action (Did r) g, log)"
  by (cases "answer (gh_hist g) r") (auto simp: ask_def)

lemma aput_Done_iff: "aput f (g, log) = (w, Done x) \<longleftrightarrow> w = (f g, log)"
  by auto

lemma log_put_Done_iff: "log_put f (g, log) = (w, Done x) \<longleftrightarrow> w = (g, f log)"
  by auto

lemma aget_Done_iff: "aget f (g, log) = (w, Done x) \<longleftrightarrow> w = (g, log) \<and> x = f g"
  by auto

lemmas done_simps = abind_Done_iff athen_Done_iff alift_Done_iff ask_Done_iff aput_Done_iff
  log_put_Done_iff aget_Done_iff set_phase_def

section \<open>One line\<close>

definition marker_command :: "string \<Rightarrow> string" where
  "marker_command marker = '':! printf '' @ [CHR 0x27] @ ''%s'' @ [CHR 0x5C] @ ''n'' @ [CHR 0x27, CHR 0x20, CHR 0x27]
     @ marker @ [CHR 0x27] @ '' >&2'' @ [newline]"

text \<open>
  Standard error is cleared first, the line is written, its prompt awaited; only then the marker
  command is written, and standard error is read through the marker.
\<close>

definition exchange :: "session_env \<Rightarrow> string \<Rightarrow> u64 \<Rightarrow> history" where
  "exchange env line nonce =
     (let m = stderr_marker env nonce in
      map Did [ClearStderr, WriteStdin line, ReadPrompt AtLineStart, CollectStderr m, AwaitReady m,
        WriteStdin (marker_command m), ReadPrompt AtAnywhere, AwaitStderr m])"

fun exchanges :: "session_env \<Rightarrow> string list \<Rightarrow> u64 \<Rightarrow> history" where
  "exchanges env [] nonce = []"
| "exchanges env (l # ls) nonce = exchange env l nonce @ exchanges env ls (nonce + 1)"

lemma write_line_Done:
  assumes "stdin_write_line env line (g, log) = ((g', log'), Done ())"
  shows "gh_hist g' = gh_hist g @ exchange env line (gh_stderr_nonce g) \<and>
    gh_stderr_nonce g' = gh_stderr_nonce g + 1"
  using assms
  by (auto simp: stdin_write_line_def write_line_with_prompt_at_def read_prompt_def parse_into_log_def
      stderr_buffer_through_marker_def done_simps record_action_def exchange_def marker_command_def Let_def)

lemma write_lines_Done:
  "amap (\<lambda>l. stdin_write_line env (f l)) ls (g, log) = ((g', log'), Done ()) \<Longrightarrow>
   gh_hist g' = gh_hist g @ exchanges env (map f ls) (gh_stderr_nonce g) \<and>
   gh_stderr_nonce g' = gh_stderr_nonce g + of_nat (length ls)"
proof (induction ls arbitrary: g log)
  case (Cons l ls)
  then obtain h lg where h: "stdin_write_line env (f l) (g, log) = ((h, lg), Done ())"
    "amap (\<lambda>l. stdin_write_line env (f l)) ls (h, lg) = ((g', log'), Done ())"
    by (auto simp: athen_Done_iff)
  from write_line_Done [OF h(1)] Cons.IH [OF h(2)] show ?case by simp
qed auto

section \<open>Commands\<close>

text \<open>The lines a command is submitted as: a \<open>:{\<close> \<open>:}\<close> block is one submission.\<close>

definition submissions :: "string \<Rightarrow> string list" where
  "submissions command = (if is_explicit_multiline command then [command @ [newline]]
     else map (\<lambda>l. l @ [newline]) (str_lines command))"

lemma run_command_Done:
  assumes "run_command env c (g, log) = ((g', log'), Done ())"
  shows "gh_hist g' = gh_hist g @ exchanges env (submissions c) (gh_stderr_nonce g) \<and>
    gh_stderr_nonce g' = gh_stderr_nonce g + of_nat (length (submissions c))"
proof (cases "is_explicit_multiline c")
  case True
  with assms write_line_Done [of env "c @ [newline]" g log g' log'] show ?thesis
    by (simp add: run_command_def submissions_def)
next
  case False
  with assms write_lines_Done [of env "\<lambda>l. l @ [newline]" "str_lines c" g log g' log'] show ?thesis
    by (simp add: run_command_def submissions_def)
qed

text \<open>With a GHCi that answers, a command without a deadline completes.\<close>

definition responsive :: "session_env \<Rightarrow> bool" where
  "responsive env \<longleftrightarrow> (\<forall>h r. se_unit env h r = Inr ()) \<and> (\<forall>h r. \<exists>t. se_text env h r = Inr t)
     \<and> (\<forall>t. \<exists>ms. se_parse_messages env t = Inr ms)"

lemma ask_responsive:
  assumes "gh_deadline g = None" and "answer (gh_hist g) r = Inr x"
  shows "ask answer r (g, log) = ((record_action (Did r) g, log), Done x)"
  using assms by (simp add: ask_def expired_def)

lemma write_line_responsive:
  assumes "responsive env" and "gh_deadline g = None"
  shows "\<exists>g' log'. stdin_write_line env line (g, log) = ((g', log'), Done ()) \<and> gh_deadline g' = None"
proof -
  obtain reply where t: "\<And>h r. se_text env h r = Inr (reply h r)"
    using assms(1) unfolding responsive_def by metis
  obtain msgs where m: "\<And>s. se_parse_messages env s = Inr (msgs s)"
    using assms(1) unfolding responsive_def by metis
  have u: "se_unit env h r = Inr ()" for h r using assms(1) by (simp add: responsive_def)
  show ?thesis
    using assms(2)
    by (simp add: stdin_write_line_def write_line_with_prompt_at_def read_prompt_def parse_into_log_def
        stderr_buffer_through_marker_def set_phase_def athen_Done abind_Done ask_def expired_def record_action_def t m u)
qed

lemma run_command_responsive:
  assumes "responsive env" and "gh_deadline g = None"
  shows "\<exists>g' log'. run_command env c (g, log) = ((g', log'), Done ())"
proof -
  have lines: "\<exists>g' log'. amap (\<lambda>l. stdin_write_line env (f l)) ls (g, log) = ((g', log'), Done ())"
    if "gh_deadline g = None" for f and ls :: "string list" and g log
    using that
  proof (induction ls arbitrary: g log)
    case (Cons l ls)
    obtain h lg where h: "stdin_write_line env (f l) (g, log) = ((h, lg), Done ())" "gh_deadline h = None"
      using write_line_responsive [OF assms(1) Cons.prems] by blast
    from Cons.IH [OF h(2)] show ?case using h(1) by (simp add: athen_Done)
  qed simp
  show ?thesis
    unfolding run_command_def
    using write_line_responsive [OF assms] lines [OF assms(2)] by (auto split: if_split) blast
qed

section \<open>Properties\<close>

text \<open>
  A command is answered completely before the next one is written, and a \<open>:{\<close> block is never
  cut open: with a GHCi that answers, running a command returns, and the exchange is exactly, per
  submitted line: clear stderr, write the line, await its prompt, then the marker command under a
  fresh nonce, its prompt, and stderr up to the marker.
\<close>

theorem run_command_exchange:
  assumes "responsive env" and "gh_deadline g = None"
  shows "\<exists>g' log'. run_command env c (g, log) = ((g', log'), Done ()) \<and>
    gh_hist g' = gh_hist g @ exchanges env (submissions c) (gh_stderr_nonce g)"
  using run_command_responsive [OF assms] run_command_Done by metis

theorem run_command_exchange_witness:
  "\<exists>g' log'. run_command demo_senv ''main'' (demo_session, compilation_log_default) = ((g', log'), Done ()) \<and>
     gh_hist g' = exchange demo_senv (''main'' @ [newline]) 0"
proof -
  have "str_lines ''main'' = [''main'']" by (simp add: str_lines_def)
  then have "submissions ''main'' = [''main'' @ [newline]]"
    by (simp add: submissions_def is_explicit_multiline_def)
  then show ?thesis
    using run_command_exchange [of demo_senv demo_session "''main''" compilation_log_default]
    by (simp add: demo_senv_def responsive_def demo_session_def)
qed

end
