(* ===== verification/TargetSync.thy ===== *)
theory TargetSync
  imports Dialogue
begin

text \<open>
  How GHCi's targets follow the watched files: what a batch of events schedules, and what is
  remembered as accepted afterwards.
\<close>

section \<open>Sets of paths\<close>

lemma np_mem_iff: "np_mem p ps \<longleftrightarrow> np_normal p \<in> np_normal ` set ps"
  by (auto simp: np_mem_def normal_path_eq_def list_ex_iff)

lemma np_mem_in: "p \<in> set ps \<Longrightarrow> np_mem p ps"
  by (simp add: np_mem_iff)

lemma set_push_new: "np_normal ` set (push_new acc ps) = np_normal ` set acc \<union> np_normal ` set ps"
  by (induction acc ps rule: push_new.induct) (auto simp: np_mem_iff)

lemma push_new_subset: "p \<in> set (push_new acc ps) \<Longrightarrow> p \<in> set acc \<or> p \<in> set ps"
  by (induction acc ps rule: push_new.induct) (auto split: if_splits)

lemma np_mem_push_new: "np_mem p (push_new acc ps) \<longleftrightarrow> np_mem p acc \<or> np_mem p ps"
  by (auto simp: np_mem_iff set_push_new)

section \<open>What a batch schedules\<close>

text \<open>The actions before the policy for additions, with the reconciled events they come from.\<close>

lemma get_reload_actions_cases:
  assumes "get_reload_actions env g events files = Inr a"
  obtains es b recovery where "res_map (reconcile env g files) events = Inr es"
    and "classify (se_classify env) (gh_classifier g) (gh_targets g) (bs_collect es) = Inr b"
    and "a = add_policy g \<lparr>needs_restart = push_new (needs_restart b) recovery,
        needs_reload = (if op_auto_reload (gh_opts g) then needs_reload b else []),
        needs_add = push_new (needs_add b) (missed_adds env g files),
        needs_remove = push_new (needs_remove b) (missed_removes env g files)\<rparr>"
  using assms by (auto simp: get_reload_actions_def Let_def res_simps)

lemma add_policy_fields:
  "needs_remove (add_policy g a) = needs_remove a"
  "p \<in> set (needs_add (add_policy g a)) \<Longrightarrow> p \<in> set (needs_add a)"
  "np_mem p (needs_add a) \<Longrightarrow> \<not> np_mem p (gh_known g) \<Longrightarrow>
   np_mem p (needs_add (add_policy g a)) \<or> np_mem p (needs_restart (add_policy g a))"
  by (auto simp: add_policy_def np_mem_iff split: if_splits)

text \<open>A reconciled Haskell event says what the snapshot says.\<close>

lemma reconciled_event:
  assumes "res_map (reconcile env g files) events = Inr es" and "e \<in> set es"
    and "relative_path (se_classify env) (gh_classifier g) (as_path e) = Inr np"
    and "is_haskell_source_file (np_normal np)"
  shows "is_remove e \<longleftrightarrow> \<not> np_mem np files"
proof -
  obtain e0 where "reconcile env g files e0 = Inr e"
    using assms(1,2) by (auto simp: res_map_Inr list_all2_conv_all_nth in_set_conv_nth)
  then show ?thesis
    using assms(3,4) by (cases e; cases e0) (auto simp: reconcile_def res_simps split: if_splits)
qed

lemma judged_add:
  "judge env c targets e = Inr (VAdd, np) \<Longrightarrow>
   is_haskell_source_file (np_normal np) \<and> \<not> is_remove e \<and> \<not> contains_source_path (np_normal np) targets
   \<and> relative_path env c (as_path e) = Inr np"
  by (auto simp: judge_def verdict_def Let_def res_simps split: if_splits)

lemma judged_remove:
  "judge env c targets e = Inr (VRemove, np) \<Longrightarrow>
   is_haskell_source_file (np_normal np) \<and> is_remove e \<and> contains_source_path (np_normal np) targets
   \<and> relative_path env c (as_path e) = Inr np"
  by (auto simp: judge_def verdict_def Let_def res_simps split: if_splits)

section \<open>Properties of the decision\<close>

text \<open>
  C7: what is added or removed follows the snapshot, not the notifications: a module is only added
  when its file is in the snapshot and is not a target, and only removed when its file is absent
  from the snapshot and is a target; a stale notification of a removal never drops an existing file.
\<close>

theorem actions_follow_snapshot:
  assumes "get_reload_actions env g events files = Inr a"
  shows "(\<forall>p \<in> set (needs_add a). np_mem p files \<and> \<not> contains_source_path (np_normal p) (gh_targets g)) \<and>
    (\<forall>p \<in> set (needs_remove a). \<not> np_mem p files \<and> contains_source_path (np_normal p) (gh_targets g))"
  using assms
proof (rule get_reload_actions_cases)
  fix es b recovery
  assume es: "res_map (reconcile env g files) events = Inr es"
    and b: "classify (se_classify env) (gh_classifier g) (gh_targets g) (bs_collect es) = Inr b"
    and a: "a = add_policy g \<lparr>needs_restart = push_new (needs_restart b) recovery,
        needs_reload = (if op_auto_reload (gh_opts g) then needs_reload b else []),
        needs_add = push_new (needs_add b) (missed_adds env g files),
        needs_remove = push_new (needs_remove b) (missed_removes env g files)\<rparr>"
  have add: "np_mem p files \<and> \<not> contains_source_path (np_normal p) (gh_targets g)" if "p \<in> set (needs_add b)" for p
    using that reconciled_event [OF es] by (auto simp: classify_member(3) [OF b] dest!: judged_add)
  have rem: "\<not> np_mem p files \<and> contains_source_path (np_normal p) (gh_targets g)" if "p \<in> set (needs_remove b)" for p
    using that reconciled_event [OF es] by (auto simp: classify_member(4) [OF b] dest!: judged_remove)
  have "p \<in> set (needs_add b) \<or> p \<in> set (missed_adds env g files)" if "p \<in> set (needs_add a)" for p
    using that push_new_subset by (fastforce simp: a dest: add_policy_fields(2))
  moreover have "p \<in> set (needs_remove b) \<or> p \<in> set (missed_removes env g files)" if "p \<in> set (needs_remove a)" for p
    using that push_new_subset by (fastforce simp: a add_policy_fields(1))
  ultimately show ?thesis
    using add rem np_mem_in [of _ files] unfolding missed_adds_def missed_removes_def np_difference_def by fastforce
qed

definition demo_new_np :: normal_path where
  "demo_new_np = \<lparr>np_normal = demo_new_file, np_relative = None\<rparr>"

text \<open>A notification of a removal that came late: the file is there, so it is added.\<close>

theorem actions_follow_snapshot_witness:
  "\<exists>a. get_reload_actions demo_senv demo_session [Remove demo_new_file] [demo_new_np] = Inr a
     \<and> needs_add a \<noteq> [] \<and> (\<forall>p \<in> set (needs_add a). np_mem p [demo_new_np])"
proof -
  have a: "get_reload_actions demo_senv demo_session [Remove demo_new_file] [demo_new_np]
      = Inr \<lparr>needs_restart = [], needs_reload = [], needs_add = [demo_new_np], needs_remove = []\<rparr>"
    by code_simp
  from actions_follow_snapshot [OF a] a show ?thesis by simp
qed

text \<open>
  C8: no difference between the snapshot and the last accepted files is lost, with or without a
  notification: a target source not accepted yet and not a target is added, or restarts the session
  (where additions do), and an accepted one that is gone and still a target is removed.
\<close>

theorem snapshot_differences_scheduled:
  assumes "get_reload_actions env g events files = Inr a" and "is_target env g p"
  shows "(p \<in> set files \<and> \<not> np_mem p (gh_known g) \<and> \<not> contains_source_path (np_normal p) (gh_targets g)
      \<longrightarrow> np_mem p (needs_add a) \<or> np_mem p (needs_restart a)) \<and>
    (p \<in> set (gh_known g) \<and> \<not> np_mem p files \<and> contains_source_path (np_normal p) (gh_targets g)
      \<longrightarrow> np_mem p (needs_remove a))"
  using assms(1)
proof (rule get_reload_actions_cases)
  fix es b recovery
  assume a: "a = add_policy g \<lparr>needs_restart = push_new (needs_restart b) recovery,
        needs_reload = (if op_auto_reload (gh_opts g) then needs_reload b else []),
        needs_add = push_new (needs_add b) (missed_adds env g files),
        needs_remove = push_new (needs_remove b) (missed_removes env g files)\<rparr>"
  define added where "added = push_new (needs_add b) (missed_adds env g files)"
  have "np_mem p (needs_add a) \<or> np_mem p (needs_restart a)"
    if "p \<in> set files" "\<not> np_mem p (gh_known g)" "\<not> contains_source_path (np_normal p) (gh_targets g)"
  proof -
    have "np_mem p (missed_adds env g files)"
      using that assms(2) by (intro np_mem_in) (simp add: missed_adds_def np_difference_def)
    then have "np_mem p added"
      by (simp add: added_def np_mem_push_new)
    then show ?thesis
      unfolding a added_def [symmetric] using that(2) by (intro add_policy_fields(3)) simp_all
  qed
  moreover have "np_mem p (needs_remove a)"
    if "p \<in> set (gh_known g)" "\<not> np_mem p files" "contains_source_path (np_normal p) (gh_targets g)"
  proof -
    have "np_mem p (missed_removes env g files)"
      using that assms(2) by (intro np_mem_in) (simp add: missed_removes_def np_difference_def)
    then show ?thesis
      by (simp add: a add_policy_fields(1) np_mem_push_new)
  qed
  ultimately show ?thesis
    by blast
qed

text \<open>A new file is found without any notification, also when additions restart the session.\<close>

theorem snapshot_differences_scheduled_witness:
  "\<exists>a. get_reload_actions demo_senv (demo_session\<lparr>gh_opts := demo_opts\<lparr>op_restart_on_add := True\<rparr>\<rparr>) [] [demo_new_np] = Inr a
     \<and> np_mem demo_new_np (needs_restart a)"
proof -
  let ?g = "demo_session\<lparr>gh_opts := demo_opts\<lparr>op_restart_on_add := True\<rparr>\<rparr>"
  have a: "get_reload_actions demo_senv ?g [] [demo_new_np]
      = Inr \<lparr>needs_restart = [demo_new_np], needs_reload = [], needs_add = [], needs_remove = []\<rparr>"
    by code_simp
  have "is_target demo_senv ?g demo_new_np" "\<not> np_mem demo_new_np (gh_known ?g)"
    "\<not> contains_source_path (np_normal demo_new_np) (gh_targets ?g)"
    by code_simp+
  with snapshot_differences_scheduled [OF a] a show ?thesis by (simp add: np_mem_def)
qed

section \<open>What is remembered as accepted\<close>

lemma known_kept: "rel same_known m \<Longrightarrow> m (g, log) = ((g', log'), r) \<Longrightarrow> gh_known g' = gh_known g"
  by (drule (1) relD) (simp add: same_known_def)

lemma targets_kept:
  "rel same_targets m \<Longrightarrow> m (g, log) = ((g', log'), r) \<Longrightarrow>
   gh_targets g' = gh_targets g \<and> gh_known g' = gh_known g"
  by (drule (1) relD) (simp add: same_targets_def)

lemma add_modules_unresolved:
  assumes "add_modules env ps (g, log) = ((g', log'), Done rejected)"
  shows "rejected = unresolved ps (gh_targets g')"
proof -
  define conclusion where "conclusion =
     abind (aget gh_targets) (\<lambda>targets.
       athen (log_put (if unresolved ps targets = [] then fill_empty_summary else mark_failed)) (
       athen (refresh_eval_commands_for_paths env
               (filter (\<lambda>p. contains_source_path (np_normal p) targets) ps))
         (aret (unresolved ps targets))))"
  obtain h l where "conclusion (h, l) = ((g', log'), Done rejected)"
    using assms unfolding add_modules_def conclusion_def [symmetric] abind_aget
    by (auto simp: abind_Done_iff [where y = rejected] athen_Done_iff [where y = rejected] split: if_splits)
  then obtain l2 where
    "refresh_eval_commands_for_paths env
       (filter (\<lambda>p. contains_source_path (np_normal p) (gh_targets h)) ps) (h, l2) = ((g', log'), Done ())"
    and r: "rejected = unresolved ps (gh_targets h)"
    unfolding conclusion_def abind_aget athen_log_put by (auto simp: athen_Done_iff)
  from targets_kept [OF tg.rel_refresh_eval_paths this(1)] r show ?thesis by simp
qed

lemma np_mem_fold_remove:
  "np_mem p (fold np_remove ps files) \<longleftrightarrow> np_mem p files \<and> \<not> np_mem p ps"
  by (induction ps arbitrary: files) (auto simp: np_remove_def np_mem_def normal_path_eq_def list_ex_iff)

lemma unresolved_Nil [simp]: "unresolved [] targets = []"
  by (simp add: unresolved_def)

text \<open>Removing modules: the command was written, and the paths are no targets any more.\<close>

lemma contains_fold_remove:
  "contains_source_path p (fold (\<lambda>q ts. snd (remove_source_path (f q) ts)) qs ts) \<longleftrightarrow>
   contains_source_path p ts \<and> p \<notin> f ` set qs"
  by (induction qs arbitrary: ts) (auto simp: contains_source_path_def ms.get_rem split: if_splits)

definition unadd_line :: "ghci \<Rightarrow> normal_path list \<Rightarrow> string" where
  "unadd_line g ps = modules_line '':unadd '' (map (\<lambda>p. get_import_name p (gh_targets g)) ps)"

lemma progress_line_written:
  assumes "write_line_with_progress_timeout env l t b (g, log) = ((g', log'), Done status)"
  shows "\<exists>t. gh_hist g' = gh_hist g @ Did ClearStderr # Did (WriteStdin l) # t"
proof -
  let ?h = "g\<lparr>gh_hist := gh_hist g @ [Did ClearStderr, Did (WriteStdin l)]\<rparr>"
  from assms have rest: "prompt_with_progress_timeout env t b (?h, log) = ((g', log'), Done status)"
    by (auto simp: write_line_with_progress_timeout_def athen_Done_iff ask_Done_iff record_action_def)
  have "rel grows (prompt_with_progress_timeout env t b)"
    unfolding prompt_with_progress_timeout_def
    by (intro hi.dialogue_rules) (auto split: progress.split intro!: hi.dialogue_rules hi.rel_parse_into_log)
  from relD [OF this rest] show ?thesis by (auto simp: grows_def prefix_def)
qed

lemma remove_modules_Done:
  assumes "remove_modules env ps (g, log) = ((g', log'), Done ())"
  shows "(\<exists>t. gh_hist g' = gh_hist g @ Did ClearStderr # Did (WriteStdin (unadd_line g ps)) # t) \<and>
    (\<forall>p \<in> set ps. \<not> contains_source_path (np_normal p) (gh_targets g'))"
proof -
  from assms obtain h l status where h: "stdin_remove_modules env (map (\<lambda>p. get_import_name p (gh_targets g)) ps)
      CompilationTimer (op_interrupt_on_error (gh_opts g)) (g, log) = ((h, l), Done status)"
    and rest: "athen (settle_compilation env status) (
      athen (aput (\<lambda>g. g\<lparr>gh_targets := fold (\<lambda>p ts. snd (remove_source_path (np_normal p) ts)) ps (gh_targets g)\<rparr>))
        (clear_eval_commands_for_paths ps)) (h, l) = ((g', log'), Done ())"
    by (auto simp: remove_modules_def abind_aget abind_Done_iff)
  from rest obtain u lu where u: "settle_compilation env status (h, l) = ((u, lu), Done ())"
    and last: "clear_eval_commands_for_paths ps
      (u\<lparr>gh_targets := fold (\<lambda>p ts. snd (remove_source_path (np_normal p) ts)) ps (gh_targets u)\<rparr>, lu) = ((g', log'), Done ())"
    by (auto simp: athen_Done_iff)
  have "prefix (gh_hist h) (gh_hist g')"
    using relD [OF hi.rel_settle u] relD [OF hi.rel_clear_eval last] by (auto simp: grows_def intro: prefix_order.trans)
  moreover obtain t where "gh_hist h = gh_hist g @ Did ClearStderr # Did (WriteStdin (unadd_line g ps)) # t"
    using progress_line_written h unfolding stdin_remove_modules_def unadd_line_def by blast
  moreover have "gh_targets g' = fold (\<lambda>p ts. snd (remove_source_path (np_normal p) ts)) ps (gh_targets u)"
    using relD [OF tg.rel_clear_eval last] by (simp add: same_targets_def)
  ultimately show ?thesis by (auto simp: prefix_def contains_fold_remove)
qed

text \<open>
  C9: the accepted files change only once every removal and addition was performed. However the
  attempt ends (error, interruption, panic), either they are the old ones and it did not succeed; or
  the removals were written to GHCi and the removed files are no targets any more, then the
  additions were performed, and the accepted files are exactly those of the snapshot without
  the additions GHCi does not list among its targets.
\<close>

theorem reload_commits_accepted:
  assumes "reload_targets_and_sync env a files (g, log) = ((g', log'), r)"
  shows "gh_known g' = gh_known g \<and> r \<noteq> Done () \<or>
    (\<exists>h l rejected.
       (if needs_remove a = [] then h = g
        else (\<exists>t. gh_hist h = gh_hist g @ Did ClearStderr # Did (WriteStdin (unadd_line g (needs_remove a))) # t) \<and>
          (\<forall>p \<in> set (needs_remove a). \<not> contains_source_path (np_normal p) (gh_targets h))) \<and>
       (if needs_add a = [] then rejected = []
        else \<exists>w. add_modules env (needs_add a) (h, l) = (w, Done rejected)) \<and>
       rejected = filter (\<lambda>p. \<not> contains_source_path (np_normal p) (gh_targets g')) (needs_add a) \<and>
       (\<forall>p. np_mem p (gh_known g') \<longleftrightarrow> np_mem p files \<and> \<not> np_mem p rejected))"
proof -
  let ?remove = "if needs_remove a \<noteq> [] then remove_modules env (needs_remove a) else aret ()"
  let ?add = "if needs_add a \<noteq> [] then add_modules env (needs_add a) else aret []"
  let ?rest = "if needs_reload a \<noteq> []
     then abind (reload_targets env) (\<lambda>status.
       if status \<noteq> ErrorStatus then refresh_eval_commands_for_paths env (needs_reload a) else aret ())
     else aret ()"
  have remove: "rel same_known ?remove"
    by (auto intro!: kn.rel_remove_modules kn.rel_aret)
  have add: "rel same_known ?add"
    by (auto intro!: kn.rel_add_modules kn.rel_aret)
  have rest: "rel same_targets ?rest"
    by (auto intro!: tg.rel_abind tg.rel_reload_targets tg.rel_refresh_eval_paths tg.rel_aret)
  note run = assms [unfolded reload_targets_and_sync_def athen_def [of "if needs_remove a \<noteq> [] then _ else _"]]
  from remove run show ?thesis
  proof (cases rule: abind_related)
    case (continued h l u)
    note removed = continued
    have h: "if needs_remove a = [] then h = g
        else (\<exists>t. gh_hist h = gh_hist g @ Did ClearStderr # Did (WriteStdin (unadd_line g (needs_remove a))) # t) \<and>
          (\<forall>p \<in> set (needs_remove a). \<not> contains_source_path (np_normal p) (gh_targets h))"
      using removed(1) remove_modules_Done [of env "needs_remove a" g log h l] by auto
    from add removed(3) show ?thesis
    proof (cases rule: abind_related)
      case (continued h' l' rejected)
      have unresolved: "rejected = unresolved (needs_add a) (gh_targets h')"
        using continued(1) add_modules_unresolved by (auto split: if_splits)
      have performed: "if needs_add a = [] then rejected = [] else \<exists>w. add_modules env (needs_add a) (h, l) = (w, Done rejected)"
        using continued(1) by auto
      from targets_kept [OF rest continued(3) [unfolded athen_aput]]
      have "gh_targets g' = gh_targets h'" "gh_known g' = fold np_remove rejected files" by simp_all
      with unresolved have "rejected = filter (\<lambda>p. \<not> contains_source_path (np_normal p) (gh_targets g')) (needs_add a)"
        "\<forall>p. np_mem p (gh_known g') \<longleftrightarrow> np_mem p files \<and> \<not> np_mem p rejected"
        by (simp_all add: unresolved_def np_mem_fold_remove)
      with h performed show ?thesis by blast
    qed (use removed(2) in \<open>simp add: same_known_def\<close>)
  qed (simp add: same_known_def)
qed

text \<open>GHCi refuses the new module: it stays unaccepted, so that a later batch adds it again.\<close>

theorem reload_commits_accepted_witness:
  "gh_known (fst (fst (reload_targets_and_sync (demo_senv\<lparr>se_parse_target_lines := (\<lambda>_. Inr [])\<rparr>)
     \<lparr>needs_restart = [], needs_reload = [], needs_add = [demo_new_np], needs_remove = []\<rparr> [demo_new_np]
     (demo_session, compilation_log_default)))) = []"
proof -
  let ?env = "demo_senv\<lparr>se_parse_target_lines := (\<lambda>_. Inr [])\<rparr>"
  let ?a = "\<lparr>needs_restart = [], needs_reload = [], needs_add = [demo_new_np], needs_remove = []\<rparr>"
  let ?run = "reload_targets_and_sync ?env ?a [demo_new_np] (demo_session, compilation_log_default)"
  obtain g' log' r where run: "?run = ((g', log'), r)"
    by (metis prod.collapse)
  have "gh_targets (fst (fst ?run)) = []" by code_simp
  then have "gh_targets g' = []" using run by simp
  with reload_commits_accepted [OF run] have "\<forall>p. \<not> np_mem p (gh_known g')"
    by (auto simp: demo_session_def np_mem_def contains_source_path_def get_module_def)
  then have "gh_known g' = []"
    by (cases "gh_known g'") (auto simp: np_mem_def normal_path_eq_def)
  then show ?thesis using run by simp
qed

end
