(* ===== verification/WellFormed.thy ===== *)
theory WellFormed
  imports SessionFrames
begin

text \<open>
  What every operation the manager calls keeps of a session: its targets stay a set keyed by path, and
  its eval commands an index in path order whose entries have commands.
\<close>

definition well_formed :: "ghci \<Rightarrow> bool" where
  "well_formed g \<longleftrightarrow> module_set_inv (gh_targets g) \<and> eval_index_ok (gh_eval_commands g)"

definition keeps_form :: "ghci \<Rightarrow> ghci \<Rightarrow> status \<Rightarrow> bool" where
  "keeps_form g g' s \<longleftrightarrow> (well_formed g \<longrightarrow> well_formed g')"

interpretation wf: session_relation keeps_form
  by unfold_locales (auto simp: keeps_form_def)

interpretation wf: target_free_crashing keeps_form
  by unfold_locales (auto simp: keeps_form_def well_formed_def record_action_def)

interpretation wf: finishing keeps_form "\<lambda>_. True"
  by unfold_locales (auto simp: keeps_form_def well_formed_def record_action_def)

interpretation wf: lifecycle keeps_form "\<lambda>_. True"
  by unfold_locales
     (auto simp: keeps_form_def well_formed_def fresh_session_def module_set_inv_def eval_index_Nil)

text \<open>The calls of the manager (\<open>src/src/ghci/manager.rs\<close>).\<close>

inductive manager_call :: "session_env \<Rightarrow> unit act \<Rightarrow> bool" for env where
  call_new: "manager_call env (session_new env)"
| call_initialize: "manager_call env (initialize env events files)"
| call_reload: "manager_call env (reload env events haskell_files snapshot)"
| call_startup_restart: "manager_call env (startup_restart env haskell_files)"
| call_recovery_restart: "manager_call env (restart_after_recovery_kill env files)"
| call_interrupt: "manager_call env (send_sigint env)"
| call_finish_interrupted: "manager_call env (finish_interrupted_reload env available)"
| call_debug_memory: "manager_call env (debug_memory_reload env)"

text \<open>
  C15: a session stays well-formed: whatever the manager calls, however GHCi, hooks and the operating
  system answer, and however the call ends (also dropped at an await, or by a panic), no path is
  listed twice among the targets and the eval commands are an ordered index of non-empty entries.
\<close>

theorem session_stays_well_formed:
  assumes "manager_call env call" and "well_formed g" and "call (g, log) = ((g', log'), r)"
  shows "well_formed g'"
proof -
  have "rel keeps_form call"
    using assms(1)
  proof cases
    case call_debug_memory
    then show ?thesis by (simp add: wf.rel_debug_memory)
  qed (simp_all add: wf.rel_session_new wf.rel_setup_run wf.rel_initialize wf.rel_reload wf.rel_startup_restart
      wf.rel_restart_after wf.rel_send_sigint wf.rel_finish_interrupted)
  from relD [OF this assms(3)] assms(2) show ?thesis by (simp add: keeps_form_def)
qed

text \<open>A reload that adds the new module.\<close>

theorem session_stays_well_formed_witness:
  "\<exists>g. g = fst (fst (reload demo_senv [Modify demo_new_file] [demo_new_file] []
      (demo_session, compilation_log_default))) \<and> gh_targets g \<noteq> [] \<and> well_formed g"
proof -
  let ?run = "reload demo_senv [Modify demo_new_file] [demo_new_file] [] (demo_session, compilation_log_default)"
  obtain g' log' r where run: "?run = ((g', log'), r)"
    by (metis prod.collapse)
  have "gh_targets (fst (fst ?run)) \<noteq> []" by code_simp
  moreover have "well_formed demo_session"
    by (simp add: well_formed_def demo_session_def module_set_inv_def eval_index_Nil)
  then have "well_formed g'" by (rule session_stays_well_formed [OF call_reload _ run])
  ultimately show ?thesis using run by simp
qed

end
