(* ===== verification/Watcher.thy ===== *)
theory Watcher
  imports WatcherEvent Classifier ErrorLog
begin

text \<open>
  \<open>src/src/watcher.rs\<close>: what becomes of notifications. The file system is read in phases; each phase
  is a file system of its own, since files can change between them. Installing watches and the
  channel to the manager are parameters.
\<close>

section \<open>Scanning for sources\<close>

text \<open>
  \<open>wk_opaque d n\<close> is the outcome of visiting an entry of \<open>d\<close> whose path is not UTF-8, when \<open>n\<close>
  entries are left: such a path, and all below it, holds no source, but can fail.
\<close>

record walk_env =
  wk_fs :: fs_env
  wk_opaque :: "path \<Rightarrow> nat \<Rightarrow> unit res"

text \<open>\<open>visit\<close> follows symbolic links, to directories too. The fuel bounds the depth.\<close>

fun visit :: "nat \<Rightarrow> walk_env \<Rightarrow> path \<Rightarrow> source_snapshot \<Rightarrow> source_snapshot res option"
and visit_entries ::
  "nat \<Rightarrow> walk_env \<Rightarrow> path \<Rightarrow> dir_entry res list \<Rightarrow> source_snapshot \<Rightarrow> source_snapshot res option" where
  "visit 0 w p files = None"
| "visit (Suc fuel) w p files =
     ores_bind (Some (fsenv_metadata (wk_fs w) p)) (\<lambda>m.
     if m = None then Some (Inr files)
     else if m = Some MetaDir
     then ores_bind (Some (fsenv_read_dir (wk_fs w) p)) (\<lambda>entries. visit_entries fuel w p entries files)
     else if is_haskell_source_file p
     then ores_bind (Some (capture (wk_fs w) p)) (\<lambda>s. Some (Inr (bm_insert p s files)))
     else Some (Inr files))"
| "visit_entries fuel w d [] files = Some (Inr files)"
| "visit_entries fuel w d (entry # entries) files =
     ores_bind (Some entry) (\<lambda>e.
     case de_path e of
       Utf8Path p \<Rightarrow> ores_bind (visit fuel w p files) (\<lambda>files'. visit_entries fuel w d entries files')
     | NotUtf8 \<Rightarrow> ores_bind (Some (wk_opaque w d (length entries))) (\<lambda>_. visit_entries fuel w d entries files))"

fun visit_roots :: "nat \<Rightarrow> walk_env \<Rightarrow> normal_path list \<Rightarrow> source_snapshot \<Rightarrow> source_snapshot res option" where
  "visit_roots fuel w [] files = Some (Inr files)"
| "visit_roots fuel w (root # roots) files =
     ores_bind (visit fuel w (np_normal root) files) (\<lambda>files'. visit_roots fuel w roots files')"

definition scan_haskell_files :: "nat \<Rightarrow> walk_env \<Rightarrow> normal_path list \<Rightarrow> source_snapshot res option" where
  "scan_haskell_files fuel w roots = visit_roots fuel w roots []"

section \<open>Sending events\<close>

text \<open>\<open>Inr None\<close>: nothing to send. The channel is closed once the manager is gone.\<close>

definition send_event ::
  "nat \<Rightarrow> (nat \<Rightarrow> walk_env) \<Rightarrow> bool \<Rightarrow> normal_path list \<Rightarrow> file_event list \<Rightarrow> bool
   \<Rightarrow> watcher_event option res option" where
  "send_event fuel at manager_gone watch events startup_retry =
     (if events = [] then Some (Inr None)
      else ores_bind (Some (file_states (wk_fs (at 0)) events)) (\<lambda>states.
        ores_bind (scan_haskell_files fuel (at 1) watch) (\<lambda>snapshot.
          if manager_gone then Some (Inl (IoError ''channel closed''))
          else Some (Inr (Some
            \<lparr>we_events = events, we_states = states, we_haskell_files = map fst snapshot,
             we_source_snapshot = snapshot, we_startup_retry = startup_retry\<rparr>)))))"

section \<open>Notifications\<close>

text \<open>The kind of an error of the \<open>notify\<close> crate; an I/O error says whether something was not found.\<close>

datatype notify_error = NotifyIo bool | NotifyPathNotFound | NotifyWatchNotFound | NotifyOther

fun notify_error_is_fatal :: "notify_error \<Rightarrow> bool" where
  "notify_error_is_fatal (NotifyIo not_found) = (\<not> not_found)"
| "notify_error_is_fatal NotifyPathNotFound = False"
| "notify_error_is_fatal NotifyWatchNotFound = False"
| "notify_error_is_fatal NotifyOther = True"

type_synonym debounced = "notify_error list + (event_kind \<times> raw_path list) list"

definition process_debounced_events :: "(path \<Rightarrow> bool) \<Rightarrow> debounced \<Rightarrow> file_event list res" where
  "process_debounced_events path_exists event =
     (case event of
        Inl errors \<Rightarrow>
          if list_ex notify_error_is_fatal errors then Inl (IoError ''Watching files failed'') else Inr []
      | Inr events \<Rightarrow> file_events_from_action path_exists events)"

record event_handler =
  eh_watch :: "normal_path list"
  eh_classifier :: file_classifier
  eh_setup_updates :: bool
  eh_error_path :: "normal_path option"
  eh_content :: source_snapshot

text \<open>Our own publication of errors: the error file, or a temporary file beside it.\<close>

definition own_publication :: "32 word \<Rightarrow> normal_path option \<Rightarrow> path \<Rightarrow> bool" where
  "own_publication pid error_path p =
     (case error_path of
        None \<Rightarrow> False
      | Some np \<Rightarrow>
          p = np_normal np \<or>
          (parent p = parent (np_normal np) \<and>
           (case file_name p of
              None \<Rightarrow> False
            | Some name \<Rightarrow>
                prefix (''.'' @ (case file_name (np_normal np) of Some n \<Rightarrow> n | None \<Rightarrow> ''compile'')
                  @ ''.ghciwatch-'' @ show_nat (unat pid) @ ''-'') name
                \<and> suffix ''.tmp'' name)))"

fun relevant_events ::
  "classify_env \<Rightarrow> file_classifier \<Rightarrow> file_event list \<Rightarrow> file_event list \<Rightarrow> file_event list res" where
  "relevant_events env c [] acc = Inr acc"
| "relevant_events env c (e # es) acc =
     res_bind (is_potentially_relevant env c e) (\<lambda>b.
       relevant_events env c es (if b then bs_insert e acc else acc))"

text \<open>
  The baseline after \<open>observe\<close>: what was observed before a failing scan stays in it.
\<close>

fun observe_kept :: "nat \<Rightarrow> fs_env \<Rightarrow> source_snapshot \<Rightarrow> file_event list \<Rightarrow> source_snapshot" where
  "observe_kept fuel fs files [] = files"
| "observe_kept fuel fs files (e # es) =
     (case scan fuel fs (as_path e) [] of
        Some (Inr current) \<Rightarrow> observe_kept fuel fs (fst (observe_event (as_path e) current files [])) es
      | _ \<Rightarrow> files)"

text \<open>What the handler needs from outside; \<open>wt_at n\<close> is the file system in the \<open>n\<close>th phase.\<close>

record watch_env =
  wt_at :: "nat \<Rightarrow> walk_env"
  wt_exists :: "path \<Rightarrow> bool"
  wt_classify :: classify_env
  wt_process_id :: "32 word"
  wt_manager_gone :: bool

text \<open>The result of a notification: whether setup is woken, and what is sent.\<close>

definition handle_event_inner ::
  "nat \<Rightarrow> watch_env \<Rightarrow> event_handler \<Rightarrow> debounced
   \<Rightarrow> event_handler \<times> bool \<times> watcher_event option res option" where
  "handle_event_inner fuel env h event =
     (case process_debounced_events (wt_exists env) event of
        Inl e \<Rightarrow> (h, False, Some (Inl e))
      | Inr events \<Rightarrow>
          let h' = h\<lparr>eh_content := observe_kept fuel (wk_fs (wt_at env 0)) (eh_content h) events\<rparr> in
          (case observe fuel (wk_fs (wt_at env 0)) (eh_content h) events of
             None \<Rightarrow> (h', False, None)
           | Some (Inl e) \<Rightarrow> (h', False, Some (Inl e))
           | Some (Inr (_, changed)) \<Rightarrow>
               (h',
                eh_setup_updates h \<and>
                  list_ex (\<lambda>e. \<not> own_publication (wt_process_id env) (eh_error_path h) (as_path e)) changed,
                ores_bind (Some (relevant_events (wt_classify env) (eh_classifier h) changed [])) (\<lambda>relevant.
                  send_event fuel (\<lambda>n. wt_at env (Suc n)) (wt_manager_gone env) (eh_watch h) relevant False))))"

text \<open>An error ends the program: shutdown is requested.\<close>

definition handle_event ::
  "nat \<Rightarrow> watch_env \<Rightarrow> event_handler \<Rightarrow> debounced
   \<Rightarrow> (event_handler \<times> bool \<times> watcher_event option \<times> bool) option" where
  "handle_event fuel env h event =
     (case handle_event_inner fuel env h event of
        (h', woken, r) \<Rightarrow>
          (case r of
             None \<Rightarrow> None
           | Some (Inl _) \<Rightarrow> Some (h', woken, None, True)
           | Some (Inr sent) \<Rightarrow> Some (h', woken, sent, False)))"

section \<open>Retrying a failed start\<close>

record retry_handler =
  rh_watch :: "normal_path list"
  rh_files :: "path list"
  rh_baseline :: source_snapshot

text \<open>Errors of a retry watch only leave the event out.\<close>

definition retry_handle_event ::
  "nat \<Rightarrow> watch_env \<Rightarrow> retry_handler \<Rightarrow> debounced \<Rightarrow> watcher_event option option" where
  "retry_handle_event fuel env h event =
     (case ores_bind (Some (process_debounced_events (wt_exists env) event)) (\<lambda>events.
        let ours = filter (\<lambda>e. as_path e \<in> set (rh_files h)) events in
        ores_bind (Some (file_states (wk_fs (wt_at env 0)) ours)) (\<lambda>states.
          send_event fuel (\<lambda>n. wt_at env (Suc n)) (wt_manager_gone env) (rh_watch h)
            (filter (\<lambda>e. map_of states (as_path e) \<noteq> map_of (rh_baseline h) (as_path e)) ours) True)) of
        None \<Rightarrow> None
      | Some (Inl _) \<Rightarrow> Some None
      | Some (Inr sent) \<Rightarrow> Some sent)"

text \<open>\<open>install\<close> is the outcome of watching the directories of the files.\<close>

definition startup_retry_debouncer ::
  "fs_env \<Rightarrow> (path list \<Rightarrow> unit res) \<Rightarrow> normal_path list \<Rightarrow> path list \<Rightarrow> retry_handler res" where
  "startup_retry_debouncer fs install watch files =
     res_bind (file_states fs (bs_collect (map Modify files))) (\<lambda>baseline.
     res_bind (install (bs_collect (List.map_filter parent files))) (\<lambda>_.
       Inr \<lparr>rh_watch = watch, rh_files = files, rh_baseline = baseline\<rparr>))"

section \<open>Commands of the manager\<close>

definition changed_paths :: "source_snapshot \<Rightarrow> source_snapshot \<Rightarrow> path list" where
  "changed_paths expected current =
     bs_collect (filter (\<lambda>p. map_of expected p \<noteq> map_of current p) (map fst expected @ map fst current))"

text \<open>The synthetic events of a mismatch.\<close>

definition mismatch_event :: "source_snapshot \<Rightarrow> path \<Rightarrow> file_event" where
  "mismatch_event current p = (if map_of current p \<noteq> None then Modify p else Remove p)"

definition validate_source_snapshot ::
  "nat \<Rightarrow> watch_env \<Rightarrow> normal_path list \<Rightarrow> file_classifier \<Rightarrow> source_snapshot
   \<Rightarrow> (bool \<times> watcher_event option) res option" where
  "validate_source_snapshot fuel env watch c expected =
     ores_bind (scan_haskell_files fuel (wt_at env 0) watch) (\<lambda>current.
     ores_bind (Some (relevant_events (wt_classify env) c
         (map (mismatch_event current) (changed_paths expected current)) [])) (\<lambda>events.
       if events = [] then Some (Inr (True, None))
       else ores_bind (send_event fuel (\<lambda>n. wt_at env (Suc n)) (wt_manager_gone env) watch events False)
         (\<lambda>sent. Some (Inr (False, sent)))))"

datatype watcher_command =
    SetStartupRetryFiles "path list"
  | ClearStartupRetryFiles
  | ValidateSourceSnapshot source_snapshot

datatype watcher_ack = RetryInstalled "unit res" | RetryCleared | SnapshotCurrent "bool res"

text \<open>One command of \<open>run_debouncer\<close>: the retry watch it leaves, its answer and what it sends.\<close>

definition watcher_step ::
  "nat \<Rightarrow> watch_env \<Rightarrow> (path list \<Rightarrow> unit res) \<Rightarrow> event_handler \<Rightarrow> retry_handler option \<Rightarrow> watcher_command
   \<Rightarrow> (retry_handler option \<times> watcher_ack \<times> watcher_event option) option" where
  "watcher_step fuel env install h retry command =
     (case command of
        SetStartupRetryFiles files \<Rightarrow>
          Some (if files = [] then (None, RetryInstalled (Inr ()), None)
            else (case startup_retry_debouncer (wk_fs (wt_at env 0)) install (eh_watch h) files of
                Inr new \<Rightarrow> (Some new, RetryInstalled (Inr ()), None)
              | Inl e \<Rightarrow> (retry, RetryInstalled (Inl e), None)))
      | ClearStartupRetryFiles \<Rightarrow> Some (None, RetryCleared, None)
      | ValidateSourceSnapshot expected \<Rightarrow>
          (case validate_source_snapshot fuel env (eh_watch h) (eh_classifier h) expected of
             None \<Rightarrow> None
           | Some (Inl e) \<Rightarrow> Some (retry, SnapshotCurrent (Inl e), None)
           | Some (Inr (current, sent)) \<Rightarrow> Some (retry, SnapshotCurrent (Inr current), sent)))"

end
