(* ===== verification/WatcherProps.thy ===== *)
theory WatcherProps
  imports Watcher EventsProps
begin

text \<open>
  What the watcher promises: a snapshot holds exactly the sources below the watched roots, a mismatch
  is reported together with the event that repairs it, our own files wake nothing; and what a link
  to an ancestor directory does.
\<close>

section \<open>What a scan for sources finds\<close>

text \<open>\<open>source_below w p f\<close>: the source \<open>f\<close> lies below \<open>p\<close>, through directories and links to them.\<close>

definition leads_to :: "walk_env \<Rightarrow> path \<Rightarrow> path \<Rightarrow> bool" where
  "leads_to w p q \<longleftrightarrow>
     fsenv_metadata (wk_fs w) p = Inr (Some MetaDir) \<and>
     (\<exists>entries e. fsenv_read_dir (wk_fs w) p = Inr entries \<and> Inr e \<in> set entries \<and> de_path e = Utf8Path q)"

inductive source_below :: "walk_env \<Rightarrow> path \<Rightarrow> path \<Rightarrow> bool" for w where
  source_here: "fsenv_metadata (wk_fs w) p = Inr (Some m) \<Longrightarrow> m \<noteq> MetaDir \<Longrightarrow> is_haskell_source_file p \<Longrightarrow>
    source_below w p p"
| source_through: "leads_to w p q \<Longrightarrow> source_below w q f \<Longrightarrow> source_below w p f"

inductive_simps source_below_unfold: "source_below w p f"

lemma source_below_file:
  "fsenv_metadata (wk_fs w) p = Inr (Some m) \<Longrightarrow> m \<noteq> MetaDir \<Longrightarrow>
   source_below w p f \<longleftrightarrow> f = p \<and> is_haskell_source_file p"
  by (subst source_below_unfold) (auto simp: leads_to_def)

lemma source_below_nothing: "fsenv_metadata (wk_fs w) p = Inr None \<Longrightarrow> \<not> source_below w p f"
  by (subst source_below_unfold) (auto simp: leads_to_def)

definition entries_lead :: "walk_env \<Rightarrow> dir_entry res list \<Rightarrow> path \<Rightarrow> bool" where
  "entries_lead w entries f \<longleftrightarrow> (\<exists>e q. Inr e \<in> set entries \<and> de_path e = Utf8Path q \<and> source_below w q f)"

lemma source_below_dir:
  "fsenv_metadata (wk_fs w) p = Inr (Some MetaDir) \<Longrightarrow> fsenv_read_dir (wk_fs w) p = Inr entries \<Longrightarrow>
   source_below w p f = entries_lead w entries f"
  by (subst source_below_unfold) (auto simp: leads_to_def entries_lead_def)

lemma entries_lead_Nil [simp]: "\<not> entries_lead w [] f"
  by (simp add: entries_lead_def)

lemma entries_lead_Cons:
  "entries_lead w (Inr e # entries) f \<longleftrightarrow> (\<exists>q. de_path e = Utf8Path q \<and> source_below w q f) \<or> entries_lead w entries f"
  by (auto simp: entries_lead_def)

lemma visit_overlay:
  "visit fuel w p files = Some (Inr files') \<Longrightarrow> bm_inv files \<Longrightarrow>
     overlay (wk_fs w) (source_below w p) files files'"
  "visit_entries fuel w d entries files = Some (Inr files') \<Longrightarrow> bm_inv files \<Longrightarrow>
     overlay (wk_fs w) (entries_lead w entries) files files'"
proof (induction fuel w p files and fuel w d entries files
       arbitrary: files' and files' rule: visit_visit_entries.induct)
  case (2 fuel w p files)
  obtain m where m: "fsenv_metadata (wk_fs w) p = Inr m" using "2.prems"(1) by (auto simp: res_simps)
  consider "m = None" | "m = Some MetaDir" | k where "m = Some k" "k \<noteq> MetaDir"
    by (cases m) auto
  then show ?case
  proof cases
    case 1
    then show ?thesis using "2.prems" m by (auto simp: source_below_nothing intro!: overlay_refl)
  next
    case 2
    then obtain entries where e: "fsenv_read_dir (wk_fs w) p = Inr entries"
      "visit_entries fuel w p entries files = Some (Inr files')"
      using "2.prems"(1) m by (auto simp: res_simps)
    have "source_below w p = entries_lead w entries"
      using 2 m e by (intro ext source_below_dir) simp_all
    then show ?thesis using "2.IH" [of m entries files'] 2 m e "2.prems"(2) by simp
  next
    case (3 k)
    have below: "source_below w p = (\<lambda>f. f = p \<and> is_haskell_source_file p)"
      using source_below_file [of w p k] m 3 by (intro ext) simp
    show ?thesis
    proof (cases "is_haskell_source_file p")
      case True
      with "2.prems" m 3 obtain s where "capture (wk_fs w) p = Inr s" "files' = bm_insert p s files"
        by (auto simp: res_simps)
      then show ?thesis using True "2.prems"(2)
        unfolding below overlay_def by (simp add: bm_inv_insert map_of_bm_insert)
    next
      case False
      with "2.prems" m 3 show ?thesis unfolding below by (auto intro!: overlay_refl)
    qed
  qed
next
  case (4 fuel w d entry entries files)
  obtain e where e: "entry = Inr e" using "4.prems"(1) by (cases entry) auto
  show ?case
  proof (cases "de_path e")
    case NotUtf8
    then have "visit_entries fuel w d entries files = Some (Inr files')"
      using "4.prems"(1) e by (auto simp: res_simps)
    with "4.IH"(3) [of e _ files'] "4.prems" e NotUtf8 have "overlay (wk_fs w) (entries_lead w entries) files files'"
      by (auto simp: res_simps)
    then show ?thesis using NotUtf8 e by (simp add: overlay_def entries_lead_Cons)
  next
    case (Utf8Path q)
    then obtain files1 where s: "visit fuel w q files = Some (Inr files1)"
      "visit_entries fuel w d entries files1 = Some (Inr files')"
      using "4.prems"(1) e by (auto simp: res_simps)
    have o1: "overlay (wk_fs w) (source_below w q) files files1"
      using "4.IH"(1) [of e q files1] e Utf8Path s(1) "4.prems"(2) by simp
    have "overlay (wk_fs w) (entries_lead w entries) files1 files'"
      using "4.IH"(2) [of e q files1 files'] e Utf8Path s o1 by (simp add: overlay_def)
    from overlay_trans [OF o1 this] show ?thesis using e Utf8Path by (auto simp: entries_lead_Cons)
  qed
qed (auto intro: overlay_refl)

lemma visit_roots_overlay:
  "visit_roots fuel w roots files = Some (Inr files') \<Longrightarrow> bm_inv files \<Longrightarrow>
   overlay (wk_fs w) (\<lambda>f. \<exists>r \<in> set roots. source_below w (np_normal r) f) files files'"
proof (induction roots arbitrary: files)
  case (Cons r roots)
  then obtain files1 where s: "visit fuel w (np_normal r) files = Some (Inr files1)"
    "visit_roots fuel w roots files1 = Some (Inr files')"
    by (auto simp: res_simps)
  have o1: "overlay (wk_fs w) (source_below w (np_normal r)) files files1"
    by (rule visit_overlay(1) [OF s(1) Cons.prems(2)])
  with Cons.IH [OF s(2)] have "overlay (wk_fs w) (\<lambda>f. \<exists>r \<in> set roots. source_below w (np_normal r) f) files1 files'"
    by (simp add: overlay_def)
  from overlay_trans [OF o1 this] show ?case by auto
qed (auto intro: overlay_refl)

lemma scan_haskell_overlay:
  "scan_haskell_files fuel w roots = Some (Inr snapshot) \<Longrightarrow>
   overlay (wk_fs w) (\<lambda>f. \<exists>r \<in> set roots. source_below w (np_normal r) f) [] snapshot"
  unfolding scan_haskell_files_def by (rule visit_roots_overlay) simp_all

section \<open>Events that are sent\<close>

lemma relevant_events_spec:
  "relevant_events env c es acc = Inr es' \<Longrightarrow>
   set es' = set acc \<union> {e \<in> set es. is_potentially_relevant env c e = Inr True} \<and> (bs_inv acc \<longrightarrow> bs_inv es')"
proof (induction es arbitrary: acc)
  case (Cons e es)
  then obtain b where b: "is_potentially_relevant env c e = Inr b"
    "relevant_events env c es (if b then bs_insert e acc else acc) = Inr es'"
    unfolding relevant_events.simps res_bind_Inr_iff by blast
  have "{x \<in> set (e # es). is_potentially_relevant env c x = Inr True}
      = (if b then {e} else {}) \<union> {x \<in> set es. is_potentially_relevant env c x = Inr True}"
    using b(1) by auto
  with Cons.IH [OF b(2)] show ?case by (cases b) (simp_all add: bs_inv_insert Un_assoc)
qed simp

lemma set_res_map: "res_map f xs = Inr ys \<Longrightarrow> x \<in> set xs \<Longrightarrow> \<exists>y \<in> set ys. f x = Inr y"
  by (induction xs arbitrary: ys) (auto simp: res_simps)

lemma file_states_exact:
  assumes "file_states fs es = Inr states"
  shows "bm_inv states \<and> (\<forall>e \<in> set es. \<exists>s. capture fs (as_path e) = Inr s \<and> map_of states (as_path e) = Some s)"
proof -
  obtain kvs where kvs: "res_map (\<lambda>e. res_bind (capture fs (as_path e)) (\<lambda>s. Inr (as_path e, s))) es = Inr kvs"
    and states: "states = bm_extend [] kvs"
    using assms by (auto simp: file_states_def res_simps)
  have "\<exists>s. (as_path e, s) \<in> set kvs" if "e \<in> set es" for e
    using set_res_map [OF kvs that] by (auto simp: res_bind_Inr_iff)
  moreover have captured: "\<forall>(k, s) \<in> set kvs. capture fs k = Inr s"
    using kvs by (induction es arbitrary: kvs) (auto simp: res_simps)
  moreover have inv: "bm_inv states" by (simp add: states bm_inv_extend)
  moreover have "fst ` set states = fst ` set kvs"
    unfolding states by (simp add: keys_bm_extend)
  moreover have sub: "set states \<subseteq> set kvs"
    unfolding states using set_bm_extend [of "[]" kvs] by simp
  ultimately have "as_path e \<in> fst ` set states" if "e \<in> set es" for e
    using that by (metis fst_conv image_eqI)
  then have "\<exists>s. map_of states (as_path e) = Some s" if "e \<in> set es" for e
    using that map_of_eq_None_iff [of states "as_path e"] by auto
  then have "\<exists>s. capture fs (as_path e) = Inr s \<and> map_of states (as_path e) = Some s" if "e \<in> set es" for e
    using that map_of_SomeD [of states "as_path e"] captured sub by fast
  with inv show ?thesis by blast
qed

text \<open>What is sent is what merging and discarding in the manager expect.\<close>

lemma send_event_sends:
  assumes "send_event fuel at gone watch events retry = Some (Inr sent)" and "events \<noteq> []"
    and "bs_inv events" and "one_per_path events"
  obtains e where "sent = Some e" and "wf_event e" and "we_events e = events"
    and "scan_haskell_files fuel (at 1) watch = Some (Inr (we_source_snapshot e))"
    and "we_haskell_files e = map fst (we_source_snapshot e)" and "\<not> gone"
proof -
  obtain states snapshot where s: "file_states (wk_fs (at 0)) events = Inr states"
    "scan_haskell_files fuel (at 1) watch = Some (Inr snapshot)" "\<not> gone"
    "sent = Some \<lparr>we_events = events, we_states = states, we_haskell_files = map fst snapshot,
       we_source_snapshot = snapshot, we_startup_retry = retry\<rparr>"
    using assms(1,2) by (auto simp: send_event_def res_simps split: if_splits)
  have "bm_inv snapshot"
    using scan_haskell_overlay [OF s(2)] by (simp add: overlay_def)
  with that s assms(3,4) file_states_exact [OF s(1)] show thesis by (fastforce simp: wf_event_def)
qed

lemma mismatch_path [simp]: "as_path (mismatch_event current p) = p"
  by (simp add: mismatch_event_def)

lemma relevance_by_path: "as_path e = as_path e' \<Longrightarrow> is_potentially_relevant env c e = is_potentially_relevant env c e'"
  by (simp add: is_potentially_relevant_def)

lemma set_changed_paths: "set (changed_paths expected current) = {p. map_of expected p \<noteq> map_of current p}"
proof -
  have "p \<in> fst ` set expected \<or> p \<in> fst ` set current" if "map_of expected p \<noteq> map_of current p" for p
    using that by (metis map_of_eq_None_iff)
  then show ?thesis by (auto simp: changed_paths_def)
qed

definition relevant_path :: "watch_env \<Rightarrow> file_classifier \<Rightarrow> path \<Rightarrow> bool" where
  "relevant_path env c p \<longleftrightarrow> is_potentially_relevant (wt_classify env) c (Modify p) = Inr True"

lemma mismatch_events:
  assumes "relevant_events (wt_classify env) c (map (mismatch_event current) (changed_paths expected current)) [] = Inr es"
  shows "set es = mismatch_event current ` {p. map_of expected p \<noteq> map_of current p \<and> relevant_path env c p}"
    and "bs_inv es" and "one_per_path es"
proof -
  have "is_potentially_relevant (wt_classify env) c (mismatch_event current p) = Inr True \<longleftrightarrow> relevant_path env c p" for p
    unfolding relevant_path_def by (subst relevance_by_path [of _ "Modify p"]) simp_all
  then show *: "set es = mismatch_event current ` {p. map_of expected p \<noteq> map_of current p \<and> relevant_path env c p}"
    using relevant_events_spec [OF assms] by (auto simp: set_changed_paths)
  show "bs_inv es" using relevant_events_spec [OF assms] by (simp add: bs_inv_def)
  show "one_per_path es" unfolding one_per_path_def * by (auto simp: inj_on_def)
qed

section \<open>Properties\<close>

text \<open>
  A directory with a source and a link to itself. The system follows at most two links in a path (on
  Linux, forty).
\<close>

definition link_dir :: path where
  "link_dir = [RootDir, Normal ''src'']"

definition link_source :: path where
  "link_source = link_dir @ [Normal ''A.hs'']"

definition too_many_links :: "path \<Rightarrow> bool" where
  "too_many_links p \<longleftrightarrow> 2 < List.length (filter (\<lambda>c. c = Normal ''up'') p)"

definition link_fs :: fs_env where
  "link_fs =
     \<lparr>fsenv_metadata = (\<lambda>p. if too_many_links p then Inl (IoError ''Too many levels of symbolic links'')
        else Inr (Some (if file_name p = Some ''A.hs'' then MetaFile else MetaDir))),
      fsenv_open = (\<lambda>_. Opened (Inr [])),
      fsenv_read_dir = (\<lambda>p. Inr [Inr \<lparr>de_path = Utf8Path (p @ [Normal ''A.hs'']), de_symlink = False, de_is_dir = False\<rparr>,
        Inr \<lparr>de_path = Utf8Path (p @ [Normal ''up'']), de_symlink = True, de_is_dir = True\<rparr>]),
      fsenv_hash = (\<lambda>_. 7)\<rparr>"

text \<open>The same directory without the link.\<close>

definition plain_fs :: fs_env where
  "plain_fs = link_fs\<lparr>fsenv_read_dir := (\<lambda>p. Inr [Inr \<lparr>de_path = Utf8Path (p @ [Normal ''A.hs'']),
     de_symlink = False, de_is_dir = False\<rparr>])\<rparr>"

definition walk_of :: "fs_env \<Rightarrow> walk_env" where
  "walk_of fs = \<lparr>wk_fs = fs, wk_opaque = (\<lambda>_ _. Inr ())\<rparr>"

definition watch_of :: "fs_env \<Rightarrow> watch_env" where
  "watch_of fs = \<lparr>wt_at = (\<lambda>_. walk_of fs), wt_exists = (\<lambda>_. True), wt_classify = demo_env,
     wt_process_id = 7, wt_manager_gone = False\<rparr>"

definition watched :: "normal_path list" where
  "watched = [\<lparr>np_normal = link_dir, np_relative = None\<rparr>]"

definition source_state :: file_state where
  "source_state = \<lparr>fs_kind = File, fs_content_hash = Some 7\<rparr>"

definition demo_handler :: event_handler where
  "demo_handler = \<lparr>eh_watch = watched, eh_classifier = demo_classifier, eh_setup_updates = False,
     eh_error_path = None, eh_content = []\<rparr>"

text \<open>
  A snapshot holds exactly the Haskell sources that lie below the watched roots, through
  directories and links to them, each with its captured state.
\<close>

theorem scan_haskell_exact:
  assumes "scan_haskell_files fuel w roots = Some (Inr snapshot)"
  shows "map_of snapshot f =
    (if \<exists>r \<in> set roots. source_below w (np_normal r) f
     then (case capture (wk_fs w) f of Inr s \<Rightarrow> Some s | Inl e \<Rightarrow> None) else None)"
proof -
  have "if \<exists>r \<in> set roots. source_below w (np_normal r) f
      then \<exists>s. capture (wk_fs w) f = Inr s \<and> map_of snapshot f = Some s else map_of snapshot f = map_of [] f"
    using scan_haskell_overlay [OF assms] unfolding overlay_def by blast
  then show ?thesis by (auto split: if_splits)
qed

theorem scan_haskell_exact_witness:
  "source_below (walk_of plain_fs) link_dir link_source"
proof -
  have "scan_haskell_files 3 (walk_of plain_fs) watched = Some (Inr [(link_source, source_state)])"
    by code_simp
  from scan_haskell_exact [OF this, of link_source] show ?thesis
    by (auto simp: watched_def split: if_splits)
qed

text \<open>
  C10: the answer to a validation is right, and a mismatch never goes without its repair. The snapshot
  counts as current exactly when no relevant file differs from the fresh scan; otherwise the manager
  has been sent, before the answer, a well-formed event with exactly the relevant differences, each
  as the scan saw it.
\<close>

theorem validate_source_snapshot_exact:
  assumes "scan_haskell_files fuel (wt_at env 0) watch = Some (Inr current)"
    and "validate_source_snapshot fuel env watch c expected = Some (Inr (ok, sent))"
  shows "(ok \<longleftrightarrow> (\<forall>p. relevant_path env c p \<longrightarrow> map_of expected p = map_of current p)) \<and>
    (if ok then sent = None
     else \<exists>e. sent = Some e \<and> wf_event e \<and> \<not> we_startup_retry e \<and> set (we_events e) =
       mismatch_event current ` {p. map_of expected p \<noteq> map_of current p \<and> relevant_path env c p})"
proof -
  obtain es where es: "relevant_events (wt_classify env) c
      (map (mismatch_event current) (changed_paths expected current)) [] = Inr es"
    and rest: "(if es = [] then Some (Inr (True, None))
      else ores_bind (send_event fuel (\<lambda>n. wt_at env (Suc n)) (wt_manager_gone env) watch es False)
        (\<lambda>sent. Some (Inr (False, sent)))) = Some (Inr (ok, sent))"
    using assms by (auto simp: validate_source_snapshot_def res_simps)
  note m = mismatch_events [OF es]
  show ?thesis
  proof (cases "es = []")
    case True
    with rest m(1) show ?thesis by auto
  next
    case False
    with rest have "\<not> ok" and s: "send_event fuel (\<lambda>n. wt_at env (Suc n)) (wt_manager_gone env) watch es False = Some (Inr sent)"
      by (auto simp: res_simps)
    moreover obtain e where "sent = Some e" "wf_event e" "we_events e = es"
      by (rule send_event_sends [OF s False m(2,3)])
    moreover have "\<not> we_startup_retry e" if "sent = Some e" for e
      using s that by (auto simp: send_event_def res_simps split: if_splits)
    moreover have "\<exists>p. relevant_path env c p \<and> map_of expected p \<noteq> map_of current p"
      using m(1) False by (cases es) auto
    ultimately show ?thesis using m(1) by auto
  qed
qed

text \<open>A compilation of no sources, validated when there is one.\<close>

theorem validate_source_snapshot_exact_witness:
  "\<exists>e. validate_source_snapshot 3 (watch_of plain_fs) watched demo_classifier [] = Some (Inr (False, Some e))
     \<and> wf_event e \<and> we_events e \<noteq> []"
proof -
  have scan: "scan_haskell_files 3 (wt_at (watch_of plain_fs) 0) watched = Some (Inr [(link_source, source_state)])"
    by code_simp
  have "validate_source_snapshot 3 (watch_of plain_fs) watched demo_classifier []
      = Some (Inr (False, Some \<lparr>we_events = [Modify link_source], we_states = [(link_source, source_state)],
          we_haskell_files = [link_source], we_source_snapshot = [(link_source, source_state)],
          we_startup_retry = False\<rparr>))"
    by code_simp
  from validate_source_snapshot_exact [OF scan this] this show ?thesis by simp
qed

text \<open>
  Publishing errors does not wake setup. The error file and every temporary file that
  \<open>error_log_write\<close> can use for it count as our own publication.
\<close>

theorem own_files_recognised:
  assumes "file_name (np_normal np) \<noteq> None" and "wenv_process_id wenv = pid"
  shows "own_publication pid (Some np) (np_normal np) \<and>
    own_publication pid (Some np) (with_file_name (np_normal np) (temporary_name wenv (np_normal np) nonce))"
proof -
  obtain d n where p: "np_normal np = d @ [Normal n]"
    using assms(1) by (cases "np_normal np" rule: rev_cases) (auto simp: file_name_def split: component.splits)
  show ?thesis
    using assms(2) by (simp add: p own_publication_def with_file_name_def temporary_name_def file_name_def parent_def suffix_def)
qed

theorem own_files_recognised_witness:
  "own_publication 7 (Some \<lparr>np_normal = [RootDir, Normal ''ghcid.txt''], np_relative = None\<rparr>)
     [RootDir, Normal ''.ghcid.txt.ghciwatch-7-0.tmp'']"
proof -
  let ?np = "\<lparr>np_normal = [RootDir, Normal ''ghcid.txt''], np_relative = None\<rparr>"
  let ?wenv = "\<lparr>wenv_process_id = 7, wenv_create_error = None, wenv_write_error = (\<lambda>_. None),
     wenv_shutdown_error = None, wenv_rename_error = None, wenv_flushed = id\<rparr> :: write_env"
  have "file_name (np_normal ?np) \<noteq> None" by (simp add: file_name_def)
  moreover have "with_file_name (np_normal ?np) (temporary_name ?wenv (np_normal ?np) 0)
      = [RootDir, Normal ''.ghcid.txt.ghciwatch-7-0.tmp'']"
    by code_simp
  ultimately show ?thesis using own_files_recognised [of ?np ?wenv 7 0] by simp
qed

section \<open>Links to an ancestor\<close>

lemma linked_visit_fails:
  assumes "\<And>p. p \<in> linked \<Longrightarrow> (\<exists>e. fsenv_metadata (wk_fs w) p = Inl e) \<or> (\<exists>q \<in> linked. leads_to w p q)"
  shows "p \<in> linked \<Longrightarrow> visit fuel w p files \<noteq> Some (Inr files')"
    and "\<exists>e \<in> set entries. \<exists>q \<in> linked. e = Inr e' \<and> de_path e' = Utf8Path q \<Longrightarrow>
     visit_entries fuel w d entries files \<noteq> Some (Inr files')"
  using assms
proof (induction fuel w p files and fuel w d entries files
       arbitrary: files' and files' e' rule: visit_visit_entries.induct)
  case (2 fuel w p files)
  show ?case
  proof (cases "\<exists>e. fsenv_metadata (wk_fs w) p = Inl e")
    case False
    then obtain q entries e where "q \<in> linked" "fsenv_metadata (wk_fs w) p = Inr (Some MetaDir)"
      "fsenv_read_dir (wk_fs w) p = Inr entries" "Inr e \<in> set entries" "de_path e = Utf8Path q"
      using "2.prems" unfolding leads_to_def by blast
    with "2.IH" [of "Some MetaDir" entries e] "2.prems" show ?thesis by auto
  qed auto
next
  case (4 fuel w d entry entries files)
  show ?case
  proof (cases entry)
    case (Inr e)
    show ?thesis
    proof (cases "de_path e")
      case NotUtf8
      with "4.prems"(1) Inr have later: "\<exists>e \<in> set entries. \<exists>q \<in> linked. e = Inr e' \<and> de_path e' = Utf8Path q"
        by auto
      have "visit_entries fuel w d entries files \<noteq> Some (Inr files')"
        if "wk_opaque w d (length entries) = Inr u" for u
        using "4.IH"(3) [of e u e' files'] Inr NotUtf8 later "4.prems"(2) that by simp
      then show ?thesis using Inr NotUtf8 by (auto simp: res_simps)
    next
      case (Utf8Path q)
      have "visit_entries fuel w d entries x \<noteq> Some (Inr files')" if "visit fuel w q files = Some (Inr x)" for x
      proof -
        have "q \<notin> linked"
          using "4.IH"(1) [of e q x] Inr Utf8Path "4.prems"(2) that by blast
        then have "\<exists>e \<in> set entries. \<exists>q \<in> linked. e = Inr e' \<and> de_path e' = Utf8Path q"
          using "4.prems"(1) Inr Utf8Path by auto
        with "4.IH"(2) [of e q x e' files'] Inr Utf8Path "4.prems"(2) that show ?thesis by simp
      qed
      then show ?thesis using Inr Utf8Path by (auto simp: res_simps)
    qed
  qed simp
qed auto


definition upward_links :: "walk_env \<Rightarrow> path set \<Rightarrow> bool" where
  "upward_links w linked \<longleftrightarrow>
     (\<forall>p \<in> linked. (\<exists>e. fsenv_metadata (wk_fs w) p = Inl e) \<or> (\<exists>q \<in> linked. leads_to w p q))"

lemma linked_scan_fails:
  assumes "upward_links w linked" and "\<exists>r \<in> set roots. np_normal r \<in> linked"
  shows "scan_haskell_files fuel w roots \<noteq> Some (Inr snapshot)"
proof -
  have fails: "visit fuel w p files \<noteq> Some (Inr files')" if "p \<in> linked" for p files files'
    using linked_visit_fails(1) [of linked w p] assms(1) that by (auto simp: upward_links_def)
  have "visit_roots fuel w roots files \<noteq> Some (Inr snapshot)" for files
    using assms(2) by (induction roots arbitrary: files) (auto simp: res_simps fails)
  then show ?thesis by (simp add: scan_haskell_files_def)
qed

text \<open>
  C30: a link to an ancestor directory ends the program at the first relevant change. Let the watched
  root be among directories that each have an entry leading to one of them (a symbolic link upwards;
  following it again and again ends in an error of the system at best). Then a notification with a
  relevant change sends nothing and requests shutdown, although the content filter passes over
  such links on purpose.
\<close>

theorem upward_link_stops_program:
  assumes "upward_links (wt_at env 2) linked" and "\<exists>r \<in> set (eh_watch h). np_normal r \<in> linked"
    and "observe fuel (wk_fs (wt_at env 0)) (eh_content h) events = Some (Inr (content, changed))"
    and "process_debounced_events (wt_exists env) event = Inr events"
    and "e \<in> set changed" and "is_potentially_relevant (wt_classify env) (eh_classifier h) e = Inr True"
    and "handle_event fuel env h event = Some (h', woken, sent, shutdown)"
  shows "shutdown \<and> sent = None"
proof -
  have "send_event fuel (\<lambda>n. wt_at env (Suc n)) gone (eh_watch h) es retry \<noteq> Some (Inr x)" if "es \<noteq> []" for gone es retry x
    using linked_scan_fails [OF assms(1,2)] that
    by (auto simp: send_event_def res_simps numeral_2_eq_2 split: if_splits)
  moreover have "es \<noteq> []" if "relevant_events (wt_classify env) (eh_classifier h) changed [] = Inr es" for es
    using relevant_events_spec [OF that] assms(5,6) by auto
  ultimately have "ores_bind (Some (relevant_events (wt_classify env) (eh_classifier h) changed [])) (\<lambda>relevant.
      send_event fuel (\<lambda>n. wt_at env (Suc n)) (wt_manager_gone env) (eh_watch h) relevant False) \<noteq> Some (Inr x)" for x
    by (auto simp: res_simps)
  with assms(3,4,7) show ?thesis
    by (auto simp: handle_event_def handle_event_inner_def Let_def split: option.splits sum.splits)
qed

lemma link_leads:
  assumes "\<not> too_many_links p" and "file_name p \<noteq> Some ''A.hs''"
  shows "leads_to (walk_of link_fs) p (p @ [Normal ''up''])"
proof -
  let ?up = "\<lparr>de_path = Utf8Path (p @ [Normal ''up'']), de_symlink = True, de_is_dir = True\<rparr>"
  obtain a where "fsenv_read_dir (wk_fs (walk_of link_fs)) p = Inr [a, Inr ?up]"
    by (simp add: walk_of_def link_fs_def)
  moreover have "fsenv_metadata (wk_fs (walk_of link_fs)) p = Inr (Some MetaDir)"
    using assms by (simp add: walk_of_def link_fs_def)
  ultimately show ?thesis unfolding leads_to_def by (intro conjI exI [of _ "[a, Inr ?up]"] exI [of _ ?up]) simp_all
qed

definition link_dirs :: "path set" where
  "link_dirs = {link_dir @ replicate n (Normal ''up'') | n. True}"

lemma link_dirs_linked: "upward_links (walk_of link_fs) link_dirs"
proof -
  have "file_name (link_dir @ replicate n (Normal ''up'')) \<noteq> Some ''A.hs''" for n
  proof (cases n)
    case (Suc m)
    have "link_dir @ replicate (Suc m) (Normal ''up'') = (link_dir @ replicate m (Normal ''up'')) @ [Normal ''up'']"
      by (simp add: replicate_append_same)
    then show ?thesis unfolding Suc by (simp only: file_name_def rev_append) simp
  qed (simp add: file_name_def link_dir_def)
  then have leads: "leads_to (walk_of link_fs) (link_dir @ replicate n (Normal ''up'')) (link_dir @ replicate (Suc n) (Normal ''up''))"
    if "\<not> too_many_links (link_dir @ replicate n (Normal ''up''))" for n
    using link_leads [OF that] by (simp only: append_assoc replicate_append_same replicate_Suc) blast
  show ?thesis
    unfolding upward_links_def
  proof
    fix p assume "p \<in> link_dirs"
    then obtain n where p: "p = link_dir @ replicate n (Normal ''up'')" by (auto simp: link_dirs_def)
    show "(\<exists>e. fsenv_metadata (wk_fs (walk_of link_fs)) p = Inl e) \<or> (\<exists>q \<in> link_dirs. leads_to (walk_of link_fs) p q)"
    proof (cases "too_many_links p")
      case True
      then show ?thesis by (simp add: walk_of_def link_fs_def)
    next
      case False
      with leads [of n] show ?thesis unfolding p link_dirs_def by blast
    qed
  qed
qed

theorem upward_link_stops_program_witness:
  "\<exists>h' woken. handle_event 9 (watch_of link_fs) demo_handler (Inr [(KindModify, [Utf8Path link_source])])
     = Some (h', woken, None, True)"
proof -
  let ?env = "watch_of link_fs"
  have "upward_links (wt_at ?env 2) link_dirs" by (simp add: watch_of_def link_dirs_linked)
  moreover have "\<exists>r \<in> set (eh_watch demo_handler). np_normal r \<in> link_dirs"
    by (auto simp: demo_handler_def watched_def link_dirs_def intro: exI [of _ 0])
  moreover have "observe 9 (wk_fs (wt_at ?env 0)) (eh_content demo_handler) [Modify link_source]
      = Some (Inr ([(link_source, source_state)], [Modify link_source]))"
    by code_simp
  moreover have "process_debounced_events (wt_exists ?env) (Inr [(KindModify, [Utf8Path link_source])])
      = Inr [Modify link_source]"
    by code_simp
  moreover have "is_potentially_relevant (wt_classify ?env) (eh_classifier demo_handler) (Modify link_source) = Inr True"
    by code_simp
  moreover have "handle_event 9 ?env demo_handler (Inr [(KindModify, [Utf8Path link_source])]) \<noteq> None"
    by code_simp
  then obtain h' woken sent shutdown where
    run: "handle_event 9 ?env demo_handler (Inr [(KindModify, [Utf8Path link_source])]) = Some (h', woken, sent, shutdown)"
    by (metis not_None_eq prod_cases4)
  ultimately have "shutdown \<and> sent = None"
    by (intro upward_link_stops_program [where e = "Modify link_source"]) auto
  with run show ?thesis by auto
qed

text \<open>
  A retry of a failed start is only triggered by the files it waits for, and only when their
  contents differ from those the start failed on.
\<close>

theorem retry_needs_changed_contents:
  assumes "retry_handle_event fuel env h event = Some (Some e)" and "x \<in> set (we_events e)"
  shows "we_startup_retry e \<and> as_path x \<in> set (rh_files h) \<and>
    (\<exists>s. capture (wk_fs (wt_at env 0)) (as_path x) = Inr s \<and> map_of (rh_baseline h) (as_path x) \<noteq> Some s)"
proof -
  obtain events states where s: "process_debounced_events (wt_exists env) event = Inr events"
    "file_states (wk_fs (wt_at env 0)) (filter (\<lambda>e. as_path e \<in> set (rh_files h)) events) = Inr states"
    and sent: "send_event fuel (\<lambda>n. wt_at env (Suc n)) (wt_manager_gone env) (rh_watch h)
      (filter (\<lambda>e. map_of states (as_path e) \<noteq> map_of (rh_baseline h) (as_path e))
        (filter (\<lambda>e. as_path e \<in> set (rh_files h)) events)) True = Some (Inr (Some e))"
    using assms(1)
    by (auto simp: retry_handle_event_def res_simps Let_def split: option.splits sum.splits)
  then have "we_events e = filter (\<lambda>e. map_of states (as_path e) \<noteq> map_of (rh_baseline h) (as_path e))
      (filter (\<lambda>e. as_path e \<in> set (rh_files h)) events)" and "we_startup_retry e"
    by (auto simp: send_event_def res_simps split: if_splits)
  with assms(2) file_states_exact [OF s(2)] show ?thesis by fastforce
qed

theorem retry_needs_changed_contents_witness:
  "\<exists>e. retry_handle_event 3 (watch_of plain_fs)
       \<lparr>rh_watch = watched, rh_files = [link_source], rh_baseline = [(link_source, missing)]\<rparr>
       (Inr [(KindModify, [Utf8Path link_source])]) = Some (Some e) \<and> we_startup_retry e"
proof -
  let ?e = "\<lparr>we_events = [Modify link_source], we_states = [(link_source, source_state)],
    we_haskell_files = [link_source], we_source_snapshot = [(link_source, source_state)], we_startup_retry = True\<rparr>"
  have "retry_handle_event 3 (watch_of plain_fs)
       \<lparr>rh_watch = watched, rh_files = [link_source], rh_baseline = [(link_source, missing)]\<rparr>
       (Inr [(KindModify, [Utf8Path link_source])]) = Some (Some ?e)"
    by code_simp
  from retry_needs_changed_contents [OF this, of "Modify link_source"] this show ?thesis by simp
qed

end
