(* ===== verification/StderrTask.thy ===== *)
theory StderrTask
  imports Diagnostics
begin

text \<open>
  \<open>src/src/ghci/stderr.rs\<close>: the task that owns GHCi's standard error. It is a state machine over
  what it receives: lines, the end or an error of the pipe, requests of the session, and callers that
  have gone away. What it answers and forwards is recorded in order.
\<close>

section \<open>The task\<close>

datatype stderr_event =
    ClearBuffer
  | Forwarding (fw_enabled: bool) (fw_replay: bool)
  | InterruptOnError nat
  | DisarmInterrupt
  | GetBufferThrough string
  | DrainBuffer

text \<open>
  An interrupt names the compilation that armed it. \<open>Unreceived\<close> is text whose caller had gone when it
  was sent: \<open>let _ = sender.send(..)\<close> drops it.
\<close>

datatype stderr_reply =
    Cleared
  | ForwardingSet
  | Interrupt nat
  | MarkerReady string
  | Collected string
  | Unreceived string
  | Drained string

datatype stderr_mode = Serving | Collecting string | Draining | Stopped

record stderr_task =
  sd_buffer :: string
  sd_forwarding :: bool
  sd_suppressed :: string
  sd_interrupt :: "nat option"
  sd_mode :: stderr_mode
  sd_caller :: bool
  sd_replies :: "stderr_reply list"
  sd_written :: "string list"
  sd_errors :: nat

text \<open>\<open>sd_caller\<close>: whether the caller of the request at hand still waits for its text.\<close>

definition stderr_new :: stderr_task where
  "stderr_new = \<lparr>sd_buffer = [], sd_forwarding = True, sd_suppressed = [], sd_interrupt = None,
     sd_mode = Serving, sd_caller = True, sd_replies = [], sd_written = [], sd_errors = 0\<rparr>"

text \<open>
  The parsers of GHC's messages, and the outcome of writing to the configured writer and flushing it,
  given what was written before. \<open>sde_backoff n\<close> says whether the backoff still allows another try
  after the \<open>n\<close>th error.
\<close>

record stderr_env =
  sde_parse_json_line :: "string \<Rightarrow> ghc_diagnostic option"
  sde_parse_messages :: "string \<Rightarrow> ghc_message list res"
  sde_write :: "string list \<Rightarrow> unit res"
  sde_backoff :: "nat \<Rightarrow> bool"

definition reply :: "stderr_reply \<Rightarrow> stderr_task \<Rightarrow> stderr_task" where
  "reply r t = t\<lparr>sd_replies := sd_replies t @ [r]\<rparr>"

definition forward :: "stderr_env \<Rightarrow> string \<Rightarrow> stderr_task \<Rightarrow> stderr_task \<times> unit res" where
  "forward env text t = (t\<lparr>sd_written := sd_written t @ [text]\<rparr>, sde_write env (sd_written t @ [text]))"

section \<open>Lines\<close>

definition line_has_error_diagnostic :: "stderr_env \<Rightarrow> string \<Rightarrow> bool" where
  "line_has_error_diagnostic env line =
     (case sde_parse_json_line env line of
        Some d \<Rightarrow> diag_severity d = Error
      | None \<Rightarrow>
          (case sde_parse_messages env line of
             Inr msgs \<Rightarrow> list_ex (\<lambda>m. case m of Diagnostic d \<Rightarrow> diag_severity d = Error | _ \<Rightarrow> False) msgs
           | Inl _ \<Rightarrow> False))"

text \<open>\<open>str::replacen(marker, "", 1)\<close>: the text around the first occurrence.\<close>

fun remove_first :: "string \<Rightarrow> string \<Rightarrow> string" where
  "remove_first m [] = []"
| "remove_first m (c # cs) =
     (if starts_with (c # cs) m then drop (List.length m) (c # cs) else c # remove_first m cs)"

definition line_without_marker :: "string \<Rightarrow> string \<Rightarrow> string option" where
  "line_without_marker line marker =
     (if contains_str line marker then Some (remove_first marker line) else None)"

definition ingest_line :: "stderr_env \<Rightarrow> string \<Rightarrow> stderr_task \<Rightarrow> stderr_task \<times> unit res" where
  "ingest_line env text t =
     (let line = text @ [newline];
          t1 = (case sd_interrupt t of
                  Some k \<Rightarrow> if line_has_error_diagnostic env line
                    then reply (Interrupt k) (t\<lparr>sd_interrupt := None\<rparr>) else t
                | None \<Rightarrow> t);
          t2 = t1\<lparr>sd_buffer := sd_buffer t1 @ line\<rparr> in
      if sd_forwarding t2 then forward env line t2
      else (t2\<lparr>sd_suppressed := sd_suppressed t2 @ line\<rparr>, Inr ()))"

section \<open>Requests\<close>

definition set_forwarding :: "stderr_env \<Rightarrow> bool \<Rightarrow> bool \<Rightarrow> stderr_task \<Rightarrow> stderr_task \<times> unit res" where
  "set_forwarding env enabled replay t =
     (let (t1, r) =
        (if enabled \<and> \<not> sd_forwarding t
         then (if replay
               then (case forward env (sd_suppressed t) t of
                       (t', Inr _) \<Rightarrow> (t'\<lparr>sd_suppressed := []\<rparr>, Inr ())
                     | (t', Inl e) \<Rightarrow> (t', Inl e))
               else (t\<lparr>sd_suppressed := []\<rparr>, Inr ()))
         else if \<not> enabled \<and> sd_forwarding t then (t\<lparr>sd_suppressed := []\<rparr>, Inr ())
         else (t, Inr ())) in
      case r of
        Inl e \<Rightarrow> (t1, Inl e)
      | Inr _ \<Rightarrow> (reply ForwardingSet (t1\<lparr>sd_forwarding := enabled\<rparr>), Inr ()))"

definition stderr_dispatch :: "stderr_env \<Rightarrow> stderr_event \<Rightarrow> stderr_task \<Rightarrow> stderr_task \<times> unit res" where
  "stderr_dispatch env event t =
     (case event of
        ClearBuffer \<Rightarrow> (reply Cleared (t\<lparr>sd_buffer := []\<rparr>), Inr ())
      | Forwarding enabled replay \<Rightarrow> set_forwarding env enabled replay t
      | InterruptOnError k \<Rightarrow> (t\<lparr>sd_interrupt := Some k\<rparr>, Inr ())
      | DisarmInterrupt \<Rightarrow> (t\<lparr>sd_interrupt := None\<rparr>, Inr ())
      | GetBufferThrough marker \<Rightarrow> (reply (MarkerReady marker) (t\<lparr>sd_mode := Collecting marker, sd_caller := True\<rparr>), Inr ())
      | DrainBuffer \<Rightarrow> (t\<lparr>sd_mode := Draining, sd_caller := True\<rparr>, Inr ()))"

section \<open>Steps\<close>

text \<open>
  \<open>PipeError\<close> is an error of the pipe, \<open>CallerGone\<close> the end of the caller whose request is at hand,
  \<open>ClosedSeen\<close> the branch \<open>sender.closed()\<close>, which may be taken or lose to a line that is there as well,
  \<open>Quit\<close> a shutdown. Once the channel of requests is closed, there are no more of them.
\<close>

datatype stderr_input = Line string | Eof | PipeError io_error | Request stderr_event | CallerGone | ClosedSeen | Quit

text \<open>\<open>run\<close>: an error ends the request at hand and starts over, as long as the backoff goes on.\<close>

definition start_over :: "stderr_env \<Rightarrow> stderr_task \<Rightarrow> stderr_task" where
  "start_over env t =
     t\<lparr>sd_mode := (if sde_backoff env (sd_errors t) then Serving else Stopped), sd_errors := Suc (sd_errors t)\<rparr>"

definition recover_from :: "stderr_env \<Rightarrow> stderr_task \<times> unit res \<Rightarrow> stderr_task" where
  "recover_from env r = (case r of (t, Inl _) \<Rightarrow> start_over env t | (t, Inr _) \<Rightarrow> t)"

definition serving_step :: "stderr_env \<Rightarrow> stderr_input \<Rightarrow> stderr_task \<Rightarrow> stderr_task option" where
  "serving_step env i t =
     (case i of
        Line l \<Rightarrow> Some (recover_from env (ingest_line env l t))
      | Request e \<Rightarrow> Some (recover_from env (stderr_dispatch env e t))
      | Quit \<Rightarrow> Some (t\<lparr>sd_mode := Stopped\<rparr>)
      | Eof \<Rightarrow> Some t
      | PipeError _ \<Rightarrow> Some t
      | _ \<Rightarrow> None)"

text \<open>\<open>get_buffer_through\<close>: the marker can be spliced into a line, whose text around it is kept.\<close>

definition collecting_step :: "stderr_env \<Rightarrow> string \<Rightarrow> stderr_input \<Rightarrow> stderr_task \<Rightarrow> stderr_task option" where
  "collecting_step env marker i t =
     (case i of
        Line l \<Rightarrow>
          (case line_without_marker l marker of
             None \<Rightarrow> Some (recover_from env (ingest_line env l t))
           | Some diagnostic_line \<Rightarrow>
               (case (if diagnostic_line = [] then (t, Inr ()) else ingest_line env diagnostic_line t) of
                  (t1, Inl e) \<Rightarrow> Some (start_over env t1)
                | (t1, Inr _) \<Rightarrow>
                    Some (reply (if sd_caller t1 then Collected (sd_buffer t1) else Unreceived (sd_buffer t1))
                      (t1\<lparr>sd_buffer := [], sd_mode := Serving\<rparr>))))
      | Eof \<Rightarrow> Some (start_over env t)
      | PipeError _ \<Rightarrow> Some (start_over env t)
      | CallerGone \<Rightarrow> Some (t\<lparr>sd_caller := False\<rparr>)
      | ClosedSeen \<Rightarrow> if sd_caller t then None else Some (t\<lparr>sd_mode := Serving\<rparr>)
      | _ \<Rightarrow> None)"

definition draining_step :: "stderr_env \<Rightarrow> stderr_input \<Rightarrow> stderr_task \<Rightarrow> stderr_task option" where
  "draining_step env i t =
     (case i of
        Line l \<Rightarrow> Some (recover_from env (ingest_line env l t))
      | Eof \<Rightarrow> Some ((if sd_caller t then reply (Drained (sd_buffer t)) else id) (t\<lparr>sd_mode := Serving\<rparr>))
      | CallerGone \<Rightarrow> Some (t\<lparr>sd_caller := False\<rparr>)
      | PipeError _ \<Rightarrow> Some (start_over env t)
      | _ \<Rightarrow> None)"

definition stderr_step :: "stderr_env \<Rightarrow> stderr_input \<Rightarrow> stderr_task \<Rightarrow> stderr_task option" where
  "stderr_step env i t =
     (case sd_mode t of
        Serving \<Rightarrow> serving_step env i t
      | Collecting marker \<Rightarrow> collecting_step env marker i t
      | Draining \<Rightarrow> draining_step env i t
      | Stopped \<Rightarrow> None)"

fun stderr_run :: "stderr_env \<Rightarrow> stderr_input list \<Rightarrow> stderr_task \<Rightarrow> stderr_task option" where
  "stderr_run env [] t = Some t"
| "stderr_run env (i # is) t = Option.bind (stderr_step env i t) (stderr_run env is)"

lemma stderr_run_append:
  "stderr_run env (is @ js) t = Option.bind (stderr_run env is t) (stderr_run env js)"
  by (induction "is" arbitrary: t) (auto split: Option.bind_splits)

section \<open>What is ingested\<close>

text \<open>The text a line adds: in front of a marker and behind it, the marker is taken out.\<close>

definition line_ingested :: "stderr_task \<Rightarrow> stderr_input \<Rightarrow> string list" where
  "line_ingested t i =
     (case i of
        Line l \<Rightarrow>
          (case sd_mode t of
             Collecting marker \<Rightarrow>
               (case line_without_marker l marker of None \<Rightarrow> [l] | Some d \<Rightarrow> if d = [] then [] else [d])
           | _ \<Rightarrow> [l])
      | _ \<Rightarrow> [])"

fun ingested :: "stderr_env \<Rightarrow> stderr_input list \<Rightarrow> stderr_task \<Rightarrow> string list" where
  "ingested env [] t = []"
| "ingested env (i # is) t =
     line_ingested t i @ (case stderr_step env i t of Some t' \<Rightarrow> ingested env is t' | None \<Rightarrow> [])"

text \<open>
  What callers took out of the buffer, what of it they never received, and the lines on their way to
  the terminal.
\<close>

definition handed :: "stderr_reply list \<Rightarrow> string" where
  "handed rs = concat (map (\<lambda>r. case r of Collected s \<Rightarrow> s | Unreceived s \<Rightarrow> s | _ \<Rightarrow> []) rs)"

definition lost :: "stderr_reply list \<Rightarrow> string" where
  "lost rs = concat (map (\<lambda>r. case r of Unreceived s \<Rightarrow> s | _ \<Rightarrow> []) rs)"

lemma handed_simps [simp]:
  "handed [] = []"
  "handed (rs @ [r]) = handed rs @ (case r of Collected s \<Rightarrow> s | Unreceived s \<Rightarrow> s | _ \<Rightarrow> [])"
  by (simp_all add: handed_def)

lemma lost_simps [simp]:
  "lost [] = []"
  "lost (rs @ [r]) = lost rs @ (case r of Unreceived s \<Rightarrow> s | _ \<Rightarrow> [])"
  by (simp_all add: lost_def)

definition stream :: "stderr_task \<Rightarrow> string" where
  "stream t = concat (sd_written t) @ (if sd_forwarding t then [] else sd_suppressed t)"

lemma ingest_fields:
  assumes "ingest_line env text t = (t', r)"
  shows "sd_buffer t' = sd_buffer t @ text @ [newline]" "handed (sd_replies t') = handed (sd_replies t)"
    "lost (sd_replies t') = lost (sd_replies t)" "sd_caller t' = sd_caller t" "sd_mode t' = sd_mode t" "sd_forwarding t' = sd_forwarding t" "stream t' = stream t @ text @ [newline]"
  using assms
  by (auto simp: ingest_line_def Let_def reply_def forward_def stream_def split: option.splits if_splits)

text \<open>Nothing is lost or doubled between the calls that take the buffer.\<close>

definition taken :: "stderr_task \<Rightarrow> string" where
  "taken t = handed (sd_replies t) @ sd_buffer t"

lemma start_over_simps [simp]:
  "taken (start_over env t) = taken t" "stream (start_over env t) = stream t"
  by (simp_all add: taken_def stream_def start_over_def)

lemma mode_free [simp]:
  "taken (t\<lparr>sd_mode := m\<rparr>) = taken t" "stream (t\<lparr>sd_mode := m\<rparr>) = stream t"
  "taken (t\<lparr>sd_caller := b\<rparr>) = taken t" "stream (t\<lparr>sd_caller := b\<rparr>) = stream t"
  by (simp_all add: taken_def stream_def)

lemma recover_ingest:
  "taken (recover_from env (ingest_line env l t)) = taken t @ l @ [newline]"
  "stream (recover_from env (ingest_line env l t)) = stream t @ l @ [newline]"
proof -
  obtain t' r where i: "ingest_line env l t = (t', r)" by (cases "ingest_line env l t")
  show "taken (recover_from env (ingest_line env l t)) = taken t @ l @ [newline]"
    and "stream (recover_from env (ingest_line env l t)) = stream t @ l @ [newline]"
    using ingest_fields [OF i] by (cases r; simp add: i recover_from_def; simp add: taken_def)+
qed

lemma dispatch_taken:
  "e \<noteq> ClearBuffer \<Longrightarrow> taken (recover_from env (stderr_dispatch env e t)) = taken t"
  by (cases e) (auto simp: stderr_dispatch_def recover_from_def set_forwarding_def forward_def reply_def taken_def
      start_over_def Let_def split: prod.splits sum.splits if_splits)

text \<open>Taking the buffer moves it to the caller.\<close>

lemma collect_fields:
  "taken (reply (if b then Collected (sd_buffer t) else Unreceived (sd_buffer t)) (t\<lparr>sd_buffer := [], sd_mode := m\<rparr>)) = taken t"
  "stream (reply (if b then Collected (sd_buffer t) else Unreceived (sd_buffer t)) (t\<lparr>sd_buffer := [], sd_mode := m\<rparr>)) = stream t"
  by (simp_all add: taken_def reply_def stream_def)

lemma collecting_line:
  assumes "collecting_step env marker (Line l) t = Some t'" and "sd_mode t = Collecting marker"
  shows "taken t' = taken t @ unlines (line_ingested t (Line l)) \<and>
    stream t' = stream t @ unlines (line_ingested t (Line l))"
proof (cases "line_without_marker l marker")
  case None
  with assms recover_ingest [of env l t] show ?thesis by (auto simp: collecting_step_def line_ingested_def)
next
  case (Some d)
  obtain t1 r where i: "ingest_line env d t = (t1, r)" by (cases "ingest_line env d t")
  show ?thesis
  proof (cases "d = []")
    case True
    with assms Some show ?thesis by (auto simp: collecting_step_def line_ingested_def collect_fields)
  next
    case False
    have t1: "taken t1 = taken t @ d @ [newline]" "stream t1 = stream t @ d @ [newline]"
      using ingest_fields [OF i] by (simp_all add: taken_def)
    have "t' = start_over env t1 \<or> t' = reply (if sd_caller t1 then Collected (sd_buffer t1) else Unreceived (sd_buffer t1))
        (t1\<lparr>sd_buffer := [], sd_mode := Serving\<rparr>)"
      using assms Some i False by (cases r) (auto simp: collecting_step_def)
    then show ?thesis
      using t1 Some False assms(2) by (auto simp: line_ingested_def collect_fields)
  qed
qed

lemma step_taken:
  assumes "stderr_step env i t = Some t'" and "i \<noteq> Request ClearBuffer"
  shows "taken t' = taken t @ unlines (line_ingested t i)"
proof (cases i)
  case (Line l)
  show ?thesis
  proof (cases "sd_mode t")
    case (Collecting marker)
    with assms(1) Line collecting_line [of env marker l t t'] show ?thesis by (simp add: stderr_step_def)
  qed (use assms(1) Line recover_ingest [of env l t] in
      \<open>auto simp: stderr_step_def serving_step_def draining_step_def line_ingested_def\<close>)
next
  case (Request e)
  with assms dispatch_taken [of e env t] show ?thesis
    by (auto simp: stderr_step_def serving_step_def collecting_step_def draining_step_def line_ingested_def
        split: stderr_mode.splits)
qed (use assms(1) in \<open>auto simp: stderr_step_def serving_step_def collecting_step_def draining_step_def
    line_ingested_def split: stderr_mode.splits if_splits, auto simp: taken_def reply_def split: if_splits\<close>)

text \<open>Replaying puts what was held back on the terminal, when writing succeeds.\<close>

lemma dispatch_stream:
  assumes "\<And>w. sde_write env w = Inr ()" and "\<And>enabled. e \<noteq> Forwarding enabled False"
  shows "stream (recover_from env (stderr_dispatch env e t)) = stream t"
  using assms
  by (cases e) (auto simp: stderr_dispatch_def recover_from_def set_forwarding_def forward_def reply_def stream_def
      Let_def split: if_splits)

lemma step_stream:
  assumes "\<And>w. sde_write env w = Inr ()" and "stderr_step env i t = Some t'"
    and "\<And>enabled. i \<noteq> Request (Forwarding enabled False)"
  shows "stream t' = stream t @ unlines (line_ingested t i)"
proof (cases i)
  case (Line l)
  show ?thesis
  proof (cases "sd_mode t")
    case (Collecting marker)
    with assms(2) Line collecting_line [of env marker l t t'] show ?thesis by (simp add: stderr_step_def)
  qed (use assms(2) Line recover_ingest [of env l t] in
      \<open>auto simp: stderr_step_def serving_step_def draining_step_def line_ingested_def\<close>)
next
  case (Request e)
  with assms dispatch_stream [of env e t] show ?thesis
    by (auto simp: stderr_step_def serving_step_def collecting_step_def draining_step_def line_ingested_def
        split: stderr_mode.splits)
qed (use assms(2) in \<open>auto simp: stderr_step_def serving_step_def collecting_step_def draining_step_def
    line_ingested_def split: stderr_mode.splits if_splits, auto simp: stream_def reply_def split: if_splits\<close>)

section \<open>Properties\<close>

text \<open>A caller that stays receives what it takes.\<close>

lemma dispatch_lost:
  "lost (sd_replies (recover_from env (stderr_dispatch env e t))) = lost (sd_replies t)"
  "sd_caller t \<Longrightarrow> sd_caller (recover_from env (stderr_dispatch env e t))"
  by (cases e; auto simp: stderr_dispatch_def recover_from_def set_forwarding_def forward_def reply_def
      start_over_def Let_def split: prod.splits sum.splits if_splits)+

lemma recover_ingest_lost:
  "lost (sd_replies (recover_from env (ingest_line env l t))) = lost (sd_replies t)"
  "sd_caller (recover_from env (ingest_line env l t)) = sd_caller t"
  by (cases "ingest_line env l t"; cases "snd (ingest_line env l t)";
      simp add: recover_from_def start_over_def ingest_fields)+

lemma step_lost:
  assumes "stderr_step env i t = Some t'" and "i \<noteq> CallerGone" and "sd_caller t"
  shows "lost (sd_replies t') = lost (sd_replies t) \<and> sd_caller t'"
proof (cases "\<exists>l marker. i = Line l \<and> sd_mode t = Collecting marker")
  case True
  then obtain l marker where l: "i = Line l" "sd_mode t = Collecting marker" by blast
  show ?thesis
  proof (cases "line_without_marker l marker")
    case None
    with assms l recover_ingest_lost [of env l t] show ?thesis by (auto simp: stderr_step_def collecting_step_def)
  next
    case (Some d)
    obtain t1 r where i: "ingest_line env d t = (t1, r)" by (cases "ingest_line env d t")
    with assms l Some ingest_fields [OF i] show ?thesis
      by (cases r) (auto simp: stderr_step_def collecting_step_def start_over_def reply_def split: if_splits)
  qed
next
  case False
  with assms dispatch_lost [where env = env and t = t] recover_ingest_lost [where env = env and t = t] show ?thesis
    by (cases i; cases "sd_mode t")
       (auto simp: stderr_step_def serving_step_def collecting_step_def draining_step_def start_over_def reply_def split: if_splits)
qed

lemma run_taken:
  "stderr_run env is t = Some t' \<Longrightarrow> Request ClearBuffer \<notin> set is \<Longrightarrow> taken t' = taken t @ unlines (ingested env is t)"
proof (induction "is" arbitrary: t)
  case (Cons i "is")
  then obtain u where u: "stderr_step env i t = Some u" "stderr_run env is u = Some t'"
    by (auto simp: Option.bind_eq_Some_conv)
  have "i \<noteq> Request ClearBuffer" using Cons.prems(2) by auto
  with Cons.IH [OF u(2)] Cons.prems step_taken [OF u(1)] u(1) show ?case by simp
qed simp

lemma run_lost:
  "stderr_run env is t = Some t' \<Longrightarrow> CallerGone \<notin> set is \<Longrightarrow> sd_caller t \<Longrightarrow> lost (sd_replies t') = lost (sd_replies t)"
proof (induction "is" arbitrary: t)
  case (Cons i "is")
  then obtain u where u: "stderr_step env i t = Some u" "stderr_run env is u = Some t'"
    by (auto simp: Option.bind_eq_Some_conv)
  with Cons.IH [OF u(2)] Cons.prems step_lost [OF u(1)] show ?case by auto
qed simp

text \<open>
  C11: between two clearing requests the text of GHCi's standard error is conserved, whatever is
  requested, fails or is abandoned. What synchronisations took, followed by what is still buffered, is
  exactly the lines that came, in order: none is missing and none is taken twice. What was taken but not
  received needs a caller that had gone. A drain at the end of the pipe shows its caller
  exactly what came since the last synchronisation, and leaves it in the buffer.
\<close>

theorem stderr_conserved:
  assumes "stderr_run env is t = Some t'" and "Request ClearBuffer \<notin> set is"
  shows "handed (sd_replies t') @ sd_buffer t' = handed (sd_replies t) @ sd_buffer t @ unlines (ingested env is t) \<and>
    (CallerGone \<notin> set is \<and> sd_caller t \<longrightarrow> lost (sd_replies t') = lost (sd_replies t)) \<and>
    (\<forall>before after u. is = before @ Eof # after \<and> stderr_run env before t = Some u \<and> sd_mode u = Draining \<and> sd_caller u \<longrightarrow>
      (\<exists>v text. stderr_step env Eof u = Some v \<and> sd_replies v = sd_replies u @ [Drained text] \<and> sd_buffer v = text \<and>
        handed (sd_replies u) @ text = handed (sd_replies t) @ sd_buffer t @ unlines (ingested env before t)))"
proof (intro conjI allI impI)
  show "handed (sd_replies t') @ sd_buffer t' = handed (sd_replies t) @ sd_buffer t @ unlines (ingested env is t)"
    using run_taken [OF assms] by (simp add: taken_def)
  show "lost (sd_replies t') = lost (sd_replies t)" if "CallerGone \<notin> set is \<and> sd_caller t"
    using run_lost [OF assms(1)] that by blast
  fix before after u
  assume u: "is = before @ Eof # after \<and> stderr_run env before t = Some u \<and> sd_mode u = Draining \<and> sd_caller u"
  then have "taken u = taken t @ unlines (ingested env before t)" using assms(2) run_taken by simp
  with u show "\<exists>v text. stderr_step env Eof u = Some v \<and> sd_replies v = sd_replies u @ [Drained text] \<and> sd_buffer v = text \<and>
        handed (sd_replies u) @ text = handed (sd_replies t) @ sd_buffer t @ unlines (ingested env before t)"
    by (intro exI [of _ "reply (Drained (sd_buffer u)) (u\<lparr>sd_mode := Serving\<rparr>)"] exI [of _ "sd_buffer u"])
       (simp add: stderr_step_def draining_step_def reply_def taken_def)
qed

text \<open>
  Holding the terminal back keeps the order and loses nothing. When every request that turns
  forwarding on asks for a replay, what has been written, followed by what is held back, is at any
  time exactly the lines that came, in order.
\<close>

theorem forwarding_keeps_order:
  assumes "\<And>w. sde_write env w = Inr ()" and "stderr_run env is t = Some t'"
    and "\<And>enabled. Request (Forwarding enabled False) \<notin> set is"
  shows "stream t' = stream t @ unlines (ingested env is t)"
  using assms(2,3)
proof (induction "is" arbitrary: t)
  case (Cons i "is")
  then obtain u where u: "stderr_step env i t = Some u" "stderr_run env is u = Some t'"
    by (auto simp: Option.bind_eq_Some_conv)
  with Cons.IH [OF u(2)] Cons.prems(2) step_stream [OF assms(1) u(1)] show ?case by fastforce
qed simp

text \<open>Lines without the marker only fill the buffer.\<close>

lemma ingest_ok:
  assumes "\<And>w. sde_write env w = Inr ()"
  shows "\<exists>t'. ingest_line env l t = (t', Inr ()) \<and> sd_mode t' = sd_mode t
    \<and> sd_buffer t' = sd_buffer t @ l @ [newline]"
proof -
  obtain t' r where i: "ingest_line env l t = (t', r)" by (cases "ingest_line env l t")
  then have "r = Inr ()"
    by (auto simp: ingest_line_def Let_def forward_def assms split: if_splits)
  with i ingest_fields [OF i] show ?thesis by simp
qed

lemma lines_pass:
  assumes "\<And>w. sde_write env w = Inr ()"
  shows "sd_mode t = Serving \<or> (\<exists>m. sd_mode t = Collecting m \<and> (\<forall>l \<in> set ls. \<not> contains_str l m)) \<Longrightarrow>
    \<exists>t'. stderr_run env (map Line ls) t = Some t' \<and> sd_mode t' = sd_mode t \<and> sd_buffer t' = sd_buffer t @ unlines ls"
proof (induction ls arbitrary: t)
  case (Cons l ls)
  obtain u where u: "ingest_line env l t = (u, Inr ())" "sd_mode u = sd_mode t" "sd_buffer u = sd_buffer t @ l @ [newline]"
    using ingest_ok [OF assms] by blast
  then have "stderr_step env (Line l) t = Some u"
    using Cons.prems by (auto simp: stderr_step_def serving_step_def collecting_step_def recover_from_def line_without_marker_def)
  moreover obtain t' where "stderr_run env (map Line ls) u = Some t'" "sd_mode t' = sd_mode u" "sd_buffer t' = sd_buffer u @ unlines ls"
    using Cons.IH [of u] Cons.prems u(2) by auto
  ultimately show ?case using u by simp
qed simp

lemma lines_keep_caller: "stderr_run env (map Line ls) t = Some t' \<Longrightarrow> sd_caller t \<Longrightarrow> sd_caller t'"
proof (induction ls arbitrary: t)
  case (Cons l ls)
  then show ?case using step_lost by (auto simp: Option.bind_eq_Some_conv)
qed simp

text \<open>
  C12: a synchronisation gives exactly the standard error since the buffer was cleared. Lines before
  and after the request, up to the line that holds the marker, come back in order, with the text
  around the marker as a last line; then the buffer is empty and the task serves again.
\<close>

theorem marker_collects_exactly:
  assumes "\<And>w. sde_write env w = Inr ()" and "sd_mode t = Serving"
    and "\<forall>l \<in> set between. \<not> contains_str l marker" and "contains_str l marker"
  shows "\<exists>t'. stderr_run env (Request ClearBuffer # map Line front @ Request (GetBufferThrough marker) #
        map Line between @ [Line l]) t = Some t' \<and> sd_mode t' = Serving \<and> sd_buffer t' = [] \<and>
      last (sd_replies t') = Collected (unlines (front @ between @
        (if remove_first marker l = [] then [] else [remove_first marker l])))"
proof -
  let ?t1 = "reply Cleared (t\<lparr>sd_buffer := []\<rparr>)"
  have s1: "stderr_step env (Request ClearBuffer) t = Some ?t1"
    using assms(2) by (simp add: stderr_step_def serving_step_def stderr_dispatch_def recover_from_def)
  have "sd_mode ?t1 = Serving" "sd_buffer ?t1 = []" using assms(2) by (simp_all add: reply_def)
  then obtain t2 where t2: "stderr_run env (map Line front) ?t1 = Some t2" "sd_mode t2 = Serving"
    "sd_buffer t2 = unlines front"
    using lines_pass [OF assms(1), of ?t1 front] by auto
  let ?t3 = "reply (MarkerReady marker) (t2\<lparr>sd_mode := Collecting marker, sd_caller := True\<rparr>)"
  have s3: "stderr_step env (Request (GetBufferThrough marker)) t2 = Some ?t3"
    using t2(2) by (simp add: stderr_step_def serving_step_def stderr_dispatch_def recover_from_def)
  have "sd_mode ?t3 = Collecting marker" "sd_buffer ?t3 = unlines front" using t2 by (simp_all add: reply_def)
  then obtain t4 where t4: "stderr_run env (map Line between) ?t3 = Some t4" "sd_mode t4 = Collecting marker"
    "sd_buffer t4 = unlines front @ unlines between"
    using lines_pass [OF assms(1), of ?t3 between] assms(3) by auto
  have "sd_caller ?t3" by (simp add: reply_def)
  then have caller: "sd_caller t4" using lines_keep_caller [OF t4(1)] by simp
  have "\<exists>t5. stderr_step env (Line l) t4 = Some t5 \<and> sd_mode t5 = Serving \<and> sd_buffer t5 = [] \<and>
      last (sd_replies t5) = Collected (sd_buffer t4 @ unlines
        (if remove_first marker l = [] then [] else [remove_first marker l]))"
    using ingest_ok [OF assms(1), of "remove_first marker l" t4] t4(2) assms(4) caller
    by (auto simp: ingest_fields(4) stderr_step_def collecting_step_def line_without_marker_def reply_def)
  then obtain t5 where "stderr_step env (Line l) t4 = Some t5" "sd_mode t5 = Serving" "sd_buffer t5 = []"
      "last (sd_replies t5) = Collected (sd_buffer t4 @ unlines
        (if remove_first marker l = [] then [] else [remove_first marker l]))"
    by blast
  with s1 t2(1) s3 t4 show ?thesis by (intro exI [of _ t5]) (simp add: stderr_run_append)
qed

definition demo_stderr :: stderr_env where
  "demo_stderr = \<lparr>sde_parse_json_line = (\<lambda>_. None), sde_parse_messages = (\<lambda>_. Inr []),
     sde_write = (\<lambda>_. Inr ()), sde_backoff = (\<lambda>_. True)\<rparr>"

text \<open>A marker spliced into a diagnostic, while forwarding is off; then the pipe ends and is drained.\<close>

definition demo_inputs :: "stderr_input list" where
  "demo_inputs = [Request (Forwarding False False), Line ''a'', Request (GetBufferThrough ''##''), Line ''b##c'',
     Line ''d'', Request DrainBuffer, Eof]"

theorem stderr_conserved_witness:
  "\<exists>t. stderr_run demo_stderr demo_inputs stderr_new = Some t
     \<and> handed (sd_replies t) @ sd_buffer t = unlines [''a'', ''bc'', ''d''] \<and> lost (sd_replies t) = []"
proof -
  have "stderr_run demo_stderr demo_inputs stderr_new \<noteq> None"
    by code_simp
  then obtain t where t: "stderr_run demo_stderr demo_inputs stderr_new = Some t" by auto
  have "ingested demo_stderr demo_inputs stderr_new = [''a'', ''bc'', ''d'']"
    by code_simp
  moreover have "Request ClearBuffer \<notin> set demo_inputs" "CallerGone \<notin> set demo_inputs"
    by code_simp+
  ultimately show ?thesis
    using stderr_conserved [OF t] t by (simp add: stderr_new_def)
qed

theorem forwarding_keeps_order_witness:
  "\<exists>t. stderr_run demo_stderr [Line ''a'', Line ''b'', Request (Forwarding True True), Line ''c'']
       (stderr_new\<lparr>sd_forwarding := False\<rparr>) = Some t
     \<and> stream t = unlines [''a'', ''b'', ''c'']"
proof -
  let ?is = "[Line ''a'', Line ''b'', Request (Forwarding True True), Line ''c'']"
  have "stderr_run demo_stderr ?is (stderr_new\<lparr>sd_forwarding := False\<rparr>) \<noteq> None"
    by code_simp
  then obtain t where t: "stderr_run demo_stderr ?is (stderr_new\<lparr>sd_forwarding := False\<rparr>) = Some t" by auto
  have i: "ingested demo_stderr ?is (stderr_new\<lparr>sd_forwarding := False\<rparr>) = [''a'', ''b'', ''c'']"
    by code_simp
  have "stream t = stream (stderr_new\<lparr>sd_forwarding := False\<rparr>) @ unlines (ingested demo_stderr ?is (stderr_new\<lparr>sd_forwarding := False\<rparr>))"
    by (rule forwarding_keeps_order [OF _ t]) (auto simp: demo_stderr_def)
  then have "stream t = unlines [''a'', ''b'', ''c'']"
    unfolding i by (simp add: stream_def stderr_new_def)
  with t show ?thesis by blast
qed

theorem marker_collects_exactly_witness:
  "\<exists>t. stderr_run demo_stderr [Request ClearBuffer, Line ''a'', Request (GetBufferThrough ''##''), Line ''b'', Line ''c##d'']
       (stderr_new\<lparr>sd_buffer := ''old''\<rparr>) = Some t
     \<and> last (sd_replies t) = Collected (unlines [''a'', ''b'', ''cd''])"
proof -
  have r: "remove_first ''##'' ''c##d'' = ''cd''" "contains_str ''c##d'' ''##''"
    "\<forall>l \<in> set [''b'']. \<not> contains_str l ''##''"
    by code_simp+
  have "\<exists>t'. stderr_run demo_stderr (Request ClearBuffer # map Line [''a''] @ Request (GetBufferThrough ''##'') #
        map Line [''b''] @ [Line ''c##d'']) (stderr_new\<lparr>sd_buffer := ''old''\<rparr>) = Some t' \<and> sd_mode t' = Serving \<and> sd_buffer t' = [] \<and>
      last (sd_replies t') = Collected (unlines ([''a''] @ [''b''] @
        (if remove_first ''##'' ''c##d'' = [] then [] else [remove_first ''##'' ''c##d''])))"
    by (rule marker_collects_exactly [OF _ _ r(3,2)]) (simp_all add: demo_stderr_def stderr_new_def)
  then show ?thesis unfolding r(1) by auto
qed

end
