(* ===== verification/MemoryLog.thy ===== *)
theory MemoryLog
  imports Memory ErrorLog ShowPaths
begin

text \<open>
  \<open>src/src/ghci/memory_log.rs\<close> and \<open>src/src/ghci/memory_log/major_gc.rs\<close>: the bounded history of
  compilation memory. Rendering a record as JSON is serde's, reading \<open>/proc\<close> the system's.
\<close>

section \<open>The last major collection\<close>

definition parse_u32 :: "string \<Rightarrow> nat option" where
  "parse_u32 s =
     (let t = (case s of c # cs \<Rightarrow> if c = CHR ''+'' then cs else s | [] \<Rightarrow> s) in
      if t \<noteq> [] \<and> list_all is_digit t \<and> read_digits 0 t < 2 ^ 32 then Some (read_digits 0 t) else None)"

text \<open>The path and the number of generations among the arguments of the RTS.\<close>

fun rts_args :: "string list \<Rightarrow> bool \<Rightarrow> string option \<Rightarrow> nat \<Rightarrow> (string option \<times> nat) res" where
  "rts_args [] rts p generations = Inr (p, generations)"
| "rts_args (arg # args) rts p generations =
     (if arg = ''+RTS'' then rts_args args True p generations
      else if arg = ''-RTS'' \<or> arg = ''--RTS'' then rts_args args False p generations
      else if rts
      then
        (let p' = (case strip_prefix ''-S'' arg of Some v \<Rightarrow> (if v = [] then None else Some v) | None \<Rightarrow> p) in
         case strip_prefix ''-G'' arg of
           None \<Rightarrow> rts_args args rts p' generations
         | Some v \<Rightarrow>
             (case parse_u32 v of
                None \<Rightarrow> Inl (IoError ''invalid RTS argument'')
              | Some n \<Rightarrow> rts_args args rts p' n))
      else rts_args args rts p generations)"

record gc_sample =
  gs_live_bytes :: u64
  gs_elapsed_seconds :: string
  gs_generation :: nat

text \<open>
  One row of the RTS log; \<open>elapsed\<close> gives the text of a floating point number that is finite and not
  negative.
\<close>

definition gc_row :: "(string \<Rightarrow> string option) \<Rightarrow> nat \<Rightarrow> string \<Rightarrow> gc_sample option" where
  "gc_row elapsed oldest line =
     (case split_whitespace line of
        [f0, f1, f2, f3, f4, f5, f6, f7, f8, f9, f10] \<Rightarrow>
          if f9 \<noteq> ''(Gen:'' \<or> \<not> ends_with f10 '')'' then None
          else Option.bind (parse_u32 (butlast f10)) (\<lambda>generation.
            if generation \<noteq> oldest then None
            else Option.bind (parse_u64 f2) (\<lambda>live. Option.bind (elapsed f6) (\<lambda>seconds.
              Some \<lparr>gs_live_bytes = live, gs_elapsed_seconds = seconds, gs_generation = generation\<rparr>)))
      | _ \<Rightarrow> None)"

definition latest :: "(string \<Rightarrow> string option) \<Rightarrow> string \<Rightarrow> bool \<Rightarrow> nat \<Rightarrow> gc_sample option" where
  "latest elapsed text_read partial_start oldest =
     (case List.map_filter (gc_row elapsed oldest)
        (filter (\<lambda>l. ends_with l [newline])
          (if partial_start then drop 1 (split_inclusive text_read) else split_inclusive text_read)) of
        [] \<Rightarrow> None
      | rows \<Rightarrow> Some (last rows))"

record gc_env =
  gc_cmdline :: "string res"
  gc_cwd :: "path res"
  gc_file :: "path \<Rightarrow> string res"
  gc_elapsed :: "string \<Rightarrow> string option"

definition major_gc_read :: "gc_env \<Rightarrow> gc_sample res" where
  "major_gc_read env =
     res_bind (gc_cmdline env) (\<lambda>cmd.
     res_bind (rts_args (split_zero cmd) False None 2) (\<lambda>(p, generations).
     if generations = 0 then Inl (IoError ''Invalid RTS generation count'')
     else (case p of
       None \<Rightarrow> Inl (IoError ''GHC has no explicit RTS -S file'')
     | Some name \<Rightarrow>
         res_bind (if is_absolute (path_of_str name) then Inr (path_of_str name)
           else res_bind (gc_cwd env) (\<lambda>cwd. Inr (path_join cwd (path_of_str name)))) (\<lambda>file.
         res_bind (gc_file env file) (\<lambda>contents.
           let start = List.length contents - 1024 * 1024; bytes = drop start contents in
           if \<not> valid_utf8 bytes then Inl (IoError ''invalid utf-8'')
           else (case latest (gc_elapsed env) bytes (start \<noteq> 0) (generations - 1) of
             None \<Rightarrow> Inl (IoError ''No complete major-GC row in the last 1 MiB of RTS output'')
           | Some s \<Rightarrow> Inr s))))))"

section \<open>Appending\<close>

definition PRUNE_BYTES :: nat where
  "PRUNE_BYTES = 15 * 1024 * 1024"

definition KEEP_BYTES :: nat where
  "KEEP_BYTES = 10 * 1024 * 1024"

text \<open>
  The outcomes of the system calls of \<open>append\<close>. A write can fail after it has written a part.
\<close>

record append_env =
  ap_lock :: "unit res"
  ap_open :: "unit res"
  ap_write :: "string \<Rightarrow> string \<times> unit res"
  ap_length :: "unit res"
  ap_read :: "unit res"
  ap_temp_open :: "unit res"
  ap_temp_write :: "string \<Rightarrow> string \<times> unit res"
  ap_sync :: "unit res"
  ap_rename :: "unit res"
  ap_remove :: bool

text \<open>The name of a file beside it: its text with an ending.\<close>

definition with_ending :: "path \<Rightarrow> string \<Rightarrow> path" where
  "with_ending p s = butlast p @ [Normal (component_str (last p) @ s)]"

definition content_of :: "files \<Rightarrow> path \<Rightarrow> string" where
  "content_of files p = (case files p of Some s \<Rightarrow> s | None \<Rightarrow> [])"

text \<open>What is kept: from the first record boundary in the last bytes.\<close>

definition retained :: "string \<Rightarrow> string option" where
  "retained contents =
     map_option snd (split_once_nl (drop (List.length contents - KEEP_BYTES - 1) contents))"

definition publish_tail :: "append_env \<Rightarrow> path \<Rightarrow> string \<Rightarrow> files \<Rightarrow> files \<times> unit res" where
  "publish_tail env p tail files =
     (let temp = with_ending p ''.prune'';
          (files', r) =
            (case ap_temp_open env of
               Inl e \<Rightarrow> (files, Inl e)
             | Inr _ \<Rightarrow>
                 (case ap_temp_write env tail of
                    (written, Inl e) \<Rightarrow> (files(temp \<mapsto> written), Inl e)
                  | (_, Inr _) \<Rightarrow>
                      (case ap_sync env of
                         Inl e \<Rightarrow> (files(temp \<mapsto> tail), Inl e)
                       | Inr _ \<Rightarrow>
                           (case ap_rename env of
                              Inl e \<Rightarrow> (files(temp \<mapsto> tail), Inl e)
                            | Inr _ \<Rightarrow> (files(p \<mapsto> tail, temp := None), Inr ()))))) in
      case r of
        Inl e \<Rightarrow> (if ap_remove env then files'(temp := None) else files', Inl e)
      | Inr _ \<Rightarrow> (files', Inr ()))"

definition append_record :: "append_env \<Rightarrow> path \<Rightarrow> string \<Rightarrow> files \<Rightarrow> files \<times> unit res" where
  "append_record env p line files =
     (if KEEP_BYTES < List.length line then (files, Inl (IoError ''Memory history record exceeds retention size''))
      else (case ap_lock env of
        Inl e \<Rightarrow> (files, Inl e)
      | Inr _ \<Rightarrow>
          let files1 = files(with_ending p ''.lock'' \<mapsto> content_of files (with_ending p ''.lock'')) in
          (case ap_open env of
             Inl e \<Rightarrow> (files1, Inl e)
           | Inr _ \<Rightarrow>
               (case ap_write env line of
                  (written, Inl e) \<Rightarrow> (files1(p \<mapsto> content_of files p @ written), Inl e)
                | (_, Inr _) \<Rightarrow>
                    let contents = content_of files p @ line; files2 = files1(p \<mapsto> contents) in
                    (case ap_length env of
                       Inl e \<Rightarrow> (files2, Inl e)
                     | Inr _ \<Rightarrow>
                         if List.length contents < PRUNE_BYTES then (files2, Inr ())
                         else (case ap_read env of
                           Inl e \<Rightarrow> (files2, Inl e)
                         | Inr _ \<Rightarrow>
                             (case retained contents of
                                None \<Rightarrow> (files2, Inl (IoError ''Memory history tail has no record boundary''))
                              | Some tail \<Rightarrow> publish_tail env p tail files2)))))))"

section \<open>Records\<close>

record memory_log =
  ml_path :: "path option"
  ml_session :: string
  ml_generation :: u64

definition memory_log_new :: "path option \<Rightarrow> nat \<Rightarrow> int \<Rightarrow> nat \<Rightarrow> (int \<Rightarrow> string) \<Rightarrow> memory_log" where
  "memory_log_new p process_id command_pid unix_ns show_int =
     \<lparr>ml_path = p, ml_session = show_nat process_id @ ''-'' @ show_int command_pid @ ''-'' @ show_nat unix_ns,
      ml_generation = 0\<rparr>"

text \<open>What a record says, before it is rendered.\<close>

record memory_record =
  mr_session :: string
  mr_command_pid :: int
  mr_generation :: u64
  mr_outcome :: string
  mr_workload :: workload
  mr_rts_status :: string
  mr_rts :: "rts_sample option"
  mr_os :: "memory_usage option"
  mr_os_error :: "string option"
  mr_major_gc :: "gc_sample option"
  mr_major_gc_error :: "string option"

definition rts_status :: "rts_sample option \<Rightarrow> string" where
  "rts_status sample =
     (case sample of
        None \<Rightarrow> ''unavailable''
      | Some s \<Rightarrow> if rts_last_gc_generation s = 0 then ''minor_gc_inconclusive'' else ''major_gc_snapshot'')"

text \<open>The measurements: an error of one leaves the other.\<close>

definition measured ::
  "memory_usage res \<Rightarrow> (int \<Rightarrow> gc_sample res)
   \<Rightarrow> (memory_usage option \<times> string option) \<times> (gc_sample option \<times> string option)" where
  "measured usage major_of =
     (let (major, os) =
        (case usage of
           Inr u \<Rightarrow>
             (case mu_interactive_ghc u of
                Some (pid, _) \<Rightarrow> (major_of pid, (Some u, None))
              | None \<Rightarrow> (Inl (IoError ''Persistent GHC unavailable''),
                  (None, Some ''Persistent GHC/Cabal pair unavailable'')))
         | Inl (IoError e) \<Rightarrow> (Inl (IoError ''Persistent GHC unavailable''), (None, Some e))) in
      (os, case major of Inr s \<Rightarrow> (Some s, None) | Inl (IoError e) \<Rightarrow> (None, Some e)))"

record memory_write_env =
  mw_usage :: "memory_usage res"
  mw_major :: "int \<Rightarrow> gc_sample res"
  mw_create_dir :: "unit res"
  mw_render :: "memory_record \<Rightarrow> string res"
  mw_append :: append_env

definition memory_log_write ::
  "memory_write_env \<Rightarrow> int \<Rightarrow> string \<Rightarrow> rts_sample option \<Rightarrow> workload \<Rightarrow> memory_log \<Rightarrow> files
   \<Rightarrow> memory_log \<times> files \<times> unit res" where
  "memory_log_write env command_pid outcome sample work ml files =
     (let ml' = ml\<lparr>ml_generation := ml_generation ml + 1\<rparr> in
      case ml_path ml of
        None \<Rightarrow> (ml', files, Inr ())
      | Some p \<Rightarrow>
          let ((os, os_error), (major, major_error)) = measured (mw_usage env) (mw_major env);
              rec = \<lparr>mr_session = ml_session ml, mr_command_pid = command_pid, mr_generation = ml_generation ml,
                mr_outcome = outcome, mr_workload = work, mr_rts_status = rts_status sample, mr_rts = sample,
                mr_os = os, mr_os_error = os_error, mr_major_gc = major, mr_major_gc_error = major_error\<rparr> in
          (case (if parent p \<noteq> None \<and> parent p \<noteq> Some [] then mw_create_dir env else Inr ()) of
             Inl e \<Rightarrow> (ml', files, Inl e)
           | Inr _ \<Rightarrow>
               (case mw_render env rec of
                  Inl e \<Rightarrow> (ml', files, Inl e)
                | Inr json \<Rightarrow>
                    (case append_record (mw_append env) p (json @ [newline]) files of
                       (files', r) \<Rightarrow> (ml', files', r)))))"

section \<open>Facts\<close>

definition records_only :: "string \<Rightarrow> bool" where
  "records_only s \<longleftrightarrow> s = [] \<or> last s = newline"

lemma with_ending_differs: "e \<noteq> [] \<Longrightarrow> with_ending p e \<noteq> p"
  by (cases p rule: rev_cases; cases "last p") (auto simp: with_ending_def)

text \<open>The last bytes begin before the new record, so the new record is among what is kept.\<close>

lemma retained_exact:
  assumes "records_only old" and "KEEP_BYTES < List.length (old @ line)" and "List.length line \<le> KEEP_BYTES"
  shows "\<exists>kept. retained (old @ line) = Some (kept @ line) \<and> suffix (newline # kept) old
    \<and> List.length (kept @ line) \<le> KEEP_BYTES"
proof -
  let ?n = "List.length (old @ line) - KEEP_BYTES - 1"
  define rest where "rest = drop ?n old"
  have tail: "drop ?n (old @ line) = rest @ line" and len: "List.length (rest @ line) = KEEP_BYTES + 1"
    using assms(2,3) by (auto simp: rest_def)
  have "rest \<noteq> []" using len assms(3) by auto
  moreover have "suffix rest old" by (simp add: rest_def suffix_drop)
  ultimately have "last rest = newline"
    using assms(1) by (auto simp: records_only_def suffix_def)
  with \<open>rest \<noteq> []\<close> have "newline \<in> set rest" by (metis last_in_set)
  then obtain a kept where rest: "rest = a @ newline # kept" "newline \<notin> set a"
    by (meson split_list_first)
  then have "split_once_nl (rest @ line) = Some (a, kept @ line)"
    by (simp add: split_once_nl_Some)
  then have "retained (old @ line) = Some (kept @ line)"
    by (simp add: retained_def tail [simplified])
  moreover have "suffix (newline # kept) old"
    using \<open>suffix rest old\<close> rest(1) by (auto simp: suffix_def)
  moreover have "List.length (kept @ line) \<le> KEEP_BYTES"
    using len rest(1) by simp
  ultimately show ?thesis by blast
qed

lemma publish_tail_result:
  assumes "publish_tail env p tail files = (files', r)"
  shows "files' p = (if r = Inr () then Some tail else files p)"
  using assms with_ending_differs [of "''.prune''" p]
  by (cases "ap_temp_open env"; cases "ap_temp_write env tail"; cases "snd (ap_temp_write env tail)";
      cases "ap_sync env"; cases "ap_rename env") (auto simp: publish_tail_def Let_def)

lemma content_of_update [simp]: "content_of (files(q \<mapsto> s)) p = (if p = q then s else content_of files p)"
  by (simp add: content_of_def)

lemma publish_tail_failed: "publish_tail env p tail files = (files', Inl e) \<Longrightarrow> content_of files' p = content_of files p"
  by (drule publish_tail_result) (simp add: content_of_def)

section \<open>Properties\<close>

text \<open>
  C29: the history is bounded and loses only its oldest records. After a successful append the file
  is below the pruning size, ends with the new record, and is what was there with the new record
  behind it, cut at most at the front and there at the boundary of a record.
\<close>

theorem append_bounded:
  assumes "append_record env p line files = (files', Inr ())"
    and "records_only (content_of files p)" and "line \<noteq> []" and "last line = newline"
  shows "\<exists>c. files' p = Some c \<and> List.length c < PRUNE_BYTES \<and> suffix line c \<and> records_only c \<and>
    (c = content_of files p @ line \<or> suffix (newline # c) (content_of files p @ line))"
proof -
  let ?old = "content_of files p"
  have small: "List.length line \<le> KEEP_BYTES" and done_append:
    "if List.length (?old @ line) < PRUNE_BYTES then files' p = Some (?old @ line)
     else \<exists>tail files2. retained (?old @ line) = Some tail \<and> publish_tail env p tail files2 = (files', Inr ())"
    using assms(1) by (auto simp: append_record_def Let_def split: if_splits sum.splits prod.splits option.splits)
  show ?thesis
  proof (cases "List.length (?old @ line) < PRUNE_BYTES")
    case True
    with done_append assms(3,4) show ?thesis by (auto simp: suffix_def records_only_def)
  next
    case False
    then have "KEEP_BYTES < List.length (?old @ line)"
      by (simp add: PRUNE_BYTES_def KEEP_BYTES_def)
    from retained_exact [OF assms(2) this small] obtain kept where
      kept: "retained (?old @ line) = Some (kept @ line)" "suffix (newline # kept) ?old"
      "List.length (kept @ line) \<le> KEEP_BYTES" by blast
    with False done_append have "files' p = Some (kept @ line)"
      using publish_tail_result [of env p "kept @ line" _ files' "Inr ()"] by auto
    moreover have "suffix (newline # kept @ line) (?old @ line)"
      using kept(2) by (auto simp: suffix_def)
    moreover have "KEEP_BYTES < PRUNE_BYTES" by (simp add: PRUNE_BYTES_def KEEP_BYTES_def)
    ultimately show ?thesis
      using kept(3) assms(3,4) by (intro exI [of _ "kept @ line"]) (auto simp: suffix_def records_only_def)
  qed
qed

text \<open>
  An append that fails, at whichever system call, keeps the whole history: what was in the file
  is still its beginning.
\<close>

theorem append_failure_keeps_history:
  assumes "append_record env p line files = (files', Inl e)"
  shows "prefix (content_of files p) (content_of files' p)"
proof -
  have "with_ending p ''.lock'' \<noteq> p" by (simp add: with_ending_differs)
  then show ?thesis
    using assms
    by (auto simp: append_record_def Let_def content_of_update split: if_splits sum.splits prod.splits option.splits
        dest!: publish_tail_failed)
qed

definition calm_append :: append_env where
  "calm_append = \<lparr>ap_lock = Inr (), ap_open = Inr (), ap_write = (\<lambda>s. (s, Inr ())), ap_length = Inr (), ap_read = Inr (),
     ap_temp_open = Inr (), ap_temp_write = (\<lambda>s. (s, Inr ())), ap_sync = Inr (), ap_rename = Inr (), ap_remove = True\<rparr>"

definition demo_history :: path where
  "demo_history = [RootDir, Normal ''memory.jsonl'']"

text \<open>A history of fifteen megabytes of empty records is cut to ten.\<close>

theorem append_bounded_witness:
  "\<exists>c. fst (append_record calm_append demo_history [newline] [demo_history \<mapsto> replicate PRUNE_BYTES newline]) demo_history
     = Some c \<and> List.length c < PRUNE_BYTES"
proof -
  let ?files = "[demo_history \<mapsto> replicate PRUNE_BYTES newline]"
  have old: "content_of ?files demo_history = replicate PRUNE_BYTES newline"
    by (simp add: content_of_def)
  have small: "\<not> KEEP_BYTES < 1" and "KEEP_BYTES < PRUNE_BYTES"
    by (simp_all add: KEEP_BYTES_def PRUNE_BYTES_def)
  with retained_exact [of "replicate PRUNE_BYTES newline" "[newline]"]
  obtain tail where "retained (replicate PRUNE_BYTES newline @ [newline]) = Some tail"
    by (cases "PRUNE_BYTES = 0") (auto simp: records_only_def last_replicate)
  with small have "snd (append_record calm_append demo_history [newline] ?files) = Inr ()"
    unfolding append_record_def old by (simp add: calm_append_def publish_tail_def Let_def)
  then obtain files' where r: "append_record calm_append demo_history [newline] ?files = (files', Inr ())"
    by (cases "append_record calm_append demo_history [newline] ?files") auto
  have "records_only (content_of ?files demo_history)"
    unfolding old by (cases "PRUNE_BYTES = 0") (auto simp: records_only_def last_replicate)
  from append_bounded [OF r this] r show ?thesis by auto
qed

theorem append_failure_keeps_history_witness:
  "content_of (fst (append_record (calm_append\<lparr>ap_write := (\<lambda>s. (take 1 s, Inl (IoError ''disk full'')))\<rparr>)
     demo_history ''b'' [demo_history \<mapsto> ''a''])) demo_history \<noteq> []"
proof -
  let ?env = "calm_append\<lparr>ap_write := (\<lambda>s. (take 1 s, Inl (IoError ''disk full'')))\<rparr>"
  have "snd (append_record ?env demo_history ''b'' [demo_history \<mapsto> ''a'']) = Inl (IoError ''disk full'')"
    by (simp add: append_record_def calm_append_def KEEP_BYTES_def Let_def)
  then obtain files' where r: "append_record ?env demo_history ''b'' [demo_history \<mapsto> ''a''] = (files', Inl (IoError ''disk full''))"
    by (cases "append_record ?env demo_history ''b'' [demo_history \<mapsto> ''a'']") auto
  from append_failure_keeps_history [OF r] r show ?thesis by (auto simp: content_of_def)
qed

end
