(* ===== verification/Progress.thy ===== *)
theory Progress
  imports Diagnostics Utf8
begin

text \<open>
  \<open>src/src/ghci/progress_writer.rs\<close>: the writer that turns \<open>[N of M] Compiling\<close> lines into one
  progress line. The writer it wraps answers polls as it likes; escape sequences, the width of the
  terminal, the stripping of escapes and the parser of progress lines are parameters.
\<close>

section \<open>Truncation\<close>

text \<open>\<open>str::is_char_boundary\<close>.\<close>

definition char_boundary :: "string \<Rightarrow> nat \<Rightarrow> bool" where
  "char_boundary s i \<longleftrightarrow> i = 0 \<or> i = List.length s \<or> (i < List.length s \<and> \<not> is_cont (s ! i))"

fun floor_boundary :: "string \<Rightarrow> nat \<Rightarrow> nat" where
  "floor_boundary s 0 = 0"
| "floor_boundary s (Suc n) = (if char_boundary s (Suc n) then Suc n else floor_boundary s n)"

definition truncate_to_terminal_width :: "string \<Rightarrow> nat \<Rightarrow> string" where
  "truncate_to_terminal_width s max_cols =
     (if List.length s \<le> max_cols then s else take (floor_boundary s max_cols) s)"

section \<open>The writer\<close>

datatype 'a poll = Ready 'a | Pending

text \<open>The last three fields record what was asked of the wrapped writer and of the terminal.\<close>

record progress_writer =
  pw_line_buffer :: string
  pw_pending_output :: string
  pw_progress_active :: bool
  pw_render_progress :: bool
  pw_written :: string
  pw_polls :: nat
  pw_sized :: nat

text \<open>
  The answers of the wrapped writer to its \<open>n\<close>th poll. \<open>pe_slice\<close> is the length of the first
  contiguous part of the pending bytes (\<open>VecDeque::as_slices\<close>).
\<close>

record progress_env =
  pe_write :: "nat \<Rightarrow> string \<Rightarrow> nat res poll"
  pe_flush :: "nat \<Rightarrow> unit res poll"
  pe_shutdown :: "nat \<Rightarrow> unit res poll"
  pe_slice :: "nat \<Rightarrow> nat"
  pe_strip_ansi :: "string \<Rightarrow> string"
  pe_compiling :: "string \<Rightarrow> compiling_progress option"
  pe_width :: "nat \<Rightarrow> nat option"
  pe_clear_line :: string

definition progress_new :: "bool \<Rightarrow> progress_writer" where
  "progress_new render = \<lparr>pw_line_buffer = [], pw_pending_output = [], pw_progress_active = False,
     pw_render_progress = render, pw_written = [], pw_polls = 0, pw_sized = 0\<rparr>"

definition emit :: "string \<Rightarrow> progress_writer \<Rightarrow> progress_writer" where
  "emit s pw = pw\<lparr>pw_pending_output := pw_pending_output pw @ s\<rparr>"

definition progress_text :: "compiling_progress \<Rightarrow> string" where
  "progress_text p =
     ''['' @ show_nat (unat (cp_current p)) @ ''/'' @ show_nat (unat (cp_total p)) @ ''] Compiling '' @
     cm_name (cp_module p) @ (case cp_reason p of Some r \<Rightarrow> '' '' @ r | None \<Rightarrow> [])"

definition render_progress :: "progress_env \<Rightarrow> compiling_progress \<Rightarrow> progress_writer \<Rightarrow> progress_writer" where
  "render_progress env p pw =
     (if \<not> pw_render_progress pw then pw
      else
        let width = (case pe_width env (pw_sized pw) of Some w \<Rightarrow> w | None \<Rightarrow> 80) in
        emit (pe_clear_line env @ truncate_to_terminal_width (progress_text p) (width - 1))
          (pw\<lparr>pw_progress_active := True, pw_sized := Suc (pw_sized pw)\<rparr>))"

definition clear_progress :: "progress_env \<Rightarrow> progress_writer \<Rightarrow> progress_writer" where
  "clear_progress env pw =
     (if \<not> pw_render_progress pw \<or> \<not> pw_progress_active pw then pw
      else emit (pe_clear_line env) (pw\<lparr>pw_progress_active := False\<rparr>))"

definition progress_of :: "progress_env \<Rightarrow> string \<Rightarrow> compiling_progress option" where
  "progress_of env line = pe_compiling env (pe_strip_ansi env (utf8_lossy (line @ [newline])))"

definition process_line :: "progress_env \<Rightarrow> string \<Rightarrow> progress_writer \<Rightarrow> progress_writer" where
  "process_line env line pw =
     (case progress_of env line of
        Some p \<Rightarrow> render_progress env p pw
      | None \<Rightarrow> emit (line @ [newline]) (if pw_progress_active pw then clear_progress env pw else pw))"

function process_complete_lines :: "progress_env \<Rightarrow> progress_writer \<Rightarrow> progress_writer" where
  "process_complete_lines env pw =
     (case split_once_nl (pw_line_buffer pw) of
        None \<Rightarrow> pw
      | Some (line, rest) \<Rightarrow> process_complete_lines env ((process_line env line pw)\<lparr>pw_line_buffer := rest\<rparr>))"
  by pat_completeness auto
termination
  by (relation "measure (\<lambda>(env, pw). List.length (pw_line_buffer pw))") (auto dest: split_once_nl_length)

text \<open>The wrapped writer takes the first \<open>n\<close> bytes it is offered.\<close>

definition polled :: "string \<Rightarrow> progress_writer \<Rightarrow> progress_writer" where
  "polled s pw = pw\<lparr>pw_written := pw_written pw @ s, pw_polls := Suc (pw_polls pw)\<rparr>"

definition first_slice :: "progress_env \<Rightarrow> progress_writer \<Rightarrow> string" where
  "first_slice env pw = take (max 1 (pe_slice env (pw_polls pw))) (pw_pending_output pw)"

definition accepted :: "progress_env \<Rightarrow> nat \<Rightarrow> progress_writer \<Rightarrow> progress_writer" where
  "accepted env n pw =
     (polled (take n (first_slice env pw)) pw)\<lparr>pw_pending_output := drop n (pw_pending_output pw)\<rparr>"

function flush_pending :: "progress_env \<Rightarrow> progress_writer \<Rightarrow> progress_writer \<times> unit res poll" where
  "flush_pending env pw =
     (if pw_pending_output pw = [] then (pw, Ready (Inr ()))
      else (case pe_write env (pw_polls pw) (first_slice env pw) of
           Ready (Inr n) \<Rightarrow>
             if n = 0 then (polled [] pw, Ready (Inl (IoError ''inner writer returned 0 bytes written'')))
             else flush_pending env (accepted env n pw)
         | Ready (Inl e) \<Rightarrow> (polled [] pw, Ready (Inl e))
         | Pending \<Rightarrow> (polled [] pw, Pending)))"
  by pat_completeness auto
termination
  by (relation "measure (\<lambda>(env, pw). List.length (pw_pending_output pw))") (auto simp: accepted_def)

declare process_complete_lines.simps [simp del] flush_pending.simps [simp del]

section \<open>Polls\<close>

definition poll_write :: "progress_env \<Rightarrow> string \<Rightarrow> progress_writer \<Rightarrow> progress_writer \<times> nat res poll" where
  "poll_write env buf pw =
     (case flush_pending env pw of
        (pw1, Pending) \<Rightarrow> (pw1, Pending)
      | (pw1, Ready (Inl e)) \<Rightarrow> (pw1, Ready (Inl e))
      | (pw1, Ready (Inr _)) \<Rightarrow>
          if \<not> pw_render_progress pw1
          then (case pe_write env (pw_polls pw1) buf of
                  Ready (Inr n) \<Rightarrow> (polled (take n buf) pw1, Ready (Inr n))
                | r \<Rightarrow> (polled [] pw1, r))
          else
            (fst (flush_pending env (process_complete_lines env
               (pw1\<lparr>pw_line_buffer := pw_line_buffer pw1 @ buf\<rparr>))), Ready (Inr (List.length buf))))"

definition poll_flush :: "progress_env \<Rightarrow> progress_writer \<Rightarrow> progress_writer \<times> unit res poll" where
  "poll_flush env pw =
     (case flush_pending env pw of
        (pw1, Ready (Inr _)) \<Rightarrow> (polled [] pw1, pe_flush env (pw_polls pw1))
      | (pw1, r) \<Rightarrow> (pw1, r))"

definition poll_shutdown :: "progress_env \<Rightarrow> progress_writer \<Rightarrow> progress_writer \<times> unit res poll" where
  "poll_shutdown env pw =
     (let pw1 = clear_progress env pw;
          pw2 = (emit (pw_line_buffer pw1) pw1)\<lparr>pw_line_buffer := []\<rparr> in
      case flush_pending env pw2 of
        (pw3, Ready (Inr _)) \<Rightarrow> (polled [] pw3, pe_shutdown env (pw_polls pw3))
      | (pw3, r) \<Rightarrow> (pw3, r))"

text \<open>A client that polls writes and flushes, and the bytes it was told were taken.\<close>

datatype poll_op = PollWrite string | PollFlush

fun poll_run :: "progress_env \<Rightarrow> poll_op list \<Rightarrow> progress_writer \<Rightarrow> progress_writer \<times> string" where
  "poll_run env [] pw = (pw, [])"
| "poll_run env (PollWrite buf # ops) pw =
     (case poll_write env buf pw of
        (pw1, Ready (Inr n)) \<Rightarrow> (case poll_run env ops pw1 of (pw2, s) \<Rightarrow> (pw2, take n buf @ s))
      | (pw1, _) \<Rightarrow> poll_run env ops pw1)"
| "poll_run env (PollFlush # ops) pw = poll_run env ops (fst (poll_flush env pw))"

section \<open>What is shown\<close>

text \<open>
  The specification: every line by itself, from whether a progress line stands and how often the
  terminal's width was asked for.
\<close>

fun shown :: "progress_env \<Rightarrow> string list \<Rightarrow> bool \<times> nat \<Rightarrow> string \<times> bool \<times> nat" where
  "shown env [] st = ([], st)"
| "shown env (l # ls) (active, k) =
     (case progress_of env l of
        Some p \<Rightarrow>
          (case shown env ls (True, Suc k) of
             (out, st) \<Rightarrow> (pe_clear_line env @ truncate_to_terminal_width (progress_text p)
               ((case pe_width env k of Some w \<Rightarrow> w | None \<Rightarrow> 80) - 1) @ out, st))
      | None \<Rightarrow>
          (case shown env ls (False, k) of
             (out, st) \<Rightarrow> ((if active then pe_clear_line env else []) @ l @ newline # out, st)))"

lemma shown_append:
  "shown env (ls @ ms) st =
    (case shown env ls st of (o1, st1) \<Rightarrow> (case shown env ms st1 of (o2, st2) \<Rightarrow> (o1 @ o2, st2)))"
  by (induction env ls st rule: shown.induct) (auto split: prod.splits option.splits)

lemma shown_plain:
  "\<forall>l \<in> set ls. progress_of env l = None \<Longrightarrow> shown env ls (False, k) = (unlines ls, False, k)"
  by (induction ls) auto

text \<open>The documented contract of \<open>AsyncWrite\<close>: no more bytes are taken than were offered.\<close>

definition takes_offered :: "progress_env \<Rightarrow> bool" where
  "takes_offered env \<longleftrightarrow> (\<forall>k buf n. pe_write env k buf = Ready (Inr n) \<longrightarrow> n \<le> List.length buf)"

lemma takes_offeredD: "takes_offered env \<Longrightarrow> pe_write env k buf = Ready (Inr n) \<Longrightarrow> n \<le> List.length buf"
  by (simp add: takes_offered_def)

text \<open>All output so far, and what polling the wrapped writer leaves alone.\<close>

definition all_output :: "progress_writer \<Rightarrow> string" where
  "all_output pw = pw_written pw @ pw_pending_output pw"

definition same_lines :: "progress_writer \<Rightarrow> progress_writer \<Rightarrow> bool" where
  "same_lines pw pw' \<longleftrightarrow> pw_line_buffer pw' = pw_line_buffer pw \<and> pw_progress_active pw' = pw_progress_active pw \<and>
     pw_render_progress pw' = pw_render_progress pw \<and> pw_sized pw' = pw_sized pw"

lemma same_lines_simps [simp]:
  "same_lines pw pw" "same_lines pw (polled s pw') = same_lines pw pw'"
  "same_lines (polled s pw) pw' = same_lines pw pw'"
  "same_lines (pw\<lparr>pw_pending_output := x\<rparr>) pw' = same_lines pw pw'"
  "all_output (polled [] pw) = all_output pw"
  by (simp_all add: same_lines_def polled_def all_output_def)

lemma same_lines_trans: "same_lines pw1 pw2 \<Longrightarrow> same_lines pw2 pw3 \<Longrightarrow> same_lines pw1 pw3"
  by (simp add: same_lines_def)

lemma accepted_keeps:
  "n \<le> List.length (first_slice env pw) \<Longrightarrow> all_output (accepted env n pw) = all_output pw \<and> same_lines pw (accepted env n pw)"
  by (simp add: accepted_def first_slice_def all_output_def polled_def same_lines_def)

lemma flush_pending_keeps:
  "takes_offered env \<Longrightarrow> flush_pending env pw = (pw', r) \<Longrightarrow> all_output pw' = all_output pw \<and> same_lines pw pw' \<and>
    (r = Ready (Inr ()) \<longrightarrow> pw_pending_output pw' = [])"
proof (induction env pw arbitrary: pw' r rule: flush_pending.induct)
  case (1 env pw)
  note step = 1(3) [unfolded flush_pending.simps [of env pw]]
  show ?case
  proof (cases "pw_pending_output pw = []")
    case True
    with step show ?thesis by auto
  next
    case False
    show ?thesis
    proof (cases "pe_write env (pw_polls pw) (first_slice env pw)")
      case (Ready a)
      show ?thesis
      proof (cases a)
        case (Inr n)
        note took = Ready [unfolded Inr]
        show ?thesis
        proof (cases "n = 0")
          case True
          with step False took show ?thesis by auto
        next
          case pos: False
          have "flush_pending env (accepted env n pw) = (pw', r)" using step False took pos by simp
          note IH = 1(1) [OF False Ready Inr pos 1(2) this]
          note kept = accepted_keeps [OF takes_offeredD [OF 1(2) took]]
          show ?thesis
            using trans [OF conjunct1 [OF IH] conjunct1 [OF kept]]
              same_lines_trans [OF conjunct2 [OF kept] conjunct1 [OF conjunct2 [OF IH]]]
              conjunct2 [OF conjunct2 [OF IH]] by (intro conjI)
        qed
      qed (use step False Ready in auto)
    qed (use step False in auto)
  qed
qed

text \<open>Taking in a text shows its complete lines and keeps the rest.\<close>

definition line_state :: "progress_writer \<Rightarrow> bool \<times> nat" where
  "line_state pw = (pw_progress_active pw, pw_sized pw)"

lemma process_line_shown:
  assumes "pw_render_progress pw" and "shown env [line] (line_state pw) = (out, st)"
  shows "all_output (process_line env line pw) = all_output pw @ out" "line_state (process_line env line pw) = st"
    "pw_render_progress (process_line env line pw)"
  using assms
  by (auto simp: process_line_def line_state_def all_output_def emit_def render_progress_def clear_progress_def Let_def
      split: option.splits if_splits)

lemma process_complete_lines_shown:
  assumes "pw_render_progress pw" and "shown env (complete_lines (pw_line_buffer pw)) (line_state pw) = (out, st)"
    and "process_complete_lines env pw = pw'"
  shows "all_output pw' = all_output pw @ out \<and> line_state pw' = st \<and> pw_render_progress pw' \<and>
    pw_line_buffer pw' = last_partial (pw_line_buffer pw)"
  using assms
proof (induction env pw arbitrary: out st rule: process_complete_lines.induct)
  case (1 env pw)
  show ?case
  proof (cases "split_once_nl (pw_line_buffer pw)")
    case None
    with 1(2-4) show ?thesis
      by (auto simp: process_complete_lines.simps [of env pw] split_once_nl_None)
  next
    case (Some lr)
    obtain line rest where lr: "lr = (line, rest)" by (cases lr)
    with Some have buffer: "pw_line_buffer pw = line @ newline # rest" "newline \<notin> set line"
      by (simp_all add: split_once_nl_Some)
    let ?pw1 = "(process_line env line pw)\<lparr>pw_line_buffer := rest\<rparr>"
    obtain o1 st1 where o1: "shown env [line] (line_state pw) = (o1, st1)"
      by (cases "shown env [line] (line_state pw)")
    obtain o2 st2 where o2: "shown env (complete_lines rest) st1 = (o2, st2)"
      by (cases "shown env (complete_lines rest) st1")
    have out: "out = o1 @ o2" "st = st2"
      using 1(3) buffer o1 o2 shown_append [of env "[line]" "complete_lines rest" "line_state pw"] by simp_all
    note line = process_line_shown [OF 1(2) o1]
    have free: "all_output ?pw1 = all_output (process_line env line pw)" "line_state ?pw1 = line_state (process_line env line pw)"
      by (simp_all add: all_output_def line_state_def)
    have "all_output pw' = all_output ?pw1 @ o2 \<and> line_state pw' = st2 \<and> pw_render_progress pw' \<and>
        pw_line_buffer pw' = last_partial (pw_line_buffer ?pw1)"
      using 1(1) [OF Some lr [symmetric]] 1(4) Some lr line o2 free
      by (simp add: process_complete_lines.simps [of env pw])
    then show ?thesis using free line out buffer by simp
  qed
qed

lemma complete_lines_append:
  "complete_lines (s @ t) = complete_lines s @ complete_lines (last_partial s @ t)"
  "last_partial (s @ t) = last_partial (last_partial s @ t)"
  by (induction s rule: line_induct) auto

text \<open>One poll: the bytes it reports as taken are taken in, whatever the wrapped writer does.\<close>

definition taken_bytes :: "string \<Rightarrow> nat res poll \<Rightarrow> string" where
  "taken_bytes buf r = (case r of Ready (Inr n) \<Rightarrow> take n buf | _ \<Rightarrow> [])"

definition takes_in :: "progress_env \<Rightarrow> string \<Rightarrow> progress_writer \<Rightarrow> progress_writer \<Rightarrow> bool" where
  "takes_in env s pw pw' \<longleftrightarrow>
     (case shown env (complete_lines (pw_line_buffer pw @ s)) (line_state pw) of
        (out, st) \<Rightarrow> all_output pw' = all_output pw @ out \<and> line_state pw' = st) \<and>
     pw_line_buffer pw' = last_partial (pw_line_buffer pw @ s) \<and> pw_render_progress pw'"

lemma takes_in_trans:
  assumes "takes_in env s pw pw1" and "takes_in env t pw1 pw2"
  shows "takes_in env (s @ t) pw pw2"
  using assms complete_lines_append [of "pw_line_buffer pw @ s" t]
  by (auto simp: takes_in_def shown_append split: prod.splits)

lemma takes_in_same:
  assumes "newline \<notin> set (pw_line_buffer pw)" and "pw_render_progress pw"
    and "all_output pw' = all_output pw" and "same_lines pw pw'"
  shows "takes_in env [] pw pw'"
  using assms by (auto simp: takes_in_def same_lines_def line_state_def)

lemma poll_write_takes_in:
  assumes env: "takes_offered env" and nl: "newline \<notin> set (pw_line_buffer pw)" and render: "pw_render_progress pw"
    and run: "poll_write env buf pw = (pw', r)"
  shows "takes_in env (taken_bytes buf r) pw pw'"
proof -
  obtain pw1 r1 where f1: "flush_pending env pw = (pw1, r1)" by (cases "flush_pending env pw")
  note keep1 = flush_pending_keeps [OF env f1]
  show ?thesis
  proof (cases "r1 = Ready (Inr ())")
    case True
    let ?pw2 = "process_complete_lines env (pw1\<lparr>pw_line_buffer := pw_line_buffer pw1 @ buf\<rparr>)"
    have r: "r = Ready (Inr (List.length buf))" "pw' = fst (flush_pending env ?pw2)"
      using run f1 True keep1 render by (auto simp: poll_write_def same_lines_def)
    obtain pw3 r3 where f3: "flush_pending env ?pw2 = (pw3, r3)" by (cases "flush_pending env ?pw2")
    note keep3 = flush_pending_keeps [OF env f3]
    obtain out st where o: "shown env (complete_lines (pw_line_buffer pw @ buf)) (line_state pw) = (out, st)"
      by (cases "shown env (complete_lines (pw_line_buffer pw @ buf)) (line_state pw)")
    have "all_output ?pw2 = all_output pw @ out \<and> line_state ?pw2 = st \<and> pw_render_progress ?pw2 \<and>
        pw_line_buffer ?pw2 = last_partial (pw_line_buffer pw @ buf)"
      using process_complete_lines_shown [of "pw1\<lparr>pw_line_buffer := pw_line_buffer pw1 @ buf\<rparr>" env out st ?pw2]
        keep1 render o by (simp add: same_lines_def all_output_def line_state_def)
    then show ?thesis
      using keep3 f3 r o by (auto simp: takes_in_def taken_bytes_def same_lines_def line_state_def)
  next
    case False
    then have "pw' = pw1" "taken_bytes buf r = []"
      using run f1 by (auto simp: poll_write_def taken_bytes_def split: poll.splits sum.splits)
    with takes_in_same [OF nl render] keep1 show ?thesis by simp
  qed
qed

lemma poll_flush_keeps:
  assumes "takes_offered env"
  shows "all_output (fst (poll_flush env pw)) = all_output pw \<and> same_lines pw (fst (poll_flush env pw))"
  using flush_pending_keeps [OF assms, of pw]
  by (cases "flush_pending env pw") (auto simp: poll_flush_def split: poll.splits sum.splits)

lemma poll_run_Write:
  assumes "poll_write env buf pw = (pw1, r)" and "poll_run env ops pw1 = (pw2, s)"
  shows "poll_run env (PollWrite buf # ops) pw = (pw2, taken_bytes buf r @ s)"
  using assms by (auto simp: taken_bytes_def split: poll.splits sum.splits)

lemma poll_run_takes_in:
  assumes env: "takes_offered env"
  shows "newline \<notin> set (pw_line_buffer pw) \<Longrightarrow> pw_render_progress pw \<Longrightarrow> poll_run env ops pw = (pw', s) \<Longrightarrow>
    takes_in env s pw pw'"
proof (induction ops arbitrary: pw s)
  case Nil
  then show ?case by (auto intro: takes_in_same)
next
  case (Cons op ops)
  show ?case
  proof (cases op)
    case (PollWrite buf)
    obtain pw1 r where w: "poll_write env buf pw = (pw1, r)" by (cases "poll_write env buf pw")
    obtain s' where s': "poll_run env ops pw1 = (pw', s')" "s = taken_bytes buf r @ s'"
      using Cons.prems(3) poll_run_Write [OF w] PollWrite by (cases "poll_run env ops pw1") auto
    have t1: "takes_in env (taken_bytes buf r) pw pw1" using poll_write_takes_in [OF env Cons.prems(1,2) w] .
    then have "takes_in env s' pw1 pw'" using s'(1) by (intro Cons.IH) (simp_all add: takes_in_def)
    with t1 s'(2) show ?thesis by (auto intro: takes_in_trans)
  next
    case PollFlush
    let ?pw1 = "fst (poll_flush env pw)"
    have t1: "takes_in env [] pw ?pw1" using takes_in_same [OF Cons.prems(1,2)] poll_flush_keeps [OF env] by blast
    then have "newline \<notin> set (pw_line_buffer ?pw1)" "pw_render_progress ?pw1" by (simp_all add: takes_in_def)
    then have "takes_in env s ?pw1 pw'" using Cons.prems(3) PollFlush by (intro Cons.IH) simp_all
    with takes_in_trans [OF t1] show ?thesis by simp
  qed
qed

text \<open>Without rendering, the writer passes everything on.\<close>

lemma poll_run_plain:
  assumes env: "takes_offered env"
  shows "\<not> pw_render_progress pw \<Longrightarrow> pw_pending_output pw = [] \<Longrightarrow> poll_run env ops pw = (pw', s) \<Longrightarrow>
    pw_written pw' = pw_written pw @ s \<and> pw_pending_output pw' = [] \<and> same_lines pw pw'"
proof (induction ops arbitrary: pw s)
  case (Cons op ops)
  have idle: "flush_pending env pw = (pw, Ready (Inr ()))"
    using Cons.prems(2) by (simp add: flush_pending.simps [of env pw])
  show ?case
  proof (cases op)
    case (PollWrite buf)
    obtain pw1 r where w: "poll_write env buf pw = (pw1, r)" by (cases "poll_write env buf pw")
    obtain s' where s': "poll_run env ops pw1 = (pw', s')" "s = taken_bytes buf r @ s'"
      using Cons.prems(3) poll_run_Write [OF w] PollWrite by (cases "poll_run env ops pw1") auto
    have "pw1 = polled (taken_bytes buf r) pw"
      using w Cons.prems(1) idle by (auto simp: poll_write_def taken_bytes_def split: poll.splits sum.splits)
    with Cons.IH [of pw1] Cons.prems(1,2) s' show ?thesis by (auto simp: polled_def same_lines_def)
  next
    case PollFlush
    with Cons.IH [of "polled [] pw"] Cons.prems idle show ?thesis by (auto simp: poll_flush_def polled_def same_lines_def)
  qed
qed simp

section \<open>Boundaries of characters\<close>

lemma utf8_step_shape:
  assumes "utf8_step s = Valid m" and "1 < m"
  obtains (two) c d r where "s = c # d # r" "m = 2" "utf8_width (byte c) = 2" "second_ok (byte c) (byte d)"
  | (three) c d e r where "s = c # d # e # r" "m = 3" "utf8_width (byte c) = 3" "second_ok (byte c) (byte d)" "is_cont e"
  | (four) c d e f r where "s = c # d # e # f # r" "m = 4" "utf8_width (byte c) = 4" "second_ok (byte c) (byte d)"
      "is_cont e" "is_cont f"
proof -
  have w: "utf8_width b \<le> 4" for b by (simp add: utf8_width_def)
  show thesis
    using assms two three four w [of "byte (hd s)"]
    by (cases s) (auto simp: Let_def split: if_splits list.splits)
qed

lemma utf8_step_inside:
  assumes "utf8_step s = Valid m" and "0 < i" and "i < m"
  shows "is_cont (s ! i)" "utf8_step (take i s) = Incomplete"
proof -
  have second: "is_cont d" if "second_ok b (byte d)" for b d
    using that by (auto simp: second_ok_def is_cont_def split: if_splits)
  have "1 < m" using assms(2,3) by simp
  with assms(1) have "is_cont (s ! i) \<and> utf8_step (take i s) = Incomplete"
  proof (cases rule: utf8_step_shape)
    case (two c d r)
    then have "i = 1" using assms(2,3) by simp
    with two second show ?thesis by simp
  next
    case (three c d e r)
    then have "i = 1 \<or> i = 2" using assms(2,3) by auto
    with three second show ?thesis by (auto simp: numeral_2_eq_2)
  next
    case (four c d e f r)
    then have "i = 1 \<or> i = 2 \<or> i = 3" using assms(2,3) by auto
    with four second show ?thesis by (auto simp: numeral_2_eq_2 numeral_3_eq_3)
  qed
  then show "is_cont (s ! i)" "utf8_step (take i s) = Incomplete" by simp_all
qed

lemma valid_head: "valid_utf8 (c # cs) \<Longrightarrow> \<not> is_cont c"
  by (auto simp: valid_utf8_def utf8_check.simps [of "c # cs"] is_cont_def utf8_width_def Let_def split: if_splits)

lemma valid_utf8_step:
  assumes "valid_utf8 s" and "s \<noteq> []"
  obtains m where "utf8_step s = Valid m" "valid_utf8 (drop m s)" "0 < m" "m \<le> List.length s" "valid_utf8 (take m s)"
proof -
  obtain m where m: "utf8_step s = Valid m" "valid_utf8 (drop m s)"
    using assms by (auto simp: valid_utf8_def utf8_check.simps [of s] split: utf8_verdict.splits prod.splits)
  have b: "0 < m" "m \<le> List.length s" using utf8_step_Valid_bounds [OF m(1)] by auto
  have "valid_utf8 (take m s)"
    using utf8_step_take [OF m(1)] b assms(2) by (simp add: valid_utf8_def utf8_check.simps [of "take m s"])
  with m b that show thesis by blast
qed

lemma boundary_iff_valid:
  "valid_utf8 s \<Longrightarrow> i \<le> List.length s \<Longrightarrow> valid_utf8 (take i s) \<longleftrightarrow> char_boundary s i"
proof (induction s arbitrary: i rule: length_induct)
  case (1 s)
  show ?case
  proof (cases "i = 0 \<or> i = List.length s")
    case True
    then show ?thesis using 1(2) by (auto simp: char_boundary_def valid_utf8_def)
  next
    case False
    then have "s \<noteq> []" using 1(3) by auto
    with 1(2) obtain m where m: "utf8_step s = Valid m" "valid_utf8 (drop m s)" "0 < m" "m \<le> List.length s" "valid_utf8 (take m s)"
      by (rule valid_utf8_step)
    show ?thesis
    proof (cases "i < m")
      case True
      have "\<not> valid_utf8 (take i s)"
        using utf8_step_inside(2) [OF m(1) _ True] False \<open>s \<noteq> []\<close>
        by (simp add: valid_utf8_def utf8_check.simps [of "take i s"])
      with utf8_step_inside(1) [OF m(1) _ True] False show ?thesis by (auto simp: char_boundary_def)
    next
      case past: False
      have "take i s = take m s @ take (i - m) (drop m s)"
        using past m(4) by (metis add_diff_inverse_nat take_add)
      then have "valid_utf8 (take i s) \<longleftrightarrow> valid_utf8 (take (i - m) (drop m s))"
        using valid_utf8_append [OF m(5)] by simp
      also have "\<dots> \<longleftrightarrow> char_boundary (drop m s) (i - m)"
        using 1(1) m \<open>s \<noteq> []\<close> 1(3) by simp
      also have "\<dots> \<longleftrightarrow> char_boundary s i"
      proof (cases "i = m")
        case True
        obtain c cs where "drop m s = c # cs" using False True 1(3) m(4) by (cases "drop m s") auto
        with valid_head m(2) True have "\<not> is_cont (s ! i)" by (metis nth_via_drop)
        with True False 1(3) show ?thesis by (auto simp: char_boundary_def)
      next
        case False
        with past \<open>\<not> (i = 0 \<or> i = List.length s)\<close> 1(3) show ?thesis by (auto simp: char_boundary_def)
      qed
      finally show ?thesis .
    qed
  qed
qed

lemma floor_boundary_greatest:
  "floor_boundary s n \<le> n" "char_boundary s (floor_boundary s n)"
  "i \<le> n \<Longrightarrow> char_boundary s i \<Longrightarrow> i \<le> floor_boundary s n"
  by (induction n) (auto simp: char_boundary_def le_Suc_eq)

section \<open>Properties\<close>

text \<open>
  C13: the writer shows what the line-by-line specification says, however its input is cut up and
  whatever the wrapped writer does. After any polls for writes and flushes, some of them refused,
  pending or failed, everything written or still pending is the image of the complete lines among the
  bytes that were taken, and the partial line waits; without rendering, the bytes are passed on.
\<close>

theorem progress_writer_refines:
  assumes "takes_offered env" and "poll_run env ops (progress_new render) = (pw, taken)"
  shows "if render
    then pw_written pw @ pw_pending_output pw = fst (shown env (complete_lines taken) (False, 0)) \<and>
      pw_line_buffer pw = last_partial taken
    else pw_written pw = taken \<and> pw_pending_output pw = []"
proof (cases render)
  case True
  have "takes_in env taken (progress_new render) pw"
    using poll_run_takes_in [OF assms(1) _ _ assms(2)] True by (simp add: progress_new_def)
  with True show ?thesis
    by (simp add: takes_in_def progress_new_def line_state_def all_output_def split: prod.splits)
next
  case False
  with poll_run_plain [OF assms(1) _ _ assms(2)] show ?thesis by (simp add: progress_new_def)
qed

text \<open>
  Output without progress lines comes out unchanged. Once a shutdown has succeeded, the wrapped
  writer has been given exactly the bytes that were taken, the last partial line included.
\<close>

theorem plain_output_unchanged:
  assumes "takes_offered env" and "poll_run env ops (progress_new render) = (pw, taken)"
    and "\<forall>l \<in> set (complete_lines taken). progress_of env l = None"
    and "poll_shutdown env pw = (pw', Ready (Inr ()))"
  shows "pw_written pw' = taken"
proof -
  have idle: "\<not> pw_progress_active pw \<and> all_output pw @ pw_line_buffer pw = taken"
  proof (cases render)
    case True
    have "takes_in env taken (progress_new render) pw"
      using poll_run_takes_in [OF assms(1) _ _ assms(2)] True by (simp add: progress_new_def)
    with assms(3) show ?thesis
      using lines_concat [of taken] by (simp add: takes_in_def progress_new_def line_state_def all_output_def shown_plain)
  next
    case False
    then have "same_lines (progress_new False) pw \<and> all_output pw = taken"
      using poll_run_plain [OF assms(1) _ _ assms(2)] by (simp add: progress_new_def all_output_def)
    then show ?thesis by (simp add: same_lines_def progress_new_def)
  qed
  let ?pw1 = "(emit (pw_line_buffer pw) pw)\<lparr>pw_line_buffer := []\<rparr>"
  obtain pw3 r where f: "flush_pending env ?pw1 = (pw3, r)" by (cases "flush_pending env ?pw1")
  have "clear_progress env pw = pw" using idle by (simp add: clear_progress_def)
  with f assms(4) have "r = Ready (Inr ())" "pw' = polled [] pw3"
    by (auto simp: poll_shutdown_def Let_def split: poll.splits sum.splits)
  with flush_pending_keeps [OF assms(1) f] have "pw_written pw' = all_output ?pw1"
    by (auto simp: all_output_def polled_def)
  with idle show ?thesis by (simp add: all_output_def emit_def)
qed

text \<open>
  A progress line is cut to the longest valid text that fits. Of a valid UTF-8 text, the
  truncation is the longest valid prefix of at most the given number of bytes.
\<close>

theorem truncate_longest_valid:
  assumes "valid_utf8 s"
  shows "prefix (truncate_to_terminal_width s n) s \<and> valid_utf8 (truncate_to_terminal_width s n) \<and>
    List.length (truncate_to_terminal_width s n) \<le> n \<and>
    (\<forall>u. prefix u s \<and> valid_utf8 u \<and> List.length u \<le> n \<longrightarrow> prefix u (truncate_to_terminal_width s n))"
proof (cases "List.length s \<le> n")
  case True
  then show ?thesis using assms by (simp add: truncate_to_terminal_width_def)
next
  case False
  let ?k = "floor_boundary s n"
  have k: "?k \<le> n" "char_boundary s ?k" by (rule floor_boundary_greatest)+
  have t: "truncate_to_terminal_width s n = take ?k s" using False by (simp add: truncate_to_terminal_width_def)
  have "prefix u (take ?k s)" if u: "prefix u s" "valid_utf8 u" "List.length u \<le> n" for u
  proof -
    have e: "u = take (List.length u) s" using u(1) by (auto simp: prefix_def)
    then have "char_boundary s (List.length u)"
      using boundary_iff_valid [OF assms, of "List.length u"] u by (simp add: prefix_length_le)
    then have "List.length u \<le> ?k" using floor_boundary_greatest(3) u(3) by blast
    then show ?thesis using e by (metis take_is_prefix take_take min.absorb2 min.commute)
  qed
  then show ?thesis
    using t k False boundary_iff_valid [OF assms, of ?k] by (simp add: take_is_prefix)
qed

section \<open>Concrete runs\<close>

text \<open>A writer that takes two bytes at a time and is not ready at its second poll.\<close>

definition slow_env :: progress_env where
  "slow_env = \<lparr>pe_write = (\<lambda>k buf. if k = 1 then Pending else Ready (Inr (min 2 (List.length buf)))),
     pe_flush = (\<lambda>_. Ready (Inr ())), pe_shutdown = (\<lambda>_. Ready (Inr ())), pe_slice = (\<lambda>_. 3), pe_strip_ansi = id,
     pe_compiling = (\<lambda>l. if starts_with l ''['' then Some \<lparr>cp_module = \<lparr>cm_name = ''A'', cm_path = []\<rparr>,
       cp_current = 1, cp_total = 2, cp_reason = None\<rparr> else None),
     pe_width = (\<lambda>_. Some 4), pe_clear_line = ''*''\<rparr>"

definition slow_ops :: "poll_op list" where
  "slow_ops = [PollWrite (''a'' @ [newline] @ ''[1''), PollWrite ('' of 2]'' @ [newline] @ ''b''), PollFlush]"

lemma slow_takes_offered: "takes_offered slow_env"
  by (auto simp: takes_offered_def slow_env_def split: if_splits)

theorem progress_writer_refines_witness:
  "fst (shown slow_env [''a'', ''[1 of 2]''] (False, 0)) = ''a'' @ [newline] @ ''*[1/''"
proof -
  have "snd (poll_run slow_env slow_ops (progress_new True)) = ''a'' @ [newline] @ ''[1 of 2]'' @ [newline] @ ''b''"
    by code_simp
  moreover have "pw_written (fst (poll_run slow_env slow_ops (progress_new True))) @
      pw_pending_output (fst (poll_run slow_env slow_ops (progress_new True))) = ''a'' @ [newline] @ ''*[1/''"
    by code_simp
  moreover have "complete_lines (''a'' @ [newline] @ ''[1 of 2]'' @ [newline] @ ''b'') = [''a'', ''[1 of 2]'']"
    by code_simp
  ultimately show ?thesis
    using progress_writer_refines [OF slow_takes_offered, of slow_ops True
        "fst (poll_run slow_env slow_ops (progress_new True))" "snd (poll_run slow_env slow_ops (progress_new True))",
        OF prod.collapse [symmetric]]
    by (simp del: shown.simps)
qed

definition plain_ops :: "poll_op list" where
  "plain_ops = [PollWrite (''a'' @ [newline] @ ''b''), PollFlush, PollWrite ''c'']"

theorem plain_output_unchanged_witness:
  "pw_written (fst (poll_shutdown slow_env (fst (poll_run slow_env plain_ops (progress_new True)))))
    = ''a'' @ [newline] @ ''bc''"
proof -
  let ?run = "poll_run slow_env plain_ops (progress_new True)"
  have "snd ?run = ''a'' @ [newline] @ ''bc''" "snd (poll_shutdown slow_env (fst ?run)) = Ready (Inr ())"
    "\<forall>l \<in> set (complete_lines (''a'' @ [newline] @ ''bc'')). progress_of slow_env l = None"
    by code_simp+
  then show ?thesis
    using plain_output_unchanged [OF slow_takes_offered, of plain_ops True "fst ?run" "snd ?run"
        "fst (poll_shutdown slow_env (fst ?run))"]
    by (simp add: prod_eq_iff)
qed

theorem truncate_longest_valid_witness:
  "truncate_to_terminal_width [CHR ''a'', CHR 0xC3, CHR 0xA9] 2 = ''a''"
proof -
  let ?s = "[CHR ''a'', CHR 0xC3, CHR 0xA9]"
  have v: "valid_utf8 ?s" "\<not> valid_utf8 [CHR ''a'', CHR 0xC3]" "valid_utf8 ''a''"
    by code_simp+
  obtain t where t: "truncate_to_terminal_width ?s 2 = t" by blast
  have longest: "prefix t ?s \<and> valid_utf8 t \<and> List.length t \<le> 2 \<and>
      (\<forall>u. prefix u ?s \<and> valid_utf8 u \<and> List.length u \<le> 2 \<longrightarrow> prefix u t)"
    using truncate_longest_valid [OF v(1), of 2] unfolding t .
  then have "prefix ''a'' t" using v(3) by simp
  moreover have "t \<in> set (prefixes ?s)" using longest by (simp only: in_set_prefixes)
  ultimately show ?thesis using longest v(2) t by auto
qed

end
