(* ===== verification/Process.thy ===== *)
theory Process
  imports ProcTreeProps
begin

text \<open>
  The rest of \<open>src/src/ghci/process.rs\<close>: the task that waits for GHCi to end, the memory watchdog, the
  commands before a kill, and sending a signal to the process that was captured rather than to whoever
  has its number by then.
\<close>

section \<open>Identities and signals\<close>

text \<open>
  The kernel at each instant: the text of \<open>/proc/<pid>/stat\<close>, the start time of the process that has a
  number, and the outcomes of the system calls (\<open>None\<close> is success).
\<close>

datatype errno = ESRCH | Errno io_error

record kernel =
  kn_stat :: "nat \<Rightarrow> int \<Rightarrow> string option"
  kn_process :: "nat \<Rightarrow> int \<Rightarrow> u64 option"
  kn_pidfd_open :: "nat \<Rightarrow> int \<Rightarrow> errno option"
  kn_pidfd_signal :: "nat \<Rightarrow> sig \<Rightarrow> errno option"
  kn_kill :: "nat \<Rightarrow> sig \<Rightarrow> errno option"
  kn_killpg :: "nat \<Rightarrow> sig \<Rightarrow> errno option"

definition current_process_stat :: "kernel \<Rightarrow> nat \<Rightarrow> int \<Rightarrow> process_stat option" where
  "current_process_stat k t pid = Option.bind (kn_stat k t pid) (parse_process_stat pid)"

definition process_identity_matches :: "kernel \<Rightarrow> nat \<Rightarrow> process_stat \<Rightarrow> bool" where
  "process_identity_matches k t expected =
     (case current_process_stat k t (st_pid expected) of
        Some current \<Rightarrow> st_start_time current = st_start_time expected
      | None \<Rightarrow> False)"

text \<open>A pidfd refers to the process that had the number at the instant of its opening.\<close>

record tracked_process =
  tp_stat :: process_stat
  tp_pid_fd :: "nat option"

definition track_process :: "kernel \<Rightarrow> nat \<Rightarrow> process_stat \<Rightarrow> tracked_process option" where
  "track_process k t expected =
     (case kn_pidfd_open k t (st_pid expected) of
        None \<Rightarrow>
          if process_identity_matches k (Suc t) expected
          then Some \<lparr>tp_stat = expected, tp_pid_fd = Some t\<rparr> else None
      | Some e \<Rightarrow> if e = ESRCH then None else Some \<lparr>tp_stat = expected, tp_pid_fd = None\<rparr>)"

text \<open>Sending gives the process that was reached, if any: its number and its start time.\<close>

definition sent_to :: "errno option \<Rightarrow> (int \<times> u64) option \<Rightarrow> (int \<times> u64) option \<times> unit res" where
  "sent_to outcome whom =
     (case outcome of
        None \<Rightarrow> (whom, Inr ())
      | Some ESRCH \<Rightarrow> (None, Inr ())
      | Some (Errno e) \<Rightarrow> (None, Inl e))"

definition who_has :: "kernel \<Rightarrow> nat \<Rightarrow> int \<Rightarrow> (int \<times> u64) option" where
  "who_has k t pid = map_option (\<lambda>start. (pid, start)) (kn_process k t pid)"

definition signal_tracked_process ::
  "kernel \<Rightarrow> nat \<Rightarrow> tracked_process \<Rightarrow> sig \<Rightarrow> (int \<times> u64) option \<times> unit res" where
  "signal_tracked_process k t p s =
     (case tp_pid_fd p of
        Some opened \<Rightarrow> sent_to (kn_pidfd_signal k t s) (who_has k opened (st_pid (tp_stat p)))
      | None \<Rightarrow>
          if \<not> process_identity_matches k t (tp_stat p) then (None, Inr ())
          else sent_to (kn_kill k (Suc t) s) (who_has k (Suc t) (st_pid (tp_stat p))))"

definition kill_process_group :: "kernel \<Rightarrow> nat \<Rightarrow> sig \<Rightarrow> unit res" where
  "kill_process_group k t s = snd (sent_to (kn_killpg k t s) None)"

section \<open>Commands before a signal\<close>

text \<open>
  What becomes of a command: it cannot be started, or it is waited for, in milliseconds, with an exit
  status or an error in the end.
\<close>

datatype command_outcome = SpawnFailed | Waits nat "int res"

definition BEFORE_SIGNAL_COMMAND_TIMEOUT :: nat where
  "BEFORE_SIGNAL_COMMAND_TIMEOUT = 30000"

datatype command_report = NotStarted | Completed | CommandFailed | WaitFailed | TimedOut

definition run_signal_command :: "command_outcome \<Rightarrow> command_report \<times> nat" where
  "run_signal_command outcome =
     (case outcome of
        SpawnFailed \<Rightarrow> (NotStarted, 0)
      | Waits ms status \<Rightarrow>
          if BEFORE_SIGNAL_COMMAND_TIMEOUT < ms then (TimedOut, BEFORE_SIGNAL_COMMAND_TIMEOUT)
          else (case status of
              Inr code \<Rightarrow> if code = 0 then (Completed, ms) else (CommandFailed, ms)
            | Inl _ \<Rightarrow> (WaitFailed, ms)))"

text \<open>Every command is tried, and its report does not matter to the next one.\<close>

fun run_signal_commands :: "command_outcome list \<Rightarrow> command_report list \<times> nat" where
  "run_signal_commands [] = ([], 0)"
| "run_signal_commands (c # cs) =
     (let (r, ms) = run_signal_command c; (rs, total) = run_signal_commands cs in (r # rs, ms + total))"

section \<open>The task\<close>

definition GHCI_MEMORY_LIMIT_BYTES :: u64 where
  "GHCI_MEMORY_LIMIT_BYTES = 40 * 1024 * 1024 * 1024"

definition memory_limit_exceeded :: "memory_usage res \<Rightarrow> bool" where
  "memory_limit_exceeded usage =
     (case usage of Inr u \<Rightarrow> GHCI_MEMORY_LIMIT_BYTES \<le> charged_bytes u | Inl _ \<Rightarrow> False)"

text \<open>
  What is ready when the task is polled. A restart is requested with someone to acknowledge, or the
  channel of requests is closed (\<open>Some False\<close>); \<open>rd_sample\<close> is a finished measurement.
\<close>

record ready =
  rd_shutdown :: bool
  rd_restart :: "bool option"
  rd_exit :: "int res option"
  rd_sample :: "memory_usage res option"

datatype branch = ShutdownRequested | RestartRequested bool | ProcessExited "int res" | LimitExceeded

text \<open>\<open>select!\<close> is biased: shutdown, restart, exit and the watchdog, in this order.\<close>

fun select_branch :: "bool \<Rightarrow> ready list \<Rightarrow> branch option" where
  "select_branch watchdog [] = None"
| "select_branch watchdog (r # rs) =
     (if rd_shutdown r then Some ShutdownRequested
      else (case rd_restart r of
        Some ack \<Rightarrow> Some (RestartRequested ack)
      | None \<Rightarrow>
          (case rd_exit r of
             Some result \<Rightarrow> Some (ProcessExited result)
           | None \<Rightarrow>
               (case rd_sample r of
                  Some usage \<Rightarrow>
                    if watchdog \<and> memory_limit_exceeded usage then Some LimitExceeded
                    else select_branch watchdog rs
                | None \<Rightarrow> select_branch watchdog rs))))"

datatype process_event =
    RanBefore "command_report list"
  | Signalled sig target
  | Exit int
  | Acknowledged
  | ReportedExit int

record process_env =
  ps_before :: "command_outcome list"
  ps_kill :: kill_env
  ps_snapshots :: "stat_table res list"
  ps_wait :: "int res"

record ghci_process =
  gp_process_id :: int
  gp_process_group_id :: int
  gp_memory_watchdog_enabled :: bool

definition stop :: "process_env \<Rightarrow> ghci_process \<Rightarrow> (process_event list \<times> int res) option" where
  "stop env p =
     map_option (\<lambda>(signals, r).
       let ran = RanBefore (fst (run_signal_commands (ps_before env)));
           trace = ran # map (\<lambda>(s, t). Signalled s t) signals in
       case r of
         Inl e \<Rightarrow> (trace, Inl e)
       | Inr _ \<Rightarrow>
           (case ps_wait env of
              Inl e \<Rightarrow> (trace, Inl e)
            | Inr status \<Rightarrow> (trace @ [Exit status], Inr status)))
     (kill_process_tree (ps_kill env) (gp_process_id p) (gp_process_group_id p) (ps_snapshots env))"

definition after_stop ::
  "(process_event list \<times> int res) option \<Rightarrow> (int \<Rightarrow> process_event list) \<Rightarrow> (process_event list \<times> unit res) option" where
  "after_stop stopped further =
     map_option (\<lambda>(trace, r). case r of
         Inl e \<Rightarrow> (trace, Inl e)
       | Inr status \<Rightarrow> (trace @ further status, Inr ())) stopped"

text \<open>\<open>None\<close>: the task still runs, or the snapshots ended before a stable one.\<close>

definition run_with_watchdog ::
  "process_env \<Rightarrow> ghci_process \<Rightarrow> ready list \<Rightarrow> (process_event list \<times> unit res) option" where
  "run_with_watchdog env p polls =
     Option.bind (select_branch (gp_memory_watchdog_enabled p) polls) (\<lambda>b.
       case b of
         ShutdownRequested \<Rightarrow> after_stop (stop env p) (\<lambda>_. [])
       | RestartRequested ack \<Rightarrow> after_stop (stop env p) (\<lambda>_. if ack then [Acknowledged] else [])
       | ProcessExited (Inl e) \<Rightarrow> Some ([], Inl e)
       | ProcessExited (Inr status) \<Rightarrow> Some ([Exit status, ReportedExit status], Inr ())
       | LimitExceeded \<Rightarrow> after_stop (stop env p) (\<lambda>status. [ReportedExit status]))"

section \<open>Properties\<close>

lemma first_error_None: "first_error es = None \<Longrightarrow> e \<in> set es \<Longrightarrow> e = None"
proof -
  assume "first_error es = None" "e \<in> set es"
  then have "filter (\<lambda>e. e \<noteq> None) es = []"
    by (cases "filter (\<lambda>e. e \<noteq> None) es") (auto simp: first_error_def dest: filter_eq_ConsD)
  with \<open>e \<in> set es\<close> show ?thesis by (auto simp: filter_empty_conv)
qed

lemma kill_process_tree_ok:
  assumes "kill_process_tree env pid pgid snapshots = Some (signals, Inr ())"
  shows "\<exists>s. Inr s \<in> set snapshots \<and> (\<forall>st \<in> set (process_tree pid pgid s). \<exists>st'. st_pid st' = st_pid st \<and>
    (SIGKILL, One st') \<in> set signals \<and> ke_signal_error env SIGKILL (One st') = None)"
proof -
  obtain captured sent err where loop:
    "capture_loop env pid pgid 0 snapshots [] [(SIGSTOP, Group pgid)] = Some (captured, sent, err)"
    and signals: "signals = sent @ map (\<lambda>st. (SIGKILL, One st)) (rev (map snd captured)) @ [(SIGKILL, Group pgid)]"
    and errors: "first_error (err # map (\<lambda>st. ke_signal_error env SIGKILL (One st)) (rev (map snd captured)) @
        [ke_signal_error env SIGKILL (Group pgid)]) = None"
    using assms by (auto simp: kill_process_tree_def Let_def comp_def split: option.splits)
  have "stopped_inv pgid [] [(SIGSTOP, Group pgid)]" by (simp add: stopped_inv_def)
  note spec = capture_loop_spec [OF loop this]
  have "err = None" by (rule first_error_None [OF errors]) simp
  with spec obtain s where s: "Inr s \<in> set snapshots"
    "\<forall>st \<in> set (process_tree pid pgid s). map_of captured (st_pid st) \<noteq> None" by blast
  have "\<exists>st'. st_pid st' = st_pid st \<and> (SIGKILL, One st') \<in> set signals \<and> ke_signal_error env SIGKILL (One st') = None"
    if st: "st \<in> set (process_tree pid pgid s)" for st
  proof -
    obtain st' where st': "map_of captured (st_pid st) = Some st'" using s(2) st by blast
    have c: "st' \<in> set (map snd captured)" using imageI [OF map_of_SomeD [OF st'], of snd] by simp
    have "ke_signal_error env SIGKILL (One st') = None"
      by (rule first_error_None [OF errors]) (use c in auto)
    moreover have "(SIGKILL, One st') \<in> set signals" using c signals by simp
    moreover have "st_pid st' = st_pid st" using st' spec by (simp add: stopped_inv_def)
    ultimately show ?thesis by blast
  qed
  with s(1) show ?thesis by blast
qed

lemma stop_Some:
  assumes "stop env p = Some (trace, r)"
  obtains signals r' where
    "kill_process_tree (ps_kill env) (gp_process_id p) (gp_process_group_id p) (ps_snapshots env) = Some (signals, r')"
    and "trace = RanBefore (fst (run_signal_commands (ps_before env))) # map (\<lambda>(s, t). Signalled s t) signals @
      (case r of Inr status \<Rightarrow> [Exit status] | Inl _ \<Rightarrow> [])"
    and "r' = Inr () \<or> (\<exists>e. r' = Inl e \<and> r = Inl e)" and "\<And>status. r = Inr status \<Longrightarrow> r' = Inr ()"
proof -
  obtain signals r' where k:
    "kill_process_tree (ps_kill env) (gp_process_id p) (gp_process_group_id p) (ps_snapshots env) = Some (signals, r')"
    using assms by (auto simp: stop_def)
  show thesis
  proof (rule that [OF k])
    show "trace = RanBefore (fst (run_signal_commands (ps_before env))) # map (\<lambda>(s, t). Signalled s t) signals @
        (case r of Inr status \<Rightarrow> [Exit status] | Inl _ \<Rightarrow> [])"
      using assms k by (cases r') (auto simp: stop_def Let_def split: sum.splits)
    show "r' = Inr () \<or> (\<exists>e. r' = Inl e \<and> r = Inl e)"
      using assms k by (cases r') (auto simp: stop_def Let_def)
    show "r' = Inr ()" if "r = Inr status" for status
      using assms k that by (cases r') (auto simp: stop_def Let_def)
  qed
qed

lemma after_stop_cases:
  assumes "after_stop stopped further = Some (trace, r)"
  obtains (failed) e where "stopped = Some (trace, Inl e)" "r = Inl e"
  | (ended) t0 status where "stopped = Some (t0, Inr status)" "trace = t0 @ further status" "r = Inr ()"
proof -
  from assms obtain t0 r0 where s: "stopped = Some (t0, r0)" by (auto simp: after_stop_def)
  with assms show thesis by (cases r0) (auto simp: after_stop_def intro: failed ended)
qed

lemma stop_reports_nothing: "stop env p = Some (trace, r) \<Longrightarrow> ReportedExit status \<notin> set trace \<and> Acknowledged \<notin> set trace"
  by (erule stop_Some) (auto split: sum.splits)

text \<open>
  C26: a signal only reaches the process that was captured, with one exception. Let \<open>/proc\<close> tell the
  truth about start times, and a start time, with the number, belong to one life. A process seen in a
  snapshot and then tracked is the only one its signals reach, however its number is reused, except
  where the kernel has no pidfds and the number changes hands between the check of the process and the
  very next system call.
\<close>

theorem signals_reach_captured:
  assumes proc: "\<And>t pid st. current_process_stat k t pid = Some st \<Longrightarrow> kn_process k t pid = Some (st_start_time st)"
    and life: "\<And>t u v pid start. t \<le> u \<Longrightarrow> u \<le> v \<Longrightarrow> kn_process k t pid = Some start \<Longrightarrow>
      kn_process k v pid = Some start \<Longrightarrow> kn_process k u pid = Some start"
    and seen: "kn_process k t0 (st_pid st) = Some (st_start_time st)" "t0 \<le> t"
    and tracked: "track_process k t st = Some p"
    and sent: "signal_tracked_process k u p s = (Some who, r)"
  shows "who = (st_pid st, st_start_time st) \<or>
    tp_pid_fd p = None \<and> kn_process k (Suc u) (st_pid st) \<noteq> kn_process k u (st_pid st)"
proof -
  have matches: "kn_process k v (st_pid st) = Some (st_start_time st)" if "process_identity_matches k v st" for v
    using that proc by (auto simp: process_identity_matches_def split: option.splits)
  have reached: "whom = Some who" if "sent_to outcome whom = (Some who, r)" for outcome whom
    using that by (auto simp: sent_to_def split: option.splits errno.splits)
  show ?thesis
  proof (cases "tp_pid_fd p")
    case (Some t')
    then have p: "p = \<lparr>tp_stat = st, tp_pid_fd = Some t\<rparr>" "process_identity_matches k (Suc t) st"
      using tracked by (auto simp: track_process_def split: option.splits if_splits)
    have "kn_process k t (st_pid st) = Some (st_start_time st)"
      using life [OF seen(2) le_SucI [OF le_refl] seen(1) matches [OF p(2)]] .
    with sent p(1) show ?thesis by (auto simp: signal_tracked_process_def who_has_def dest: reached)
  next
    case None
    then have "tp_stat p = st" using tracked by (auto simp: track_process_def split: option.splits if_splits)
    with sent None have "process_identity_matches k u st" "who_has k (Suc u) (st_pid st) = Some who"
      by (auto simp: signal_tracked_process_def dest: reached split: if_splits)
    with matches [of u] None show ?thesis by (auto simp: who_has_def)
  qed
qed

text \<open>
  C25: a restart is acknowledged only when the session is gone: every process of the tree, in the
  snapshot that ended the discovery, was sent its kill without an error, GHCi's exit status was read,
  and no exit is reported that would make the manager start another session.
\<close>

theorem acknowledged_stop_is_complete:
  assumes "run_with_watchdog env p polls = Some (trace, r)" and "Acknowledged \<in> set trace"
  shows "r = Inr () \<and> (\<forall>status. ReportedExit status \<notin> set trace) \<and>
    (\<exists>status. suffix [Exit status, Acknowledged] trace) \<and>
    (\<exists>s. Inr s \<in> set (ps_snapshots env) \<and>
      (\<forall>st \<in> set (process_tree (gp_process_id p) (gp_process_group_id p) s). \<exists>st'. st_pid st' = st_pid st \<and>
        Signalled SIGKILL (One st') \<in> set trace \<and> ke_signal_error (ps_kill env) SIGKILL (One st') = None))"
proof -
  obtain b where b: "select_branch (gp_memory_watchdog_enabled p) polls = Some b"
    using assms(1) by (auto simp: run_with_watchdog_def Option.bind_eq_Some_conv)
  obtain f where f: "after_stop (stop env p) f = Some (trace, r)"
      "\<And>status. Acknowledged \<in> set (f status) \<Longrightarrow> f status = [Acknowledged]"
  proof (cases b)
    case (ProcessExited result)
    with assms that show thesis by (cases result) (auto simp: run_with_watchdog_def b)
  next
    case (RestartRequested ack)
    with assms(1) show thesis
      by (intro that [of "\<lambda>_. if ack then [Acknowledged] else []"]) (auto simp: run_with_watchdog_def b split: if_splits)
  qed (use assms(1) b in \<open>auto simp: run_with_watchdog_def intro: that\<close>)
  from f(1) obtain stopped status where s: "stop env p = Some (stopped, Inr status)" "trace = stopped @ [Acknowledged]" "r = Inr ()"
  proof (cases rule: after_stop_cases)
    case (failed e)
    with assms(2) stop_reports_nothing [OF failed(1)] show thesis by simp
  next
    case (ended t0 status)
    with assms(2) stop_reports_nothing [OF ended(1)] f(2) [of status] that show thesis by simp
  qed
  from s(1) obtain signals where k:
    "kill_process_tree (ps_kill env) (gp_process_id p) (gp_process_group_id p) (ps_snapshots env) = Some (signals, Inr ())"
    "stopped = RanBefore (fst (run_signal_commands (ps_before env))) # map (\<lambda>(s, t). Signalled s t) signals @ [Exit status]"
    by (elim stop_Some) auto
  have "\<exists>s. Inr s \<in> set (ps_snapshots env) \<and>
      (\<forall>st \<in> set (process_tree (gp_process_id p) (gp_process_group_id p) s). \<exists>st'. st_pid st' = st_pid st \<and>
        Signalled SIGKILL (One st') \<in> set trace \<and> ke_signal_error (ps_kill env) SIGKILL (One st') = None)"
    using kill_process_tree_ok [OF k(1)] s(2) k(2) by fastforce
  moreover have "suffix [Exit status, Acknowledged] trace" using s(2) k(2) by (simp add: suffix_def)
  ultimately show ?thesis using s k(2) by auto
qed

text \<open>A poll at which nothing ends the task.\<close>

definition quiet :: "bool \<Rightarrow> ready \<Rightarrow> bool" where
  "quiet watchdog r \<longleftrightarrow> \<not> rd_shutdown r \<and> rd_restart r = None \<and> rd_exit r = None \<and>
     (\<forall>usage. rd_sample r = Some usage \<longrightarrow> \<not> (watchdog \<and> memory_limit_exceeded usage))"

lemma select_branch_split:
  "select_branch w polls = Some b \<Longrightarrow>
   \<exists>before r after. polls = before @ r # after \<and> (\<forall>q \<in> set before. quiet w q) \<and>
     (b = ShutdownRequested \<or> (\<exists>ack. b = RestartRequested ack) \<longleftrightarrow> rd_shutdown r \<or> rd_restart r \<noteq> None)"
proof (induction polls)
  case (Cons r rs)
  show ?case
  proof (cases "quiet w r")
    case True
    then have "select_branch w rs = Some b"
      using Cons.prems by (auto simp: quiet_def split: option.splits if_splits)
    from Cons.IH [OF this] obtain before q after where "rs = before @ q # after \<and> (\<forall>q \<in> set before. quiet w q) \<and>
      (b = ShutdownRequested \<or> (\<exists>ack. b = RestartRequested ack) \<longleftrightarrow> rd_shutdown q \<or> rd_restart q \<noteq> None)"
      by (elim exE)
    with True show ?thesis by (intro exI [of _ "r # before"] exI [of _ q] exI [of _ after]) simp
  next
    case False
    then have "b = ShutdownRequested \<or> (\<exists>ack. b = RestartRequested ack) \<longleftrightarrow> rd_shutdown r \<or> rd_restart r \<noteq> None"
      using Cons.prems by (auto simp: quiet_def split: if_splits option.splits)
    then show ?thesis by (intro exI [of _ "[]"] exI [of _ r] exI [of _ rs]) simp
  qed
qed simp

definition reports :: "process_event list \<Rightarrow> process_event list" where
  "reports trace = filter (\<lambda>e. case e of ReportedExit _ \<Rightarrow> True | _ \<Rightarrow> False) trace"

lemma stop_reports: "stop env p = Some (trace, r) \<Longrightarrow> reports trace = []"
  using stop_reports_nothing by (fastforce simp: reports_def filter_empty_conv split: process_event.splits)

text \<open>
  An exit is reported exactly when nobody asked for it. When the task ends well, it has polled
  until something happened; if a shutdown or a restart was asked for by then, even at the same poll as
  an exit, nothing is reported, and otherwise the exit is reported once.
\<close>

theorem unasked_exit_reported:
  assumes "run_with_watchdog env p polls = Some (trace, Inr ())"
  shows "\<exists>before r after. polls = before @ r # after \<and> (\<forall>q \<in> set before. quiet (gp_memory_watchdog_enabled p) q) \<and>
    (if rd_shutdown r \<or> rd_restart r \<noteq> None then reports trace = []
     else \<exists>status. reports trace = [ReportedExit status])"
proof -
  obtain b where b: "select_branch (gp_memory_watchdog_enabled p) polls = Some b"
    using assms by (auto simp: run_with_watchdog_def Option.bind_eq_Some_conv)
  let ?asked = "b = ShutdownRequested \<or> (\<exists>ack. b = RestartRequested ack)"
  have stopped: "\<exists>status. reports trace = reports (f status)"
    if "after_stop (stop env p) f = Some (trace, Inr ())" for f
    using that
  proof (cases rule: after_stop_cases)
    case (ended t0 status)
    with stop_reports [OF ended(1)] show ?thesis by (auto simp: reports_def)
  qed simp
  have "if ?asked then reports trace = [] else \<exists>status. reports trace = [ReportedExit status]"
  proof (cases b)
    case (ProcessExited result)
    with assms show ?thesis by (cases result) (auto simp: run_with_watchdog_def b reports_def)
  next
    case (RestartRequested ack)
    with assms stopped [of "\<lambda>_. if ack then [Acknowledged] else []"] show ?thesis
      by (auto simp: run_with_watchdog_def b reports_def)
  next
    case ShutdownRequested
    with assms stopped [of "\<lambda>_. []"] show ?thesis by (auto simp: run_with_watchdog_def b reports_def)
  next
    case LimitExceeded
    with assms stopped [of "\<lambda>status. [ReportedExit status]"] show ?thesis
      by (auto simp: run_with_watchdog_def b reports_def)
  qed
  moreover obtain before r after where "polls = before @ r # after"
    "\<forall>q \<in> set before. quiet (gp_memory_watchdog_enabled p) q"
    "?asked \<longleftrightarrow> rd_shutdown r \<or> rd_restart r \<noteq> None"
    using select_branch_split [OF b] by metis
  ultimately show ?thesis by (intro exI [of _ before] exI [of _ r] exI [of _ after]) simp
qed

text \<open>
  Diagnostics delay a kill by at most their timeouts and never prevent it. Every command has its
  turn, together they take at most thirty seconds each, and what is stopped, killed and awaited
  afterwards is the same whatever became of them.
\<close>

theorem diagnostics_never_prevent_kill:
  "List.length (fst (run_signal_commands cs)) = List.length cs \<and>
   snd (run_signal_commands cs) \<le> BEFORE_SIGNAL_COMMAND_TIMEOUT * List.length cs \<and>
   stop (env\<lparr>ps_before := cs\<rparr>) p =
     map_option (\<lambda>(trace, r). (RanBefore (fst (run_signal_commands cs)) # tl trace, r)) (stop env p)"
proof (intro conjI)
  show "List.length (fst (run_signal_commands cs)) = List.length cs"
    by (induction cs) (auto split: prod.splits)
  have one: "snd (run_signal_command c) \<le> BEFORE_SIGNAL_COMMAND_TIMEOUT" for c
    by (auto simp: run_signal_command_def split: command_outcome.split sum.split)
  show "snd (run_signal_commands cs) \<le> BEFORE_SIGNAL_COMMAND_TIMEOUT * List.length cs"
  proof (induction cs)
    case (Cons c cs)
    then show ?case using one [of c] by (auto split: prod.splits)
  qed simp
  show "stop (env\<lparr>ps_before := cs\<rparr>) p =
     map_option (\<lambda>(trace, r). (RanBefore (fst (run_signal_commands cs)) # tl trace, r)) (stop env p)"
    by (auto simp: stop_def Let_def option.map_comp intro!: option.map_cong split: sum.splits)
qed

section \<open>Concrete runs\<close>

definition ghc_stat :: process_stat where
  "ghc_stat = \<lparr>st_pid = 7, st_parent_pid = 1, st_process_group_id = 7, st_start_time = 5\<rparr>"

definition ghc_stat_text :: string where
  "ghc_stat_text = ''7 (ghc) S 1 7 0 0 0 0 0 0 0 0 0 0 0 0 0 0 0 0 5''"

lemma ghc_stat_fields:
  "after_last_paren ghc_stat_text = Some '' S 1 7 0 0 0 0 0 0 0 0 0 0 0 0 0 0 0 0 5''"
  "split_whitespace '' S 1 7 0 0 0 0 0 0 0 0 0 0 0 0 0 0 0 0 5'' =
     [''S'', ''1'', ''7'', ''0'', ''0'', ''0'', ''0'', ''0'', ''0'', ''0'', ''0'', ''0'', ''0'', ''0'', ''0'',
      ''0'', ''0'', ''0'', ''0'', ''5'']"
  "parse_i32 ''1'' = Some 1" "parse_i32 ''7'' = Some 7"
  by code_simp+

lemma ghc_stat_parsed: "parse_process_stat 7 ghc_stat_text = Some ghc_stat"
  by (simp add: parse_process_stat_def ghc_stat_fields nth_option_def ghc_stat_def parse_u64_def is_digit_def)

text \<open>The number 7 is reused after the second instant.\<close>

definition reuse_kernel :: kernel where
  "reuse_kernel = \<lparr>kn_stat = (\<lambda>t pid. if pid = 7 \<and> t \<le> 2 then Some ghc_stat_text else None),
     kn_process = (\<lambda>t pid. if pid = 7 then Some (if t \<le> 2 then 5 else 9) else None),
     kn_pidfd_open = (\<lambda>_ _. None), kn_pidfd_signal = (\<lambda>_ _. None), kn_kill = (\<lambda>_ _. None), kn_killpg = (\<lambda>_ _. None)\<rparr>"

theorem signals_reach_captured_witness:
  "\<exists>p. track_process reuse_kernel 1 ghc_stat = Some p \<and>
     fst (signal_tracked_process reuse_kernel 4 p SIGKILL) = Some (7, 5)"
proof -
  have proc: "kn_process reuse_kernel t pid = Some (st_start_time st)"
    if "current_process_stat reuse_kernel t pid = Some st" for t pid st
    using that ghc_stat_parsed by (auto simp: current_process_stat_def reuse_kernel_def ghc_stat_def split: if_splits)
  have life: "kn_process reuse_kernel u pid = Some start"
    if "t \<le> u" "u \<le> v" "kn_process reuse_kernel t pid = Some start" "kn_process reuse_kernel v pid = Some start" for t u v pid start
    using that by (auto simp: reuse_kernel_def split: if_splits)
  have seen: "kn_process reuse_kernel 0 (st_pid ghc_stat) = Some (st_start_time ghc_stat)" "0 \<le> (1 :: nat)"
    by (simp_all add: reuse_kernel_def ghc_stat_def)
  let ?p = "\<lparr>tp_stat = ghc_stat, tp_pid_fd = Some 1\<rparr>"
  have tracked: "track_process reuse_kernel 1 ghc_stat = Some ?p"
    using ghc_stat_parsed
    by (simp add: track_process_def process_identity_matches_def current_process_stat_def reuse_kernel_def ghc_stat_def)
  obtain who r where sent: "signal_tracked_process reuse_kernel 4 ?p SIGKILL = (Some who, r)"
    by (simp add: signal_tracked_process_def sent_to_def who_has_def reuse_kernel_def ghc_stat_def)
  from signals_reach_captured [OF proc life seen tracked sent] have "who = (7, 5)"
    by (simp add: ghc_stat_def)
  with tracked sent show ?thesis by simp
qed

definition demo_process :: ghci_process where
  "demo_process = \<lparr>gp_process_id = 10, gp_process_group_id = 10, gp_memory_watchdog_enabled = True\<rparr>"

definition demo_process_env :: process_env where
  "demo_process_env = \<lparr>ps_before = [SpawnFailed], ps_kill = demo_kill, ps_snapshots = [Inr demo_stats, Inr demo_stats], ps_wait = Inr 9\<rparr>"

definition nothing_ready :: ready where
  "nothing_ready = \<lparr>rd_shutdown = False, rd_restart = None, rd_exit = None, rd_sample = None\<rparr>"

theorem acknowledged_stop_is_complete_witness:
  "\<exists>trace. run_with_watchdog demo_process_env demo_process [nothing_ready, nothing_ready\<lparr>rd_restart := Some True\<rparr>]
     = Some (trace, Inr ()) \<and> suffix [Exit 9, Acknowledged] trace"
proof -
  obtain trace where run: "run_with_watchdog demo_process_env demo_process
      [nothing_ready, nothing_ready\<lparr>rd_restart := Some True\<rparr>] = Some (trace, Inr ())"
    "last trace = Acknowledged" "last (butlast trace) = Exit 9" "trace \<noteq> []"
    by (simp add: run_with_watchdog_def nothing_ready_def demo_process_env_def demo_process_def stop_def after_stop_def
        Let_def kill_process_tree_def demo_tree demo_kill_def demo_stat_def first_error_def)
  then have "Acknowledged \<in> set trace" by (metis last_in_set)
  from acknowledged_stop_is_complete [OF run(1) this] obtain status where "suffix [Exit status, Acknowledged] trace" by blast
  with run(3) have "suffix [Exit 9, Acknowledged] trace" by (auto simp: suffix_def butlast_append)
  with run(1) show ?thesis by blast
qed

theorem unasked_exit_reported_witness:
  "\<exists>status. reports [Exit 1, ReportedExit 1] = [ReportedExit status]"
proof -
  let ?polls = "[nothing_ready, nothing_ready\<lparr>rd_exit := Some (Inr 1)\<rparr>]"
  have "run_with_watchdog demo_process_env demo_process ?polls = Some ([Exit 1, ReportedExit 1], Inr ())"
    by (simp add: run_with_watchdog_def nothing_ready_def)
  from unasked_exit_reported [OF this] obtain r where r: "r \<in> set ?polls"
    "if rd_shutdown r \<or> rd_restart r \<noteq> None then reports [Exit 1, ReportedExit 1] = []
     else \<exists>status. reports [Exit 1, ReportedExit 1] = [ReportedExit status]"
    by (metis in_set_conv_decomp)
  then have "\<not> rd_shutdown r \<and> rd_restart r = None" by (auto simp: nothing_ready_def)
  with r(2) show ?thesis by simp
qed

end
