(* ===== verification/Eval.thy ===== *)
theory Eval
  imports Reload
begin

text \<open>
  \<open>src/src/my.rs\<close>: commands that come in over the eval socket. One connection's request is read, run
  on the session while the operation permit is held, and answered. A client's socket is the list of
  bytes it sends and the outcomes of writing to it.
\<close>

section \<open>Requests\<close>

definition MAX_COMMAND_BYTES :: nat where
  "MAX_COMMAND_BYTES = 1024 * 1024"

text \<open>U+22F3.\<close>

definition COMMAND_TERMINATOR :: string where
  "COMMAND_TERMINATOR = [CHR 0xE2, CHR 0x8B, CHR 0xB3]"

text \<open>Bytes are read until the request ends with the terminator.\<close>

fun read_bytes :: "string \<Rightarrow> string \<Rightarrow> string res" where
  "read_bytes request [] = Inl (IoError ''Eval socket command ended before the terminator'')"
| "read_bytes request (b # bs) =
     (let request' = request @ [b] in
      if MAX_COMMAND_BYTES + List.length COMMAND_TERMINATOR < List.length request'
      then Inl (IoError ''Eval socket command exceeds 1048576 bytes'')
      else if ends_with request' COMMAND_TERMINATOR then Inr request'
      else read_bytes request' bs)"

definition read_request :: "string \<Rightarrow> string res" where
  "read_request input =
     res_bind (read_bytes [] input) (\<lambda>request.
       let command = take (List.length request - List.length COMMAND_TERMINATOR) request in
       if \<not> valid_utf8 command then Inl (IoError ''Eval socket command is not UTF-8'')
       else if command = [] then Inl (IoError ''Eval socket command is empty'')
       else Inr command)"

definition is_reload_command :: "string \<Rightarrow> bool" where
  "is_reload_command command \<longleftrightarrow> str_trim command \<in> {'':r'', '':reload''}"

section \<open>The protocol\<close>

definition set_eval_phase :: "eval_phase \<Rightarrow> unit act" where
  "set_eval_phase p = aput (\<lambda>g. g\<lparr>gh_eval_phase := p\<rparr>)"

definition eval_phase_str :: "eval_phase \<Rightarrow> string" where
  "eval_phase_str p =
     (case p of
        WriteInput line \<Rightarrow> ''writing input line '' @ show_nat line
      | ReadInputPrompt line \<Rightarrow> ''waiting for input line '' @ show_nat line @ [CHR 0x27] @ ''s stdout prompt''
      | ClearStderrPhase \<Rightarrow> ''ClearStderr''
      | RegisterStderrMarker \<Rightarrow> ''RegisterStderrMarker''
      | WriteStderrMarker \<Rightarrow> ''WriteStderrMarker''
      | ReadStderrPrompt \<Rightarrow> ''ReadStderrPrompt''
      | ReadStderrMarker \<Rightarrow> ''ReadStderrMarker'')"

definition eval_marker :: "session_env \<Rightarrow> u64 \<Rightarrow> string" where
  "eval_marker env nonce =
     ''__GHCIWATCH_EVAL_END_'' @ show_nat (se_process_id env) @ ''_'' @ show_word nonce @ ''__''"

definition stderr_through_marker :: "session_env \<Rightarrow> string act" where
  "stderr_through_marker env =
     athen (set_eval_phase RegisterStderrMarker) (
     abind (aget (\<lambda>g. eval_marker env (gh_eval_nonce g))) (\<lambda>marker.
     athen (aput (\<lambda>g. g\<lparr>gh_eval_nonce := gh_eval_nonce g + 1\<rparr>)) (
     athen (ask (se_unit env) (CollectStderr marker)) (
     athen (ask (se_unit env) (AwaitReady marker)) (
     athen (set_eval_phase WriteStderrMarker) (
     athen (ask (se_unit env)
       (WriteStdin ('':! printf '' @ [CHR 0x27] @ ''%s'' @ [CHR 0x5C] @ ''n'' @ [CHR 0x27, CHR 0x20, CHR 0x27]
          @ marker @ [CHR 0x27] @ '' >&2'' @ [newline]))) (
     athen (set_eval_phase ReadStderrPrompt) (
     athen (ask (se_text env) (ReadPrompt AtAnywhere)) (
     athen (set_eval_phase ReadStderrMarker)
       (ask (se_text env) (AwaitStderr marker)))))))))))"

definition clear_stderr :: "session_env \<Rightarrow> unit act" where
  "clear_stderr env = athen (set_eval_phase ClearStderrPhase) (ask (se_unit env) ClearStderr)"

text \<open>\<open>split_whitespace().next()\<close>; an empty word stands for none.\<close>

fun until_space :: "string \<Rightarrow> string" where
  "until_space [] = []"
| "until_space (c # cs) = (if list_ex (\<lambda>w. prefix w (c # cs)) white_space then [] else c # until_space cs)"

definition first_word :: "string \<Rightarrow> string" where
  "first_word line = until_space (trim_start line)"

definition is_module_line :: "string \<Rightarrow> bool" where
  "is_module_line line \<longleftrightarrow> first_word line \<in> {'':m'', '':module''}"

definition block_after :: "bool \<Rightarrow> string \<Rightarrow> bool" where
  "block_after in_block line =
     (if str_trim line = '':{'' then True else if str_trim line = '':}'' then False else in_block)"

definition module_failed :: "ghc_message list \<Rightarrow> bool" where
  "module_failed msgs \<longleftrightarrow> log_result (fill_empty_summary (extend_log compilation_log_default msgs)) = Some CompErr"

text \<open>The lines from the \<open>i\<close>th on; the flag says whether a failed module load ends the request.\<close>

fun eval_lines :: "session_env \<Rightarrow> string list \<Rightarrow> bool \<Rightarrow> nat \<Rightarrow> string \<Rightarrow> (string \<times> bool) act" where
  "eval_lines env [] in_block i out = aret (out, False)"
| "eval_lines env (line # lines) in_block i out =
     athen (set_eval_phase (WriteInput (i + 1))) (
     athen (ask (se_unit env) (WriteStdin (line @ [newline]))) (
     athen (set_eval_phase (ReadInputPrompt (i + 1))) (
     abind (ask (se_text env) (ReadPrompt AtLineStart)) (\<lambda>s.
       if \<not> block_after in_block line \<and> is_module_line line
       then abind (stderr_through_marker env) (\<lambda>err.
         abind (alift (se_parse_messages env err)) (\<lambda>msgs.
           if module_failed msgs then aret (out @ s @ err, True)
           else athen (clear_stderr env)
             (eval_lines env lines (block_after in_block line) (i + 1) (out @ s @ err))))
       else eval_lines env lines (block_after in_block line) (i + 1) (out @ s)))))"

definition eval_socket_command_inner :: "session_env \<Rightarrow> string \<Rightarrow> string act" where
  "eval_socket_command_inner env command =
     athen (clear_stderr env) (
     abind (eval_lines env (str_lines command) False 0 []) (\<lambda>(out, ended).
       if ended then aret out
       else abind (stderr_through_marker env) (\<lambda>err. aret (out @ err))))"

text \<open>
  The two timeouts on the same future are one timer: the first one only warns. \<open>wrap_err\<close> puts a text
  before the message.
\<close>

definition wrap_err :: "string \<Rightarrow> io_error \<Rightarrow> io_error" where
  "wrap_err context_text err = (case err of IoError m \<Rightarrow> IoError (context_text @ '': '' @ m))"

definition eval_timed_out :: "session_env \<Rightarrow> string \<Rightarrow> string act" where
  "eval_timed_out env command =
     abind (aget (\<lambda>g. eval_phase_str (gh_eval_phase g))) (\<lambda>phase.
     abind (attempt (send_sigint env)) (\<lambda>r.
       case r of
         Inl e \<Rightarrow> afail (wrap_err (''Failed to restore GHCi after timed-out executable eval (protocol phase: '' @ phase @ '')'') e)
       | Inr _ \<Rightarrow> afail (IoError (''Executable eval command timed out after 60 seconds (protocol phase: '' @ phase
           @ ''): '' @ command))))"

definition eval_socket_command :: "session_env \<Rightarrow> string \<Rightarrow> string act" where
  "eval_socket_command env command0 =
     (let command = trim_end command0 in
      if command = [] then afail (IoError ''Eval socket command is empty'')
      else abind (atimeout env EvalTimer (eval_socket_command_inner env command)) (\<lambda>r.
        case r of Some answer \<Rightarrow> alift answer | None \<Rightarrow> eval_timed_out env command))"

section \<open>Connections\<close>

text \<open>What is done on the session while the permit is held, and the text it gives.\<close>

definition answer_command :: "session_env \<Rightarrow> string \<Rightarrow> string act" where
  "answer_command env command =
     abind (attempt
       (if is_reload_command command
        then abind (with_log compilation_log_default (reload_from_eval env)) (\<lambda>_. aret [])
        else eval_socket_command env command)) (\<lambda>r.
     case r of
       Inr out \<Rightarrow> aret out
     | Inl e \<Rightarrow> aret (case wrap_err ''Failed to evaluate socket command'' e of
         IoError m \<Rightarrow> ''Error: ghciwatch executable eval failed: '' @ m))"

definition eval_response :: "string \<Rightarrow> string" where
  "eval_response out = (if out = [] then COMMAND_TERMINATOR else out)"

datatype socket_error = BrokenPipe | ConnectionAborted | ConnectionReset | NotConnected | OtherSocketError io_error

definition is_disconnected_client :: "socket_error \<Rightarrow> bool" where
  "is_disconnected_client e = (case e of OtherSocketError _ \<Rightarrow> False | _ \<Rightarrow> True)"

definition socket_failure :: "string \<Rightarrow> socket_error \<Rightarrow> unit res" where
  "socket_failure context_text e =
     (if is_disconnected_client e then Inr ()
      else (case e of OtherSocketError m \<Rightarrow> Inl (wrap_err context_text m) | _ \<Rightarrow> Inr ()))"

record client_socket =
  so_input :: string
  so_write :: "string \<Rightarrow> socket_error option"
  so_shutdown :: "socket_error option"

text \<open>The response and the outcome of the connection; the session is free before anything is sent.\<close>

definition handle_connection :: "session_env \<Rightarrow> client_socket \<Rightarrow> (string option \<times> unit res) act" where
  "handle_connection env socket =
     (case read_request (so_input socket) of
        Inl e \<Rightarrow> aret (None, Inl e)
      | Inr command \<Rightarrow>
          abind (answer_command env command) (\<lambda>out.
            let response = eval_response out in
            case so_write socket response of
              Some e \<Rightarrow> aret (None, socket_failure ''Failed to write eval socket response'' e)
            | None \<Rightarrow>
                (case so_shutdown socket of
                   Some e \<Rightarrow> aret (Some response, socket_failure ''Failed to finish eval socket response'' e)
                 | None \<Rightarrow> aret (Some response, Inr ()))))"

section \<open>The socket's name\<close>

text \<open>The device and the inode behind a name, when there is something.\<close>

type_synonym sockets = "path \<Rightarrow> (u64 \<times> u64) option"

record socket_lease =
  sl_path :: path
  sl_device :: u64
  sl_inode :: u64

text \<open>
  \<open>Drop\<close>: \<open>stat\<close> and \<open>remove\<close> are the outcomes of the system calls. \<open>spawn_socket\<close> takes the identity the
  new socket gets and the one \<open>fstat\<close> reads from its descriptor.
\<close>

definition lease_drop :: "unit res \<Rightarrow> unit res \<Rightarrow> socket_lease \<Rightarrow> sockets \<Rightarrow> sockets" where
  "lease_drop stat_outcome remove_outcome lease sockets =
     (if stat_outcome = Inr () \<and> sockets (sl_path lease) = Some (sl_device lease, sl_inode lease) \<and> remove_outcome = Inr ()
      then sockets(sl_path lease := None) else sockets)"

definition spawn_socket ::
  "unit res \<Rightarrow> (u64 \<times> u64) res \<Rightarrow> (u64 \<times> u64) res \<Rightarrow> path \<Rightarrow> sockets \<Rightarrow> sockets \<times> socket_lease res" where
  "spawn_socket remove_outcome bound identified p sockets =
     (if sockets p \<noteq> None \<and> remove_outcome \<noteq> Inr ()
      then (sockets, Inl (IoError ''Failed to replace eval socket''))
      else (case bound of
        Inl e \<Rightarrow> (sockets(p := None), Inl (wrap_err ''Failed to bind eval socket'' e))
      | Inr identity \<Rightarrow>
          (case identified of
             Inl e \<Rightarrow> (sockets(p \<mapsto> identity), Inl (wrap_err ''Failed to identify bound eval socket'' e))
           | Inr (device, inode) \<Rightarrow>
               (sockets(p \<mapsto> identity), Inr \<lparr>sl_path = p, sl_device = device, sl_inode = inode\<rparr>))))"

end
