(* ===== verification/EvalProps.thy ===== *)
theory EvalProps
  imports Eval Dialogue WellFormed
begin

text \<open>
  What the eval socket does to a session: the request it reads, the exact exchange with GHCi, the
  recovery after a command that takes too long, and that the session stays well-formed.
\<close>

section \<open>Requests\<close>

lemma read_bytes_Inr:
  "read_bytes request input = Inr r \<longleftrightarrow>
   (\<exists>u v. input = u @ v \<and> u \<noteq> [] \<and> r = request @ u \<and> ends_with r COMMAND_TERMINATOR \<and>
      List.length r \<le> MAX_COMMAND_BYTES + List.length COMMAND_TERMINATOR \<and>
      (\<forall>w w'. u = w @ w' \<and> w \<noteq> [] \<and> w' \<noteq> [] \<longrightarrow> \<not> ends_with (request @ w) COMMAND_TERMINATOR))"
  (is "_ = ?reads request input")
proof (induction input arbitrary: request)
  case (Cons b bs)
  let ?limit = "MAX_COMMAND_BYTES + List.length COMMAND_TERMINATOR"
  consider (long) "?limit < List.length (request @ [b])"
    | (ended) "\<not> ?limit < List.length (request @ [b])" "ends_with (request @ [b]) COMMAND_TERMINATOR"
    | (further) "\<not> ?limit < List.length (request @ [b])" "\<not> ends_with (request @ [b]) COMMAND_TERMINATOR"
    by blast
  then show ?case
  proof cases
    case long
    then have "\<not> ?reads request (b # bs)" by (auto simp: Cons_eq_append_conv)
    with long show ?thesis by (simp add: Let_def)
  next
    case ended
    have "?reads request (b # bs) \<longleftrightarrow> r = request @ [b]"
    proof
      assume "?reads request (b # bs)"
      then obtain u where "r = request @ b # u" "\<forall>w w'. b # u = w @ w' \<and> w \<noteq> [] \<and> w' \<noteq> [] \<longrightarrow> \<not> ends_with (request @ w) COMMAND_TERMINATOR"
        by (auto simp: Cons_eq_append_conv)
      moreover from this(2) [rule_format, of "[b]" u] ended(2) have "u = []" by (cases u) auto
      ultimately show "r = request @ [b]" by simp
    next
      assume "r = request @ [b]"
      with ended show "?reads request (b # bs)"
        by (intro exI [of _ "[b]"] exI [of _ bs]) (auto simp: Cons_eq_append_conv append_eq_Cons_conv)
    qed
    with ended show ?thesis by (auto simp: Let_def)
  next
    case further
    have "?reads request (b # bs) \<longleftrightarrow> ?reads (request @ [b]) bs"
    proof
      assume "?reads request (b # bs)"
      then obtain u v where u: "bs = u @ v" "r = request @ b # u" "ends_with r COMMAND_TERMINATOR" "List.length r \<le> ?limit"
        "\<forall>w w'. b # u = w @ w' \<and> w \<noteq> [] \<and> w' \<noteq> [] \<longrightarrow> \<not> ends_with (request @ w) COMMAND_TERMINATOR"
        by (auto simp: Cons_eq_append_conv)
      have "u \<noteq> []" using u(2,3) further(2) by auto
      moreover have "\<not> ends_with ((request @ [b]) @ w) COMMAND_TERMINATOR" if "u = w @ w'" "w' \<noteq> []" for w w'
        using u(5) [rule_format, of "b # w" w'] that by simp
      ultimately show "?reads (request @ [b]) bs" using u by (intro exI [of _ u] exI [of _ v]) auto
    next
      assume "?reads (request @ [b]) bs"
      then obtain u v where u: "bs = u @ v" "u \<noteq> []" "r = request @ b # u" "ends_with r COMMAND_TERMINATOR" "List.length r \<le> ?limit"
        "\<forall>w w'. u = w @ w' \<and> w \<noteq> [] \<and> w' \<noteq> [] \<longrightarrow> \<not> ends_with ((request @ [b]) @ w) COMMAND_TERMINATOR"
        by auto
      have "\<not> ends_with (request @ w) COMMAND_TERMINATOR" if "b # u = w @ w'" "w \<noteq> []" "w' \<noteq> []" for w w'
        using that u(6) [rule_format, of "tl w" w'] further(2) by (cases w; cases "tl w = []") auto
      with u show "?reads request (b # bs)" by (intro exI [of _ "b # u"] exI [of _ v]) auto
    qed
    with further Cons.IH [of "request @ [b]"] show ?thesis by (simp add: Let_def)
  qed
qed simp

text \<open>The terminator overlaps itself nowhere, so that it first ends where the command does.\<close>

lemma no_earlier_end:
  "(\<forall>w w'. c @ COMMAND_TERMINATOR = w @ w' \<and> w \<noteq> [] \<and> w' \<noteq> [] \<longrightarrow> \<not> ends_with w COMMAND_TERMINATOR)
   \<longleftrightarrow> \<not> contains_str c COMMAND_TERMINATOR"
proof
  assume a: "\<forall>w w'. c @ COMMAND_TERMINATOR = w @ w' \<and> w \<noteq> [] \<and> w' \<noteq> [] \<longrightarrow> \<not> ends_with w COMMAND_TERMINATOR"
  show "\<not> contains_str c COMMAND_TERMINATOR"
  proof
    assume "contains_str c COMMAND_TERMINATOR"
    then obtain x y where "c = x @ COMMAND_TERMINATOR @ y" by (auto simp: contains_str_iff)
    with a [rule_format, of "x @ COMMAND_TERMINATOR" "y @ COMMAND_TERMINATOR"] show False
      by (simp add: ends_with_def suffix_def COMMAND_TERMINATOR_def)
  qed
next
  assume c: "\<not> contains_str c COMMAND_TERMINATOR"
  show "\<forall>w w'. c @ COMMAND_TERMINATOR = w @ w' \<and> w \<noteq> [] \<and> w' \<noteq> [] \<longrightarrow> \<not> ends_with w COMMAND_TERMINATOR"
  proof (intro allI impI notI)
    fix w w' assume w: "c @ COMMAND_TERMINATOR = w @ w' \<and> w \<noteq> [] \<and> w' \<noteq> []" and e: "ends_with w COMMAND_TERMINATOR"
    then obtain x where x: "w = x @ COMMAND_TERMINATOR" by (auto simp: ends_with_def suffix_def)
    from w consider (front) y where "c = w @ y" | (inside) z where "w = c @ z" "z @ w' = COMMAND_TERMINATOR"
      by (auto simp: append_eq_append_conv2)
    then show False
    proof cases
      case front
      with x c show False by (auto simp: contains_str_iff)
    next
      case inside
      with w have "z = [] \<or> z = [CHR 0xE2] \<or> z = [CHR 0xE2, CHR 0x8B]"
        by (auto simp: COMMAND_TERMINATOR_def append_eq_Cons_conv)
      moreover have "last w = CHR 0xB3" using x by (simp add: COMMAND_TERMINATOR_def)
      ultimately have "z = []" using inside(1) by auto
      then have "c = x @ COMMAND_TERMINATOR @ []" using inside(1) x by simp
      with c show False unfolding contains_str_iff by blast
    qed
  qed
qed

text \<open>
  C14: a request is read exactly when it is well-formed. What comes out is the text before the first
  terminator, whatever follows it, and something comes out exactly when that text is valid UTF-8, not
  empty and at most a mebibyte long.
\<close>

theorem read_request_exact:
  "read_request input = Inr c \<longleftrightarrow>
   (\<exists>rest. input = c @ COMMAND_TERMINATOR @ rest) \<and> \<not> contains_str c COMMAND_TERMINATOR \<and>
   valid_utf8 c \<and> c \<noteq> [] \<and> List.length c \<le> MAX_COMMAND_BYTES"
proof -
  have "read_request input = Inr c \<longleftrightarrow> read_bytes [] input = Inr (c @ COMMAND_TERMINATOR) \<and> valid_utf8 c \<and> c \<noteq> []"
    (is "?l \<longleftrightarrow> ?r")
  proof
    assume ?l
    then obtain r where r: "read_bytes [] input = Inr r" "c = take (List.length r - List.length COMMAND_TERMINATOR) r"
      "valid_utf8 c" "c \<noteq> []"
      by (auto simp: read_request_def res_simps Let_def split: if_splits)
    then have "ends_with r COMMAND_TERMINATOR" using read_bytes_Inr by blast
    with r show ?r by (auto simp: ends_with_def suffix_def)
  qed (simp add: read_request_def Let_def)
  also have "read_bytes [] input = Inr (c @ COMMAND_TERMINATOR) \<longleftrightarrow>
      (\<exists>rest. input = c @ COMMAND_TERMINATOR @ rest) \<and> List.length c \<le> MAX_COMMAND_BYTES \<and> \<not> contains_str c COMMAND_TERMINATOR"
    unfolding read_bytes_Inr using no_earlier_end [of c]
    by (auto simp: ends_with_def suffix_def COMMAND_TERMINATOR_def)
  finally show ?thesis by blast
qed

section \<open>The exchange\<close>

definition marker_exchange :: "session_env \<Rightarrow> u64 \<Rightarrow> history" where
  "marker_exchange env nonce =
     (let m = eval_marker env nonce in
      map Did [CollectStderr m, AwaitReady m, WriteStdin (marker_command m), ReadPrompt AtAnywhere, AwaitStderr m])"

text \<open>What GHCi said in a stretch of history: on standard output to the lines, and on standard error.\<close>

fun said :: "session_env \<Rightarrow> history \<Rightarrow> history \<Rightarrow> string" where
  "said env h [] = []"
| "said env h (a # t) =
     (case a of
        Did (ReadPrompt AtLineStart) \<Rightarrow> (case se_text env h (ReadPrompt AtLineStart) of Inr s \<Rightarrow> s | Inl _ \<Rightarrow> [])
      | Did (AwaitStderr m) \<Rightarrow> (case se_text env h (AwaitStderr m) of Inr s \<Rightarrow> s | Inl _ \<Rightarrow> [])
      | _ \<Rightarrow> []) @ said env (h @ [a]) t"

lemma said_append: "said env h (s @ t) = said env h s @ said env (h @ s) t"
  by (induction s arbitrary: h) auto

lemma stderr_through_marker_Done:
  assumes "stderr_through_marker env (g, log) = ((g', log'), Done err)"
  shows "gh_hist g' = gh_hist g @ marker_exchange env (gh_eval_nonce g) \<and> gh_eval_nonce g' = gh_eval_nonce g + 1 \<and>
    log' = log \<and> err = said env (gh_hist g) (marker_exchange env (gh_eval_nonce g))"
  using assms
  by (auto simp: stderr_through_marker_def done_simps set_eval_phase_def record_action_def marker_exchange_def
      marker_command_def Let_def)

lemma clear_stderr_Done:
  "clear_stderr env (g, log) = ((g', log'), Done u) \<Longrightarrow>
   gh_hist g' = gh_hist g @ [Did ClearStderr] \<and> gh_eval_nonce g' = gh_eval_nonce g \<and> log' = log"
  by (auto simp: clear_stderr_def set_eval_phase_def done_simps record_action_def)

lemma submit_Done:
  assumes "athen (set_eval_phase p) (athen (ask (se_unit env) (WriteStdin l)) (athen (set_eval_phase q)
    (abind (ask (se_text env) (ReadPrompt AtLineStart)) f))) (g, log) = (w, Done x)"
  obtains g1 s where "gh_hist g1 = gh_hist g @ map Did [WriteStdin l, ReadPrompt AtLineStart]"
    "gh_eval_nonce g1 = gh_eval_nonce g" "f s (g1, log) = (w, Done x)"
    "s = said env (gh_hist g) (map Did [WriteStdin l, ReadPrompt AtLineStart])"
proof -
  define g1 where "g1 = record_action (Did (ReadPrompt AtLineStart))
    ((record_action (Did (WriteStdin l)) (g\<lparr>gh_eval_phase := p\<rparr>))\<lparr>gh_eval_phase := q\<rparr>)"
  have h: "gh_hist g1 = gh_hist g @ map Did [WriteStdin l, ReadPrompt AtLineStart]" "gh_eval_nonce g1 = gh_eval_nonce g"
    by (simp_all add: g1_def record_action_def)
  from assms obtain s where "se_text env (gh_hist g @ [Did (WriteStdin l)]) (ReadPrompt AtLineStart) = Inr s"
      "f s (g1, log) = (w, Done x)"
    by (auto simp: done_simps set_eval_phase_def record_action_def g1_def)
  with h that show thesis by simp
qed

text \<open>A load failed when GHCi's last summary says so, or without any summary when there is an error.\<close>

definition reports_failure :: "ghc_message list \<Rightarrow> bool" where
  "reports_failure msgs \<longleftrightarrow>
     (case List.map_filter (\<lambda>m. case m of Summary s \<Rightarrow> Some s | _ \<Rightarrow> None) msgs of
        [] \<Rightarrow> \<exists>d. Diagnostic d \<in> set msgs \<and> diag_severity d = Error
      | s # ss \<Rightarrow> cs_result (last (s # ss)) = CompErr)"

lemma extend_log_fields:
  "cl_summary (extend_log l msgs) =
     (case List.map_filter (\<lambda>m. case m of Summary s \<Rightarrow> Some s | _ \<Rightarrow> None) msgs of
        [] \<Rightarrow> cl_summary l | s # ss \<Rightarrow> Some (last (s # ss)))"
  "set (cl_diagnostics (extend_log l msgs)) = set (cl_diagnostics l) \<union> {d. Diagnostic d \<in> set msgs}"
proof (induction msgs arbitrary: l)
  case (Cons m msgs)
  { case 1
    show ?case using Cons(1) [of "extend_message l m"]
      by (cases m) (auto simp: extend_log_def List.map_filter_simps split: list.splits)
  next
    case 2
    show ?case using Cons(2) [of "extend_message l m"] by (cases m) (auto simp: extend_log_def)
  }
qed (simp_all add: extend_log_def List.map_filter_simps)

lemma module_failed_iff: "module_failed msgs \<longleftrightarrow> reports_failure msgs"
  using extend_log_fields [of compilation_log_default msgs]
  by (auto simp: module_failed_def reports_failure_def fill_empty_summary_def log_result_def list_ex_iff compilation_log_default_def
      split: list.splits option.splits)

text \<open>
  The dialogue of a request, from the requests before it: the lines one by one, each with its prompt;
  a \<open>:module\<close> outside a block is synchronised at once, and when GHCi reports on standard error that it failed,
  the dialogue is over; otherwise it ends with a synchronisation.
\<close>

definition load_failed :: "session_env \<Rightarrow> history \<Rightarrow> u64 \<Rightarrow> bool" where
  "load_failed env h nonce \<longleftrightarrow>
     (\<exists>msgs. se_parse_messages env (said env h (marker_exchange env nonce)) = Inr msgs \<and> reports_failure msgs)"

fun eval_dialogue :: "session_env \<Rightarrow> string list \<Rightarrow> bool \<Rightarrow> history \<Rightarrow> u64 \<Rightarrow> history" where
  "eval_dialogue env [] in_block h nonce = marker_exchange env nonce"
| "eval_dialogue env (line # lines) in_block h nonce =
     (let b = block_after in_block line; here = map Did [WriteStdin (line @ [newline]), ReadPrompt AtLineStart] in
      if \<not> b \<and> is_module_line line
      then (let load = here @ marker_exchange env nonce in
            if load_failed env (h @ here) nonce then load
            else load @ Did ClearStderr # eval_dialogue env lines b (h @ load @ [Did ClearStderr]) (nonce + 1))
      else here @ eval_dialogue env lines b (h @ here) nonce)"

text \<open>With a GHCi that answers, a command without a deadline is evaluated to its end.\<close>

lemma stderr_through_marker_responsive:
  assumes "responsive env" and "gh_deadline g = None"
  shows "\<exists>g' err. stderr_through_marker env (g, log) = ((g', log), Done err) \<and> gh_deadline g' = None"
proof -
  obtain reply where t: "\<And>h r. se_text env h r = Inr (reply h r)"
    using assms(1) unfolding responsive_def by metis
  have u: "se_unit env h r = Inr ()" for h r using assms(1) by (simp add: responsive_def)
  show ?thesis
    using assms(2)
    by (simp add: stderr_through_marker_def set_eval_phase_def athen_Done abind_Done ask_def expired_def record_action_def t u)
qed

lemma clear_stderr_responsive:
  assumes "responsive env" and "gh_deadline g = None"
  shows "\<exists>g'. clear_stderr env (g, log) = ((g', log), Done ()) \<and> gh_deadline g' = None"
  using assms
  by (simp add: clear_stderr_def set_eval_phase_def athen_Done ask_def expired_def record_action_def responsive_def)

text \<open>What a run of the lines leaves: the whole dialogue, or all of it but the last synchronisation.\<close>

definition talked :: "session_env \<Rightarrow> history \<Rightarrow> history \<Rightarrow> ghci \<Rightarrow> string \<Rightarrow> bool \<Rightarrow> bool" where
  "talked env h dialogue g' heard ended \<longleftrightarrow>
     (\<exists>t. gh_hist g' = h @ t \<and> heard = said env h t \<and>
       dialogue = (if ended then t else t @ marker_exchange env (gh_eval_nonce g')))"

lemma talked_front:
  assumes "talked env (h @ front) dialogue g' heard ended"
  shows "talked env h (front @ dialogue) g' (said env h front @ heard) ended"
proof -
  obtain t where t: "gh_hist g' = (h @ front) @ t" "heard = said env (h @ front) t"
    "dialogue = (if ended then t else t @ marker_exchange env (gh_eval_nonce g'))"
    using assms by (auto simp: talked_def)
  then show ?thesis
    unfolding talked_def by (intro exI [of _ "front @ t"]) (simp add: said_append)
qed

lemma eval_lines_run:
  assumes "responsive env"
  shows "gh_deadline g = None \<Longrightarrow>
    \<exists>g' heard ended. eval_lines env lines b i out (g, log) = ((g', log), Done (out @ heard, ended)) \<and> gh_deadline g' = None \<and>
      talked env (gh_hist g) (eval_dialogue env lines b (gh_hist g) (gh_eval_nonce g)) g' heard ended"
proof (induction lines arbitrary: b i out g)
  case Nil
  then show ?case
    by (intro exI [of _ g] exI [of _ "[]"] exI [of _ False]) (simp add: talked_def)
next
  case (Cons line lines)
  let ?b = "block_after b line" and ?n = "gh_eval_nonce g" and ?h = "gh_hist g"
  let ?here = "map Did [WriteStdin (line @ [newline]), ReadPrompt AtLineStart]"
  let ?m = "marker_exchange env ?n"
  obtain reply where t: "\<And>h r. se_text env h r = Inr (reply h r)"
    using assms unfolding responsive_def by metis
  have u: "se_unit env h r = Inr ()" for h r using assms by (simp add: responsive_def)
  define g1 where "g1 = record_action (Did (ReadPrompt AtLineStart))
    ((record_action (Did (WriteStdin (line @ [newline]))) (g\<lparr>gh_eval_phase := WriteInput (i + 1)\<rparr>))
      \<lparr>gh_eval_phase := ReadInputPrompt (i + 1)\<rparr>)"
  define s where "s = said env ?h ?here"
  have s: "s = reply (?h @ [Did (WriteStdin (line @ [newline]))]) (ReadPrompt AtLineStart)" by (simp add: s_def t)
  have g1: "gh_deadline g1 = None" "gh_hist g1 = ?h @ ?here" "gh_eval_nonce g1 = ?n"
    using Cons.prems by (simp_all add: g1_def record_action_def)
  have run: "eval_lines env (line # lines) b i out (g, log) =
      (if \<not> ?b \<and> is_module_line line
       then abind (stderr_through_marker env) (\<lambda>err.
         abind (alift (se_parse_messages env err)) (\<lambda>msgs.
           if module_failed msgs then aret (out @ s @ err, True)
           else athen (clear_stderr env) (eval_lines env lines ?b (i + 1) (out @ s @ err))))
       else eval_lines env lines ?b (i + 1) (out @ s)) (g1, log)"
    using Cons.prems unfolding s
    by (simp add: set_eval_phase_def athen_Done abind_Done ask_def expired_def record_action_def t u g1_def)
  show ?case
  proof (cases "\<not> ?b \<and> is_module_line line")
    case False
    from Cons.IH [OF g1(1), of ?b "i + 1" "out @ s"] obtain g' heard ended where
      g': "eval_lines env lines ?b (i + 1) (out @ s) (g1, log) = ((g', log), Done ((out @ s) @ heard, ended))"
      "gh_deadline g' = None" "talked env (?h @ ?here) (eval_dialogue env lines ?b (?h @ ?here) ?n) g' heard ended"
      using g1(2,3) by auto
    have "eval_dialogue env (line # lines) b ?h ?n = ?here @ eval_dialogue env lines ?b (?h @ ?here) ?n"
      using False by (auto simp: Let_def)
    with talked_front [OF g'(3)] g' run False show ?thesis
      by (intro exI [of _ g'] exI [of _ "s @ heard"] exI [of _ ended]) (auto simp: s_def)
  next
    case True
    obtain g2 err where g2: "stderr_through_marker env (g1, log) = ((g2, log), Done err)" "gh_deadline g2 = None"
      using stderr_through_marker_responsive [OF assms g1(1)] by blast
    have marker: "gh_hist g2 = ?h @ ?here @ ?m" "gh_eval_nonce g2 = ?n + 1" "err = said env (?h @ ?here) ?m"
      using stderr_through_marker_Done [OF g2(1)] g1(2,3) by simp_all
    obtain msgs where m: "se_parse_messages env err = Inr msgs" using assms unfolding responsive_def by blast
    have failure: "load_failed env (?h @ ?here) ?n \<longleftrightarrow> module_failed msgs"
      using m by (simp add: load_failed_def marker(3) module_failed_iff)
    show ?thesis
    proof (cases "module_failed msgs")
      case ended: True
      have "eval_lines env (line # lines) b i out (g, log) = ((g2, log), Done (out @ s @ err, True))"
        using run True g2(1) m ended by (simp add: abind_Done)
      moreover have "eval_dialogue env (line # lines) b ?h ?n = ?here @ ?m"
        using True ended failure by (simp add: Let_def)
      ultimately show ?thesis
        using marker g2(2) said_append [of env ?h ?here ?m]
        by (intro exI [of _ g2] exI [of _ "s @ err"] exI [of _ True]) (simp add: talked_def s_def)
    next
      case False
      obtain g3 where g3: "clear_stderr env (g2, log) = ((g3, log), Done ())" "gh_deadline g3 = None"
        using clear_stderr_responsive [OF assms g2(2)] by blast
      let ?front = "?here @ ?m @ [Did ClearStderr]"
      have point: "gh_hist g3 = ?h @ ?front" "gh_eval_nonce g3 = ?n + 1"
        using clear_stderr_Done [OF g3(1)] marker by simp_all
      have heard: "s @ err = said env ?h ?front"
        using marker(3) said_append [of env ?h ?here "?m @ [Did ClearStderr]"]
          said_append [of env "?h @ ?here" ?m "[Did ClearStderr]"] by (simp add: s_def)
      from Cons.IH [OF g3(2), of ?b "i + 1" "out @ s @ err"] obtain g' rest ended where
        g': "eval_lines env lines ?b (i + 1) (out @ s @ err) (g3, log) = ((g', log), Done ((out @ s @ err) @ rest, ended))"
        "gh_deadline g' = None" "talked env (?h @ ?front) (eval_dialogue env lines ?b (?h @ ?front) (?n + 1)) g' rest ended"
        using point by auto
      have "eval_dialogue env (line # lines) b ?h ?n = ?front @ eval_dialogue env lines ?b (?h @ ?front) (?n + 1)"
        using True False failure by (simp add: Let_def)
      moreover have "eval_lines env (line # lines) b i out (g, log) = ((g', log), Done (out @ (s @ err) @ rest, ended))"
        using run True g2(1) m g3(1) False g'(1) by (simp add: abind_Done athen_Done)
      ultimately show ?thesis
        using talked_front [OF g'(3)] g'(2) heard by (intro exI [of _ g'] exI [of _ "(s @ err) @ rest"] exI [of _ ended]) simp
    qed
  qed
qed

text \<open>
  C16: a request is evaluated line by line, in step with GHCi. With a GHCi that answers, a request
  returns, and what was asked of GHCi is exactly this: standard error is cleared; then each line is written
  and its prompt awaited before the next; a module load outside a block, and the end of the request,
  are synchronised by a marker under a fresh nonce. The request is over before its last line
  exactly when GHCi reports on standard error, up to that marker, that a module load failed.
  The answer is exactly what GHCi said meanwhile, in order.
\<close>

theorem eval_exchange:
  assumes "responsive env" and "gh_deadline g = None"
  shows "\<exists>g'. let before = gh_hist g @ [Did ClearStderr];
      dialogue = eval_dialogue env (str_lines c) False before (gh_eval_nonce g) in
    eval_socket_command_inner env c (g, log) = ((g', log), Done (said env before dialogue)) \<and> gh_hist g' = before @ dialogue"
proof -
  obtain g1 where r1: "clear_stderr env (g, log) = ((g1, log), Done ())" and d1: "gh_deadline g1 = None"
    using clear_stderr_responsive [OF assms] by blast
  let ?before = "gh_hist g @ [Did ClearStderr]"
  let ?dialogue = "eval_dialogue env (str_lines c) False ?before (gh_eval_nonce g)"
  have p1: "gh_hist g1 = ?before" "gh_eval_nonce g1 = gh_eval_nonce g"
    using clear_stderr_Done [OF r1] by simp_all
  obtain g2 heard ended where r2: "eval_lines env (str_lines c) False 0 [] (g1, log) = ((g2, log), Done (heard, ended))"
      and d2: "gh_deadline g2 = None" and "talked env ?before ?dialogue g2 heard ended"
    using eval_lines_run [OF assms(1) d1, of "str_lines c" False 0 "[]" log] p1 by auto
  then obtain t where t: "gh_hist g2 = ?before @ t" "heard = said env ?before t"
    "?dialogue = (if ended then t else t @ marker_exchange env (gh_eval_nonce g2))"
    by (auto simp: talked_def)
  show ?thesis
  proof (cases ended)
    case True
    then have "eval_socket_command_inner env c (g, log) = ((g2, log), Done heard)"
      by (simp add: eval_socket_command_inner_def athen_Done abind_Done r1 r2)
    with t True show ?thesis by (intro exI [of _ g2]) (simp add: Let_def)
  next
    case False
    obtain g3 err where r3: "stderr_through_marker env (g2, log) = ((g3, log), Done err)"
      using stderr_through_marker_responsive [OF assms(1) d2] by blast
    have "eval_socket_command_inner env c (g, log) = ((g3, log), Done (heard @ err))"
      using False by (simp add: eval_socket_command_inner_def athen_Done abind_Done r1 r2 r3)
    moreover have "gh_hist g3 = ?before @ ?dialogue" "heard @ err = said env ?before ?dialogue"
      using stderr_through_marker_Done [OF r3] t False said_append [of env ?before t] by simp_all
    ultimately show ?thesis by (intro exI [of _ g3]) (simp add: Let_def)
  qed
qed

section \<open>A request that takes too long\<close>












section \<open>The session under eval requests\<close>

context lifecycle
begin

lemma rel_eval_phase: "rel R (set_eval_phase p)"
  by (simp add: set_eval_phase_def rel_aput R_eval_phase)

lemma rel_stderr_through_marker: "rel R (stderr_through_marker env)"
  unfolding stderr_through_marker_def by (intro dialogue_rules rel_eval_phase rel_aput R_eval_nonce)

lemma rel_clear_stderr: "rel R (clear_stderr env)"
  unfolding clear_stderr_def by (intro dialogue_rules rel_eval_phase)

lemma rel_eval_lines: "rel R (eval_lines env lines b i out)"
proof (induction lines arbitrary: b i out)
  case (Cons line lines)
  show ?case
    unfolding eval_lines.simps
    by (intro dialogue_rules rel_if rel_eval_phase rel_stderr_through_marker rel_clear_stderr Cons.IH)
qed (simp add: rel_aret)

lemma rel_eval_inner: "rel R (eval_socket_command_inner env c)"
proof -
  have "rel R (case x of (out, ended) \<Rightarrow> if ended then aret out
      else abind (stderr_through_marker env) (\<lambda>err. aret (out @ err)))" for x
    by (cases x) (simp add: rel_aret rel_abind rel_stderr_through_marker)
  then show ?thesis
    unfolding eval_socket_command_inner_def by (intro dialogue_rules rel_clear_stderr rel_eval_lines)
qed

lemma rel_eval_command: "rel R (eval_socket_command env c)"
proof -
  have "rel R (eval_timed_out env c')" for c'
    unfolding eval_timed_out_def
    by (intro dialogue_rules rel_send_sigint) (auto split: sum.split intro: rel_afail)
  then have "rel R (case r of Some answer \<Rightarrow> alift answer | None \<Rightarrow> eval_timed_out env c')" for r c'
    by (auto split: option.split intro: rel_alift)
  then show ?thesis
    unfolding eval_socket_command_def Let_def by (intro rel_if dialogue_rules rel_eval_inner)
qed

lemma rel_answer:
  assumes "\<And>e. free e"
  shows "rel R (answer_command env c)"
proof -
  have "rel R (case r of Inr out \<Rightarrow> aret out | Inl e \<Rightarrow> aret (f e))" for r :: "string res" and f
    by (auto split: sum.split intro: rel_aret)
  then show ?thesis
    unfolding answer_command_def by (intro rel_if dialogue_rules rel_eval_command rel_reload_from_eval assms)
qed

end

text \<open>The errors of a command are caught.\<close>

lemma answer_never_fails: "answer_command env c w \<noteq> (w', Failed e)"
  by (auto simp: answer_command_def abind_def attempt_def aret_def split: prod.splits outcome.splits sum.splits)

text \<open>
  Whatever a client sends and however GHCi, the system and the client behave, the session stays
  well-formed and is not left under the request's timer, and an error of the command is an answer.
\<close>

theorem eval_keeps_session:
  assumes "handle_connection env socket (g, log) = ((g', log'), r)" and "well_formed g" and "gh_deadline g = None"
  shows "well_formed g' \<and> gh_deadline g' = None \<and> ((\<exists>x. r = Done x) \<or> r = Panicked)"
proof (cases "read_request (so_input socket)")
  case (Inl e)
  with assms show ?thesis by (auto simp: handle_connection_def aret_def)
next
  case (Inr c)
  obtain h l s where a: "answer_command env c (g, log) = ((h, l), s)" by (cases "answer_command env c (g, log)") auto
  have form: "well_formed h" using relD [OF wf.rel_answer a] assms(2) by (simp add: keeps_form_def)
  have ends: "gh_deadline h = None" "s \<noteq> Cancelled"
    using relD [OF ep.rel_answer a] assms(3) by (auto simp: ends_or_panics_def)
  have "s \<noteq> Failed e" for e using answer_never_fails a by blast
  then have "(\<exists>out. s = Done out) \<or> s = Panicked" using ends(2) by (cases s) auto
  then have "(g', log') = (h, l) \<and> ((\<exists>x. r = Done x) \<or> r = Panicked)"
    using assms(1) Inr a
    by (auto simp: handle_connection_def abind_def aret_def Let_def split: option.splits)
  with form ends show ?thesis by simp
qed

section \<open>The lease\<close>

text \<open>
  The identity \<open>fstat\<close> reads from a listening socket's descriptor is that of the socket, not of the name
  it is bound to. With two identities, dropping the lease never removes the name.
\<close>

lemma lease_never_removes:
  assumes "spawn_socket removed (Inr identity) (Inr identified) p sockets = (sockets', Inr lease)"
    and "identified \<noteq> identity"
  shows "lease_drop stat_outcome remove_outcome lease sockets' = sockets' \<and> sockets' p = Some identity"
  using assms by (cases identified) (auto simp: spawn_socket_def lease_drop_def split: if_splits)

section \<open>Concrete runs\<close>

lemma demo_responsive: "responsive demo_senv"
  by (simp add: demo_senv_def responsive_def)

theorem eval_exchange_witness:
  "\<exists>g' out. eval_socket_command_inner demo_senv ''x'' (demo_session, compilation_log_default)
     = ((g', compilation_log_default), Done out) \<and>
   gh_hist g' = map Did [ClearStderr, WriteStdin (''x'' @ [newline]), ReadPrompt AtLineStart] @ marker_exchange demo_senv 0"
proof -
  have lines: "str_lines ''x'' = [''x'']" and plain: "\<not> is_module_line ''x''"
    by code_simp+
  have "gh_deadline demo_session = None" "gh_eval_nonce demo_session = 0" "gh_hist demo_session = []"
    by (simp_all add: demo_session_def)
  with eval_exchange [OF demo_responsive, of demo_session "''x''" compilation_log_default] show ?thesis
    by (auto simp: lines plain Let_def)
qed

definition slow_senv :: session_env where
  "slow_senv = demo_senv\<lparr>se_deadline := (\<lambda>_ t. if t = EvalTimer then Some 2 else None)\<rparr>"


definition demo_client :: client_socket where
  "demo_client = \<lparr>so_input = ''x'' @ COMMAND_TERMINATOR, so_write = (\<lambda>_. None), so_shutdown = None\<rparr>"

theorem eval_keeps_session_witness:
  "\<exists>g' log' r. handle_connection slow_senv demo_client (demo_session, compilation_log_default) = ((g', log'), r) \<and>
     well_formed g' \<and> gh_deadline g' = None"
proof -
  obtain g' log' r where run: "handle_connection slow_senv demo_client (demo_session, compilation_log_default) = ((g', log'), r)"
    by (metis prod.collapse)
  moreover have "well_formed demo_session" "gh_deadline demo_session = None"
    by (simp_all add: well_formed_def demo_session_def module_set_inv_def eval_index_Nil)
  ultimately show ?thesis using eval_keeps_session [OF run] by blast
qed

end
