(* ===== verification/Winnow.thy ===== *)
theory Winnow
  imports Diagnostics
begin

text \<open>
  What the parsers of \<open>src/src/ghci/parse/\<close> take from the \<open>winnow\<close> crate. Its recognizers are a
  parameter \<open>W\<close>; \<open>winnow_documented\<close> is what its documentation says of the ones the sources use.
  The combinators that only order and repeat parsers are read as control flow. \<open>Backtrack\<close> lets an
  alternative be tried, \<open>Cut\<close> does not.
\<close>

section \<open>Parsers\<close>

datatype parse_error = Backtrack | Cut

type_synonym 'a parser = "string \<Rightarrow> parse_error + 'a \<times> string"

definition p_return :: "'a \<Rightarrow> 'a parser" where
  "p_return x s = Inr (x, s)"

definition p_fail :: "parse_error \<Rightarrow> 'a parser" where
  "p_fail e s = Inl e"

definition p_bind :: "'a parser \<Rightarrow> ('a \<Rightarrow> 'b parser) \<Rightarrow> 'b parser" where
  "p_bind p f s = (case p s of Inl e \<Rightarrow> Inl e | Inr (x, r) \<Rightarrow> f x r)"

abbreviation p_then :: "'a parser \<Rightarrow> 'b parser \<Rightarrow> 'b parser" where
  "p_then p q \<equiv> p_bind p (\<lambda>_. q)"

definition p_map :: "('a \<Rightarrow> 'b) \<Rightarrow> 'a parser \<Rightarrow> 'b parser" where
  "p_map f p = p_bind p (\<lambda>x. p_return (f x))"

text \<open>\<open>parse_to\<close> and \<open>try_map\<close>: a value that does not convert is a \<open>Backtrack\<close>.\<close>

definition p_try_map :: "('a \<Rightarrow> 'b option) \<Rightarrow> 'a parser \<Rightarrow> 'b parser" where
  "p_try_map f p = p_bind p (\<lambda>x. case f x of Some y \<Rightarrow> p_return y | None \<Rightarrow> p_fail Backtrack)"

definition p_or :: "'a parser \<Rightarrow> 'a parser \<Rightarrow> 'a parser" where
  "p_or p q s = (case p s of Inl Backtrack \<Rightarrow> q s | o' \<Rightarrow> o')"

fun p_alt :: "'a parser list \<Rightarrow> 'a parser" where
  "p_alt [] = p_fail Backtrack"
| "p_alt [p] = p"
| "p_alt (p # q # ps) = p_or p (p_alt (q # ps))"

definition p_opt :: "'a parser \<Rightarrow> 'a option parser" where
  "p_opt p = p_or (p_map Some p) (p_return None)"

definition p_peek :: "'a parser \<Rightarrow> 'a parser" where
  "p_peek p s = (case p s of Inl e \<Rightarrow> Inl e | Inr (x, r) \<Rightarrow> Inr (x, s))"

text \<open>\<open>with_recognized\<close> and \<open>recognize\<close>: the slice a parser has consumed.\<close>

definition p_with_recognized :: "'a parser \<Rightarrow> ('a \<times> string) parser" where
  "p_with_recognized p s =
     (case p s of Inl e \<Rightarrow> Inl e | Inr (x, r) \<Rightarrow> Inr ((x, take (length s - length r) s), r))"

definition p_recognize :: "'a parser \<Rightarrow> string parser" where
  "p_recognize p = p_map snd (p_with_recognized p)"

text \<open>
  The repetitions stop at a \<open>Backtrack\<close> and leave the input before it. A parser that accepts without
  consuming is an error, so the repetitions end.
\<close>

function p_repeat :: "'a parser \<Rightarrow> 'a list parser" where
  "p_repeat p s =
     (case p s of
        Inl Backtrack \<Rightarrow> Inr ([], s)
      | Inl Cut \<Rightarrow> Inl Cut
      | Inr (x, r) \<Rightarrow>
          if length r < length s
          then (case p_repeat p r of Inl e \<Rightarrow> Inl e | Inr (xs, t) \<Rightarrow> Inr (x # xs, t))
          else Inl Backtrack)"
  by pat_completeness auto
termination by (relation "measure (\<lambda>(p, s). length s)") auto

declare p_repeat.simps [simp del]

definition p_repeat1 :: "'a parser \<Rightarrow> 'a list parser" where
  "p_repeat1 p = p_bind p (\<lambda>x. p_map (\<lambda>xs. x # xs) (p_repeat p))"

function p_repeat_till :: "'a parser \<Rightarrow> 'b parser \<Rightarrow> ('a list \<times> 'b) parser" where
  "p_repeat_till p q s =
     (case q s of
        Inr (y, r) \<Rightarrow> Inr (([], y), r)
      | Inl Cut \<Rightarrow> Inl Cut
      | Inl Backtrack \<Rightarrow>
          (case p s of
             Inl e \<Rightarrow> Inl e
           | Inr (x, r) \<Rightarrow>
               if length r < length s
               then (case p_repeat_till p q r of
                   Inl e \<Rightarrow> Inl e
                 | Inr ((xs, y), t) \<Rightarrow> Inr ((x # xs, y), t))
               else Inl Backtrack))"
  by pat_completeness auto
termination by (relation "measure (\<lambda>(p, q, s). length s)") auto

declare p_repeat_till.simps [simp del]

text \<open>\<open>separated(1.., p, sep)\<close>: a separator that is not followed by an element stays in the input.\<close>

definition p_separated1 :: "'a parser \<Rightarrow> 'b parser \<Rightarrow> 'a list parser" where
  "p_separated1 p sep = p_bind p (\<lambda>x. p_map (\<lambda>xs. x # xs) (p_repeat (p_bind sep (\<lambda>_. p))))"

text \<open>\<open>Parser::parse\<close>: the whole input, or an error whose text is not modelled.\<close>

definition p_parse :: "'a parser \<Rightarrow> string \<Rightarrow> 'a res" where
  "p_parse p s = (case p s of Inr (x, []) \<Rightarrow> Inr x | _ \<Rightarrow> Inl (IoError ''parse error''))"

section \<open>Recognizers\<close>

text \<open>The range \<open>1..\<close> of the tokens taken is in the name, \<open>0..\<close> is the name without a number.\<close>

record winnow =
  w_literal :: "string \<Rightarrow> string parser"
  w_space0 :: "string parser"
  w_space1 :: "string parser"
  w_digit1 :: "string parser"
  w_newline :: "string parser"
  w_line_ending :: "string parser"
  w_till_line_ending :: "string parser"
  w_eof :: "string parser"
  w_one_of :: "(char \<Rightarrow> bool) \<Rightarrow> string parser"
  w_take_while :: "(char \<Rightarrow> bool) \<Rightarrow> string parser"
  w_take_while1 :: "(char \<Rightarrow> bool) \<Rightarrow> string parser"
  w_take_till1 :: "(char \<Rightarrow> bool) \<Rightarrow> string parser"
  w_take_until1 :: "string \<Rightarrow> string parser"

definition is_blank :: "char \<Rightarrow> bool" where
  "is_blank c \<longleftrightarrow> c = CHR '' '' \<or> c = CHR 0x09"

definition carriage_return :: char where
  "carriage_return = CHR 0x0D"

definition is_line_end :: "char \<Rightarrow> bool" where
  "is_line_end c \<longleftrightarrow> c = newline \<or> c = carriage_return"

definition nonempty :: "string \<times> string \<Rightarrow> parse_error + string \<times> string" where
  "nonempty x = (if fst x = [] then Inl Backtrack else Inr x)"

fun split_before :: "string \<Rightarrow> string \<Rightarrow> (string \<times> string) option" where
  "split_before t [] = (if t = [] then Some ([], []) else None)"
| "split_before t (c # s) =
     (if prefix t (c # s) then Some ([], c # s)
      else map_option (\<lambda>(a, b). (c # a, b)) (split_before t s))"

text \<open>
  The documentation of each recognizer. \<open>till_line_ending\<close> refuses a carriage return that no newline
  follows; the parsed text of \<open>take_until\<close> is not empty.
\<close>

definition std_literal :: "string \<Rightarrow> string parser" where
  "std_literal t s = (if prefix t s then Inr (t, drop (length t) s) else Inl Backtrack)"

definition std_take_while :: "(char \<Rightarrow> bool) \<Rightarrow> string parser" where
  "std_take_while P s = Inr (takeWhile P s, dropWhile P s)"

definition std_take_while1 :: "(char \<Rightarrow> bool) \<Rightarrow> string parser" where
  "std_take_while1 P s = nonempty (takeWhile P s, dropWhile P s)"

definition std_one_of :: "(char \<Rightarrow> bool) \<Rightarrow> string parser" where
  "std_one_of P s = (case s of c # r \<Rightarrow> if P c then Inr ([c], r) else Inl Backtrack | [] \<Rightarrow> Inl Backtrack)"

definition std_line_ending :: "string parser" where
  "std_line_ending = p_or (std_literal [newline]) (std_literal [carriage_return, newline])"

definition std_till_line_ending :: "string parser" where
  "std_till_line_ending s =
     (let line = takeWhile (\<lambda>c. \<not> is_line_end c) s; rest = dropWhile (\<lambda>c. \<not> is_line_end c) s in
      if prefix [carriage_return] rest \<and> \<not> prefix [carriage_return, newline] rest then Inl Backtrack
      else Inr (line, rest))"

definition std_eof :: "string parser" where
  "std_eof s = (if s = [] then Inr ([], []) else Inl Backtrack)"

definition std_take_until1 :: "string \<Rightarrow> string parser" where
  "std_take_until1 t s = (case split_before t s of None \<Rightarrow> Inl Backtrack | Some x \<Rightarrow> nonempty x)"

definition winnow_std :: winnow where
  "winnow_std = \<lparr>w_literal = std_literal, w_space0 = std_take_while is_blank, w_space1 = std_take_while1 is_blank,
     w_digit1 = std_take_while1 is_digit, w_newline = std_literal [newline], w_line_ending = std_line_ending,
     w_till_line_ending = std_till_line_ending, w_eof = std_eof, w_one_of = std_one_of,
     w_take_while = std_take_while, w_take_while1 = std_take_while1,
     w_take_till1 = (\<lambda>P. std_take_while1 (\<lambda>c. \<not> P c)), w_take_until1 = std_take_until1\<rparr>"

definition winnow_documented :: "winnow \<Rightarrow> bool" where
  "winnow_documented W \<longleftrightarrow>
     w_literal W = std_literal \<and> w_space0 W = std_take_while is_blank \<and> w_space1 W = std_take_while1 is_blank \<and>
     w_digit1 W = std_take_while1 is_digit \<and> w_newline W = std_literal [newline] \<and>
     w_line_ending W = std_line_ending \<and> w_till_line_ending W = std_till_line_ending \<and> w_eof W = std_eof \<and>
     w_one_of W = std_one_of \<and> w_take_while W = std_take_while \<and> w_take_while1 W = std_take_while1 \<and>
     w_take_till1 W = (\<lambda>P. std_take_while1 (\<lambda>c. \<not> P c)) \<and> w_take_until1 W = std_take_until1"

lemma winnow_documented_std: "winnow_documented winnow_std"
  by (simp add: winnow_documented_def winnow_std_def)

end
