(* ===== verification/Lines.thy ===== *)
theory Lines
  imports Winnow Utf8
begin

text \<open>
  \<open>src/src/ghci/parse/lines.rs\<close>, and the rules that run parsers: what a parser accepts is a suffix of
  its input, what each recognizer takes, and when a line can be taken.
\<close>

section \<open>Running parsers\<close>

named_theorems parser_simps \<open>rules that decide whether a parser accepts\<close>

lemma p_return_Inr [parser_simps]: "p_return x s = Inr y \<longleftrightarrow> y = (x, s)"
  by (auto simp: p_return_def)

lemma p_fail_Inr [parser_simps]: "p_fail e s \<noteq> Inr y"
  by (simp add: p_fail_def)

lemma p_bind_Inr [parser_simps]: "p_bind p f s = Inr y \<longleftrightarrow> (\<exists>x r. p s = Inr (x, r) \<and> f x r = Inr y)"
  by (auto simp: p_bind_def split: sum.splits)

lemma p_map_Inr [parser_simps]: "p_map f p s = Inr (y, r) \<longleftrightarrow> (\<exists>x. p s = Inr (x, r) \<and> y = f x)"
  by (auto simp: p_map_def parser_simps)

lemma p_try_map_Inr [parser_simps]: "p_try_map f p s = Inr (y, r) \<longleftrightarrow> (\<exists>x. p s = Inr (x, r) \<and> f x = Some y)"
  by (auto simp: p_try_map_def parser_simps split: option.splits)

lemma p_or_Inr [parser_simps]: "p_or p q s = Inr y \<longleftrightarrow> p s = Inr y \<or> p s = Inl Backtrack \<and> q s = Inr y"
  by (auto simp: p_or_def split: sum.splits parse_error.splits)

lemma p_opt_Inr [parser_simps]:
  "p_opt p s = Inr (y, r) \<longleftrightarrow> (\<exists>x. p s = Inr (x, r) \<and> y = Some x) \<or> p s = Inl Backtrack \<and> y = None \<and> r = s"
  by (auto simp: p_opt_def parser_simps p_map_def p_bind_def p_return_def split: sum.splits)

lemma p_peek_Inr [parser_simps]: "p_peek p s = Inr (x, r) \<longleftrightarrow> r = s \<and> (\<exists>t. p s = Inr (x, t))"
  by (auto simp: p_peek_def split: sum.splits)

lemma p_with_recognized_Inr [parser_simps]:
  "p_with_recognized p s = Inr (y, r) \<longleftrightarrow> (\<exists>x. p s = Inr (x, r) \<and> y = (x, take (length s - length r) s))"
  by (auto simp: p_with_recognized_def split: sum.splits)

lemma p_recognize_Inr [parser_simps]:
  "p_recognize p s = Inr (y, r) \<longleftrightarrow> (\<exists>x. p s = Inr (x, r) \<and> y = take (length s - length r) s)"
  by (auto simp: p_recognize_def parser_simps)

lemma p_parse_Inr: "p_parse p s = Inr x \<longleftrightarrow> p s = Inr (x, [])"
  by (auto simp: p_parse_def split: sum.splits prod.splits list.splits)

text \<open>When a parser does run, its continuation does.\<close>

lemma p_bind_run: "p s = Inr (x, r) \<Longrightarrow> p_bind p f s = f x r"
  by (simp add: p_bind_def)

lemma p_bind_stop: "p s = Inl e \<Longrightarrow> p_bind p f s = Inl e"
  by (simp add: p_bind_def)

lemma p_map_run: "p s = Inr (x, r) \<Longrightarrow> p_map f p s = Inr (f x, r)"
  by (simp add: p_map_def p_bind_def p_return_def)

lemma p_map_stop: "p s = Inl e \<Longrightarrow> p_map f p s = Inl e"
  by (simp add: p_map_def p_bind_def)

lemma p_or_run: "p s = Inr y \<Longrightarrow> p_or p q s = Inr y"
  by (simp add: p_or_def)

lemma p_or_next: "p s = Inl Backtrack \<Longrightarrow> p_or p q s = q s"
  by (simp add: p_or_def)

section \<open>What is left is a suffix\<close>

definition keeps_suffix :: "'a parser \<Rightarrow> bool" where
  "keeps_suffix p \<longleftrightarrow> (\<forall>s x r. p s = Inr (x, r) \<longrightarrow> suffix r s)"

named_theorems suffix_intros \<open>parsers that leave a suffix\<close>

lemma keeps_suffixD: "keeps_suffix p \<Longrightarrow> p s = Inr (x, r) \<Longrightarrow> suffix r s"
  by (simp add: keeps_suffix_def)

lemma keeps_return [suffix_intros]: "keeps_suffix (p_return x)"
  by (simp add: keeps_suffix_def parser_simps)

lemma keeps_fail [suffix_intros]: "keeps_suffix (p_fail e)"
  by (simp add: keeps_suffix_def parser_simps)

lemma keeps_bind [suffix_intros]: "keeps_suffix p \<Longrightarrow> (\<And>x. keeps_suffix (f x)) \<Longrightarrow> keeps_suffix (p_bind p f)"
  unfolding keeps_suffix_def by (simp add: parser_simps) (meson suffix_order.trans)

lemma keeps_map [suffix_intros]: "keeps_suffix p \<Longrightarrow> keeps_suffix (p_map f p)"
  by (simp add: p_map_def suffix_intros)

lemma keeps_try_map [suffix_intros]: "keeps_suffix p \<Longrightarrow> keeps_suffix (p_try_map f p)"
  unfolding p_try_map_def by (intro suffix_intros) (auto intro: suffix_intros split: option.splits)

lemma keeps_or [suffix_intros]: "keeps_suffix p \<Longrightarrow> keeps_suffix q \<Longrightarrow> keeps_suffix (p_or p q)"
  unfolding keeps_suffix_def by (auto simp: parser_simps)

lemma keeps_alt [suffix_intros]: "(\<And>p. p \<in> set ps \<Longrightarrow> keeps_suffix p) \<Longrightarrow> keeps_suffix (p_alt ps)"
  by (induction ps rule: p_alt.induct) (auto intro!: suffix_intros)

lemma keeps_opt [suffix_intros]: "keeps_suffix p \<Longrightarrow> keeps_suffix (p_opt p)"
  by (simp add: p_opt_def suffix_intros)

lemma keeps_peek [suffix_intros]: "keeps_suffix (p_peek p)"
  by (auto simp: keeps_suffix_def parser_simps)

lemma keeps_with_recognized [suffix_intros]: "keeps_suffix p \<Longrightarrow> keeps_suffix (p_with_recognized p)"
  by (auto simp: keeps_suffix_def parser_simps)

lemma keeps_recognize [suffix_intros]: "keeps_suffix p \<Longrightarrow> keeps_suffix (p_recognize p)"
  by (simp add: p_recognize_def suffix_intros)

lemma repeat_suffix: "keeps_suffix p \<Longrightarrow> p_repeat p s = Inr (xs, t) \<Longrightarrow> suffix t s"
proof (induction p s arbitrary: xs rule: p_repeat.induct)
  case (1 p s)
  show ?case
  proof (cases "p s")
    case (Inl e)
    with 1(3) show ?thesis by (cases e) (simp_all add: p_repeat.simps [of p s])
  next
    case (Inr b)
    obtain x r where b: "b = (x, r)" by (cases b)
    with Inr 1(3) obtain ys where "length r < length s" "p_repeat p r = Inr (ys, t)"
      by (simp add: p_repeat.simps [of p s] split: if_splits sum.splits prod.splits)
    from 1(1) [OF Inr b [symmetric] this(1) 1(2) this(2)] keeps_suffixD [OF 1(2)] Inr b
    show ?thesis by (meson suffix_order.trans)
  qed
qed

lemma keeps_repeat [suffix_intros]: "keeps_suffix p \<Longrightarrow> keeps_suffix (p_repeat p)"
  using repeat_suffix unfolding keeps_suffix_def by blast

lemma repeat_till_suffix:
  "keeps_suffix p \<Longrightarrow> keeps_suffix q \<Longrightarrow> p_repeat_till p q s = Inr (xs, t) \<Longrightarrow> suffix t s"
proof (induction p q s arbitrary: xs rule: p_repeat_till.induct)
  case (1 p q s)
  show ?case
  proof (cases "q s")
    case (Inr b)
    with 1(3,4) show ?thesis
      by (cases b) (auto simp: p_repeat_till.simps [of p q s] dest: keeps_suffixD)
  next
    case (Inl e)
    with 1(4) have e: "e = Backtrack" by (cases e) (simp_all add: p_repeat_till.simps [of p q s])
    with Inl 1(4) obtain x r ys y where b: "p s = Inr (x, r)" "length r < length s" "p_repeat_till p q r = Inr ((ys, y), t)"
      by (simp add: p_repeat_till.simps [of p q s] split: if_splits sum.splits prod.splits)
    from 1(1) [OF Inl e b(1) refl b(2) 1(2,3) b(3)] keeps_suffixD [OF 1(2) b(1)]
    show ?thesis by (rule suffix_order.trans)
  qed
qed

lemma keeps_repeat_till [suffix_intros]: "keeps_suffix p \<Longrightarrow> keeps_suffix q \<Longrightarrow> keeps_suffix (p_repeat_till p q)"
  using repeat_till_suffix unfolding keeps_suffix_def by blast

lemma keeps_repeat1 [suffix_intros]: "keeps_suffix p \<Longrightarrow> keeps_suffix (p_repeat1 p)"
  by (simp add: p_repeat1_def suffix_intros)

lemma keeps_separated1 [suffix_intros]: "keeps_suffix p \<Longrightarrow> keeps_suffix q \<Longrightarrow> keeps_suffix (p_separated1 p q)"
  by (simp add: p_separated1_def suffix_intros)

section \<open>Recognizers\<close>

lemma std_literal_Inr [parser_simps]: "std_literal t s = Inr (x, r) \<longleftrightarrow> x = t \<and> s = t @ r"
  by (auto simp: std_literal_def prefix_def)

lemma std_take_while_Inr [parser_simps]:
  "std_take_while P s = Inr (x, r) \<longleftrightarrow> x = takeWhile P s \<and> r = dropWhile P s"
  by (auto simp: std_take_while_def)

lemma std_take_while1_Inr [parser_simps]:
  "std_take_while1 P s = Inr (x, r) \<longleftrightarrow> x = takeWhile P s \<and> r = dropWhile P s \<and> x \<noteq> []"
  by (auto simp: std_take_while1_def nonempty_def)

lemma std_one_of_Inr [parser_simps]: "std_one_of P s = Inr (x, r) \<longleftrightarrow> (\<exists>c. s = c # r \<and> P c \<and> x = [c])"
  by (auto simp: std_one_of_def split: list.splits)

lemma std_line_ending_Inr [parser_simps]:
  "std_line_ending s = Inr (x, r) \<longleftrightarrow> s = x @ r \<and> (x = [newline] \<or> x = [carriage_return, newline])"
  by (auto simp: std_line_ending_def p_or_def std_literal_def carriage_return_def prefix_def)

lemma std_eof_Inr [parser_simps]: "std_eof s = Inr (x, r) \<longleftrightarrow> s = [] \<and> x = [] \<and> r = []"
  by (auto simp: std_eof_def)

lemma std_till_line_ending_Inr:
  assumes "std_till_line_ending s = Inr (x, r)"
  shows "s = x @ r \<and> (\<forall>c \<in> set x. \<not> is_line_end c) \<and> (r = [] \<or> prefix [newline] r \<or> prefix [carriage_return, newline] r)"
proof -
  let ?P = "\<lambda>c. \<not> is_line_end c"
  from assms have x: "x = takeWhile ?P s" and r: "r = dropWhile ?P s"
    and cr: "prefix [carriage_return] r \<Longrightarrow> prefix [carriage_return, newline] r"
    by (auto simp: std_till_line_ending_def Let_def split: if_splits)
  have "r = [] \<or> prefix [newline] r \<or> prefix [carriage_return, newline] r"
  proof (cases r)
    case (Cons c r')
    with r dropWhile_eq_Cons_conv [of ?P s c r'] have "is_line_end c" by auto
    with cr Cons show ?thesis by (auto simp: is_line_end_def)
  qed simp
  with x r show ?thesis by (auto dest: set_takeWhileD)
qed

lemma split_before_Some: "split_before t s = Some (a, b) \<Longrightarrow> s = a @ b \<and> prefix t b"
  by (induction t s arbitrary: a b rule: split_before.induct) (auto split: if_splits)

lemma std_take_until1_Inr: "std_take_until1 t s = Inr (x, r) \<Longrightarrow> s = x @ r \<and> prefix t r \<and> x \<noteq> []"
  by (auto simp: std_take_until1_def nonempty_def split: option.splits if_splits dest: split_before_Some)

lemma std_keeps [suffix_intros]:
  "keeps_suffix (std_literal t)" "keeps_suffix (std_take_while P)" "keeps_suffix (std_take_while1 P)"
  "keeps_suffix (std_one_of P)" "keeps_suffix std_line_ending" "keeps_suffix std_till_line_ending"
  "keeps_suffix std_eof" "keeps_suffix (std_take_until1 t)"
  by (auto simp: keeps_suffix_def parser_simps suffix_dropWhile suffixI
      dest!: std_till_line_ending_Inr std_take_until1_Inr)

text \<open>A parser of documented recognizers is the parser of \<open>winnow_std\<close>'s.\<close>

lemma documented_std:
  assumes "winnow_documented W"
  shows "W = winnow_std"
proof -
  have "W = winnow_std" if "winnow.more W = ()"
    using assms by (intro winnow.equality) (auto simp: winnow_documented_def winnow_std_def)
  then show ?thesis by simp
qed

lemma winnow_std_simps [simp]:
  "w_literal winnow_std = std_literal" "w_space0 winnow_std = std_take_while is_blank"
  "w_space1 winnow_std = std_take_while1 is_blank" "w_digit1 winnow_std = std_take_while1 is_digit"
  "w_newline winnow_std = std_literal [newline]" "w_line_ending winnow_std = std_line_ending"
  "w_till_line_ending winnow_std = std_till_line_ending" "w_eof winnow_std = std_eof"
  "w_one_of winnow_std = std_one_of" "w_take_while winnow_std = std_take_while"
  "w_take_while1 winnow_std = std_take_while1" "w_take_till1 winnow_std = (\<lambda>P. std_take_while1 (\<lambda>c. \<not> P c))"
  "w_take_until1 winnow_std = std_take_until1"
  by (simp_all add: winnow_std_def)

section \<open>Lines\<close>

definition line_ending_or_eof :: "winnow \<Rightarrow> string parser" where
  "line_ending_or_eof W = p_alt [w_line_ending W, w_eof W]"

definition until_newline :: "winnow \<Rightarrow> string parser" where
  "until_newline W =
     p_bind (w_till_line_ending W) (\<lambda>line.
     p_bind (line_ending_or_eof W) (\<lambda>ending.
       if length line = 0 \<and> length ending = 0 then p_fail Backtrack else p_return line))"

definition rest_of_line :: "winnow \<Rightarrow> string parser" where
  "rest_of_line W = p_recognize (until_newline W)"


lemma until_newline_Inr:
  "until_newline winnow_std s = Inr (line, r) \<Longrightarrow>
   \<exists>ending. s = line @ ending @ r \<and> (\<forall>c \<in> set line. \<not> is_line_end c) \<and>
     (ending = [newline] \<or> ending = [carriage_return, newline] \<or> ending = [] \<and> r = [] \<and> line \<noteq> [])"
  by (auto simp: until_newline_def line_ending_or_eof_def parser_simps split: if_splits
      dest!: std_till_line_ending_Inr)

lemma until_newline_keeps [suffix_intros]: "keeps_suffix (until_newline winnow_std)"
  unfolding keeps_suffix_def by (auto dest!: until_newline_Inr simp: suffix_def)

lemma rest_of_line_keeps [suffix_intros]: "keeps_suffix (rest_of_line winnow_std)"
  unfolding rest_of_line_def by (intro suffix_intros)

lemma rest_of_line_Inr:
  "rest_of_line winnow_std s = Inr (x, r) \<Longrightarrow>
   s = x @ r \<and> x \<noteq> [] \<and> (r = [] \<or> last x = newline) \<and> newline \<notin> set (butlast x)"
  by (auto simp: rest_of_line_def parser_simps is_line_end_def carriage_return_def butlast_append
      dest!: until_newline_Inr) (metis in_set_butlastD)

text \<open>Text without a carriage return always has a line to take.\<close>

lemma until_newline_line:
  "\<forall>c \<in> set line. \<not> is_line_end c \<Longrightarrow> until_newline winnow_std (line @ newline # r) = Inr (line, r)"
  by (simp add: until_newline_def line_ending_or_eof_def p_bind_def std_till_line_ending_def Let_def is_line_end_def
      takeWhile_tail dropWhile_append3 std_line_ending_def p_or_def std_literal_def prefix_def carriage_return_def
      p_return_def)

lemma until_newline_end:
  "\<forall>c \<in> set line. \<not> is_line_end c \<Longrightarrow> line \<noteq> [] \<Longrightarrow> until_newline winnow_std line = Inr (line, [])"
  by (simp add: until_newline_def line_ending_or_eof_def p_bind_def std_till_line_ending_def Let_def
      takeWhile_eq_all_conv [THEN iffD2] dropWhile_eq_Nil_conv [THEN iffD2] std_line_ending_def p_or_def std_literal_def
      std_eof_def carriage_return_def p_return_def)

lemma until_newline_Nil: "until_newline winnow_std [] = Inl Backtrack"
  by (simp add: until_newline_def line_ending_or_eof_def p_bind_def std_till_line_ending_def Let_def
      std_line_ending_def p_or_def std_literal_def std_eof_def carriage_return_def p_fail_def)

lemma rest_of_line_total:
  assumes "carriage_return \<notin> set s" and "s \<noteq> []"
  shows "\<exists>x r. rest_of_line winnow_std s = Inr (x, r)"
proof (cases "newline \<in> set s")
  case True
  then obtain line r where "s = line @ newline # r" "newline \<notin> set line" by (meson split_list_first)
  moreover from this assms(1) have "\<forall>c \<in> set line. \<not> is_line_end c" by (auto simp: is_line_end_def)
  ultimately show ?thesis
    using until_newline_line [of line r] by (auto simp: rest_of_line_def parser_simps)
next
  case False
  with assms have "\<forall>c \<in> set s. \<not> is_line_end c" by (auto simp: is_line_end_def)
  with until_newline_end [OF this assms(2)] show ?thesis by (auto simp: rest_of_line_def parser_simps)
qed

lemma rest_of_line_run:
  "\<forall>c \<in> set line. \<not> is_line_end c \<Longrightarrow> rest_of_line winnow_std (line @ newline # r) = Inr (line @ [newline], r)"
  by (simp add: rest_of_line_def p_recognize_def p_with_recognized_def p_map_def p_bind_def p_return_def until_newline_line)

text \<open>How a run of repetitions unfolds.\<close>

lemma p_repeat_step: "p s = Inr (x, r) \<Longrightarrow> length r < length s \<Longrightarrow>
   p_repeat p s = (case p_repeat p r of Inl e \<Rightarrow> Inl e | Inr (xs, t) \<Rightarrow> Inr (x # xs, t))"
  by (simp add: p_repeat.simps [of p s])

lemma p_repeat_stop: "p s = Inl Backtrack \<Longrightarrow> p_repeat p s = Inr ([], s)"
  by (simp add: p_repeat.simps)

lemma p_repeat_Inr_cases:
  assumes "p_repeat p s = Inr (xs, t)"
  obtains (stop) "p s = Inl Backtrack" "xs = []" "t = s"
  | (step) x r ys where "p s = Inr (x, r)" "length r < length s" "p_repeat p r = Inr (ys, t)" "xs = x # ys"
  using assms p_repeat.simps [of p s]
  by (auto split: sum.splits parse_error.splits if_splits prod.splits)

end
