(* ===== verification/EvalParser.thy ===== *)
theory EvalParser
  imports Lines ShowPaths
begin

text \<open>
  \<open>src/src/ghci/parse/eval.rs\<close>: the eval comments of a Haskell source file, with the line and the column
  each command starts at. The \<open>line_span\<close> crate is a parameter.
\<close>

section \<open>The grammar\<close>

record byte_span_command =
  bc_command :: string
  bc_display :: string
  bc_span :: "nat \<times> nat"

text \<open>\<open>Located\<close> and \<open>with_span\<close>: \<open>n\<close> is the length of the file.\<close>

definition p_with_span :: "nat \<Rightarrow> 'a parser \<Rightarrow> ('a \<times> nat \<times> nat) parser" where
  "p_with_span n p s =
     (case p s of Inl e \<Rightarrow> Inl e | Inr (x, r) \<Rightarrow> Inr ((x, n - length s, n - length r), r))"

definition line_eval_command :: "winnow \<Rightarrow> nat \<Rightarrow> byte_span_command parser" where
  "line_eval_command W n =
     p_then (w_space0 W) (p_then (w_literal W ''-- $>'') (p_then (w_space0 W)
     (p_bind (p_with_span n (until_newline W)) (\<lambda>(command, span).
        p_return \<lparr>bc_command = command, bc_display = command, bc_span = span\<rparr>))))"

definition multiline_eval_end :: "winnow \<Rightarrow> unit parser" where
  "multiline_eval_end W = p_then (w_space0 W) (p_map (\<lambda>_. ()) (w_literal W ''<$ -}''))"

definition multiline_eval_command :: "winnow \<Rightarrow> nat \<Rightarrow> byte_span_command parser" where
  "multiline_eval_command W n =
     p_then (w_space0 W) (p_then (w_literal W ''{- $>'') (p_then (w_space0 W) (p_then (p_opt (w_line_ending W))
     (p_bind (p_with_span n (p_recognize (p_repeat_till (rest_of_line W) (p_peek (multiline_eval_end W))))) (\<lambda>(command, span).
      p_then (multiline_eval_end W) (p_then (w_space0 W) (p_then (line_ending_or_eof W)
       (p_return \<lparr>bc_command = '':{'' @ newline # command @ '':}'', bc_display = str_trim command, bc_span = span\<rparr>))))))))"

definition eval_item :: "winnow \<Rightarrow> nat \<Rightarrow> byte_span_command option parser" where
  "eval_item W n =
     p_alt [p_map Some (line_eval_command W n), p_map Some (multiline_eval_command W n),
       p_map (\<lambda>_. None) (rest_of_line W)]"

definition eval_commands :: "winnow \<Rightarrow> nat \<Rightarrow> byte_span_command list parser" where
  "eval_commands W n = p_map (List.map_filter (\<lambda>item. item)) (p_repeat (eval_item W n))"

section \<open>Where eval commands are\<close>

record eval_command =
  ec_command :: string
  ec_display :: string
  ec_line :: nat
  ec_column :: nat
  ec_span :: "nat \<times> nat"

text \<open>\<open>char_indices\<close>: the offsets at which a character starts.\<close>

definition char_indices :: "string \<Rightarrow> nat list" where
  "char_indices s = filter (\<lambda>i. \<not> is_cont (s ! i)) [0 ..< List.length s]"

fun find_column :: "nat \<Rightarrow> nat list \<Rightarrow> nat \<Rightarrow> nat option" where
  "find_column offset [] column = None"
| "find_column offset (i # is) column = (if offset \<le> i then Some column else find_column offset is (column + 1))"

definition column_number :: "string \<Rightarrow> nat \<times> nat \<Rightarrow> nat \<Rightarrow> nat" where
  "column_number contents span start =
     (case find_column (start - fst span) (char_indices (take (snd span - fst span) (drop (fst span) contents))) 1 of
        Some column \<Rightarrow> column
      | None \<Rightarrow> 1)"

text \<open>The line spans are those of the \<open>line_span\<close> crate, with their endings.\<close>

fun locate_lines ::
  "string \<Rightarrow> (nat \<times> nat) list \<Rightarrow> nat \<Rightarrow> byte_span_command \<Rightarrow> byte_span_command list \<Rightarrow> eval_command list" where
  "locate_lines contents [] n c rest = []"
| "locate_lines contents (span # spans) n c rest =
     (if fst span \<le> fst (bc_span c) \<and> fst (bc_span c) < snd span
      then \<lparr>ec_command = bc_command c, ec_display = bc_display c, ec_line = n,
             ec_column = column_number contents span (fst (bc_span c)), ec_span = bc_span c\<rparr> #
        (case rest of [] \<Rightarrow> [] | c' # rest' \<Rightarrow> locate_lines contents spans (n + 1) c' rest')
      else locate_lines contents spans (n + 1) c rest)"

definition parse_eval_commands ::
  "winnow \<Rightarrow> (string \<Rightarrow> (nat \<times> nat) list) \<Rightarrow> string \<Rightarrow> eval_command list res" where
  "parse_eval_commands W line_spans contents =
     res_bind (p_parse (eval_commands W (length contents)) contents) (\<lambda>commands.
       case commands of
         [] \<Rightarrow> Inr []
       | c # rest \<Rightarrow> Inr (locate_lines contents (line_spans contents) 1 c rest))"

definition show_eval_command :: "eval_command \<Rightarrow> string" where
  "show_eval_command e =
     show_nat (ec_line e) @ '':'' @ show_nat (ec_column e) @ '': -- $> '' @ ec_display e"

section \<open>Columns\<close>

lemma find_column_sorted:
  "sorted_wrt (<) is \<Longrightarrow> x \<in> set is \<Longrightarrow>
   find_column x is column = Some (column + List.length (filter (\<lambda>i. i < x) is))"
proof (induction "is" arbitrary: column)
  case (Cons i "is")
  show ?case
  proof (cases "x \<le> i")
    case True
    with Cons.prems have "x = i" "filter (\<lambda>j. j < x) is = []" by (auto simp: filter_empty_conv)
    then show ?thesis by simp
  next
    case False
    with Cons show ?thesis by auto
  qed
qed simp

lemma column_number_counts:
  assumes "a \<le> x" and "x < b" and "b \<le> List.length contents" and "\<not> is_cont (contents ! x)"
  shows "column_number contents (a, b) x = Suc (card {i. a \<le> i \<and> i < x \<and> \<not> is_cont (contents ! i)})"
proof -
  let ?l = "take (b - a) (drop a contents)"
  have l: "List.length ?l = b - a" "\<And>i. i < b - a \<Longrightarrow> ?l ! i = contents ! (a + i)" using assms by simp_all
  have mem: "x - a \<in> set (char_indices ?l)" using assms l by (auto simp: char_indices_def)
  have "sorted_wrt (<) (char_indices ?l)" unfolding char_indices_def by (rule sorted_wrt_filter) simp
  from find_column_sorted [OF this mem]
  have "column_number contents (a, b) x = Suc (List.length (filter (\<lambda>i. i < x - a) (char_indices ?l)))"
    by (simp add: column_number_def)
  also have "List.length (filter (\<lambda>i. i < x - a) (char_indices ?l)) = card {i. i < x - a \<and> \<not> is_cont (contents ! (a + i))}"
  proof -
    have "set (filter (\<lambda>i. i < x - a) (char_indices ?l)) = {i. i < x - a \<and> \<not> is_cont (contents ! (a + i))}"
      using assms l by (auto simp: char_indices_def)
    moreover have "distinct (filter (\<lambda>i. i < x - a) (char_indices ?l))" by (simp add: char_indices_def)
    ultimately show ?thesis using distinct_card by metis
  qed
  also have "\<dots> = card ((+) a ` {i. i < x - a \<and> \<not> is_cont (contents ! (a + i))})"
    by (rule card_image [symmetric]) simp
  also have "(+) a ` {i. i < x - a \<and> \<not> is_cont (contents ! (a + i))} = {i. a \<le> i \<and> i < x \<and> \<not> is_cont (contents ! i)}"
  proof (intro set_eqI iffI)
    fix i assume i: "i \<in> {i. a \<le> i \<and> i < x \<and> \<not> is_cont (contents ! i)}"
    then have "i = a + (i - a)" "i - a < x - a" by auto
    with i show "i \<in> (+) a ` {i. i < x - a \<and> \<not> is_cont (contents ! (a + i))}" by (intro image_eqI) auto
  qed auto
  finally show ?thesis .
qed

section \<open>What the grammar finds\<close>

lemma p_with_span_Inr [parser_simps]:
  "p_with_span n p s = Inr (y, r) \<longleftrightarrow> (\<exists>x. p s = Inr (x, r) \<and> y = (x, n - length s, n - length r))"
  by (auto simp: p_with_span_def split: sum.splits)

lemma take_drop_blanks: "takeWhile is_blank s @ dropWhile is_blank s = s" "\<forall>c \<in> set (takeWhile is_blank s). is_blank c"
  by (auto dest: set_takeWhileD)

lemma line_eval_Inr:
  assumes "line_eval_command winnow_std n s = Inr (c, r)"
  obtains b gap line ending where "s = b @ ''-- $>'' @ gap @ line @ ending @ r" and "\<forall>x \<in> set gap. is_blank x"
    and "\<forall>x \<in> set line. \<not> is_line_end x"
    and "ending = [newline] \<or> ending = [carriage_return, newline] \<or> ending = [] \<and> r = [] \<and> line \<noteq> []"
    and "c = \<lparr>bc_command = line, bc_display = line, bc_span = (n - length (line @ ending @ r), n - length r)\<rparr>"
proof -
  obtain t line where t: "dropWhile is_blank s = ''-- $>'' @ t" "until_newline winnow_std (dropWhile is_blank t) = Inr (line, r)"
    "c = \<lparr>bc_command = line, bc_display = line, bc_span = (n - length (dropWhile is_blank t), n - length r)\<rparr>"
    using assms by (auto simp: line_eval_command_def parser_simps)
  from until_newline_Inr [OF t(2)] obtain ending where e: "dropWhile is_blank t = line @ ending @ r" "\<forall>x \<in> set line. \<not> is_line_end x"
    "ending = [newline] \<or> ending = [carriage_return, newline] \<or> ending = [] \<and> r = [] \<and> line \<noteq> []" by blast
  have "s = takeWhile is_blank s @ ''-- $>'' @ takeWhile is_blank t @ line @ ending @ r"
    using t(1) e(1) take_drop_blanks(1) [of s] take_drop_blanks(1) [of t] by metis
  from that [OF this take_drop_blanks(2) e(2,3)] t(3) e(1) show thesis by simp
qed

lemma multiline_eval_end_Inr: "multiline_eval_end winnow_std s = Inr (x, r) \<longleftrightarrow> dropWhile is_blank s = ''<$ -}'' @ r"
  by (auto simp: multiline_eval_end_def parser_simps)

lemma opt_line_ending_Inr:
  "p_opt std_line_ending s = Inr (x, r) \<Longrightarrow> \<exists>e. s = e @ r \<and> (e = [] \<or> e = [newline] \<or> e = [carriage_return, newline])"
  by (auto simp: parser_simps)

lemma line_ending_or_eof_Inr:
  "line_ending_or_eof winnow_std s = Inr (x, r) \<Longrightarrow>
   \<exists>e. s = e @ r \<and> (e = [newline] \<or> e = [carriage_return, newline] \<or> e = [] \<and> r = [])"
  by (auto simp: line_ending_or_eof_def parser_simps)

lemma multiline_eval_Inr:
  assumes "multiline_eval_command winnow_std n s = Inr (c, r)"
  obtains b gap e body b2 b3 ending where "s = b @ ''{- $>'' @ gap @ e @ body @ b2 @ ''<$ -}'' @ b3 @ ending @ r"
    and "\<forall>x \<in> set gap. is_blank x" and "e = [] \<or> e = [newline] \<or> e = [carriage_return, newline]"
    and "ending = [newline] \<or> ending = [carriage_return, newline] \<or> ending = [] \<and> r = []"
    and "c = \<lparr>bc_command = '':{'' @ newline # body @ '':}'', bc_display = str_trim body,
      bc_span = (n - length (body @ b2 @ ''<$ -}'' @ b3 @ ending @ r), n - length (b2 @ ''<$ -}'' @ b3 @ ending @ r))\<rparr>"
proof -
  have keeps: "keeps_suffix (p_repeat_till (rest_of_line winnow_std) (p_peek (multiline_eval_end winnow_std)))"
    by (intro suffix_intros)
  obtain t x u y v w z where t: "dropWhile is_blank s = ''{- $>'' @ t"
    "p_opt std_line_ending (dropWhile is_blank t) = Inr (x, u)"
    "p_repeat_till (rest_of_line winnow_std) (p_peek (multiline_eval_end winnow_std)) u = Inr (y, v)"
    "dropWhile is_blank v = ''<$ -}'' @ w" "line_ending_or_eof winnow_std (dropWhile is_blank w) = Inr (z, r)"
    "c = \<lparr>bc_command = '':{'' @ newline # take (length u - length v) u @ '':}'', bc_display = str_trim (take (length u - length v) u),
      bc_span = (n - length u, n - length v)\<rparr>"
    using assms
    by (simp add: multiline_eval_command_def p_bind_Inr p_return_Inr std_take_while_Inr std_literal_Inr multiline_eval_end_Inr
        p_with_span_Inr p_recognize_Inr) metis
  obtain body where body: "u = body @ v" using keeps_suffixD [OF keeps t(3)] by (auto simp: suffix_def)
  obtain e where e: "dropWhile is_blank t = e @ u" "e = [] \<or> e = [newline] \<or> e = [carriage_return, newline]"
    using opt_line_ending_Inr [OF t(2)] by blast
  obtain ending where ending: "dropWhile is_blank w = ending @ r"
    "ending = [newline] \<or> ending = [carriage_return, newline] \<or> ending = [] \<and> r = []"
    using line_ending_or_eof_Inr [OF t(5)] by blast
  have v: "v = takeWhile is_blank v @ ''<$ -}'' @ takeWhile is_blank w @ ending @ r"
    using t(4) ending(1) take_drop_blanks(1) [of v] take_drop_blanks(1) [of w] by metis
  have "s = takeWhile is_blank s @ ''{- $>'' @ takeWhile is_blank t @ e @ body @ v"
    using t(1) e(1) body take_drop_blanks(1) [of s] take_drop_blanks(1) [of t] by metis
  with v have "s = takeWhile is_blank s @ ''{- $>'' @ takeWhile is_blank t @ e @ body @
    takeWhile is_blank v @ ''<$ -}'' @ takeWhile is_blank w @ ending @ r" by metis
  moreover have "take (length u - length v) u = body" using body by simp
  ultimately show thesis
    using that [OF _ take_drop_blanks(2) e(2) ending(2)] t(6) body v by metis
qed

text \<open>A command's text is the text at its span, after the marker of an eval comment.\<close>

definition line_end :: "string \<Rightarrow> bool" where
  "line_end e \<longleftrightarrow> e = [] \<or> e = [newline] \<or> e = [carriage_return, newline]"

definition reads_from :: "string \<Rightarrow> byte_span_command \<Rightarrow> bool" where
  "reads_from contents c \<longleftrightarrow>
     (\<exists>front gap body rest. contents = front @ gap @ body @ rest \<and>
        bc_span c = (length (front @ gap), length (front @ gap @ body)) \<and>
        ((\<exists>e. suffix ''-- $>'' front \<and> (\<forall>x \<in> set gap. is_blank x) \<and> line_end e \<and>
            body = bc_command c @ e \<and> newline \<notin> set (bc_command c) \<and> bc_display c = bc_command c) \<or>
         (\<exists>b e. suffix ''{- $>'' front \<and> gap = b @ e \<and> (\<forall>x \<in> set b. is_blank x) \<and> line_end e \<and>
            bc_command c = '':{'' @ newline # body @ '':}'' \<and> bc_display c = str_trim body)))"

lemma reads_from_line:
  assumes "contents = front @ gap @ (bc_command c @ e) @ rest"
    and "bc_span c = (length (front @ gap), length (front @ gap @ bc_command c @ e))" and "suffix ''-- $>'' front"
    and "\<forall>x \<in> set gap. is_blank x" and "line_end e" and "newline \<notin> set (bc_command c)" and "bc_display c = bc_command c"
  shows "reads_from contents c"
  unfolding reads_from_def using assms by blast

lemma reads_from_block:
  assumes "contents = front @ (b @ e) @ body @ rest"
    and "bc_span c = (length (front @ b @ e), length (front @ b @ e @ body))" and "suffix ''{- $>'' front"
    and "\<forall>x \<in> set b. is_blank x" and "line_end e" and "bc_command c = '':{'' @ newline # body @ '':}''"
    and "bc_display c = str_trim body"
  shows "reads_from contents c"
  unfolding reads_from_def
  using assms(1-2) assms(3-7)
  by (intro exI [of _ front] exI [of _ "b @ e"] exI [of _ body] exI [of _ rest]) auto

definition found_between :: "string \<Rightarrow> nat \<Rightarrow> byte_span_command \<Rightarrow> nat \<Rightarrow> bool" where
  "found_between contents a c b \<longleftrightarrow>
     reads_from contents c \<and> a < fst (bc_span c) \<and> fst (bc_span c) < b \<and> b \<le> length contents \<and>
     byte (contents ! (fst (bc_span c) - 1)) < 128 \<and> (b = length contents \<or> contents ! (b - 1) = newline)"

lemma byte_ascii: "is_blank c \<Longrightarrow> byte c < 128" "is_line_end c \<Longrightarrow> byte c < 128"
  by (auto simp: is_blank_def is_line_end_def carriage_return_def byte_def)

lemma nth_before: "xs \<noteq> [] \<Longrightarrow> (xs @ ys) ! (length xs - 1) = last xs"
  by (simp add: last_conv_nth nth_append)

lemma newline_before:
  "contents = xs @ r \<Longrightarrow> xs \<noteq> [] \<Longrightarrow> last xs = newline \<Longrightarrow> contents ! (length contents - length r - 1) = newline"
  using nth_before [of xs r] by simp

lemma last_ascii:
  assumes "front \<noteq> []" and "byte (last front) < 128" and "\<forall>x \<in> set gap. is_blank x \<or> is_line_end x"
  shows "byte ((front @ gap @ rest) ! (length (front @ gap) - 1)) < 128"
proof -
  have "(front @ gap @ rest) ! (length (front @ gap) - 1) = last (front @ gap)"
    using assms(1) nth_before [of "front @ gap" rest] by simp
  moreover have "byte (last (front @ gap)) < 128"
  proof (cases "gap = []")
    case False
    with assms(3) have "is_blank (last gap) \<or> is_line_end (last gap)" using last_in_set by blast
    with False byte_ascii show ?thesis by auto
  qed (use assms in simp)
  ultimately show ?thesis by simp
qed

lemma line_eval_found:
  assumes "line_eval_command winnow_std (length contents) s = Inr (c, r)" and "contents = pre @ s"
  shows "found_between contents (length contents - length s) c (length contents - length r)"
proof -
  obtain b gap line ending where l: "s = b @ ''-- $>'' @ gap @ line @ ending @ r" "\<forall>x \<in> set gap. is_blank x"
    "\<forall>x \<in> set line. \<not> is_line_end x"
    "ending = [newline] \<or> ending = [carriage_return, newline] \<or> ending = [] \<and> r = [] \<and> line \<noteq> []"
    "c = \<lparr>bc_command = line, bc_display = line,
      bc_span = (length contents - length (line @ ending @ r), length contents - length r)\<rparr>"
    using assms(1) by (rule line_eval_Inr)
  let ?front = "pre @ b @ ''-- $>''"
  have c: "contents = ?front @ gap @ (line @ ending) @ r" using assms(2) l(1) by simp
  have span: "bc_span c = (length (?front @ gap), length (?front @ gap @ line @ ending))"
    using l(5) by (simp add: c)
  have "newline \<notin> set line" "line_end ending" using l(3,4) by (auto simp: is_line_end_def line_end_def)
  with l(2,5) span have "reads_from contents c"
    by (intro reads_from_line [where front = ?front and gap = gap and e = ending and rest = r])
       (simp_all add: c suffix_def)
  moreover have "byte (contents ! (fst (bc_span c) - 1)) < 128"
    using last_ascii [of ?front gap "line @ ending @ r"] l(2) span c by (simp add: byte_def)
  moreover have "contents ! (length contents - length r - 1) = newline" if "r \<noteq> []"
    using that l(4) c by (intro newline_before [of _ "?front @ gap @ line @ ending"]) auto
  moreover have "length (line @ ending) > 0" using l(4) by auto
  ultimately show ?thesis
    using span unfolding found_between_def by (auto simp: c l(1) assms(2))
qed

lemma multiline_eval_found:
  assumes "multiline_eval_command winnow_std (length contents) s = Inr (c, r)" and "contents = pre @ s"
  shows "found_between contents (length contents - length s) c (length contents - length r)"
proof -
  obtain b gap e body b2 b3 ending where l: "s = b @ ''{- $>'' @ gap @ e @ body @ b2 @ ''<$ -}'' @ b3 @ ending @ r"
    "\<forall>x \<in> set gap. is_blank x" "e = [] \<or> e = [newline] \<or> e = [carriage_return, newline]"
    "ending = [newline] \<or> ending = [carriage_return, newline] \<or> ending = [] \<and> r = []"
    "c = \<lparr>bc_command = '':{'' @ newline # body @ '':}'', bc_display = str_trim body,
      bc_span = (length contents - length (body @ b2 @ ''<$ -}'' @ b3 @ ending @ r),
        length contents - length (b2 @ ''<$ -}'' @ b3 @ ending @ r))\<rparr>"
    using assms(1) by (rule multiline_eval_Inr)
  let ?front = "pre @ b @ ''{- $>''" and ?tail = "b2 @ ''<$ -}'' @ b3 @ ending"
  have c: "contents = ?front @ (gap @ e) @ body @ ?tail @ r" using assms(2) l(1) by simp
  have span: "bc_span c = (length (?front @ gap @ e), length (?front @ gap @ e @ body))"
    using l(5) by (simp add: c)
  have e: "line_end e" "\<forall>x \<in> set (gap @ e). is_blank x \<or> is_line_end x"
    using l(2,3) by (auto simp: is_line_end_def line_end_def)
  with l(2,5) span have "reads_from contents c"
    by (intro reads_from_block [where front = ?front and b = gap and e = e and body = body and rest = "?tail @ r"])
       (simp_all add: c suffix_def)
  moreover have "byte (contents ! (fst (bc_span c) - 1)) < 128"
    using last_ascii [OF _ _ e(2), of ?front "body @ ?tail @ r"] span c by (simp add: byte_def)
  moreover have "contents ! (length contents - length r - 1) = newline" if "r \<noteq> []"
    using that l(4) c by (intro newline_before [of _ "?front @ (gap @ e) @ body @ ?tail"]) auto
  ultimately show ?thesis
    using span unfolding found_between_def by (auto simp: c l(1) assms(2))
qed

text \<open>The parser goes through the file once, and a newline lies between two commands.\<close>

definition separated_by_newline :: "string \<Rightarrow> byte_span_command \<Rightarrow> byte_span_command \<Rightarrow> bool" where
  "separated_by_newline contents c d \<longleftrightarrow>
     (\<exists>p. fst (bc_span c) \<le> p \<and> p < fst (bc_span d) \<and> contents ! p = newline)"

lemma line_eval_keeps [suffix_intros]: "keeps_suffix (line_eval_command winnow_std n)"
  unfolding keeps_suffix_def
proof (intro allI impI)
  fix s c r assume "line_eval_command winnow_std n s = Inr (c, r)"
  then show "suffix r s"
  proof (rule line_eval_Inr)
    fix b gap line ending assume "s = b @ ''-- $>'' @ gap @ line @ ending @ r"
    then have "s = (b @ ''-- $>'' @ gap @ line @ ending) @ r" by simp
    then show ?thesis unfolding suffix_def by blast
  qed
qed

lemma multiline_eval_keeps [suffix_intros]: "keeps_suffix (multiline_eval_command winnow_std n)"
  unfolding keeps_suffix_def
proof (intro allI impI)
  fix s c r assume "multiline_eval_command winnow_std n s = Inr (c, r)"
  then show "suffix r s"
  proof (rule multiline_eval_Inr)
    fix b gap e body b2 b3 ending assume "s = b @ ''{- $>'' @ gap @ e @ body @ b2 @ ''<$ -}'' @ b3 @ ending @ r"
    then have "s = (b @ ''{- $>'' @ gap @ e @ body @ b2 @ ''<$ -}'' @ b3 @ ending) @ r" by simp
    then show ?thesis unfolding suffix_def by blast
  qed
qed

lemma eval_item_keeps [suffix_intros]: "keeps_suffix (eval_item winnow_std n)"
  unfolding eval_item_def by (intro suffix_intros) (auto intro: suffix_intros)

lemma eval_item_Some:
  assumes "eval_item winnow_std (length contents) s = Inr (Some c, r)" and "contents = pre @ s"
  shows "found_between contents (length contents - length s) c (length contents - length r)"
  using assms line_eval_found multiline_eval_found by (auto simp: eval_item_def parser_simps)

lemma found_separated:
  assumes "found_between contents a c b" and "found_between contents b d e"
  shows "separated_by_newline contents c d"
proof -
  have "b < length contents" using assms(2) by (simp add: found_between_def)
  with assms(1) have "contents ! (b - 1) = newline" by (simp add: found_between_def)
  with assms show ?thesis
    unfolding separated_by_newline_def found_between_def by (intro exI [of _ "b - 1"]) auto
qed

lemma eval_items_found:
  "p_repeat p s = Inr (items, t) \<Longrightarrow> p = eval_item winnow_std (length contents) \<Longrightarrow> suffix s contents \<Longrightarrow>
   (\<forall>c \<in> set (List.map_filter (\<lambda>i. i) items). \<exists>b. found_between contents (length contents - length s) c b) \<and>
   sorted_wrt (separated_by_newline contents) (List.map_filter (\<lambda>i. i) items)"
proof (induction p s arbitrary: items rule: p_repeat.induct)
  case (1 p s)
  from 1(2) show ?case
  proof (cases rule: p_repeat_Inr_cases)
    case (step x r ys)
    from 1(4) obtain pre where pre: "contents = pre @ s" by (auto simp: suffix_def)
    have "suffix r s" using keeps_suffixD [OF eval_item_keeps] step(1) 1(3) by simp
    with 1(4) have r: "suffix r contents" "length r \<le> length contents" by (auto dest: suffix_order.trans suffix_length_le)
    from 1(1) [OF step(1) refl step(2,3) 1(3) r(1)]
    have IH: "\<forall>c \<in> set (List.map_filter (\<lambda>i. i) ys). \<exists>b. found_between contents (length contents - length r) c b"
      "sorted_wrt (separated_by_newline contents) (List.map_filter (\<lambda>i. i) ys)" by blast+
    have le: "length contents - length s \<le> length contents - length r" using step(2) by simp
    have weaken: "found_between contents (length contents - length s) c b" if "found_between contents (length contents - length r) c b" for c b
      using that le by (simp add: found_between_def)
    have later: "\<forall>c \<in> set (List.map_filter (\<lambda>i. i) ys). \<exists>b. found_between contents (length contents - length s) c b"
      using IH(1) weaken by blast
    show ?thesis
    proof (cases x)
      case None
      with later IH(2) step(4) show ?thesis by (simp add: List.map_filter_simps)
    next
      case (Some c)
      have c: "found_between contents (length contents - length s) c (length contents - length r)"
        by (rule eval_item_Some [OF _ pre]) (use step(1) 1(3) Some in simp)
      have sep: "separated_by_newline contents c d" if "d \<in> set (List.map_filter (\<lambda>i. i) ys)" for d
      proof -
        from bspec [OF IH(1) that] obtain b where "found_between contents (length contents - length r) d b" ..
        with c show ?thesis by (rule found_separated)
      qed
      have "\<forall>d \<in> set (c # List.map_filter (\<lambda>i. i) ys). \<exists>b. found_between contents (length contents - length s) d b"
        using c later by (metis set_ConsD)
      moreover have "sorted_wrt (separated_by_newline contents) (c # List.map_filter (\<lambda>i. i) ys)"
        using sep IH(2) by simp
      moreover have "List.map_filter (\<lambda>i. i) items = c # List.map_filter (\<lambda>i. i) ys"
        using step(4) Some by (simp add: List.map_filter_simps)
      ultimately show ?thesis by simp
    qed
  qed (simp add: List.map_filter_simps)
qed

section \<open>Lines\<close>

fun spans_from :: "nat \<Rightarrow> (nat \<times> nat) list \<Rightarrow> nat \<Rightarrow> bool" where
  "spans_from a [] b \<longleftrightarrow> a = b"
| "spans_from a (span # spans) b \<longleftrightarrow> fst span = a \<and> a < snd span \<and> spans_from (snd span) spans b"

text \<open>The documentation of \<open>line_spans\<close>: the spans follow each other, cover the text, and have one line each.\<close>

definition line_spans_documented :: "string \<Rightarrow> (nat \<times> nat) list \<Rightarrow> bool" where
  "line_spans_documented contents spans \<longleftrightarrow>
     spans_from 0 spans (length contents) \<and>
     (\<forall>(a, b) \<in> set spans. \<forall>p \<in> {a ..< b}. contents ! p = newline \<longrightarrow> p = b - 1)"

text \<open>At most one command starts on a line, and they come in order.\<close>

definition one_per_line :: "(nat \<times> nat) list \<Rightarrow> byte_span_command list \<Rightarrow> bool" where
  "one_per_line spans cs \<longleftrightarrow>
     sorted_wrt (\<lambda>c d. fst (bc_span c) < fst (bc_span d) \<and>
       (\<forall>span \<in> set spans. \<not> (fst span \<le> fst (bc_span c) \<and> fst (bc_span d) < snd span))) cs"

lemma separated_one_per_line:
  assumes "line_spans_documented contents spans" and "sorted_wrt (separated_by_newline contents) cs"
  shows "one_per_line spans cs"
  unfolding one_per_line_def
proof (rule sorted_wrt_mono_rel [OF _ assms(2)])
  fix c d assume "separated_by_newline contents c d"
  then obtain p where p: "fst (bc_span c) \<le> p" "p < fst (bc_span d)" "contents ! p = newline"
    by (auto simp: separated_by_newline_def)
  have "False" if "span \<in> set spans" and s: "fst span \<le> fst (bc_span c)" "fst (bc_span d) < snd span" for span
  proof -
    from s p have "p \<in> {fst span ..< snd span}" by simp
    with assms(1) that(1) p(3) have "p = snd span - 1" unfolding line_spans_documented_def by force
    with p(2) s show False by arith
  qed
  with p show "fst (bc_span c) < fst (bc_span d) \<and>
      (\<forall>span \<in> set spans. \<not> (fst span \<le> fst (bc_span c) \<and> fst (bc_span d) < snd span))"
    by (intro conjI ballI notI) (simp, blast)
qed

definition located :: "string \<Rightarrow> (nat \<times> nat) list \<Rightarrow> nat \<Rightarrow> byte_span_command \<Rightarrow> eval_command \<Rightarrow> bool" where
  "located contents spans n c e \<longleftrightarrow>
     ec_command e = bc_command c \<and> ec_display e = bc_display c \<and> ec_span e = bc_span c \<and>
     (\<exists>k < List.length spans. ec_line e = n + k \<and> fst (spans ! k) \<le> fst (bc_span c) \<and> fst (bc_span c) < snd (spans ! k) \<and>
        ec_column e = Suc (card {i. fst (spans ! k) \<le> i \<and> i < fst (bc_span c) \<and> \<not> is_cont (contents ! i)}))"

lemma spans_from_le: "spans_from a spans b \<Longrightarrow> a \<le> b"
  by (induction a spans b rule: spans_from.induct) auto

lemma spans_from_bounds: "spans_from a spans b \<Longrightarrow> span \<in> set spans \<Longrightarrow> a \<le> fst span \<and> fst span < snd span \<and> snd span \<le> b"
  by (induction a spans b rule: spans_from.induct) (auto dest: spans_from_le)

lemma located_Suc:
  assumes "located contents spans (n + 1) c e"
  shows "located contents (span # spans) n c e"
proof -
  from assms obtain k where "k < List.length spans" "ec_line e = n + 1 + k" "fst (spans ! k) \<le> fst (bc_span c)"
    "fst (bc_span c) < snd (spans ! k)"
    "ec_column e = Suc (card {i. fst (spans ! k) \<le> i \<and> i < fst (bc_span c) \<and> \<not> is_cont (contents ! i)})"
    unfolding located_def by blast
  then show ?thesis using assms by (auto simp: located_def intro!: exI [of _ "Suc k"])
qed

lemma one_per_line_tail:
  assumes "one_per_line (span # spans) cs"
  shows "one_per_line spans cs"
  unfolding one_per_line_def
  by (rule sorted_wrt_mono_rel [OF _ assms [unfolded one_per_line_def]]) auto

lemma locate_lines_all:
  "spans_from a spans b \<Longrightarrow> b \<le> List.length contents \<Longrightarrow>
   (\<forall>d \<in> set (c # rest). a \<le> fst (bc_span d) \<and> fst (bc_span d) < b \<and> \<not> is_cont (contents ! fst (bc_span d))) \<Longrightarrow>
   one_per_line spans (c # rest) \<Longrightarrow>
   list_all2 (located contents spans n) (c # rest) (locate_lines contents spans n c rest)"
proof (induction spans arbitrary: a n c rest)
  case (Cons span spans)
  have span: "fst span = a" "a < snd span" "spans_from (snd span) spans b" using Cons.prems(1) by simp_all
  have step: "located contents spans (n + 1) x y \<Longrightarrow> located contents (span # spans) n x y" for x y
    by (rule located_Suc)
  have start: "a \<le> fst (bc_span c)" using Cons.prems(3) by simp
  show ?case
  proof (cases "fst (bc_span c) < snd span")
    case True
    let ?e = "\<lparr>ec_command = bc_command c, ec_display = bc_display c, ec_line = n,
      ec_column = column_number contents span (fst (bc_span c)), ec_span = bc_span c\<rparr>"
    have "snd span \<le> List.length contents" using spans_from_le [OF span(3)] Cons.prems(2) by simp
    then have here: "located contents (span # spans) n c ?e"
      using column_number_counts [of "fst span" "fst (bc_span c)" "snd span" contents] True span Cons.prems(3)
      by (auto simp: located_def intro!: exI [of _ 0])
    have run: "locate_lines contents (span # spans) n c rest =
        ?e # (case rest of [] \<Rightarrow> [] | c' # rest' \<Rightarrow> locate_lines contents spans (n + 1) c' rest')"
      using True start span(1) by simp
    show ?thesis
    proof (cases rest)
      case Nil
      with here run show ?thesis by simp
    next
      case rest: (Cons d rest')
      have past: "snd span \<le> fst (bc_span x)" if "x \<in> set rest" for x
        using Cons.prems(4) that start span(1) by (auto simp: one_per_line_def not_less)
      have "one_per_line spans (d # rest')"
        using one_per_line_tail [OF Cons.prems(4)] rest by (simp add: one_per_line_def)
      with Cons.IH [OF span(3) Cons.prems(2), of d rest' "n + 1"] past Cons.prems(3) rest
      have "list_all2 (located contents spans (n + 1)) rest (locate_lines contents spans (n + 1) d rest')" by auto
      then have "list_all2 (located contents (span # spans) n) rest (locate_lines contents spans (n + 1) d rest')"
        by (rule list_all2_mono) (rule step)
      with here run rest show ?thesis by simp
    qed
  next
    case False
    have past: "snd span \<le> fst (bc_span x)" if "x \<in> set (c # rest)" for x
      using Cons.prems(4) that False by (fastforce simp: one_per_line_def)
    with Cons.IH [OF span(3) Cons.prems(2) _ one_per_line_tail [OF Cons.prems(4)]] Cons.prems(3)
    have "list_all2 (located contents spans (n + 1)) (c # rest) (locate_lines contents spans (n + 1) c rest)" by auto
    then have "list_all2 (located contents (span # spans) n) (c # rest) (locate_lines contents spans (n + 1) c rest)"
      by (rule list_all2_mono) (rule step)
    with False show ?thesis by simp
  qed
qed auto


section \<open>Characters\<close>

lemma utf8_step_first: "utf8_step s = Valid n \<Longrightarrow> \<not> is_cont (s ! 0)"
  by (cases s) (auto simp: Let_def utf8_width_def is_cont_def split: if_splits)

lemma utf8_step_ascii: "utf8_step s = Valid n \<Longrightarrow> i < n \<Longrightarrow> byte (s ! i) < 128 \<Longrightarrow> n = 1"
  by (cases s)
     (auto simp: Let_def utf8_width_def second_ok_def is_cont_def nth_Cons' numeral_2_eq_2 numeral_3_eq_3
       split: if_splits list.splits)

text \<open>In valid text a character starts after an ASCII character.\<close>

lemma valid_after_ascii:
  "valid_utf8 s \<Longrightarrow> Suc i < length s \<Longrightarrow> byte (s ! i) < 128 \<Longrightarrow> \<not> is_cont (s ! Suc i)"
proof (induction s arbitrary: i rule: utf8_check.induct)
  case (1 s)
  then have s: "s \<noteq> []" by auto
  with 1(2) obtain n where n: "utf8_step s = Valid n" and v: "valid_utf8 (drop n s)"
    by (auto simp: valid_utf8_def utf8_check.simps [of s] split: utf8_verdict.splits prod.splits)
  show ?case
  proof (cases "i < n")
    case True
    with utf8_step_ascii [OF n True 1(4)] have n1: "n = 1" "i = 0" by auto
    with 1(3) have "drop 1 s \<noteq> []" by simp
    with v n1 obtain k where "utf8_step (drop 1 s) = Valid k"
      by (auto simp: valid_utf8_def utf8_check.simps [of "drop (Suc 0) s"] split: utf8_verdict.splits prod.splits if_splits)
    from utf8_step_first [OF this] n1 1(3) show ?thesis by simp
  next
    case False
    with 1(1) [OF s n v, of "i - n"] 1(3,4) show ?thesis
      by (simp add: Suc_diff_le)
  qed
qed

section \<open>Files of eval comments\<close>

text \<open>
  A source file as its lines, its one-line eval comments and its eval blocks, each with its line ending.
  A block may have code behind its marker, then nothing ends the line of the marker.
\<close>

datatype source_item =
    PlainLine string string
  | EvalLine string string string string
  | EvalBlock string string string "(string \<times> string) list" string string string

definition code_lines :: "(string \<times> string) list \<Rightarrow> string" where
  "code_lines ls = concat (map (\<lambda>(l, e). l @ e) ls)"

fun item_ending :: "source_item \<Rightarrow> string" where
  "item_ending (PlainLine l e) = e"
| "item_ending (EvalLine indent gap command e) = e"
| "item_ending (EvalBlock indent gap opener ls indent_end gap_end e) = e"

fun item_text :: "source_item \<Rightarrow> string" where
  "item_text (PlainLine l e) = l"
| "item_text (EvalLine indent gap command e) = indent @ ''-- $>'' @ gap @ command"
| "item_text (EvalBlock indent gap opener ls indent_end gap_end e) =
     indent @ ''{- $>'' @ gap @ opener @ code_lines ls @ indent_end @ ''<$ -}'' @ gap_end"

definition render_item :: "source_item \<Rightarrow> string" where
  "render_item it = item_text it @ item_ending it"

abbreviation blanks :: "string \<Rightarrow> bool" where
  "blanks s \<equiv> \<forall>c \<in> set s. is_blank c"

abbreviation one_line :: "string \<Rightarrow> bool" where
  "one_line s \<equiv> \<forall>c \<in> set s. \<not> is_line_end c"

definition line_endings :: "string list" where
  "line_endings = [[newline], [carriage_return, newline]]"

definition code_line_ok :: "string \<times> string \<Rightarrow> bool" where
  "code_line_ok le \<longleftrightarrow> one_line (fst le) \<and> snd le \<in> set line_endings \<and> \<not> prefix ''<$ -}'' (dropWhile is_blank (fst le))"

fun item_ok :: "source_item \<Rightarrow> bool" where
  "item_ok (PlainLine l e) \<longleftrightarrow> one_line l \<and> (e = [] \<longrightarrow> l \<noteq> []) \<and>
     \<not> prefix ''-- $>'' (dropWhile is_blank l) \<and> \<not> prefix ''{- $>'' (dropWhile is_blank l)"
| "item_ok (EvalLine indent gap command e) \<longleftrightarrow> blanks indent \<and> blanks gap \<and> one_line command \<and>
     (e = [] \<longrightarrow> command \<noteq> []) \<and> (command \<noteq> [] \<longrightarrow> \<not> is_blank (hd command))"
| "item_ok (EvalBlock indent gap opener ls indent_end gap_end e) \<longleftrightarrow>
     blanks indent \<and> blanks gap \<and> blanks indent_end \<and> blanks gap_end \<and> list_all code_line_ok ls \<and>
     (if opener = []
      then (case ls of [] \<Rightarrow> indent_end = [] | (l, _) # _ \<Rightarrow> l \<noteq> [] \<and> \<not> is_blank (hd l))
      else opener \<in> set line_endings)"

text \<open>Only the last line of a file may have no line ending.\<close>

definition file_ok :: "source_item list \<Rightarrow> bool" where
  "file_ok its \<longleftrightarrow> list_all item_ok its \<and> list_all (\<lambda>it. item_ending it \<in> set ([] # line_endings)) its \<and>
     list_all (\<lambda>it. item_ending it \<noteq> []) (butlast its)"

fun item_command :: "source_item \<Rightarrow> (string \<times> string) option" where
  "item_command (PlainLine l e) = None"
| "item_command (EvalLine indent gap command e) = Some (command, command)"
| "item_command (EvalBlock indent gap opener ls indent_end gap_end e) =
     Some ('':{'' @ newline # code_lines ls @ '':}'', str_trim (code_lines ls))"

lemma is_blank_facts [simp]: "\<not> is_blank newline" "\<not> is_blank CHR ''-''" "\<not> is_blank CHR ''{''" "\<not> is_blank CHR ''<''"
  "\<not> is_blank carriage_return" "is_line_end newline" "is_line_end carriage_return"
  by (simp_all add: is_blank_def is_line_end_def carriage_return_def)

lemma line_ending_not_blank: "is_line_end c \<Longrightarrow> \<not> is_blank c"
  by (auto simp: is_line_end_def)

text \<open>A line ending, or the end of the file.\<close>

definition ends :: "string \<Rightarrow> string \<Rightarrow> bool" where
  "ends e r \<longleftrightarrow> e \<in> set line_endings \<or> e = [] \<and> r = []"

lemma ends_hd: "ends e r \<Longrightarrow> e @ r = [] \<or> e @ r \<noteq> [] \<and> is_line_end (hd (e @ r))"
  by (auto simp: ends_def line_endings_def)

lemma skip_blanks:
  "blanks b \<Longrightarrow> r = [] \<or> \<not> is_blank (hd r) \<Longrightarrow> std_take_while is_blank (b @ r) = Inr (b, r)"
  by (cases r) (simp_all add: std_take_while_def takeWhile_append2 dropWhile_append2)

lemma skip_blanks_end: "blanks b \<Longrightarrow> ends e r \<Longrightarrow> std_take_while is_blank (b @ e @ r) = Inr (b, e @ r)"
  by (rule skip_blanks) (use ends_hd in \<open>auto dest: line_ending_not_blank\<close>)

lemma std_literal_run: "std_literal t (t @ r) = Inr (t, r)"
  by (simp add: std_literal_def)

lemma line_ending_run: "e \<in> set line_endings \<Longrightarrow> std_line_ending (e @ r) = Inr (e, r)"
  by (auto simp: line_endings_def std_line_ending_def p_or_def std_literal_def carriage_return_def)

lemma line_ending_miss: "s = [] \<or> \<not> is_line_end (hd s) \<Longrightarrow> std_line_ending s = Inl Backtrack"
  by (cases s) (auto simp: std_line_ending_def p_or_def std_literal_def is_line_end_def)

lemma line_end_run: "ends e r \<Longrightarrow> line_ending_or_eof winnow_std (e @ r) = Inr (e, r)"
  using line_ending_run [of e r] line_ending_miss [of "[]"]
  by (auto simp: ends_def line_ending_or_eof_def p_or_def std_eof_def)

lemma until_newline_run:
  assumes "one_line line" and "ends e r" and "line \<noteq> [] \<or> e \<noteq> []"
  shows "until_newline winnow_std (line @ e @ r) = Inr (line, r)"
proof -
  let ?P = "\<lambda>c. \<not> is_line_end c"
  have "takeWhile ?P (line @ e @ r) = line" "dropWhile ?P (line @ e @ r) = e @ r"
    using assms(1) ends_hd [OF assms(2)] by (cases "e @ r"; simp)+
  moreover have "prefix [carriage_return] (e @ r) \<longrightarrow> prefix [carriage_return, newline] (e @ r)"
    using assms(2) by (auto simp: ends_def line_endings_def carriage_return_def)
  ultimately have "std_till_line_ending (line @ e @ r) = Inr (line, e @ r)"
    by (simp add: std_till_line_ending_def Let_def)
  with line_end_run [OF assms(2)] assms(3) show ?thesis
    by (auto simp: until_newline_def p_bind_def p_return_def)
qed

lemma rest_of_line_ended:
  "one_line line \<Longrightarrow> ends e r \<Longrightarrow> line \<noteq> [] \<or> e \<noteq> [] \<Longrightarrow>
   rest_of_line winnow_std (line @ e @ r) = Inr (line @ e, r)"
  by (simp add: rest_of_line_def p_recognize_def p_with_recognized_def p_map_def p_bind_def p_return_def until_newline_run)

lemma prefix_dropWhile_append:
  assumes "prefix (c # t) (dropWhile is_blank (l @ s))" and "one_line (c # t)" and "\<not> is_blank c"
    and "s = [] \<or> is_line_end (hd s)"
  shows "prefix (c # t) (dropWhile is_blank l)"
proof (cases s)
  case Nil
  with assms(1) show ?thesis by simp
next
  case s: (Cons y ys)
  then have y: "is_line_end y" "\<not> is_blank y" using assms(4) line_ending_not_blank by auto
  show ?thesis
  proof (cases "\<forall>x \<in> set l. is_blank x")
    case True
    with assms y s show ?thesis by (auto simp: dropWhile_append2)
  next
    case False
    then have "dropWhile is_blank (l @ s) = dropWhile is_blank l @ s" by (auto simp: dropWhile_append1)
    with assms(1) obtain z where z: "dropWhile is_blank l @ s = (c # t) @ z" by (auto simp: prefix_def)
    then have "prefix (dropWhile is_blank l) (c # t) \<or> prefix (c # t) (dropWhile is_blank l)"
      by (metis prefixI prefix_same_cases)
    then show ?thesis
    proof
      assume "prefix (dropWhile is_blank l) (c # t)"
      then obtain w where w: "c # t = dropWhile is_blank l @ w" by (auto simp: prefix_def)
      with z have "s = w @ z" by simp
      moreover have "one_line w" using assms(2) w by (metis Un_iff set_append)
      ultimately have "w = []" using s y(1) by (cases w) auto
      with w show ?thesis by simp
    qed
  qed
qed

lemma std_literal_miss: "\<not> prefix t s \<Longrightarrow> std_literal t s = Inl Backtrack"
  by (simp add: std_literal_def)

lemma line_eval_miss: "\<not> prefix ''-- $>'' (dropWhile is_blank s) \<Longrightarrow> line_eval_command winnow_std n s = Inl Backtrack"
  by (simp add: line_eval_command_def p_bind_def std_take_while_def std_literal_miss del: prefix_code)

lemma multiline_eval_miss: "\<not> prefix ''{- $>'' (dropWhile is_blank s) \<Longrightarrow> multiline_eval_command winnow_std n s = Inl Backtrack"
  by (simp add: multiline_eval_command_def p_bind_def std_take_while_def std_literal_miss del: prefix_code)

lemma multiline_eval_end_miss: "\<not> prefix ''<$ -}'' (dropWhile is_blank s) \<Longrightarrow> multiline_eval_end winnow_std s = Inl Backtrack"
  by (simp add: multiline_eval_end_def p_map_def p_bind_def std_take_while_def std_literal_miss del: prefix_code)

lemma line_eval_run:
  assumes "blanks indent" and "blanks gap" and "one_line command" and "command \<noteq> [] \<longrightarrow> \<not> is_blank (hd command)"
    and "ends e r" and "command \<noteq> [] \<or> e \<noteq> []"
  shows "\<exists>c. line_eval_command winnow_std n (indent @ ''-- $>'' @ gap @ command @ e @ r) = Inr (c, r) \<and>
    bc_command c = command \<and> bc_display c = command"
proof -
  have "command @ e @ r = [] \<or> \<not> is_blank (hd (command @ e @ r))"
    using assms(4) ends_hd [OF assms(5)] line_ending_not_blank by (cases command) auto
  then have "std_take_while is_blank (gap @ (command @ e @ r)) = Inr (gap, command @ e @ r)"
    using assms(2) by (intro skip_blanks)
  with skip_blanks [OF assms(1), of "''-- $>'' @ gap @ command @ e @ r"] until_newline_run [OF assms(3,5,6)]
  show ?thesis
    by (simp add: line_eval_command_def p_bind_def p_with_span_def p_return_def std_literal_def)
qed

lemma block_lines_run:
  assumes "list_all code_line_ok ls" and "blanks b"
  shows "\<exists>x. p_repeat_till (rest_of_line winnow_std) (p_peek (multiline_eval_end winnow_std)) (code_lines ls @ b @ ''<$ -}'' @ r) =
    Inr (x, b @ ''<$ -}'' @ r)"
  using assms(1)
proof (induction ls)
  case Nil
  have "multiline_eval_end winnow_std (b @ ''<$ -}'' @ r) = Inr ((), r)"
    using skip_blanks [OF assms(2), of "''<$ -}'' @ r"] by (simp add: multiline_eval_end_Inr std_take_while_def)
  then show ?case by (simp add: p_repeat_till.simps [of _ _ "b @ _"] p_peek_def code_lines_def)
next
  case (Cons le ls)
  let ?rest = "code_lines ls @ b @ ''<$ -}'' @ r"
  obtain l e where le: "le = (l, e)" by (cases le)
  have l: "one_line l" "\<not> prefix ''<$ -}'' (dropWhile is_blank l)" and e: "e \<in> set line_endings"
    using Cons.prems le by (simp_all add: code_line_ok_def)
  then have end_: "ends e ?rest" "e \<noteq> []" by (auto simp: ends_def line_endings_def)
  have "\<not> prefix ''<$ -}'' (dropWhile is_blank (l @ e @ ?rest))"
    using prefix_dropWhile_append [of "CHR ''<''" "''$ -}''" l "e @ ?rest"] l(2) ends_hd [OF end_(1)] end_(2)
    by (fastforce simp: is_line_end_def carriage_return_def)
  then have "p_peek (multiline_eval_end winnow_std) (l @ e @ ?rest) = Inl Backtrack"
    by (simp add: p_peek_def multiline_eval_end_miss del: prefix_code)
  with Cons.IH Cons.prems rest_of_line_ended [OF l(1) end_(1)] end_(2) le show ?case
    by (auto simp: p_repeat_till.simps [of _ _ "l @ _"] code_lines_def)
qed

text \<open>What follows the marker and the blanks behind it: a line ending, code, or the end of the block.\<close>

lemma opening_run:
  assumes "if opener = [] then (case ls of [] \<Rightarrow> b = [] | (l, _) # _ \<Rightarrow> l \<noteq> [] \<and> \<not> is_blank (hd l)) else opener \<in> set line_endings"
    and "list_all code_line_ok ls" and "blanks gap"
  shows "std_take_while is_blank (gap @ opener @ code_lines ls @ b @ ''<$ -}'' @ v) =
      Inr (gap, opener @ code_lines ls @ b @ ''<$ -}'' @ v)"
    and "\<exists>x. p_opt std_line_ending (opener @ code_lines ls @ b @ ''<$ -}'' @ v) = Inr (x, code_lines ls @ b @ ''<$ -}'' @ v)"
proof -
  let ?s = "code_lines ls @ b @ ''<$ -}'' @ v"
  have open_: "?s \<noteq> []" "\<not> is_blank (hd ?s)" "\<not> is_line_end (hd ?s)" if "opener = []"
  proof -
    have "\<exists>c s. ?s = c # s \<and> \<not> is_blank c \<and> \<not> is_line_end c"
    proof (cases ls)
      case Nil
      with assms(1) that show ?thesis by (simp add: code_lines_def is_line_end_def carriage_return_def)
    next
      case (Cons le ls')
      obtain l e where "le = (l, e)" by (cases le)
      with Cons assms(1,2) that show ?thesis by (cases l) (auto simp: code_lines_def code_line_ok_def)
    qed
    then show "?s \<noteq> []" "\<not> is_blank (hd ?s)" "\<not> is_line_end (hd ?s)" by auto
  qed
  have "\<not> is_blank (hd (opener @ ?s))"
    using open_ assms(1) by (cases "opener = []") (auto simp: line_endings_def)
  with assms(3) show "std_take_while is_blank (gap @ opener @ ?s) = Inr (gap, opener @ ?s)" by (intro skip_blanks) simp_all
  show "\<exists>x. p_opt std_line_ending (opener @ ?s) = Inr (x, ?s)"
  proof (cases "opener = []")
    case True
    with open_ line_ending_miss [of ?s] show ?thesis by (simp add: p_opt_def p_or_def p_map_def p_bind_def p_return_def)
  next
    case False
    with assms(1) line_ending_run [of opener ?s] show ?thesis
      by (simp add: p_opt_def p_or_def p_map_def p_bind_def p_return_def)
  qed
qed

lemma multiline_eval_run:
  assumes "item_ok (EvalBlock indent gap opener ls b b2 e)" and "ends e r"
  shows "\<exists>c. multiline_eval_command winnow_std n
      (indent @ ''{- $>'' @ gap @ opener @ code_lines ls @ b @ ''<$ -}'' @ b2 @ e @ r) = Inr (c, r) \<and>
    bc_command c = '':{'' @ newline # code_lines ls @ '':}'' \<and> bc_display c = str_trim (code_lines ls)"
proof -
  let ?v = "b @ ''<$ -}'' @ b2 @ e @ r"
  have ok: "blanks indent" "blanks gap" "blanks b" "blanks b2" "list_all code_line_ok ls"
    "if opener = [] then (case ls of [] \<Rightarrow> b = [] | (l, _) # _ \<Rightarrow> l \<noteq> [] \<and> \<not> is_blank (hd l)) else opener \<in> set line_endings"
    using assms(1) by simp_all
  obtain x where x: "p_repeat_till (rest_of_line winnow_std) (p_peek (multiline_eval_end winnow_std)) (code_lines ls @ ?v) = Inr (x, ?v)"
    using block_lines_run [OF ok(5,3), of "b2 @ e @ r"] by blast
  have body: "p_with_span n (p_recognize (p_repeat_till (rest_of_line winnow_std) (p_peek (multiline_eval_end winnow_std))))
      (code_lines ls @ ?v) = Inr ((code_lines ls, n - length (code_lines ls @ ?v), n - length ?v), ?v)"
    using x by (simp add: p_with_span_def p_recognize_def p_with_recognized_def p_map_def p_bind_def p_return_def)
  have "multiline_eval_end winnow_std ?v = Inr ((), b2 @ e @ r)"
    using skip_blanks [OF ok(3), of "''<$ -}'' @ b2 @ e @ r"] by (simp add: multiline_eval_end_Inr std_take_while_def)
  moreover note skip_blanks_end [OF ok(4) assms(2)] line_end_run [OF assms(2)]
  moreover obtain y where "p_opt std_line_ending (opener @ code_lines ls @ ?v) = Inr (y, code_lines ls @ ?v)"
    using opening_run(2) [OF ok(6,5,2)] by blast
  moreover note opening_run(1) [OF ok(6,5,2), of "b2 @ e @ r"]
  moreover have "std_take_while is_blank (indent @ ''{- $>'' @ s) = Inr (indent, ''{- $>'' @ s)" for s
    using ok(1) by (intro skip_blanks) simp_all
  ultimately show ?thesis
    using body by (simp add: multiline_eval_command_def p_bind_def p_return_def std_literal_def)
qed

lemma item_run:
  assumes "item_ok it" and "ends (item_ending it) r"
  shows "\<exists>x. eval_item winnow_std n (render_item it @ r) = Inr (x, r) \<and>
    map_option (\<lambda>c. (bc_command c, bc_display c)) x = item_command it"
proof (cases it)
  case (PlainLine l e)
  have "e @ r = [] \<or> is_line_end (hd (e @ r))" using ends_hd [OF assms(2)] PlainLine by auto
  then have "\<not> prefix ''-- $>'' (dropWhile is_blank (l @ e @ r))" "\<not> prefix ''{- $>'' (dropWhile is_blank (l @ e @ r))"
    using assms PlainLine prefix_dropWhile_append [of "CHR ''-''" "''- $>''" l "e @ r"]
      prefix_dropWhile_append [of "CHR ''{''" "''- $>''" l "e @ r"]
    by (fastforce simp: is_line_end_def carriage_return_def)+
  with assms PlainLine rest_of_line_ended [of l e r] show ?thesis
    by (auto simp: render_item_def eval_item_def p_or_def p_map_def p_bind_def p_return_def line_eval_miss multiline_eval_miss
        simp del: prefix_code)
next
  case (EvalLine indent gap command e)
  with assms line_eval_run [of indent gap command e r n] show ?thesis
    by (auto simp: render_item_def eval_item_def p_or_def p_map_def p_bind_def p_return_def)
next
  case (EvalBlock indent gap opener ls b b2 e)
  have "dropWhile is_blank (indent @ ''{- $>'' @ s) = ''{- $>'' @ s" for s
    using assms EvalBlock by (simp add: dropWhile_append2)
  then have "line_eval_command winnow_std n (indent @ ''{- $>'' @ s) = Inl Backtrack" for s
    by (intro line_eval_miss) simp
  with assms EvalBlock multiline_eval_run [of indent gap opener ls b b2 e r n] show ?thesis
    by (auto simp: render_item_def eval_item_def p_or_def p_map_def p_bind_def p_return_def simp del: item_ok.simps)
qed

lemma file_ok_Cons:
  assumes "file_ok (it # its)"
  shows "item_ok it" "ends (item_ending it) (concat (map render_item its))" "file_ok its" "0 < length (render_item it)"
proof -
  show it: "item_ok it" using assms by (simp add: file_ok_def)
  show "ends (item_ending it) (concat (map render_item its))"
    using assms by (cases its) (auto simp: file_ok_def ends_def)
  show "file_ok its" using assms by (cases its) (simp_all add: file_ok_def)
  show "0 < length (render_item it)"
    using it by (cases it) (auto simp: render_item_def)
qed

lemma items_run:
  assumes "file_ok its"
  shows "\<exists>xs. p_repeat (eval_item winnow_std n) (concat (map render_item its)) = Inr (xs, []) \<and>
    map (\<lambda>c. (bc_command c, bc_display c)) (List.map_filter (\<lambda>i. i) xs) = List.map_filter item_command its"
  using assms
proof (induction its)
  case Nil
  have "eval_item winnow_std n [] = Inl Backtrack"
    by (simp add: eval_item_def p_or_def p_map_def p_bind_def line_eval_miss multiline_eval_miss rest_of_line_def
        p_recognize_def p_with_recognized_def until_newline_Nil)
  then show ?case by (simp add: p_repeat_stop List.map_filter_simps)
next
  case (Cons it its)
  note ok = file_ok_Cons [OF Cons.prems]
  obtain x where x: "eval_item winnow_std n (render_item it @ concat (map render_item its)) = Inr (x, concat (map render_item its))"
    "map_option (\<lambda>c. (bc_command c, bc_display c)) x = item_command it"
    using item_run [OF ok(1,2)] by blast
  with Cons.IH [OF ok(3)] ok(4) show ?case
    by (cases x) (auto simp: p_repeat_step [where p = "eval_item winnow_std n", OF x(1)] List.map_filter_simps split: option.split)
qed

section \<open>Properties\<close>

lemma commands_located:
  assumes "winnow_documented W" and "line_spans_documented contents (line_spans contents)" and "valid_utf8 contents"
    and "parse_eval_commands W line_spans contents = Inr es"
  shows "\<exists>cs. p_parse (eval_commands W (length contents)) contents = Inr cs \<and>
    list_all2 (located contents (line_spans contents) 1) cs es \<and> (\<forall>c \<in> set cs. reads_from contents c) \<and>
    one_per_line (line_spans contents) cs"
proof -
  have W: "W = winnow_std" using assms(1) by (rule documented_std)
  from assms(4) obtain cs where cs: "p_parse (eval_commands W (length contents)) contents = Inr cs"
    by (auto simp: parse_eval_commands_def res_simps)
  then obtain items where items: "p_repeat (eval_item winnow_std (length contents)) contents = Inr (items, [])"
    "cs = List.map_filter (\<lambda>i. i) items"
    by (auto simp: p_parse_Inr eval_commands_def parser_simps W)
  from eval_items_found [OF items(1) refl suffix_order.order_refl] items(2)
  have found: "\<forall>c \<in> set cs. \<exists>b. found_between contents 0 c b" and "sorted_wrt (separated_by_newline contents) cs"
    by simp_all
  with assms(2) have one: "one_per_line (line_spans contents) cs" by (intro separated_one_per_line)
  have at: "fst (bc_span c) < length contents \<and> \<not> is_cont (contents ! fst (bc_span c)) \<and> reads_from contents c" if "c \<in> set cs" for c
  proof -
    from bspec [OF found that] obtain b where "found_between contents 0 c b" ..
    with valid_after_ascii [OF assms(3), of "fst (bc_span c) - 1"] show ?thesis by (auto simp: found_between_def)
  qed
  have spans: "spans_from 0 (line_spans contents) (length contents)"
    using assms(2) by (simp add: line_spans_documented_def)
  have "list_all2 (located contents (line_spans contents) 1) cs es"
  proof (cases cs)
    case Nil
    with assms(4) cs show ?thesis by (simp add: parse_eval_commands_def)
  next
    case (Cons c rest)
    with locate_lines_all [OF spans order_refl, of c rest 1] at one assms(4) cs show ?thesis
      by (simp add: parse_eval_commands_def)
  qed
  with cs one at show ?thesis by blast
qed

text \<open>
  C33: every eval comment gets its place. When a source file is parsed, the commands come in the order
  of the file, at most one to a line; each has the text at its span, after the marker of an eval
  comment, the number of the line it starts on, and as column one more than the characters before it
  on that line.
\<close>

theorem eval_commands_located:
  assumes "winnow_documented W" and "line_spans_documented contents (line_spans contents)" and "valid_utf8 contents"
    and "parse_eval_commands W line_spans contents = Inr es"
  shows "\<exists>cs. p_parse (eval_commands W (length contents)) contents = Inr cs \<and>
    list_all2 (located contents (line_spans contents) 1) cs es \<and> (\<forall>c \<in> set cs. reads_from contents c) \<and>
    one_per_line (line_spans contents) cs"
  using assms by (rule commands_located)

text \<open>
  C32: no eval comment is missed, and nothing else is taken for one. Of a file made of lines, one-line
  eval comments and eval blocks that are closed, with either line ending, with or without one at the end
  of the file, and with code behind a block's marker or on the lines after it, exactly the comments and
  blocks are found, in order, with the text of the command, and a block's text between GHCi's block
  delimiters. A marker with no command behind it counts as a comment with an empty command, except at
  the end of the file.
\<close>

theorem eval_comments_exact:
  assumes "winnow_documented W" and "file_ok its"
  shows "\<exists>cs. p_parse (eval_commands W n) (concat (map render_item its)) = Inr cs \<and>
    map (\<lambda>c. (bc_command c, bc_display c)) cs = List.map_filter item_command its"
  using items_run [OF assms(2), of n]
  by (auto simp: documented_std [OF assms(1)] p_parse_Inr eval_commands_def p_map_Inr)

definition demo_items :: "source_item list" where
  "demo_items = [PlainLine ''import A'' [newline], EvalLine '' '' '' '' ''f 1'' [carriage_return, newline],
     EvalLine [] [] [] [newline], EvalBlock [] '' '' [] [(''g'', [newline])] [] [] [newline],
     EvalLine [] [] ''h'' []]"

theorem eval_comments_exact_witness:
  "\<exists>cs. p_parse (eval_commands winnow_std 0) (concat (map render_item demo_items)) = Inr cs \<and>
    map bc_command cs = [''f 1'', [], '':{\<newline>g\<newline>:}'', ''h'']"
proof -
  have "file_ok demo_items" by code_simp
  from eval_comments_exact [OF winnow_documented_std this, of 0]
  obtain cs where "p_parse (eval_commands winnow_std 0) (concat (map render_item demo_items)) = Inr cs"
    "map (\<lambda>c. (bc_command c, bc_display c)) cs = List.map_filter item_command demo_items" by blast
  moreover have "map bc_command cs = map fst (map (\<lambda>c. (bc_command c, bc_display c)) cs)" by simp
  moreover have "map fst (List.map_filter item_command demo_items) = [''f 1'', [], '':{\<newline>g\<newline>:}'', ''h'']" by code_simp
  ultimately show ?thesis by auto
qed

definition demo_source :: string where
  "demo_source = ''x\<newline>  -- $> y\<newline>''"

theorem eval_commands_located_witness:
  "\<exists>cs e. p_parse (eval_commands winnow_std (length demo_source)) demo_source = Inr cs \<and>
    list_all2 (located demo_source [(0, 2), (2, 12)] 1) cs [e] \<and> ec_line e = 2 \<and> ec_column e = 9"
proof -
  have run: "parse_eval_commands winnow_std (\<lambda>_. [(0, 2), (2, 12)]) demo_source =
      Inr [\<lparr>ec_command = ''y'', ec_display = ''y'', ec_line = 2, ec_column = 9, ec_span = (10, 12)\<rparr>]"
    by code_simp
  have spans: "line_spans_documented demo_source [(0, 2), (2, 12)]" by code_simp
  have "valid_utf8 demo_source" by code_simp
  from eval_commands_located [OF winnow_documented_std, where line_spans = "\<lambda>_. [(0, 2), (2, 12)]", OF spans this run]
  show ?thesis by force
qed

end
