(* ===== verification/JsonDiagnostic.thy ===== *)
theory JsonDiagnostic
  imports ShowPaths Diagnostics Utf8
begin

text \<open>
  \<open>src/src/ghci/parse/ghc_message/json_diagnostic.rs\<close>: GHC's diagnostics as JSON. Reading the schema
  (serde) is a parameter; what is made of it is modelled.
\<close>

section \<open>JSON diagnostics\<close>

record json_location =
  jl_line :: u64
  jl_column :: u64

record json_span =
  js_file :: string
  js_start :: json_location
  js_end :: json_location

datatype json_severity = JsonWarning | JsonError

record json_diagnostic =
  jd_span :: "json_span option"
  jd_severity :: json_severity
  jd_message :: "string list"
  jd_hints :: "string list"

definition indent_hint :: "string \<Rightarrow> string" where
  "indent_hint hint = concat (map (\<lambda>c. if c = newline then [newline, CHR '' '', CHR '' ''] else [c]) hint)"

definition add_hint :: "string \<Rightarrow> string \<Rightarrow> string" where
  "add_hint message hint =
     (if message \<noteq> [] \<and> \<not> ends_with message [newline] then message @ [newline] else message)
     @ ''Suggested fix:'' @ newline # ''  '' @ indent_hint hint"

definition json_message :: "string list \<Rightarrow> string list \<Rightarrow> string" where
  "json_message message hints =
     (let m = foldl add_hint (str_join [newline] message) hints in
      if ends_with m [newline] then m else m @ [newline])"

definition of_json :: "json_diagnostic \<Rightarrow> ghc_diagnostic" where
  "of_json d =
     (let (p, span) =
        (case jd_span d of
           Some s \<Rightarrow> (Some (path_of_str (js_file s)),
             position_range_new (jl_line (js_start s)) (jl_column (js_start s)) (jl_line (js_end s)) (jl_column (js_end s)))
         | None \<Rightarrow> (None, position_range_default)) in
      \<lparr>diag_severity = (case jd_severity d of JsonWarning \<Rightarrow> Warning | JsonError \<Rightarrow> Error),
       diag_path = p, diag_span = span, diag_message = json_message (jd_message d) (jd_hints d)\<rparr>)"

text \<open>\<open>from_json\<close> is serde's reading of the schema.\<close>

definition parse_json_diagnostic_line ::
  "(string \<Rightarrow> json_diagnostic res) \<Rightarrow> string \<Rightarrow> ghc_diagnostic option" where
  "parse_json_diagnostic_line from_json line =
     (if \<not> starts_with (trim_start line) ''{'' then None
      else (case from_json line of Inr d \<Rightarrow> Some (of_json d) | Inl _ \<Rightarrow> None))"

section \<open>Properties\<close>

lemma add_hint_prefix: "prefix m (add_hint m h)"
  by (simp add: add_hint_def)

lemma foldl_hints_prefix: "prefix m (foldl add_hint m hs)"
  by (induction hs arbitrary: m) (auto intro: prefix_order.trans [OF add_hint_prefix])

lemma add_hint_line:
  "\<exists>front. (front = [] \<or> ends_with front [newline]) \<and>
     add_hint m h = front @ ''Suggested fix:'' @ newline # ''  '' @ indent_hint h"
  by (cases "m \<noteq> [] \<and> \<not> ends_with m [newline]") (auto simp: add_hint_def ends_with_def suffix_def)

lemma foldl_hints_show:
  "h \<in> set hs \<Longrightarrow> \<exists>front rest. (front = [] \<or> ends_with front [newline]) \<and>
     foldl add_hint m hs = front @ (''Suggested fix:'' @ newline # ''  '' @ indent_hint h) @ rest"
proof (induction hs arbitrary: m)
  case (Cons k hs)
  show ?case
  proof (cases "h = k")
    case True
    obtain front where "front = [] \<or> ends_with front [newline]"
      "add_hint m k = front @ ''Suggested fix:'' @ newline # ''  '' @ indent_hint k"
      using add_hint_line by blast
    moreover obtain rest where "foldl add_hint (add_hint m k) hs = add_hint m k @ rest"
      using foldl_hints_prefix [of "add_hint m k" hs] by (auto simp: prefix_def)
    ultimately show ?thesis using True by (intro exI [of _ front] exI [of _ rest]) simp
  next
    case False
    with Cons show ?thesis by simp
  qed
qed simp

text \<open>
  A JSON diagnostic keeps its whole message. The text begins with the message's lines, ends with a
  newline, and shows every hint, indented, under a line of its own.
\<close>

theorem json_message_complete:
  "prefix (str_join [newline] message) (json_message message hints) \<and> ends_with (json_message message hints) [newline] \<and>
   (\<forall>h \<in> set hints. \<exists>front rest. (front = [] \<or> ends_with front [newline]) \<and>
     json_message message hints = front @ (''Suggested fix:'' @ newline # ''  '' @ indent_hint h) @ rest)"
proof (intro conjI ballI)
  let ?m = "foldl add_hint (str_join [newline] message) hints"
  have ending: "\<exists>e. json_message message hints = ?m @ e"
    by (cases "ends_with ?m [newline]") (auto simp: json_message_def Let_def)
  then show "prefix (str_join [newline] message) (json_message message hints)"
    using foldl_hints_prefix [of "str_join [newline] message" hints] by (auto simp: prefix_def)
  show "ends_with (json_message message hints) [newline]"
    by (simp add: json_message_def Let_def) (simp add: ends_with_def)
  fix h assume "h \<in> set hints"
  from foldl_hints_show [OF this, of "str_join [newline] message"] ending
  show "\<exists>front rest. (front = [] \<or> ends_with front [newline]) \<and>
     json_message message hints = front @ (''Suggested fix:'' @ newline # ''  '' @ indent_hint h) @ rest"
    by (metis append_assoc)
qed

theorem json_message_complete_witness:
  "\<exists>front rest. json_message [''a''] [''b\<newline>c''] = front @ (''Suggested fix:'' @ newline # ''  '' @ indent_hint ''b\<newline>c'') @ rest"
  using json_message_complete [of "[''a'']" "[''b\<newline>c'']"] by auto

end
