(* ===== verification/MessageParser.thy ===== *)
theory MessageParser
  imports Lines JsonDiagnostic
begin

text \<open>
  The parsers of GHC's output: \<open>src/src/ghci/parse/haskell_grammar.rs\<close>, \<open>module_and_files.rs\<close> and the files
  of \<open>ghc_message/\<close>. The recognizers of \<open>winnow\<close>, the JSON reader and ANSI stripping are parameters.
\<close>

section \<open>Module names and files\<close>

definition is_upper_ascii :: "char \<Rightarrow> bool" where
  "is_upper_ascii c \<longleftrightarrow> 65 \<le> (of_char c :: nat) \<and> of_char c \<le> (90 :: nat)"

definition is_lower_ascii :: "char \<Rightarrow> bool" where
  "is_lower_ascii c \<longleftrightarrow> 97 \<le> (of_char c :: nat) \<and> of_char c \<le> (122 :: nat)"

definition is_name_char :: "char \<Rightarrow> bool" where
  "is_name_char c \<longleftrightarrow> is_upper_ascii c \<or> is_lower_ascii c \<or> is_digit c \<or> c = CHR 0x27 \<or> c = CHR ''_''"

definition constructor_name :: "winnow \<Rightarrow> string parser" where
  "constructor_name W = p_recognize (p_then (w_one_of W is_upper_ascii) (w_take_while W is_name_char))"

definition module_name_parser :: "winnow \<Rightarrow> string parser" where
  "module_name_parser W = p_recognize (p_separated1 (constructor_name W) (w_literal W ''.''))"

definition module_and_files :: "winnow \<Rightarrow> compiling_module parser" where
  "module_and_files W =
     p_bind (module_name_parser W) (\<lambda>name.
     p_then (w_space1 W) (p_then (w_literal W ''( '')
     (p_bind (p_repeat (p_bind (w_take_till1 W (\<lambda>c. c = CHR '','' \<or> c = newline)) (\<lambda>path.
        p_then (w_literal W '', '') (p_return path)))) (\<lambda>paths.
      p_bind (p_bind (w_take_until1 W '' )'') (\<lambda>path. p_then (w_literal W '' )'') (p_return path))) (\<lambda>final_path.
      case find (\<lambda>path. is_haskell_source_file (path_of_str path)) (paths @ [final_path]) of
        None \<Rightarrow> p_fail Cut
      | Some path \<Rightarrow> p_return \<lparr>cm_name = name, cm_path = path_of_str path\<rparr>)))))"

section \<open>Positions and severities\<close>

definition parse_usize :: "string \<Rightarrow> u64 option" where
  "parse_usize s = (let n = read_digits 0 s in if int n < 2 ^ 64 then Some (word_of_nat n) else None)"

definition usize_digits :: "winnow \<Rightarrow> u64 parser" where
  "usize_digits W = p_try_map parse_usize (w_digit1 W)"

definition parse_full_position_range :: "winnow \<Rightarrow> position_range parser" where
  "parse_full_position_range W =
     p_then (w_literal W ''('') (p_bind (usize_digits W) (\<lambda>start_line.
     p_then (w_literal W '','') (p_bind (usize_digits W) (\<lambda>start_column.
     p_then (w_literal W '')-('') (p_bind (usize_digits W) (\<lambda>end_line.
     p_then (w_literal W '','') (p_bind (usize_digits W) (\<lambda>end_column.
     p_then (w_literal W '')'') (p_then (w_literal W '':'')
     (p_return (position_range_new start_line start_column end_line end_column)))))))))))"

definition parse_single_line_position_range :: "winnow \<Rightarrow> position_range parser" where
  "parse_single_line_position_range W =
     p_bind (usize_digits W) (\<lambda>line.
     p_then (w_literal W '':'') (p_bind (usize_digits W) (\<lambda>start_column.
     p_bind (p_opt (p_then (w_literal W ''-'') (usize_digits W))) (\<lambda>column.
     p_then (w_literal W '':'')
     (p_return (position_range_new line start_column line
        (case column of Some end_column \<Rightarrow> end_column | None \<Rightarrow> start_column)))))))"

definition parse_position_range :: "winnow \<Rightarrow> position_range parser" where
  "parse_position_range W = p_alt [parse_full_position_range W, parse_single_line_position_range W]"

definition parse_unhelpful_position :: "winnow \<Rightarrow> string parser" where
  "parse_unhelpful_position W =
     p_alt [w_literal W ''<no location info>:'', w_literal W ''<compiler-generated code>:'', w_literal W ''<interactive>:'']"

definition parse_severity_colon :: "winnow \<Rightarrow> severity parser" where
  "parse_severity_colon W =
     p_bind (p_bind (w_take_until1 W '':'') (\<lambda>word.
        if word = ''warning'' \<or> word = ''Warning'' then p_return Warning
        else if word = ''error'' \<or> word = ''Error'' then p_return Error
        else p_fail Backtrack)) (\<lambda>severity.
     p_then (w_literal W '':'') (p_return severity))"

definition single_quote :: "winnow \<Rightarrow> string parser" where
  "single_quote W =
     p_alt [w_literal W [CHR 0x60], w_literal W [CHR 0x27], w_literal W [CHR 0xE2, CHR 0x80, CHR 0x98],
       w_literal W [CHR 0xE2, CHR 0x80, CHR 0x99]]"

definition path_colon :: "winnow \<Rightarrow> path parser" where
  "path_colon W =
     p_map path_of_str (p_bind (w_take_till1 W (\<lambda>c. c = CHR '':'' \<or> c = newline)) (\<lambda>path.
       p_then (w_literal W '':'') (p_return path)))"

section \<open>Messages\<close>

definition parse_message_body_line :: "winnow \<Rightarrow> string parser" where
  "parse_message_body_line W =
     p_recognize (p_then
       (p_alt [w_space1 W, p_then (w_take_while1 W (\<lambda>c. is_blank c \<or> is_digit c)) (w_literal W ''|'')])
       (rest_of_line W))"

definition parse_message_body :: "winnow \<Rightarrow> string parser" where
  "parse_message_body W =
     p_recognize (p_then (rest_of_line W) (p_recognize (p_repeat (parse_message_body_line W))))"

definition generic_diagnostic :: "winnow \<Rightarrow> ghc_diagnostic parser" where
  "generic_diagnostic W =
     p_bind (path_colon W) (\<lambda>path.
     p_bind (p_opt (parse_position_range W)) (\<lambda>span.
     p_then (w_space1 W) (p_bind (parse_severity_colon W) (\<lambda>severity.
     p_then (w_space0 W) (p_bind (parse_message_body W) (\<lambda>message.
     p_return \<lparr>diag_severity = severity, diag_path = Some path,
       diag_span = (case span of Some r \<Rightarrow> r | None \<Rightarrow> position_range_default), diag_message = message\<rparr>))))))"

definition cant_find_file_diagnostic :: "winnow \<Rightarrow> ghc_diagnostic parser" where
  "cant_find_file_diagnostic W =
     p_then (parse_unhelpful_position W) (p_then (w_space1 W) (p_bind (parse_severity_colon W) (\<lambda>severity.
     p_then (w_space1 W) (p_then (w_literal W (''can'' @ CHR 0x27 # ''t find file: '')) (p_bind (until_newline W) (\<lambda>path.
     p_return \<lparr>diag_severity = severity, diag_path = Some (path_of_str path),
       diag_span = position_range_default, diag_message = ''can'' @ CHR 0x27 # ''t find file''\<rparr>))))))"

definition no_location_info_diagnostic :: "winnow \<Rightarrow> ghc_diagnostic parser" where
  "no_location_info_diagnostic W =
     p_then (parse_unhelpful_position W) (p_then (w_space1 W) (p_bind (parse_severity_colon W) (\<lambda>severity.
     p_then (w_space0 W) (p_bind (parse_message_body W) (\<lambda>message.
     p_return \<lparr>diag_severity = severity, diag_path = None,
       diag_span = position_range_default, diag_message = message\<rparr>)))))"

definition parse_import_cycle_line :: "winnow \<Rightarrow> path parser" where
  "parse_import_cycle_line W =
     p_then (w_space1 W) (p_then (p_opt (w_literal W ''which '')) (p_then (p_opt (w_literal W ''imports ''))
     (p_then (w_literal W ''module '') (p_then (single_quote W) (p_then (w_take_until1 W '' ('') (p_then (w_literal W '' ('')
     (p_bind (w_take_until1 W '')'') (\<lambda>path.
      p_then (w_literal W '')'') (p_then (rest_of_line W) (p_return (path_of_str path)))))))))))"

definition import_cycle_paths :: "winnow \<Rightarrow> path list parser" where
  "import_cycle_paths W =
     p_then (p_alt [w_literal W ''Module imports form a cycle:'', w_literal W ''Module graph contains a cycle:''])
     (p_then (line_ending_or_eof W) (p_repeat1 (parse_import_cycle_line W)))"

text \<open>\<open>Itertools::unique\<close> keeps the first of equal elements.\<close>

definition unique :: "'a list \<Rightarrow> 'a list" where
  "unique xs = rev (remdups (rev xs))"

definition module_import_cycle_diagnostic :: "winnow \<Rightarrow> ghc_message list parser" where
  "module_import_cycle_diagnostic W =
     p_map (\<lambda>(paths, message). map (\<lambda>path. Diagnostic
         \<lparr>diag_severity = Error, diag_path = Some path, diag_span = position_range_default, diag_message = message\<rparr>)
       (unique paths)) (p_with_recognized (import_cycle_paths W))"

definition loaded_configuration :: "winnow \<Rightarrow> ghc_message parser" where
  "loaded_configuration W =
     p_then (w_literal W ''Loaded GHCi configuration from '') (p_map (\<lambda>path. LoadConfig (path_of_str path)) (until_newline W))"

section \<open>Progress and summaries\<close>

definition compiling :: "winnow \<Rightarrow> compiling_progress parser" where
  "compiling W =
     p_then (w_literal W ''['') (p_then (w_space0 W)
     (p_bind (usize_digits W) (\<lambda>current.
     p_then (w_literal W '' of '') (p_bind (usize_digits W) (\<lambda>total.
     p_then (w_literal W '']'') (p_then (w_literal W '' Compiling '')
     (p_bind (module_and_files W) (\<lambda>module.
      p_bind (rest_of_line W) (\<lambda>remainder.
        let t = str_trim remainder in
        p_return \<lparr>cp_module = module, cp_current = current, cp_total = total,
          cp_reason = (if t \<noteq> [] then Some t else None)\<rparr>)))))))))"

definition compilation_summary_no_modules :: "winnow \<Rightarrow> modules_loaded parser" where
  "compilation_summary_no_modules W = p_then (w_literal W ''no modules to be reloaded'') (p_return (Count 0))"

definition compilation_summary_unloaded_all :: "winnow \<Rightarrow> modules_loaded parser" where
  "compilation_summary_unloaded_all W = p_then (w_literal W ''unloaded all modules'') (p_return AllModules)"

definition p_value :: "'a \<Rightarrow> 'b parser \<Rightarrow> 'a parser" where
  "p_value x p = p_map (\<lambda>_. x) p"

definition compilation_summary_count :: "winnow \<Rightarrow> modules_loaded parser" where
  "compilation_summary_count W =
     p_bind (p_alt [usize_digits W, p_value 0 (w_literal W ''no''), p_value 1 (w_literal W ''one''),
       p_value 2 (w_literal W ''two''), p_value 3 (w_literal W ''three''), p_value 4 (w_literal W ''four''),
       p_value 5 (w_literal W ''five''), p_value 6 (w_literal W ''six'')]) (\<lambda>modules_loaded.
     p_then (w_literal W '' module'') (p_then (p_opt (w_literal W ''s'')) (p_then (w_literal W '' '')
     (p_then (p_alt [w_literal W ''loaded'', w_literal W ''reloaded'', w_literal W ''added'', w_literal W ''unadded'',
       w_literal W ''checked''])
     (p_return (Count modules_loaded))))))"

definition parse_compilation_summary :: "winnow \<Rightarrow> compilation_summary parser" where
  "parse_compilation_summary W =
     p_bind (p_alt [p_value CompOk (w_literal W ''Ok''), p_value CompErr (w_literal W ''Failed'')]) (\<lambda>result.
     p_then (w_literal W '', '')
     (p_bind (p_alt [compilation_summary_no_modules W, compilation_summary_unloaded_all W, compilation_summary_count W]) (\<lambda>modules_loaded.
     p_then (w_literal W ''.'') (p_then (line_ending_or_eof W)
     (p_return \<lparr>cs_result = result, cs_modules_loaded = modules_loaded\<rparr>)))))"

section \<open>All of the output\<close>

definition parse_json_diagnostic :: "winnow \<Rightarrow> (string \<Rightarrow> json_diagnostic res) \<Rightarrow> ghc_diagnostic parser" where
  "parse_json_diagnostic W from_json =
     p_try_map (\<lambda>line. case from_json line of Inr d \<Rightarrow> Some (of_json d) | Inl _ \<Rightarrow> None)
       (p_then (w_space0 W) (p_recognize (p_then (w_literal W ''{'') (rest_of_line W))))"

datatype output_item = One ghc_message | Many "ghc_message list" | Ignore

definition output_item_parser :: "winnow \<Rightarrow> (string \<Rightarrow> json_diagnostic res) \<Rightarrow> output_item parser" where
  "output_item_parser W from_json =
     p_alt [p_map (\<lambda>m. One (Compiling m)) (compiling W),
       p_map (\<lambda>d. One (Diagnostic d)) (parse_json_diagnostic W from_json),
       p_map (\<lambda>d. One (Diagnostic d)) (generic_diagnostic W),
       p_map (\<lambda>s. One (Summary s)) (parse_compilation_summary W),
       p_map (\<lambda>d. One (Diagnostic d)) (cant_find_file_diagnostic W),
       p_map (\<lambda>d. One (Diagnostic d)) (no_location_info_diagnostic W),
       p_map Many (module_import_cycle_diagnostic W),
       p_map One (loaded_configuration W),
       p_map (\<lambda>_. Ignore) (rest_of_line W)]"

fun item_messages :: "output_item \<Rightarrow> ghc_message list" where
  "item_messages (One m) = [m]"
| "item_messages (Many ms) = ms"
| "item_messages Ignore = []"

definition parse_messages_inner :: "winnow \<Rightarrow> (string \<Rightarrow> json_diagnostic res) \<Rightarrow> ghc_message list parser" where
  "parse_messages_inner W from_json =
     p_map (\<lambda>items. concat (map item_messages items)) (p_repeat (output_item_parser W from_json))"

text \<open>\<open>strip\<close> is \<open>strip_ansi_escapes::strip_str\<close>.\<close>

definition parse_ghc_messages ::
  "winnow \<Rightarrow> (string \<Rightarrow> json_diagnostic res) \<Rightarrow> (string \<Rightarrow> string) \<Rightarrow> string \<Rightarrow> ghc_message list res" where
  "parse_ghc_messages W from_json strip lines = p_parse (parse_messages_inner W from_json) (strip lines)"

end
