(* ===== verification/MessageProps.thy ===== *)
theory MessageProps
  imports MessageParser CompilationLog
begin

text \<open>
  What the parsers of GHC's output do: where they stop, which progress lines make them fail, and which
  of the alternatives are never reached.
\<close>

section \<open>Parsers that never cut\<close>

definition backtracks :: "'a parser \<Rightarrow> bool" where
  "backtracks p \<longleftrightarrow> (\<forall>s. p s \<noteq> Inl Cut)"

named_theorems backtrack_intros \<open>parsers that never cut\<close>

lemma backtracksD: "backtracks p \<Longrightarrow> p s \<noteq> Inl Cut"
  by (simp add: backtracks_def)

lemma backtracks_basic [backtrack_intros]:
  "backtracks (p_return x)" "backtracks (p_fail Backtrack)" "backtracks (std_literal t)" "backtracks (std_take_while P)"
  "backtracks (std_take_while1 P)" "backtracks (std_one_of P)" "backtracks std_line_ending"
  "backtracks std_till_line_ending" "backtracks std_eof" "backtracks (std_take_until1 t)"
  by (auto simp: backtracks_def p_return_def p_fail_def std_literal_def std_take_while_def std_take_while1_def nonempty_def
      std_one_of_def std_line_ending_def p_or_def std_till_line_ending_def std_eof_def std_take_until1_def Let_def
      split: list.splits option.splits)

lemma backtracks_bind [backtrack_intros]: "backtracks p \<Longrightarrow> (\<And>x. backtracks (f x)) \<Longrightarrow> backtracks (p_bind p f)"
  by (auto simp: backtracks_def p_bind_def split: sum.splits)

lemma backtracks_map [backtrack_intros]: "backtracks p \<Longrightarrow> backtracks (p_map f p)"
  by (simp add: p_map_def backtrack_intros)

lemma backtracks_try_map [backtrack_intros]: "backtracks p \<Longrightarrow> backtracks (p_try_map f p)"
  unfolding p_try_map_def by (intro backtrack_intros) (auto intro: backtrack_intros split: option.splits)

lemma backtracks_or [backtrack_intros]: "backtracks p \<Longrightarrow> backtracks q \<Longrightarrow> backtracks (p_or p q)"
  by (auto simp: backtracks_def p_or_def split: sum.splits parse_error.splits)

lemma backtracks_alt [backtrack_intros]: "(\<And>p. p \<in> set ps \<Longrightarrow> backtracks p) \<Longrightarrow> backtracks (p_alt ps)"
  by (induction ps rule: p_alt.induct) (auto intro!: backtrack_intros)

lemma backtracks_opt [backtrack_intros]: "backtracks p \<Longrightarrow> backtracks (p_opt p)"
  by (simp add: p_opt_def backtrack_intros)

lemma backtracks_with_recognized [backtrack_intros]: "backtracks p \<Longrightarrow> backtracks (p_with_recognized p)"
  by (auto simp: backtracks_def p_with_recognized_def split: sum.splits)

lemma backtracks_recognize [backtrack_intros]: "backtracks p \<Longrightarrow> backtracks (p_recognize p)"
  by (simp add: p_recognize_def backtrack_intros)

lemma repeat_cut: "backtracks p \<Longrightarrow> p_repeat p s \<noteq> Inl Cut"
proof (induction p s rule: p_repeat.induct)
  case (1 p s)
  show ?case
  proof (cases "p s")
    case (Inl e)
    with backtracksD [OF 1(2), of s] show ?thesis by (cases e) (simp_all add: p_repeat.simps [of p s])
  next
    case (Inr b)
    obtain x r where b: "b = (x, r)" by (cases b)
    show ?thesis
    proof (cases "length r < length s")
      case True
      from 1(1) [OF Inr b [symmetric] True 1(2)] Inr b True show ?thesis
        by (auto simp: p_repeat.simps [of p s] split: sum.splits)
    qed (simp add: p_repeat.simps [of p s] Inr b)
  qed
qed

lemma backtracks_repeat [backtrack_intros]: "backtracks p \<Longrightarrow> backtracks (p_repeat p)"
  unfolding backtracks_def using repeat_cut backtracks_def by blast

lemma backtracks_repeat1 [backtrack_intros]: "backtracks p \<Longrightarrow> backtracks (p_repeat1 p)"
  by (simp add: p_repeat1_def backtrack_intros)

lemma backtracks_if [backtrack_intros]: "backtracks p \<Longrightarrow> backtracks q \<Longrightarrow> backtracks (if b then p else q)"
  by simp

lemma backtracks_alt_Cons [backtrack_intros]:
  "backtracks p \<Longrightarrow> backtracks (p_alt (q # ps)) \<Longrightarrow> backtracks (p_alt (p # q # ps))" "backtracks p \<Longrightarrow> backtracks (p_alt [p])"
  by (simp_all add: backtrack_intros)

lemma backtracks_lines [backtrack_intros]:
  "backtracks (line_ending_or_eof winnow_std)" "backtracks (until_newline winnow_std)" "backtracks (rest_of_line winnow_std)"
  by (auto simp: rest_of_line_def until_newline_def line_ending_or_eof_def intro!: backtrack_intros)

lemma backtracks_parts [backtrack_intros]:
  "backtracks (usize_digits winnow_std)" "backtracks (parse_unhelpful_position winnow_std)"
  "backtracks (parse_severity_colon winnow_std)" "backtracks (path_colon winnow_std)" "backtracks (single_quote winnow_std)"
  by (auto simp: usize_digits_def parse_unhelpful_position_def parse_severity_colon_def path_colon_def single_quote_def
      intro!: backtrack_intros)

lemma backtracks_range [backtrack_intros]: "backtracks (parse_position_range winnow_std)"
  unfolding parse_position_range_def parse_full_position_range_def parse_single_line_position_range_def
  by (intro backtrack_intros) (auto intro!: backtrack_intros)

lemma backtracks_body [backtrack_intros]: "backtracks (parse_message_body winnow_std)"
  unfolding parse_message_body_def parse_message_body_line_def
  by (intro backtrack_intros) (auto intro!: backtrack_intros)

lemma backtracks_messages [backtrack_intros]:
  "backtracks (parse_json_diagnostic winnow_std from_json)" "backtracks (generic_diagnostic winnow_std)"
  "backtracks (cant_find_file_diagnostic winnow_std)" "backtracks (no_location_info_diagnostic winnow_std)"
  "backtracks (loaded_configuration winnow_std)"
  unfolding parse_json_diagnostic_def generic_diagnostic_def cant_find_file_diagnostic_def no_location_info_diagnostic_def
    loaded_configuration_def
  by (auto intro!: backtrack_intros)

lemma backtracks_summary [backtrack_intros]: "backtracks (parse_compilation_summary winnow_std)"
  unfolding parse_compilation_summary_def compilation_summary_no_modules_def compilation_summary_unloaded_all_def
    compilation_summary_count_def p_value_def
  by (auto intro!: backtrack_intros)

lemma backtracks_cycle [backtrack_intros]: "backtracks (module_import_cycle_diagnostic winnow_std)"
  unfolding module_import_cycle_diagnostic_def import_cycle_paths_def parse_import_cycle_line_def
  by (auto intro!: backtrack_intros)

section \<open>Parsers that end with a line\<close>

definition line_parser :: "'a parser \<Rightarrow> bool" where
  "line_parser p \<longleftrightarrow> (\<forall>s x r. p s = Inr (x, r) \<longrightarrow> (\<exists>u. s = u @ r \<and> (r = [] \<or> u \<noteq> [] \<and> last u = newline)))"

definition aligned :: "'a parser \<Rightarrow> bool" where
  "aligned p \<longleftrightarrow> (\<forall>s x r. p s = Inr (x, r) \<longrightarrow> (\<exists>u. s = u @ r \<and> (r = [] \<or> u = [] \<or> last u = newline)))"

named_theorems line_intros \<open>parsers that end with a line\<close>

lemma line_parserD: "line_parser p \<Longrightarrow> p s = Inr (x, r) \<Longrightarrow> \<exists>u. s = u @ r \<and> (r = [] \<or> u \<noteq> [] \<and> last u = newline)"
  by (simp add: line_parser_def)

lemma line_parser_bind:
  assumes "keeps_suffix p" and "\<And>x. line_parser (f x)"
  shows "line_parser (p_bind p f)"
  unfolding line_parser_def
proof (intro allI impI)
  fix s x r assume "p_bind p f s = Inr (x, r)"
  then obtain y t where p: "p s = Inr (y, t)" and f: "f y t = Inr (x, r)" by (auto simp: p_bind_Inr)
  from keeps_suffixD [OF assms(1) p] obtain v where "s = v @ t" by (auto simp: suffix_def)
  with line_parserD [OF assms(2) f] show "\<exists>u. s = u @ r \<and> (r = [] \<or> u \<noteq> [] \<and> last u = newline)"
    by (metis append.assoc append_is_Nil_conv last_append)
qed

lemma line_parser_bind_aligned:
  assumes "line_parser p" and "\<And>x. aligned (f x)"
  shows "line_parser (p_bind p f)"
  unfolding line_parser_def
proof (intro allI impI)
  fix s x r assume "p_bind p f s = Inr (x, r)"
  then obtain y t where p: "p s = Inr (y, t)" and f: "f y t = Inr (x, r)" by (auto simp: p_bind_Inr)
  from line_parserD [OF assms(1) p] obtain v where v: "s = v @ t" "t = [] \<or> v \<noteq> [] \<and> last v = newline" by blast
  from assms(2) f obtain w where w: "t = w @ r" "r = [] \<or> w = [] \<or> last w = newline" unfolding aligned_def by blast
  show "\<exists>u. s = u @ r \<and> (r = [] \<or> u \<noteq> [] \<and> last u = newline)"
    using v w by (intro exI [of _ "v @ w"]) (auto simp: last_append)
qed

lemma aligned_return [line_intros]: "aligned (p_return x)"
  by (auto simp: aligned_def p_return_Inr)

lemma line_parser_bind_return [line_intros]: "line_parser p \<Longrightarrow> line_parser (p_bind p (\<lambda>x. p_return (f x)))"
  by (rule line_parser_bind_aligned) (auto intro: line_intros)

lemma line_parser_map [line_intros]: "line_parser p \<Longrightarrow> line_parser (p_map f p)"
  unfolding p_map_def by (rule line_parser_bind_aligned) (auto intro: line_intros)

lemma line_parser_try_map [line_intros]: "line_parser p \<Longrightarrow> line_parser (p_try_map f p)"
  unfolding line_parser_def by (auto simp: p_try_map_Inr)

lemma line_parser_or: "line_parser p \<Longrightarrow> line_parser q \<Longrightarrow> line_parser (p_or p q)"
  unfolding line_parser_def by (auto simp: p_or_Inr)

lemma line_parser_alt_Cons [line_intros]:
  "line_parser p \<Longrightarrow> line_parser (p_alt (q # ps)) \<Longrightarrow> line_parser (p_alt (p # q # ps))" "line_parser p \<Longrightarrow> line_parser (p_alt [p])"
  by (simp_all add: line_parser_or)

lemma line_parser_recognize [line_intros]:
  "line_parser p \<Longrightarrow> line_parser (p_recognize p)" "line_parser p \<Longrightarrow> line_parser (p_with_recognized p)"
  by (auto simp: line_parser_def parser_simps)

lemma aligned_repeat:
  "line_parser p \<Longrightarrow> p_repeat p s = Inr (xs, t) \<Longrightarrow> \<exists>u. s = u @ t \<and> (t = [] \<or> u = [] \<or> last u = newline)"
proof (induction p s arbitrary: xs rule: p_repeat.induct)
  case (1 p s)
  from 1(3) show ?case
  proof (cases rule: p_repeat_Inr_cases)
    case (step x r ys)
    from line_parserD [OF 1(2) step(1)] obtain v where "s = v @ r" "r = [] \<or> v \<noteq> [] \<and> last v = newline" by blast
    moreover from 1(1) [OF step(1) refl step(2) 1(2) step(3)] obtain u where
      "r = u @ t" "t = [] \<or> u = [] \<or> last u = newline" by blast
    ultimately show ?thesis by (intro exI [of _ "v @ u"]) (auto simp: last_append)
  qed simp
qed

lemma aligned_repeatI [line_intros]: "line_parser p \<Longrightarrow> aligned (p_repeat p)"
  using aligned_repeat unfolding aligned_def by blast

lemma aligned_map [line_intros]: "aligned p \<Longrightarrow> aligned (p_map f p)" "aligned p \<Longrightarrow> aligned (p_recognize p)"
  by (auto simp: aligned_def parser_simps)

lemma until_newline_ends [line_intros]: "line_parser (until_newline winnow_std)"
  unfolding line_parser_def by (auto dest!: until_newline_Inr)

lemma rest_of_line_ends [line_intros]: "line_parser (rest_of_line winnow_std)"
  unfolding rest_of_line_def by (intro line_intros)

lemma line_ending_ends [line_intros]: "line_parser (line_ending_or_eof winnow_std)"
  by (auto simp: line_ending_or_eof_def line_parser_def std_line_ending_Inr std_eof_Inr p_or_Inr)

lemma message_body_line_ends [line_intros]: "line_parser (parse_message_body_line winnow_std)"
  unfolding parse_message_body_line_def
  by (intro line_intros line_parser_bind suffix_intros) (auto intro!: suffix_intros)

lemma message_body_ends [line_intros]: "line_parser (parse_message_body winnow_std)"
  unfolding parse_message_body_def by (intro line_intros line_parser_bind_aligned)

lemma parts_keep [suffix_intros]:
  "keeps_suffix (usize_digits winnow_std)" "keeps_suffix (parse_unhelpful_position winnow_std)"
  "keeps_suffix (parse_severity_colon winnow_std)" "keeps_suffix (path_colon winnow_std)" "keeps_suffix (single_quote winnow_std)"
  "keeps_suffix (line_ending_or_eof winnow_std)"
  by (auto simp: usize_digits_def parse_unhelpful_position_def parse_severity_colon_def path_colon_def single_quote_def
      line_ending_or_eof_def intro!: suffix_intros)

lemma range_keeps [suffix_intros]: "keeps_suffix (parse_position_range winnow_std)"
  unfolding parse_position_range_def parse_full_position_range_def parse_single_line_position_range_def
  by (intro suffix_intros) (auto intro!: suffix_intros)

lemma generic_ends [line_intros]: "line_parser (generic_diagnostic winnow_std)"
  unfolding generic_diagnostic_def winnow_std_simps
  by (rule line_parser_bind line_parser_bind_return | rule suffix_intros line_intros)+

lemma no_location_ends [line_intros]: "line_parser (no_location_info_diagnostic winnow_std)"
  unfolding no_location_info_diagnostic_def winnow_std_simps
  by (rule line_parser_bind line_parser_bind_return | rule suffix_intros line_intros)+

lemma cant_find_ends [line_intros]: "line_parser (cant_find_file_diagnostic winnow_std)"
  unfolding cant_find_file_diagnostic_def winnow_std_simps
  by (rule line_parser_bind line_parser_bind_return | rule suffix_intros line_intros)+

lemma summary_parts_keep [suffix_intros]:
  "keeps_suffix (compilation_summary_no_modules winnow_std)" "keeps_suffix (compilation_summary_unloaded_all winnow_std)"
  "keeps_suffix (compilation_summary_count winnow_std)"
  by (auto simp: compilation_summary_no_modules_def compilation_summary_unloaded_all_def compilation_summary_count_def
      p_value_def intro!: suffix_intros)

lemma keeps_p_value [suffix_intros]: "keeps_suffix p \<Longrightarrow> keeps_suffix (p_value x p)"
  by (simp add: p_value_def suffix_intros)

lemma summary_ends [line_intros]: "line_parser (parse_compilation_summary winnow_std)"
proof -
  have "keeps_suffix (p_alt [p_value CompOk (std_literal ''Ok''), p_value CompErr (std_literal ''Failed'')])"
    "keeps_suffix (p_alt [compilation_summary_no_modules winnow_std, compilation_summary_unloaded_all winnow_std,
       compilation_summary_count winnow_std])"
    by (auto intro!: suffix_intros)
  then show ?thesis
    unfolding parse_compilation_summary_def winnow_std_simps
    by (intro line_parser_bind [OF _ line_parser_bind [OF _ line_parser_bind [OF _ line_parser_bind]]])
       (auto intro!: suffix_intros line_intros)
qed

lemma cycle_line_ends [line_intros]: "line_parser (parse_import_cycle_line winnow_std)"
  unfolding parse_import_cycle_line_def winnow_std_simps
  by (rule line_parser_bind line_parser_bind_return | rule suffix_intros line_intros)+

lemma aligned_repeat1 [line_intros]: "line_parser p \<Longrightarrow> line_parser (p_repeat1 p)"
  unfolding p_repeat1_def by (rule line_parser_bind_aligned) (auto intro: line_intros)

lemma cycle_ends [line_intros]: "line_parser (module_import_cycle_diagnostic winnow_std)"
proof -
  have "keeps_suffix (p_alt [std_literal ''Module imports form a cycle:'', std_literal ''Module graph contains a cycle:''])"
    by (auto intro!: suffix_intros)
  then have "line_parser (import_cycle_paths winnow_std)"
    unfolding import_cycle_paths_def winnow_std_simps
    by (rule line_parser_bind) (intro line_parser_bind suffix_intros line_intros)
  then show ?thesis
    unfolding module_import_cycle_diagnostic_def by (intro line_intros)
qed

lemma loaded_ends [line_intros]: "line_parser (loaded_configuration winnow_std)"
  unfolding loaded_configuration_def winnow_std_simps
  by (intro line_parser_bind suffix_intros line_intros)

lemma json_ends [line_intros]: "line_parser (parse_json_diagnostic winnow_std from_json)"
  unfolding parse_json_diagnostic_def winnow_std_simps
  by (intro line_parser_try_map line_parser_bind line_parser_recognize suffix_intros line_intros)

lemma module_name_keeps [suffix_intros]: "keeps_suffix (module_name_parser winnow_std)"
  unfolding module_name_parser_def constructor_name_def winnow_std_simps by (intro suffix_intros)

lemma module_and_files_keeps [suffix_intros]: "keeps_suffix (module_and_files winnow_std)"
  unfolding module_and_files_def winnow_std_simps
  by (intro suffix_intros) (auto intro!: suffix_intros split: option.split)

lemma compiling_ends [line_intros]: "line_parser (compiling winnow_std)"
  unfolding compiling_def winnow_std_simps Let_def
  by (rule line_parser_bind line_parser_bind_return | rule suffix_intros line_intros)+

section \<open>Going through the output\<close>

lemma item_ends [line_intros]: "line_parser (output_item_parser winnow_std from_json)"
  unfolding output_item_parser_def by (intro line_intros)

lemma p_alt_rest:
  assumes "p_alt (p # q # ps) s = Inl e" and "backtracks (p_alt (q # ps))"
  shows "e = Cut \<and> p s = Inl Cut \<or> p s = Inl Backtrack \<and> p_alt (q # ps) s = Inl Backtrack"
  using assms backtracksD [OF assms(2), of s]
  by (cases e) (auto simp: p_or_def split: sum.splits parse_error.splits)

text \<open>An item fails for want of a source file, or because there is no line to take.\<close>

lemma item_fails:
  assumes "output_item_parser winnow_std from_json s = Inl e" and "carriage_return \<notin> set s" and "s \<noteq> []"
  shows "e = Cut \<and> compiling winnow_std s = Inl Cut"
proof -
  let ?rest = "[p_map (\<lambda>d. One (Diagnostic d)) (parse_json_diagnostic winnow_std from_json),
       p_map (\<lambda>d. One (Diagnostic d)) (generic_diagnostic winnow_std),
       p_map (\<lambda>s. One (Summary s)) (parse_compilation_summary winnow_std),
       p_map (\<lambda>d. One (Diagnostic d)) (cant_find_file_diagnostic winnow_std),
       p_map (\<lambda>d. One (Diagnostic d)) (no_location_info_diagnostic winnow_std),
       p_map Many (module_import_cycle_diagnostic winnow_std),
       p_map One (loaded_configuration winnow_std),
       p_map (\<lambda>_. Ignore) (rest_of_line winnow_std)]"
  obtain x r where "rest_of_line winnow_std s = Inr (x, r)" using rest_of_line_total [OF assms(2,3)] by blast
  then have "p_alt ?rest s \<noteq> Inl Backtrack"
    by (simp add: p_or_def p_map_def p_bind_def p_return_def split: sum.split parse_error.split)
  moreover have "backtracks (p_alt ?rest)" by (intro backtrack_intros)
  ultimately have "e = Cut \<and> p_map (\<lambda>m. One (Compiling m)) (compiling winnow_std) s = Inl Cut"
    using p_alt_rest assms(1) unfolding output_item_parser_def by blast
  then show ?thesis by (auto simp: p_map_def p_bind_def p_return_def split: sum.splits)
qed

text \<open>The places at which the parser starts an item.\<close>

definition line_starts :: "string \<Rightarrow> string \<Rightarrow> bool" where
  "line_starts s b \<longleftrightarrow> (\<exists>a. s = a @ b \<and> (a = [] \<or> last a = newline))"

lemma items_end:
  "p = output_item_parser winnow_std from_json \<Longrightarrow> carriage_return \<notin> set s \<Longrightarrow>
   (\<exists>items. p_repeat p s = Inr (items, [])) \<or>
   p_repeat p s = Inl Cut \<and> (\<exists>b. line_starts s b \<and> compiling winnow_std b = Inl Cut)"
proof (induction p s rule: p_repeat.induct)
  case (1 p s)
  show ?case
  proof (cases "s = []")
    case True
    have "p [] = Inl Backtrack"
      unfolding 1(2) output_item_parser_def by code_simp
    with True show ?thesis by (simp add: p_repeat_stop)
  next
    case False
    show ?thesis
    proof (cases "p s")
      case (Inl e)
      with item_fails [of from_json s e] 1(2,3) False have "e = Cut" "compiling winnow_std s = Inl Cut" by simp_all
      moreover have "line_starts s s" by (simp add: line_starts_def)
      ultimately show ?thesis using Inl by (auto simp: p_repeat.simps [of p s])
    next
      case (Inr b)
      obtain x r where b: "b = (x, r)" by (cases b)
      from line_parserD [OF item_ends, of from_json s x r] Inr b 1(2)
      obtain u where u: "s = u @ r" "r = [] \<or> u \<noteq> [] \<and> last u = newline" by auto
      then have len: "length r < length s" using False by auto
      from 1(1) [OF Inr b [symmetric] len 1(2)] 1(3) u(1)
      have "(\<exists>items. p_repeat p r = Inr (items, [])) \<or>
        p_repeat p r = Inl Cut \<and> (\<exists>b. line_starts r b \<and> compiling winnow_std b = Inl Cut)" by simp
      then show ?thesis
      proof
        assume "\<exists>items. p_repeat p r = Inr (items, [])"
        with Inr b len show ?thesis by (auto simp: p_repeat.simps [of p s])
      next
        assume cut: "p_repeat p r = Inl Cut \<and> (\<exists>b. line_starts r b \<and> compiling winnow_std b = Inl Cut)"
        then obtain c where c: "line_starts r c" "compiling winnow_std c = Inl Cut" by blast
        show ?thesis
        proof (cases "r = []")
          case True
          with c(1) have "c = []" by (simp add: line_starts_def)
          with c(2) show ?thesis by (simp add: compiling_def p_bind_def std_literal_def)
        next
          case False
          with c(1) u have "line_starts s c" unfolding line_starts_def by (metis append.assoc last_append)
          with c cut Inr b len show ?thesis by (auto simp: p_repeat.simps [of p s])
        qed
      qed
    qed
  qed
qed

section \<open>Progress lines without a source file\<close>

definition listed_file :: "string \<Rightarrow> bool" where
  "listed_file p \<longleftrightarrow> p \<noteq> [] \<and> CHR '','' \<notin> set p \<and> newline \<notin> set p"

text \<open>
  A module with its files in brackets: those before a comma, as many as there are, and the last one, up
  to the first blank and bracket. None of them is a Haskell source.
\<close>

definition files_without_source :: "string \<Rightarrow> bool" where
  "files_without_source s \<longleftrightarrow>
     (\<exists>name sp paths final_path r.
        s = name @ sp @ ''( '' @ concat (map (\<lambda>p. p @ '', '') paths) @ final_path @ '' )'' @ r \<and>
        name \<noteq> [] \<and> list_all (\<lambda>c. is_name_char c \<or> c = CHR ''.'') name \<and> sp \<noteq> [] \<and> list_all is_blank sp \<and>
        list_all listed_file paths \<and> (\<forall>p q. final_path @ '' )'' @ r = p @ '', '' @ q \<longrightarrow> \<not> listed_file p) \<and>
        final_path \<noteq> [] \<and> (\<forall>p q. final_path \<noteq> p @ '' )'' @ q) \<and>
        list_all (\<lambda>p. \<not> is_haskell_source_file (path_of_str p)) (paths @ [final_path]))"

definition progress_without_source :: "string \<Rightarrow> bool" where
  "progress_without_source b \<longleftrightarrow>
     (\<exists>sp current total s.
        b = ''['' @ sp @ current @ '' of '' @ total @ ''] Compiling '' @ s \<and> list_all is_blank sp \<and>
        current \<noteq> [] \<and> list_all is_digit current \<and> total \<noteq> [] \<and> list_all is_digit total \<and>
        files_without_source s)"

definition consumes :: "(char \<Rightarrow> bool) \<Rightarrow> 'a parser \<Rightarrow> bool" where
  "consumes P p \<longleftrightarrow> (\<forall>s x r. p s = Inr (x, r) \<longrightarrow> (\<exists>u. s = u @ r \<and> list_all P u))"

lemma consumesD: "consumes P p \<Longrightarrow> p s = Inr (x, r) \<Longrightarrow> \<exists>u. s = u @ r \<and> list_all P u"
  by (simp add: consumes_def)

named_theorems consume_intros \<open>the characters a parser takes\<close>

lemma consumes_bind [consume_intros]:
  assumes "consumes P p" and "\<And>x. consumes P (f x)"
  shows "consumes P (p_bind p f)"
  unfolding consumes_def
proof (intro allI impI)
  fix s x r assume "p_bind p f s = Inr (x, r)"
  then obtain y t where "p s = Inr (y, t)" "f y t = Inr (x, r)" by (auto simp: p_bind_Inr)
  with consumesD [OF assms(1)] consumesD [OF assms(2)] obtain u v
    where "s = u @ t" "list_all P u" "t = v @ r" "list_all P v" by metis
  then show "\<exists>u. s = u @ r \<and> list_all P u" by (intro exI [of _ "u @ v"]) simp
qed

lemma consumes_basic [consume_intros]:
  "consumes P (p_return x)" "list_all P t \<Longrightarrow> consumes P (std_literal t)"
  "(\<And>c. Q c \<Longrightarrow> P c) \<Longrightarrow> consumes P (std_one_of Q)"
  by (auto simp: consumes_def parser_simps)

lemma consumes_take_while [consume_intros]: "(\<And>c. Q c \<Longrightarrow> P c) \<Longrightarrow> consumes P (std_take_while Q)"
  unfolding consumes_def
proof (intro allI impI)
  fix s x r assume "std_take_while Q s = Inr (x, r)" and Q: "\<And>c. Q c \<Longrightarrow> P c"
  then have "s = takeWhile Q s @ r \<and> list_all P (takeWhile Q s)"
    by (auto simp: parser_simps list_all_iff dest: set_takeWhileD)
  then show "\<exists>u. s = u @ r \<and> list_all P u" by blast
qed

lemma consumes_map [consume_intros]: "consumes P p \<Longrightarrow> consumes P (p_map f p)" "consumes P p \<Longrightarrow> consumes P (p_recognize p)"
  by (auto simp: consumes_def parser_simps)

lemma repeat_consumes: "consumes P p \<Longrightarrow> p_repeat p s = Inr (xs, t) \<Longrightarrow> \<exists>u. s = u @ t \<and> list_all P u"
proof (induction p s arbitrary: xs rule: p_repeat.induct)
  case (1 p s)
  from 1(3) show ?case
  proof (cases rule: p_repeat_Inr_cases)
    case (step x r ys)
    from consumesD [OF 1(2) step(1)] obtain v where "s = v @ r" "list_all P v" by blast
    moreover from 1(1) [OF step(1) refl step(2) 1(2) step(3)] obtain u where "r = u @ t" "list_all P u" by blast
    ultimately show ?thesis by (intro exI [of _ "v @ u"]) simp
  qed simp
qed

lemma consumes_repeat [consume_intros]: "consumes P p \<Longrightarrow> consumes P (p_repeat p)"
  using repeat_consumes unfolding consumes_def by blast

lemma module_name_chars:
  assumes "module_name_parser winnow_std s = Inr (x, r)"
  shows "s = x @ r \<and> x \<noteq> [] \<and> list_all (\<lambda>c. is_name_char c \<or> c = CHR ''.'') x"
proof -
  let ?P = "\<lambda>c. is_name_char c \<or> c = CHR ''.''"
  have one: "consumes ?P (constructor_name winnow_std)"
    unfolding constructor_name_def winnow_std_simps by (intro consume_intros) (auto simp: is_name_char_def)
  then have "consumes ?P (module_name_parser winnow_std)"
    unfolding module_name_parser_def p_separated1_def winnow_std_simps by (intro consume_intros) simp_all
  from consumesD [OF this assms] obtain u where u: "s = u @ r" "list_all ?P u" by blast
  from assms have x: "x = take (length s - length r) s"
    by (auto simp: module_name_parser_def p_recognize_Inr)
  have ctor: "keeps_suffix (constructor_name winnow_std)"
    unfolding constructor_name_def winnow_std_simps by (intro suffix_intros)
  then have "keeps_suffix (p_then (std_literal ''.'') (constructor_name winnow_std))" by (intro suffix_intros)
  moreover obtain y t where "constructor_name winnow_std s = Inr (y, t)"
    "\<exists>xs. p_repeat (p_then (std_literal ''.'') (constructor_name winnow_std)) t = Inr (xs, r)"
    using assms by (auto simp: module_name_parser_def p_separated1_def parser_simps)
  ultimately have "suffix r t" "\<exists>c v. s = c # v @ t"
    using repeat_suffix by (auto simp: constructor_name_def parser_simps intro: takeWhile_dropWhile_id [symmetric])
  then have "length r < length s" by (auto simp: suffix_def)
  then show ?thesis using u x by auto
qed

lemma bind_Cut:
  assumes "p_bind p f s = Inl Cut" and "backtracks p"
  obtains x r where "p s = Inr (x, r)" "f x r = Inl Cut"
  using assms backtracksD [of p s] by (auto simp: p_bind_def split: sum.splits)

text \<open>The files before the last one.\<close>

abbreviation file_parser :: "string parser" where
  "file_parser \<equiv> p_bind (std_take_while1 (\<lambda>c. \<not> (c = CHR '','' \<or> c = newline))) (\<lambda>path.
     p_then (std_literal '', '') (p_return path))"

lemma file_parser_Inr: "file_parser s = Inr (p, r) \<Longrightarrow> s = p @ '', '' @ r \<and> listed_file p"
  by (auto simp: parser_simps listed_file_def dest: set_takeWhileD) (metis append.simps takeWhile_dropWhile_id)

lemma file_parser_stops:
  assumes "file_parser s = Inl Backtrack" and "s = p @ '', '' @ q"
  shows "\<not> listed_file p"
proof
  assume "listed_file p"
  then have "\<forall>c \<in> set p. \<not> (c = CHR '','' \<or> c = newline)" "p \<noteq> []" by (auto simp: listed_file_def)
  then have "takeWhile (\<lambda>c. \<not> (c = CHR '','' \<or> c = newline)) s = p" "dropWhile (\<lambda>c. \<not> (c = CHR '','' \<or> c = newline)) s = '', '' @ q"
    unfolding assms(2) by (simp_all add: takeWhile_append2 dropWhile_append2)
  with \<open>p \<noteq> []\<close> assms(1) show False
    by (simp add: p_bind_def std_take_while1_def nonempty_def std_literal_def p_return_def)
qed

lemma files_parsed:
  "f = file_parser \<Longrightarrow> p_repeat f s = Inr (paths, r) \<Longrightarrow>
   s = concat (map (\<lambda>p. p @ '', '') paths) @ r \<and> list_all listed_file paths \<and> (\<forall>p q. r = p @ '', '' @ q \<longrightarrow> \<not> listed_file p)"
proof (induction f s arbitrary: paths rule: p_repeat.induct)
  case (1 f s)
  from 1(3) show ?case
  proof (cases rule: p_repeat_Inr_cases)
    case stop
    with file_parser_stops [of s] 1(2) show ?thesis by auto
  next
    case (step x t ys)
    from file_parser_Inr [of s x t] step(1) 1(2) have "s = x @ '', '' @ t" "listed_file x" by auto
    with 1(1) [OF step(1) refl step(2) 1(2) step(3)] step(4) show ?thesis by simp
  qed
qed

lemma split_before_shortest: "split_before t s = Some (a, b) \<Longrightarrow> t \<noteq> [] \<Longrightarrow> a \<noteq> p @ t @ q"
proof (induction t s arbitrary: a p rule: split_before.induct)
  case (2 t c s)
  show ?case
  proof
    assume a: "a = p @ t @ q"
    with 2(2,3) obtain a' where a': "\<not> prefix t (c # s)" "split_before t s = Some (a', b)" "a = c # a'"
      by (auto split: if_splits)
    show False
    proof (cases p)
      case Nil
      with a a'(3) split_before_Some [OF a'(2)] have "c # s = t @ q @ b" by auto
      with a'(1) show False by (simp add: prefix_def)
    next
      case (Cons d p')
      with a a'(3) 2(1) [OF a'(1,2) 2(3), of p'] show False by simp
    qed
  qed
qed (simp split: if_splits)

lemma take_until_shortest: "std_take_until1 t s = Inr (x, r) \<Longrightarrow> t \<noteq> [] \<Longrightarrow> x \<noteq> p @ t @ q"
  by (auto simp: std_take_until1_def nonempty_def split: option.splits if_splits dest: split_before_shortest)

text \<open>The two stretches at which a bracketed list of files is refused.\<close>

lemma module_and_files_cut:
  assumes "module_and_files winnow_std s = Inl Cut"
  shows "files_without_source s"
proof -
  have b: "backtracks (module_name_parser winnow_std)" "backtracks (p_repeat file_parser)"
    "backtracks (p_bind (std_take_until1 '' )'') (\<lambda>path. p_then (std_literal '' )'') (p_return path)))"
    unfolding module_name_parser_def constructor_name_def p_separated1_def winnow_std_simps
    by (intro backtrack_intros)+
  from assms obtain name r0 where name: "module_name_parser winnow_std s = Inr (name, r0)"
    and c0: "p_then (std_take_while1 is_blank) (p_then (std_literal ''( '')
     (p_bind (p_repeat file_parser) (\<lambda>paths.
      p_bind (p_bind (std_take_until1 '' )'') (\<lambda>path. p_then (std_literal '' )'') (p_return path))) (\<lambda>final_path.
      case find (\<lambda>path. is_haskell_source_file (path_of_str path)) (paths @ [final_path]) of
        None \<Rightarrow> p_fail Cut
      | Some path \<Rightarrow> p_return \<lparr>cm_name = name, cm_path = path_of_str path\<rparr>)))) r0 = Inl Cut"
    unfolding module_and_files_def winnow_std_simps by (rule bind_Cut [OF _ b(1)])
  from bind_Cut [OF c0 backtracks_basic(5)] obtain sp' r1 where sp: "std_take_while1 is_blank r0 = Inr (sp', r1)"
    and c1: "p_then (std_literal ''( '')
     (p_bind (p_repeat file_parser) (\<lambda>paths.
      p_bind (p_bind (std_take_until1 '' )'') (\<lambda>path. p_then (std_literal '' )'') (p_return path))) (\<lambda>final_path.
      case find (\<lambda>path. is_haskell_source_file (path_of_str path)) (paths @ [final_path]) of
        None \<Rightarrow> p_fail Cut
      | Some path \<Rightarrow> p_return \<lparr>cm_name = name, cm_path = path_of_str path\<rparr>))) r1 = Inl Cut"
    by blast
  from bind_Cut [OF c1 backtracks_basic(3)] obtain y r2 where open': "std_literal ''( '' r1 = Inr (y, r2)"
    and c2: "p_bind (p_repeat file_parser) (\<lambda>paths.
      p_bind (p_bind (std_take_until1 '' )'') (\<lambda>path. p_then (std_literal '' )'') (p_return path))) (\<lambda>final_path.
      case find (\<lambda>path. is_haskell_source_file (path_of_str path)) (paths @ [final_path]) of
        None \<Rightarrow> p_fail Cut
      | Some path \<Rightarrow> p_return \<lparr>cm_name = name, cm_path = path_of_str path\<rparr>)) r2 = Inl Cut"
    by blast
  from bind_Cut [OF c2 b(2)] obtain paths r3 where paths: "p_repeat file_parser r2 = Inr (paths, r3)"
    and c3: "p_bind (p_bind (std_take_until1 '' )'') (\<lambda>path. p_then (std_literal '' )'') (p_return path))) (\<lambda>final_path.
      case find (\<lambda>path. is_haskell_source_file (path_of_str path)) (paths @ [final_path]) of
        None \<Rightarrow> p_fail Cut
      | Some path \<Rightarrow> p_return \<lparr>cm_name = name, cm_path = path_of_str path\<rparr>) r3 = Inl Cut"
    by blast
  from bind_Cut [OF c3 b(3)] obtain final_path r4 where
    final: "p_bind (std_take_until1 '' )'') (\<lambda>path. p_then (std_literal '' )'') (p_return path)) r3 = Inr (final_path, r4)"
    and c4: "(case find (\<lambda>path. is_haskell_source_file (path_of_str path)) (paths @ [final_path]) of
        None \<Rightarrow> p_fail Cut
      | Some path \<Rightarrow> p_return \<lparr>cm_name = name, cm_path = path_of_str path\<rparr>) r4 = Inl Cut"
    by blast
  have until: "\<exists>r. std_take_until1 '' )'' r3 = Inr (final_path, r) \<and> r = '' )'' @ r4"
    using final by (auto simp: parser_simps)
  then have f: "r3 = final_path @ '' )'' @ r4" "final_path \<noteq> []" "\<forall>p q. final_path \<noteq> p @ '' )'' @ q"
    using std_take_until1_Inr take_until_shortest by blast+
  have none: "list_all (\<lambda>p. \<not> is_haskell_source_file (path_of_str p)) (paths @ [final_path])"
    using c4 by (auto simp: p_return_def find_None_iff list_all_iff split: option.splits)
  have blanks: "r0 = sp' @ r1" "sp' \<noteq> []" "list_all is_blank sp'"
    using sp by (simp_all add: std_take_while1_Inr list_all_iff) (auto dest: set_takeWhileD)
  have bracket: "r1 = ''( '' @ r2" using open' by (simp add: std_literal_Inr)
  from module_name_chars [OF name] have n: "s = name @ r0" "name \<noteq> []"
    "list_all (\<lambda>c. is_name_char c \<or> c = CHR ''.'') name" by simp_all
  note p = files_parsed [OF refl paths, THEN conjunct1]
    files_parsed [OF refl paths, THEN conjunct2, THEN conjunct1]
    files_parsed [OF refl paths, THEN conjunct2, THEN conjunct2]
  have s: "s = name @ sp' @ ''( '' @ concat (map (\<lambda>p. p @ '', '') paths) @ final_path @ '' )'' @ r4"
    unfolding n(1) blanks(1) bracket p(1) f(1) by simp
  show ?thesis
    unfolding files_without_source_def
    by (rule exI [of _ name], rule exI [of _ sp'], rule exI [of _ paths], rule exI [of _ final_path],
        rule exI [of _ r4], intro conjI s n blanks p(2) p(3) [unfolded f(1)] f none)
qed

lemma compiling_cut:
  assumes "compiling winnow_std b = Inl Cut"
  shows "progress_without_source b"
proof -
  let ?last = "\<lambda>current total. p_bind (module_and_files winnow_std) (\<lambda>module.
      p_bind (rest_of_line winnow_std) (\<lambda>remainder.
        let t = str_trim remainder in
        p_return \<lparr>cp_module = module, cp_current = current, cp_total = total,
          cp_reason = (if t \<noteq> [] then Some t else None)\<rparr>))"
  note c = assms [unfolded compiling_def winnow_std_simps]
  from bind_Cut [OF c backtracks_basic(3)] obtain x1 r1 where 1: "std_literal ''['' b = Inr (x1, r1)"
    and c1: "p_then (std_take_while is_blank) (p_bind (usize_digits winnow_std) (\<lambda>current.
      p_then (std_literal '' of '') (p_bind (usize_digits winnow_std) (\<lambda>total.
      p_then (std_literal '']'') (p_then (std_literal '' Compiling '') (?last current total)))))) r1 = Inl Cut"
    by blast
  from bind_Cut [OF c1 backtracks_basic(4)] obtain sp r2 where 2: "std_take_while is_blank r1 = Inr (sp, r2)"
    and c2: "p_bind (usize_digits winnow_std) (\<lambda>current.
      p_then (std_literal '' of '') (p_bind (usize_digits winnow_std) (\<lambda>total.
      p_then (std_literal '']'') (p_then (std_literal '' Compiling '') (?last current total))))) r2 = Inl Cut"
    by blast
  from bind_Cut [OF c2 backtracks_parts(1)] obtain current r3 where 3: "usize_digits winnow_std r2 = Inr (current, r3)"
    and c3: "p_then (std_literal '' of '') (p_bind (usize_digits winnow_std) (\<lambda>total.
      p_then (std_literal '']'') (p_then (std_literal '' Compiling '') (?last current total)))) r3 = Inl Cut"
    by blast
  from bind_Cut [OF c3 backtracks_basic(3)] obtain x4 r4 where 4: "std_literal '' of '' r3 = Inr (x4, r4)"
    and c4: "p_bind (usize_digits winnow_std) (\<lambda>total.
      p_then (std_literal '']'') (p_then (std_literal '' Compiling '') (?last current total))) r4 = Inl Cut"
    by blast
  from bind_Cut [OF c4 backtracks_parts(1)] obtain total r5 where 5: "usize_digits winnow_std r4 = Inr (total, r5)"
    and c5: "p_then (std_literal '']'') (p_then (std_literal '' Compiling '') (?last current total)) r5 = Inl Cut"
    by blast
  from bind_Cut [OF c5 backtracks_basic(3)] obtain x6 r6 where 6: "std_literal '']'' r5 = Inr (x6, r6)"
    and c6: "p_then (std_literal '' Compiling '') (?last current total) r6 = Inl Cut"
    by blast
  from bind_Cut [OF c6 backtracks_basic(3)] obtain x7 r7 where 7: "std_literal '' Compiling '' r6 = Inr (x7, r7)"
    and c7: "?last current total r7 = Inl Cut"
    by blast
  have cut: "module_and_files winnow_std r7 = Inl Cut"
  proof (cases "module_and_files winnow_std r7")
    case (Inl e)
    with c7 show ?thesis by (simp add: p_bind_def)
  next
    case (Inr y)
    have "backtracks (p_bind (rest_of_line winnow_std) (\<lambda>remainder.
        let t = str_trim remainder in
        p_return \<lparr>cp_module = m, cp_current = current, cp_total = total,
          cp_reason = (if t \<noteq> [] then Some t else None)\<rparr>))" for m
      unfolding Let_def by (intro backtrack_intros)
    with c7 Inr show ?thesis by (cases y) (auto simp: p_bind_def [of "module_and_files _"] backtracks_def)
  qed
  have digits: "\<exists>d. d \<noteq> [] \<and> list_all is_digit d \<and> s = d @ r" if "usize_digits winnow_std s = Inr (n, r)" for s n r
    using that by (auto simp: usize_digits_def parser_simps list_all_iff dest: set_takeWhileD
        intro!: exI [of _ "takeWhile is_digit s"])
  from digits [OF 3] digits [OF 5] obtain d e where de: "d \<noteq> []" "list_all is_digit d" "r2 = d @ r3"
    "e \<noteq> []" "list_all is_digit e" "r4 = e @ r5" by blast
  have "b = ''['' @ sp @ d @ '' of '' @ e @ ''] Compiling '' @ r7" "list_all is_blank sp"
    using 1 2 4 6 7 de by (auto simp: parser_simps list_all_iff dest: set_takeWhileD)
  with de module_and_files_cut [OF cut] show ?thesis
    unfolding progress_without_source_def by (intro exI conjI)
qed

section \<open>Properties\<close>

text \<open>
  C34: parsing GHC's output fails only for a progress line without a source file. Without carriage
  returns every other text is read to its end, whatever lines it has; an error means that some line
  begins a progress message, with its two numbers, module name and files in brackets, of whose files
  none is a Haskell source.
\<close>

theorem output_fails_only_for_sources:
  assumes "winnow_documented W" and "carriage_return \<notin> set (strip lines)"
    and "parse_ghc_messages W from_json strip lines = Inl e"
  shows "\<exists>b. line_starts (strip lines) b \<and> progress_without_source b"
  using items_end [OF refl assms(2), of from_json] documented_std [OF assms(1)] assms(3) compiling_cut
  by (auto simp: parse_ghc_messages_def p_parse_def parse_messages_inner_def p_map_def p_bind_def p_return_def)

theorem output_fails_only_for_sources_witness:
  "\<exists>b. line_starts ''x\<newline>[1 of 1] Compiling A ( A.o )\<newline>'' b \<and> progress_without_source b"
proof -
  let ?s = "''x\<newline>[1 of 1] Compiling A ( A.o )\<newline>''"
  have "parse_ghc_messages winnow_std (\<lambda>_. Inl (IoError [])) id ?s = Inl (IoError ''parse error'')" by code_simp
  moreover have "carriage_return \<notin> set (id ?s)" by code_simp
  ultimately show ?thesis
    using output_fails_only_for_sources [OF winnow_documented_std, of id ?s] by simp
qed

definition placeholders :: "string list" where
  "placeholders = [''<no location info>'', ''<compiler-generated code>'', ''<interactive>'']"

lemma unhelpful_Inr:
  "parse_unhelpful_position winnow_std s = Inr (x, r) \<Longrightarrow> \<exists>p \<in> set placeholders. s = p @ CHR '':'' # r"
  by (auto simp: parse_unhelpful_position_def placeholders_def parser_simps)

lemma placeholder_path:
  assumes "p \<in> set placeholders"
  shows "path_colon winnow_std (p @ CHR '':'' # r) = Inr ([Normal p], r)"
proof -
  have "\<forall>c \<in> set p. c \<noteq> CHR '':'' \<and> c \<noteq> newline" and "p \<noteq> []" and "path_of_str p = [Normal p]"
    using assms by (auto simp: placeholders_def path_of_str_def prefix_def)
  then show ?thesis
    by (simp add: path_colon_def p_map_def p_bind_def p_return_def std_take_while1_def nonempty_def takeWhile_append2
        dropWhile_append2 std_literal_def)
qed

lemma range_at_blank: "std_take_while1 is_blank s = Inr x \<Longrightarrow> parse_position_range winnow_std s = Inl Backtrack"
  by (cases s)
     (auto simp: std_take_while1_def nonempty_def parse_position_range_def p_or_def parse_full_position_range_def
       parse_single_line_position_range_def p_bind_def std_literal_def usize_digits_def p_try_map_def is_digit_def is_blank_def
       split: if_splits)

lemma until_newline_append:
  assumes "until_newline winnow_std s = Inr (line, r)" and "\<forall>c \<in> set a. \<not> is_line_end c"
  shows "until_newline winnow_std (a @ s) = Inr (a @ line, r)"
  using assms
  by (auto simp: until_newline_def line_ending_or_eof_def p_bind_def std_till_line_ending_def Let_def takeWhile_append2
      dropWhile_append2 p_fail_def p_return_def split: sum.splits if_splits)

lemma repeat_total:
  "backtracks p \<Longrightarrow> \<forall>s x r. p s = Inr (x, r) \<longrightarrow> length r < length s \<Longrightarrow> \<exists>xs t. p_repeat p s = Inr (xs, t)"
proof (induction p s rule: p_repeat.induct)
  case (1 p s)
  show ?case
  proof (cases "p s")
    case (Inl e)
    with backtracksD [OF 1(2), of s] have "e = Backtrack" by (cases e) auto
    with Inl show ?thesis by (simp add: p_repeat_stop)
  next
    case (Inr b)
    obtain x r where b: "b = (x, r)" by (cases b)
    with Inr 1(3) have len: "length r < length s" by blast
    from 1(1) [OF Inr b [symmetric] len 1(2,3)] obtain xs t where "p_repeat p r = Inr (xs, t)" by blast
    with Inr b len show ?thesis by (simp add: p_repeat.simps [of p s])
  qed
qed

lemma body_line_consumes: "parse_message_body_line winnow_std s = Inr (x, r) \<Longrightarrow> length r < length s"
proof -
  assume "parse_message_body_line winnow_std s = Inr (x, r)"
  then obtain y t z where t: "p_alt [std_take_while1 is_blank, p_then (std_take_while1 (\<lambda>c. is_blank c \<or> is_digit c)) (std_literal ''|'')] s = Inr (y, t)"
    "rest_of_line winnow_std t = Inr (z, r)"
    by (auto simp: parse_message_body_line_def p_recognize_Inr p_bind_Inr simp del: p_alt.simps)
  have "keeps_suffix (p_alt [std_take_while1 is_blank, p_then (std_take_while1 (\<lambda>c. is_blank c \<or> is_digit c)) (std_literal ''|'')])"
    by (auto intro!: suffix_intros)
  from suffix_length_le [OF keeps_suffixD [OF this t(1)]] rest_of_line_Inr [OF t(2)] show ?thesis by (cases z) auto
qed

lemma message_body_total:
  assumes "rest_of_line winnow_std s = Inr (line, r)"
  shows "\<exists>x t. parse_message_body winnow_std s = Inr (x, t)"
proof -
  have "backtracks (parse_message_body_line winnow_std)"
    unfolding parse_message_body_line_def by (intro backtrack_intros) (auto intro!: backtrack_intros)
  from repeat_total [OF this, of r] body_line_consumes
  obtain xs t where "p_repeat (parse_message_body_line winnow_std) r = Inr (xs, t)" by blast
  with assms show ?thesis
    by (simp add: parse_message_body_def p_recognize_def p_with_recognized_def p_map_def p_bind_def p_return_def)
qed

lemma generic_of_unhelpful:
  assumes "parse_unhelpful_position winnow_std s = Inr (x, t)" and "std_take_while1 is_blank t = Inr (b, t1)"
    and "parse_severity_colon winnow_std t1 = Inr (sev, t2)"
    and "\<exists>body r. parse_message_body winnow_std (dropWhile is_blank t2) = Inr (body, r)"
  shows "\<exists>d r p. generic_diagnostic winnow_std s = Inr (d, r) \<and> diag_path d = Some [Normal p] \<and> p \<in> set placeholders \<and> prefix p s"
proof -
  obtain p where p: "p \<in> set placeholders" "s = p @ CHR '':'' # t" using unhelpful_Inr [OF assms(1)] by blast
  obtain body r where body: "parse_message_body winnow_std (dropWhile is_blank t2) = Inr (body, r)" using assms(4) by blast
  have "p_opt (parse_position_range winnow_std) t = Inr (None, t)"
    using range_at_blank [OF assms(2)] by (simp add: p_opt_Inr)
  with placeholder_path [OF p(1), of t] assms(2,3) body p show ?thesis
    by (simp add: generic_diagnostic_def p_bind_def std_take_while_def p_return_def)
qed

lemma item_at_placeholder:
  assumes "p \<in> set placeholders" and "generic_diagnostic winnow_std (p @ r) = Inr (d, t)"
  shows "output_item_parser winnow_std from_json (p @ r) = Inr (One (Diagnostic d), t)"
proof -
  obtain q where q: "p = CHR ''<'' # q" using assms(1) by (auto simp: placeholders_def)
  then have "compiling winnow_std (p @ r) = Inl Backtrack" "parse_json_diagnostic winnow_std from_json (p @ r) = Inl Backtrack"
    by (simp_all add: compiling_def parse_json_diagnostic_def p_try_map_def p_bind_def p_recognize_def p_with_recognized_def
        p_map_def std_literal_def std_take_while_def is_blank_def)
  with assms(2) show ?thesis
    by (simp add: output_item_parser_def p_or_def p_map_def p_bind_def p_return_def)
qed

text \<open>
  C35: a diagnostic without a location is taken for one of a file. Whatever the parser of unlocated
  diagnostics or of missing files accepts, an earlier alternative takes, and reports the placeholder
  \<open><no location info>\<close> as the path of the source, so a missing file's name is lost.
\<close>

theorem placeholder_taken_for_path:
  assumes "winnow_documented W"
    and "no_location_info_diagnostic W s = Inr x \<or> cant_find_file_diagnostic W s = Inr x"
  shows "\<exists>d r p. output_item_parser W from_json s = Inr (One (Diagnostic d), r) \<and>
    diag_path d = Some [Normal p] \<and> p \<in> set placeholders"
proof -
  have W: "W = winnow_std" using assms(1) by (rule documented_std)
  have "\<exists>d r p. generic_diagnostic winnow_std s = Inr (d, r) \<and> diag_path d = Some [Normal p] \<and> p \<in> set placeholders \<and> prefix p s"
    using assms(2)
  proof
    assume "no_location_info_diagnostic W s = Inr x"
    then obtain y t b t1 sev t2 body r where
      "parse_unhelpful_position winnow_std s = Inr (y, t)" "std_take_while1 is_blank t = Inr (b, t1)"
      "parse_severity_colon winnow_std t1 = Inr (sev, t2)" "parse_message_body winnow_std (dropWhile is_blank t2) = Inr (body, r)"
      by (auto simp: no_location_info_diagnostic_def W p_bind_Inr std_take_while_Inr)
    then show ?thesis by (intro generic_of_unhelpful) blast+
  next
    assume "cant_find_file_diagnostic W s = Inr x"
    then obtain y t b t1 sev t2 t3 path r where u:
      "parse_unhelpful_position winnow_std s = Inr (y, t)" "std_take_while1 is_blank t = Inr (b, t1)"
      "parse_severity_colon winnow_std t1 = Inr (sev, t2)" "dropWhile is_blank t2 = (''can'' @ CHR 0x27 # ''t find file: '') @ t3"
      "until_newline winnow_std t3 = Inr (path, r)"
      by (auto simp: cant_find_file_diagnostic_def W p_bind_Inr std_take_while1_Inr std_literal_Inr)
    from until_newline_append [OF u(5), of "''can'' @ CHR 0x27 # ''t find file: ''"] u(4)
    have "\<exists>line. rest_of_line winnow_std (dropWhile is_blank t2) = Inr (line, r)"
      by (auto simp: rest_of_line_def p_recognize_Inr is_line_end_def carriage_return_def)
    with message_body_total u(1-3) show ?thesis by (intro generic_of_unhelpful) blast+
  qed
  then obtain d r p where d: "generic_diagnostic winnow_std s = Inr (d, r)" "diag_path d = Some [Normal p]"
    "p \<in> set placeholders" "prefix p s" by blast
  then obtain q where "s = p @ q" by (auto simp: prefix_def)
  with item_at_placeholder [OF d(3)] d W show ?thesis by blast
qed

theorem placeholder_taken_for_path_witness:
  "\<exists>d r p. output_item_parser winnow_std (\<lambda>_. Inl (IoError []))
      (''<no location info>: error: can'' @ CHR 0x27 # ''t find file: Why.hs\<newline>'') = Inr (One (Diagnostic d), r) \<and>
    diag_path d = Some [Normal p] \<and> p \<in> set placeholders"
proof -
  let ?s = "''<no location info>: error: can'' @ CHR 0x27 # ''t find file: Why.hs\<newline>''"
  have "cant_find_file_diagnostic winnow_std ?s = Inr (\<lparr>diag_severity = Error, diag_path = Some [Normal ''Why.hs''],
      diag_span = position_range_default, diag_message = ''can'' @ CHR 0x27 # ''t find file''\<rparr>, [])" by code_simp
  from placeholder_taken_for_path [OF winnow_documented_std disjI2 [OF this]] show ?thesis .
qed

end
