(* ===== verification/MessageRoundtrip.thy ===== *)
theory MessageRoundtrip
  imports MessageProps ErrorLog
begin

text \<open>
  The parsers of GHC's output read back what the program prints: the spans of positions and the
  diagnostics of the error log.
\<close>

section \<open>Spans\<close>

lemma parse_usize_show: "parse_usize (show_word w) = Some w"
proof -
  have "unat w < 2 ^ LENGTH(64)" by (rule unsigned_less)
  then show ?thesis by (simp add: parse_usize_def show_word_def read_show_nat Let_def)
qed

lemma usize_digits_run: "\<not> is_digit c \<Longrightarrow> usize_digits winnow_std (show_word w @ c # s) = Inr (w, c # s)"
  using show_nat_digits [of _ "unat w"] parse_usize_show [of w]
  by (simp add: usize_digits_def p_try_map_def p_bind_def p_return_def std_take_while1_def nonempty_def show_word_def
      takeWhile_append2 dropWhile_append2)

lemma full_range_miss: "parse_full_position_range winnow_std (show_word w @ s) = Inl Backtrack"
  using show_word_hd(2) [of w s] by (simp add: parse_full_position_range_def p_bind_def std_literal_def prefix_def)

lemma position_range_cases:
  obtains a b c d where "r = position_range_new a b c d"
proof
  show "r = position_range_new (pos_line (range_start r)) (pos_column (range_start r)) (pos_line (range_end r)) (pos_column (range_end r))"
    by (simp add: position_range_new_def)
qed

lemma position_range_read: "parse_position_range winnow_std (show_position_range r @ CHR '':'' # s) = Inr (r, s)"
proof -
  obtain a b c d where r: "r = position_range_new a b c d" by (rule position_range_cases)
  consider "a = c \<and> b = d" | "a = c \<and> b \<noteq> d" | "a \<noteq> c" by blast
  then show ?thesis
  proof cases
    case 1
    then show ?thesis
      using full_range_miss [of a]
      by (simp add: r show_position_range_text range_shape_def parse_position_range_def p_or_def
          parse_single_line_position_range_def p_bind_def usize_digits_run std_literal_def p_opt_def p_map_def p_return_def)
  next
    case 2
    then show ?thesis
      using full_range_miss [of a]
      by (simp add: r show_position_range_text range_shape_def parse_position_range_def p_or_def
          parse_single_line_position_range_def p_bind_def usize_digits_run std_literal_def p_opt_def p_map_def p_return_def)
  next
    case 3
    then show ?thesis
      by (simp add: r show_position_range_text range_shape_def numeral_2_eq_2 parse_position_range_def p_or_def
          parse_full_position_range_def p_bind_def usize_digits_run std_literal_def p_return_def)
  qed
qed

section \<open>Diagnostics\<close>

abbreviation blank_or_digit :: "char \<Rightarrow> bool" where
  "blank_or_digit \<equiv> \<lambda>c. is_blank c \<or> is_digit c"

text \<open>A path as GHC prints it, and the body of a message: its lines are indented or have a line number before a bar.\<close>

definition readable_path :: "path \<Rightarrow> bool" where
  "readable_path p \<longleftrightarrow>
     (let t = path_str p in
      t \<noteq> [] \<and> CHR '':'' \<notin> set t \<and> newline \<notin> set t \<and> path_of_str t = p \<and>
      hd t \<notin> {CHR ''['', CHR ''{''} \<and> \<not> is_blank (hd t) \<and> \<not> prefix ''|'' (dropWhile blank_or_digit t))"

definition body_line :: "string \<Rightarrow> bool" where
  "body_line l \<longleftrightarrow>
     (\<forall>c \<in> set l. \<not> is_line_end c) \<and>
     (l \<noteq> [] \<and> is_blank (hd l) \<or> takeWhile blank_or_digit l \<noteq> [] \<and> prefix ''|'' (dropWhile blank_or_digit l))"

definition readable_message :: "string \<Rightarrow> bool" where
  "readable_message m \<longleftrightarrow>
     (\<exists>line ls. m = line @ newline # unlines ls \<and> (\<forall>c \<in> set line. \<not> is_line_end c) \<and>
        (line \<noteq> [] \<longrightarrow> \<not> is_blank (hd line)) \<and> (\<forall>l \<in> set ls. body_line l))"

definition readable :: "ghc_diagnostic \<Rightarrow> bool" where
  "readable d \<longleftrightarrow> (\<exists>p. diag_path d = Some p \<and> readable_path p) \<and> readable_message (diag_message d)"

lemma not_body_chars [simp]: "\<not> is_blank newline" "\<not> is_digit newline" "\<not> is_blank CHR ''|''" "\<not> is_digit CHR ''|''"
  by (simp_all add: is_blank_def is_digit_def)

lemma body_line_run:
  assumes "body_line l"
  shows "parse_message_body_line winnow_std (l @ newline # r) = Inr (l @ [newline], r)"
proof -
  have one: "\<forall>c \<in> set l. \<not> is_line_end c" using assms by (simp add: body_line_def)
  have "p_then (p_alt [std_take_while1 is_blank, p_then (std_take_while1 blank_or_digit) (std_literal ''|'')])
    (rest_of_line winnow_std) (l @ newline # r) = Inr (dropWhile is_blank l @ [newline], r) \<or>
    (\<exists>x. p_then (p_alt [std_take_while1 is_blank, p_then (std_take_while1 blank_or_digit) (std_literal ''|'')])
    (rest_of_line winnow_std) (l @ newline # r) = Inr (x, r))"
  proof (cases "l \<noteq> [] \<and> is_blank (hd l)")
    case True
    have "\<forall>c \<in> set (dropWhile is_blank l). \<not> is_line_end c" using one by (auto dest: set_dropWhileD)
    from rest_of_line_run [OF this, of r] True show ?thesis
      by (cases l) (simp_all add: p_bind_def p_or_def std_take_while1_def nonempty_def dropWhile_append3)
  next
    case False
    with assms obtain t where t: "dropWhile blank_or_digit l = CHR ''|'' # t" "takeWhile blank_or_digit l \<noteq> []"
      by (auto simp: body_line_def prefix_def)
    have "set t \<subseteq> set l" using set_dropWhileD [of _ blank_or_digit l] t(1) by auto
    with one have "\<forall>c \<in> set t. \<not> is_line_end c" by blast
    note rest = rest_of_line_run [OF this, of r]
    have drop: "dropWhile blank_or_digit (l @ newline # r) = CHR ''|'' # t @ newline # r" using t(1) by (simp add: dropWhile_append3)
    have taken: "takeWhile blank_or_digit (l @ newline # r) \<noteq> []" using t(2) by (simp add: takeWhile_tail)
    have "takeWhile is_blank (l @ newline # r) = []" using False by (cases l) auto
    with rest drop taken show ?thesis
      by (simp add: p_bind_def p_or_def std_take_while1_def nonempty_def std_literal_def)
  qed
  then obtain x where "p_then (p_alt [std_take_while1 is_blank, p_then (std_take_while1 blank_or_digit) (std_literal ''|'')])
    (rest_of_line winnow_std) (l @ newline # r) = Inr (x, r)" by auto
  then show ?thesis by (simp add: parse_message_body_line_def p_recognize_Inr)
qed

lemma body_lines_run:
  assumes "\<forall>l \<in> set ls. body_line l" and "parse_message_body_line winnow_std r = Inl Backtrack"
  shows "\<exists>xs. p_repeat (parse_message_body_line winnow_std) (unlines ls @ r) = Inr (xs, r)"
  using assms(1)
proof (induction ls)
  case Nil
  with assms(2) show ?case by (simp add: p_repeat_stop)
next
  case (Cons l ls)
  then obtain xs where "p_repeat (parse_message_body_line winnow_std) (unlines ls @ r) = Inr (xs, r)" by auto
  with Cons.prems body_line_run [of l "unlines ls @ r"] show ?case
    by (simp add: p_repeat.simps [of _ "l @ _"])
qed

lemma message_body_run:
  assumes "readable_message m" and "parse_message_body_line winnow_std r = Inl Backtrack"
  shows "parse_message_body winnow_std (m @ r) = Inr (m, r)"
proof -
  obtain line ls where m: "m = line @ newline # unlines ls" "\<forall>c \<in> set line. \<not> is_line_end c" "\<forall>l \<in> set ls. body_line l"
    using assms(1) by (auto simp: readable_message_def)
  from body_lines_run [OF m(3) assms(2)] obtain xs where
    "p_repeat (parse_message_body_line winnow_std) (unlines ls @ r) = Inr (xs, r)" by blast
  then have "p_recognize (p_repeat (parse_message_body_line winnow_std)) (unlines ls @ r) = Inr (unlines ls, r)"
    by (simp add: p_recognize_Inr)
  with rest_of_line_run [OF m(2), of "unlines ls @ r"]
  have "p_then (rest_of_line winnow_std) (p_recognize (p_repeat (parse_message_body_line winnow_std))) (m @ r) = Inr (unlines ls, r)"
    by (simp add: m(1) p_bind_def)
  then show ?thesis by (simp add: parse_message_body_def p_recognize_Inr)
qed

lemma severity_run: "parse_severity_colon winnow_std (show_severity sev @ CHR '':'' # s) = Inr (sev, s)"
  by (cases sev)
     (simp_all add: parse_severity_colon_def p_bind_def p_return_def std_take_until1_def nonempty_def std_literal_def)

lemma path_colon_run:
  assumes "readable_path p"
  shows "path_colon winnow_std (path_str p @ CHR '':'' # s) = Inr (p, s)"
proof -
  have "\<forall>c \<in> set (path_str p). c \<noteq> CHR '':'' \<and> c \<noteq> newline" and "path_str p \<noteq> []" and "path_of_str (path_str p) = p"
    using assms by (auto simp: readable_path_def Let_def)
  then show ?thesis
    by (simp add: path_colon_def p_map_def p_bind_def p_return_def std_take_while1_def nonempty_def takeWhile_append2
        dropWhile_append2 std_literal_def)
qed

lemma zero_range: "position_range_is_zero r \<Longrightarrow> r = position_range_default"
  by (rule position_range_cases [of r])
     (simp add: position_range_is_zero_def position_is_zero_def position_range_new_def position_range_default_def)

lemma message_skip:
  assumes "readable_message m"
  shows "dropWhile is_blank ((if starts_with m [newline] then m else '' '' @ m) @ r) = m @ r"
proof -
  obtain line ls where "m = line @ newline # unlines ls" "line \<noteq> [] \<longrightarrow> \<not> is_blank (hd line)"
    using assms by (auto simp: readable_message_def)
  then show ?thesis by (cases line) (auto simp: starts_with_def is_blank_def)
qed

lemma after_path_run:
  assumes "readable_message (diag_message d)" and "parse_message_body_line winnow_std r = Inl Backtrack"
  shows "p_then (std_take_while1 is_blank) (p_bind (parse_severity_colon winnow_std) (\<lambda>severity.
      p_then (std_take_while is_blank) (p_bind (parse_message_body winnow_std) (\<lambda>message. f severity message))))
    ('' '' @ show_severity (diag_severity d) @ CHR '':'' #
      (if starts_with (diag_message d) [newline] then diag_message d else '' '' @ diag_message d) @ r) =
    f (diag_severity d) (diag_message d) r"
proof -
  have "takeWhile is_blank ('' '' @ show_severity sev @ s) = '' ''" "dropWhile is_blank ('' '' @ show_severity sev @ s) = show_severity sev @ s" for sev s
    by (cases sev; simp add: is_blank_def)+
  then show ?thesis
    using message_skip [OF assms(1), of r] message_body_run [OF assms]
    by (simp add: p_bind_def std_take_while1_def nonempty_def severity_run std_take_while_def)
qed

lemma generic_run:
  assumes "readable d" and "parse_message_body_line winnow_std r = Inl Backtrack"
  shows "generic_diagnostic winnow_std (show_diagnostic d @ r) = Inr (d, r)"
proof -
  obtain p where p: "diag_path d = Some p" "readable_path p" and m: "readable_message (diag_message d)"
    using assms(1) by (auto simp: readable_def)
  define tail where "tail = '' '' @ show_severity (diag_severity d) @ CHR '':'' #
      (if starts_with (diag_message d) [newline] then diag_message d else '' '' @ diag_message d) @ r"
  have run: "p_then (std_take_while1 is_blank) (p_bind (parse_severity_colon winnow_std) (\<lambda>severity.
      p_then (std_take_while is_blank) (p_bind (parse_message_body winnow_std) (\<lambda>message. f severity message)))) tail =
    f (diag_severity d) (diag_message d) r" for f :: "severity \<Rightarrow> string \<Rightarrow> ghc_diagnostic parser"
    unfolding tail_def by (rule after_path_run [OF m assms(2)])
  have span: "\<exists>u x. show_diagnostic d @ r = path_str p @ CHR '':'' # u \<and> p_opt (parse_position_range winnow_std) u = Inr (x, tail) \<and>
    (case x of Some r \<Rightarrow> r | None \<Rightarrow> position_range_default) = diag_span d"
  proof (cases "position_range_is_zero (diag_span d)")
    case True
    have "parse_position_range winnow_std tail = Inl Backtrack"
      by (rule range_at_blank [where x = "('' '', dropWhile is_blank tail)"])
         (cases "diag_severity d"; simp add: tail_def std_take_while1_def nonempty_def is_blank_def)
    then have "p_opt (parse_position_range winnow_std) tail = Inr (None, tail)" by (simp add: p_opt_Inr)
    with True zero_range [OF True] p(1) show ?thesis
      by (intro exI [of _ tail] exI [of _ None]) (simp add: show_diagnostic_def tail_def)
  next
    case False
    let ?u = "show_position_range (diag_span d) @ CHR '':'' # tail"
    have "p_opt (parse_position_range winnow_std) ?u = Inr (Some (diag_span d), tail)"
      using position_range_read [of "diag_span d" tail] by (simp add: p_opt_Inr)
    with False p(1) show ?thesis
      by (intro exI [of _ ?u] exI [of _ "Some (diag_span d)"]) (simp add: show_diagnostic_def tail_def)
  qed
  then obtain u x where u: "show_diagnostic d @ r = path_str p @ CHR '':'' # u"
    "p_opt (parse_position_range winnow_std) u = Inr (x, tail)"
    "(case x of Some r \<Rightarrow> r | None \<Rightarrow> position_range_default) = diag_span d" by blast
  have "generic_diagnostic winnow_std (show_diagnostic d @ r) =
    p_return \<lparr>diag_severity = diag_severity d, diag_path = Some p, diag_span = diag_span d, diag_message = diag_message d\<rparr> r"
    unfolding generic_diagnostic_def winnow_std_simps
    using u(3) by (simp add: u(1) p_bind_run [where p = "path_colon winnow_std", OF path_colon_run [OF p(2)]]
        p_bind_run [where p = "p_opt (parse_position_range winnow_std)", OF u(2)] run)
  with p(1) show ?thesis by (simp add: p_return_def)
qed

section \<open>The error log\<close>

lemma show_diagnostic_path: "diag_path d = Some p \<Longrightarrow> \<exists>u. show_diagnostic d = path_str p @ CHR '':'' # u"
  by (simp add: show_diagnostic_def)

lemma body_stops:
  assumes "readable d"
  shows "parse_message_body_line winnow_std (show_diagnostic d @ r) = Inl Backtrack"
proof -
  obtain p u where p: "readable_path p" "show_diagnostic d @ r = path_str p @ CHR '':'' # u"
    using assms show_diagnostic_path by (fastforce simp: readable_def)
  obtain c t where t: "path_str p = c # t" "\<not> is_blank c" "\<not> prefix ''|'' (dropWhile blank_or_digit (path_str p))"
    using p(1) by (cases "path_str p") (auto simp: readable_path_def Let_def)
  have "\<not> prefix ''|'' (dropWhile blank_or_digit (path_str p @ CHR '':'' # u))"
    using t(3) by (cases "dropWhile blank_or_digit (path_str p)") (simp_all add: dropWhile_append3 is_blank_def)
  then have "p_then (std_take_while1 blank_or_digit) (std_literal ''|'') (path_str p @ CHR '':'' # u) = Inl Backtrack"
    by (simp add: p_bind_def std_take_while1_def nonempty_def std_literal_def)
  moreover have "std_take_while1 is_blank (path_str p @ CHR '':'' # u) = Inl Backtrack"
    using t(1,2) by (simp add: std_take_while1_def nonempty_def)
  ultimately show ?thesis
    by (simp add: p(2) parse_message_body_line_def p_recognize_def p_with_recognized_def p_map_def p_bind_stop p_or_def)
qed

lemma item_of_diagnostic:
  assumes "readable d" and "parse_message_body_line winnow_std r = Inl Backtrack"
  shows "output_item_parser winnow_std from_json (show_diagnostic d @ r) = Inr (One (Diagnostic d), r)"
proof -
  obtain p u where p: "readable_path p" "show_diagnostic d @ r = path_str p @ CHR '':'' # u"
    using assms show_diagnostic_path by (fastforce simp: readable_def)
  obtain c t where t: "path_str p = c # t" "c \<noteq> CHR ''[''" "c \<noteq> CHR ''{''" "\<not> is_blank c"
    using p(1) by (cases "path_str p") (auto simp: readable_path_def Let_def)
  have "compiling winnow_std (show_diagnostic d @ r) = Inl Backtrack"
    "parse_json_diagnostic winnow_std from_json (show_diagnostic d @ r) = Inl Backtrack"
    using t by (simp_all add: p(2) compiling_def parse_json_diagnostic_def p_try_map_def p_bind_def p_recognize_def
        p_with_recognized_def p_map_def std_literal_def std_take_while_def)
  with generic_run [OF assms] show ?thesis
    by (simp add: output_item_parser_def p_or_def p_map_def p_bind_def p_return_def)
qed

lemma diagnostics_read:
  assumes "\<forall>d \<in> set ds. readable d"
  shows "p_repeat (output_item_parser winnow_std from_json) (concat (map show_diagnostic ds)) =
    Inr (map (\<lambda>d. One (Diagnostic d)) ds, [])"
  using assms
proof (induction ds)
  case Nil
  have "output_item_parser winnow_std from_json [] = Inl Backtrack"
    unfolding output_item_parser_def by code_simp
  then show ?case by (simp add: p_repeat_stop)
next
  case (Cons d ds)
  let ?r = "concat (map show_diagnostic ds)"
  have "parse_message_body_line winnow_std ?r = Inl Backtrack"
  proof (cases ds)
    case Nil
    then show ?thesis by simp code_simp
  next
    case (Cons d2 ds2)
    with Cons.prems body_stops [of d2 "concat (map show_diagnostic ds2)"] show ?thesis by simp
  qed
  with Cons.prems item_of_diagnostic [of d ?r from_json]
  have "output_item_parser winnow_std from_json (show_diagnostic d @ ?r) = Inr (One (Diagnostic d), ?r)" by simp
  moreover have "0 < length (show_diagnostic d)" by (simp add: show_diagnostic_def)
  ultimately show ?case using Cons by (simp add: p_repeat.simps [of _ "show_diagnostic d @ _"])
qed

text \<open>
  C36: what the error log prints of GHC's located diagnostics can be read back. Printing diagnostics one
  after another and parsing the text as GHC's output gives the same diagnostics, with their severity,
  path, span and message, in order, whatever the spans, for diagnostics that have a path and whose paths
  and messages have the shape GHC gives them: no colon or line break in a path, and a first message line
  followed by lines that are indented or begin with a line number and a bar. A synthetic diagnostic
  without a path is not among them: it is read back with its placeholder as the path.
\<close>

theorem diagnostics_roundtrip:
  assumes "winnow_documented W" and "\<forall>d \<in> set (published_diagnostics l). readable d"
    and "strip (concat (map show_diagnostic (published_diagnostics l))) = concat (map show_diagnostic (published_diagnostics l))"
  shows "parse_ghc_messages W from_json strip (concat (map show_diagnostic (published_diagnostics l))) =
    Inr (map Diagnostic (published_diagnostics l))"
  using diagnostics_read [OF assms(2), of from_json]
  by (simp add: parse_ghc_messages_def p_parse_Inr parse_messages_inner_def p_map_Inr documented_std [OF assms(1)] assms(3) comp_def)

definition demo_diagnostic :: ghc_diagnostic where
  "demo_diagnostic = \<lparr>diag_severity = Error, diag_path = Some [Normal ''A.hs''], diag_span = position_range_new 4 11 4 14,
     diag_message = ''[GHC-83865]\<newline>    no\<newline>4 | x\<newline>''\<rparr>"

theorem diagnostics_roundtrip_witness:
  "parse_ghc_messages winnow_std (\<lambda>_. Inl (IoError [])) id (show_diagnostic demo_diagnostic) = Inr [Diagnostic demo_diagnostic]"
proof -
  let ?l = "compilation_log_default\<lparr>cl_diagnostics := [demo_diagnostic]\<rparr>"
  have "readable_path [Normal ''A.hs'']" by code_simp
  moreover have "readable_message (diag_message demo_diagnostic)"
    unfolding readable_message_def
    by (rule exI [of _ "''[GHC-83865]''"], rule exI [of _ "[''    no'', ''4 | x'']"]) code_simp
  ultimately have "readable demo_diagnostic" by (simp add: readable_def demo_diagnostic_def)
  then show ?thesis
    using diagnostics_roundtrip [OF winnow_documented_std, of ?l id "\<lambda>_. Inl (IoError [])"] by (simp add: published_diagnostics_def compilation_log_default_def)
qed

end
