(* ===== verification/ShowParser.thy ===== *)
theory ShowParser
  imports Lines ShowPaths
begin

text \<open>
  The parsers of GHCi's listings: \<open>:show paths\<close> (\<open>src/src/ghci/parse/show_paths.rs\<close>) and \<open>:show targets\<close>
  (\<open>show_targets.rs\<close>). The order in which a \<open>HashSet\<close> gives its elements is a parameter.
\<close>

section \<open>Parsers\<close>

definition search_path_entry :: "winnow \<Rightarrow> path \<Rightarrow> path parser" where
  "search_path_entry W cwd =
     p_then (w_space1 W) (p_map (\<lambda>line.
       let path = path_of_str line in if \<not> is_absolute path then path_join cwd path else path) (until_newline W))"

definition show_paths_parser :: "winnow \<Rightarrow> show_paths parser" where
  "show_paths_parser W =
     p_then (w_literal W ''current working directory:'') (p_then (w_space0 W) (p_then (w_newline W) (p_then (w_space0 W)
     (p_bind (p_map path_of_str (until_newline W)) (\<lambda>cwd.
      p_then (w_literal W ''module import search paths:'')
      (p_bind (p_opt (w_literal W ('' none'' @ [newline]))) (\<lambda>no_import_paths.
       if no_import_paths \<noteq> None then p_return \<lparr>sp_cwd = cwd, sp_search_paths = []\<rparr>
       else p_then (w_newline W) (p_bind (p_repeat (search_path_entry W cwd)) (\<lambda>search_paths.
         p_return \<lparr>sp_cwd = cwd, sp_search_paths = search_paths\<rparr>)))))))))"

definition parse_show_paths :: "winnow \<Rightarrow> (path set \<Rightarrow> path list) \<Rightarrow> string \<Rightarrow> show_paths res" where
  "parse_show_paths W elements input =
     res_bind (p_parse (show_paths_parser W) input) (\<lambda>sp.
       Inr (sp\<lparr>sp_search_paths := elements (set (sp_search_paths sp))\<rparr>))"

definition parse_show_targets ::
  "winnow \<Rightarrow> path_env \<Rightarrow> (path \<Rightarrow> bool) \<Rightarrow> show_paths \<Rightarrow> string \<Rightarrow> module_set res" where
  "parse_show_targets W penv exists_path sp input =
     res_bind (p_parse (p_repeat (until_newline W)) input) (targets_of_lines penv exists_path sp)"

section \<open>Reading GHCi's listings\<close>

definition listable :: "path \<Rightarrow> bool" where
  "listable p \<longleftrightarrow> (let t = path_str p in
     t \<noteq> [] \<and> \<not> is_blank (hd t) \<and> (\<forall>c \<in> set t. \<not> is_line_end c) \<and> path_of_str t = p)"

definition paths_listing :: "path \<Rightarrow> path list \<Rightarrow> string" where
  "paths_listing cwd roots =
     ''current working directory:'' @ newline # ''  '' @ path_str cwd @ newline # ''module import search paths:'' @
     (if roots = [] then '' none'' @ [newline] else newline # concat (map (\<lambda>p. ''  '' @ path_str p @ [newline]) roots))"

lemma listed_line:
  assumes "listable p"
  shows "std_take_while1 is_blank (''  '' @ path_str p @ newline # r) = Inr (''  '', path_str p @ newline # r)"
    "std_take_while is_blank (''  '' @ path_str p @ newline # r) = Inr (''  '', path_str p @ newline # r)"
    "until_newline winnow_std (path_str p @ newline # r) = Inr (path_str p, r)"
proof -
  obtain c t where t: "path_str p = c # t" "\<not> is_blank c"
    using assms by (cases "path_str p") (auto simp: listable_def Let_def)
  then show "std_take_while1 is_blank (''  '' @ path_str p @ newline # r) = Inr (''  '', path_str p @ newline # r)"
    "std_take_while is_blank (''  '' @ path_str p @ newline # r) = Inr (''  '', path_str p @ newline # r)"
    by (simp_all add: std_take_while1_def std_take_while_def nonempty_def is_blank_def)
  show "until_newline winnow_std (path_str p @ newline # r) = Inr (path_str p, r)"
    using assms by (intro until_newline_line) (simp add: listable_def Let_def)
qed

lemma search_paths_run:
  assumes "\<forall>p \<in> set roots. listable p"
  shows "p_repeat (search_path_entry winnow_std cwd) (concat (map (\<lambda>p. ''  '' @ path_str p @ [newline]) roots)) =
    Inr (map (\<lambda>p. if \<not> is_absolute p then path_join cwd p else p) roots, [])"
  using assms
proof (induction roots)
  case Nil
  have "search_path_entry winnow_std cwd [] = Inl Backtrack"
    by (simp add: search_path_entry_def p_bind_def std_take_while1_def nonempty_def)
  then show ?case by (simp add: p_repeat_stop)
next
  case (Cons p roots)
  let ?r = "concat (map (\<lambda>p. ''  '' @ path_str p @ [newline]) roots)"
  have "path_of_str (path_str p) = p" using Cons.prems by (simp add: listable_def Let_def)
  with listed_line [of p ?r] Cons.prems
  have "search_path_entry winnow_std cwd (''  '' @ path_str p @ newline # ?r) =
    Inr (if \<not> is_absolute p then path_join cwd p else p, ?r)"
    by (simp add: search_path_entry_def p_bind_def p_map_def p_return_def Let_def)
  with Cons show ?case by (simp add: p_repeat.simps [of _ "_ # _"])
qed

text \<open>
  GHCi's listing of the search paths is read exactly: the directory, and every search
  path, made absolute below it when it is relative, each once.
\<close>

theorem parse_show_paths_listing:
  assumes "winnow_documented W" and "listable cwd" and "\<forall>p \<in> set roots. listable p" and "\<And>ps. set (elements ps) = ps"
  shows "\<exists>sp. parse_show_paths W elements (paths_listing cwd roots) = Inr sp \<and> sp_cwd sp = cwd \<and>
    set (sp_search_paths sp) = (\<lambda>p. if \<not> is_absolute p then path_join cwd p else p) ` set roots"
proof -
  let ?entries = "concat (map (\<lambda>p. ''  '' @ path_str p @ [newline]) roots)"
  let ?roots = "if roots = [] then '' none'' @ [newline] else newline # ?entries"
  let ?abs = "\<lambda>p. if \<not> is_absolute p then path_join cwd p else p"
  have cwd: "path_of_str (path_str cwd) = cwd" using assms(2) by (simp add: listable_def Let_def)
  have start: "std_take_while is_blank (newline # s) = Inr ([], newline # s)" for s
    by (simp add: std_take_while_def is_blank_def)
  have "show_paths_parser winnow_std (paths_listing cwd roots) =
    Inr (\<lparr>sp_cwd = cwd, sp_search_paths = map ?abs roots\<rparr>, [])"
  proof (cases "roots = []")
    case True
    then show ?thesis
      using listed_line [OF assms(2), of "''module import search paths: none'' @ [newline]"]
      by (simp add: show_paths_parser_def paths_listing_def p_bind_def p_map_def p_return_def std_literal_def start cwd
          p_opt_def p_or_def)
  next
    case False
    then show ?thesis
      using listed_line [OF assms(2), of "''module import search paths:'' @ newline # ?entries"] search_paths_run [OF assms(3), of cwd]
      by (simp add: show_paths_parser_def paths_listing_def p_bind_def p_map_def p_return_def std_literal_def start cwd
          p_opt_def p_or_def)
  qed
  then show ?thesis
    using assms(4) by (simp add: parse_show_paths_def p_parse_def documented_std [OF assms(1)])
qed

end
