(* ===== verification/Shutdown.thy ===== *)
theory Shutdown
  imports Prelude
begin

text \<open>
  \<open>src/src/shutdown.rs\<close>: the tasks of the program, how their ends are judged, and the graceful
  shutdown; \<open>format_bulleted_list.rs\<close>; and the watch on the parent process in \<open>main.rs\<close>. Tasks end
  when they like, so the manager is a step relation.
\<close>

section \<open>Tasks\<close>

datatype report = ShutdownError | Report string

fun report_str :: "report \<Rightarrow> string" where
  "report_str ShutdownError = ''Shutdown requested''"
| "report_str (Report s) = s"

text \<open>What awaiting a \<open>JoinHandle\<close> gives.\<close>

datatype join_result = Returned "report + unit" | JoinCancelled | JoinPanicked string

text \<open>\<open>tk_join\<close> is None while the task runs, \<open>tk_receiver\<close> while its manager has not sent.\<close>

record managed_task =
  tk_name :: string
  tk_join :: "join_result option"
  tk_aborted :: bool
  tk_receiver :: "report option option"

definition task_new :: "string \<Rightarrow> managed_task" where
  "task_new name = \<lparr>tk_name = name, tk_join = None, tk_aborted = False, tk_receiver = None\<rparr>"

definition task_cancel :: "managed_task \<Rightarrow> managed_task" where
  "task_cancel t = t\<lparr>tk_aborted := True\<rparr>"

definition task_is_finished :: "managed_task \<Rightarrow> bool" where
  "task_is_finished t \<longleftrightarrow> tk_join t \<noteq> None"

text \<open>The error to report, and whether a shutdown is requested.\<close>

definition manage_handle :: "join_result \<Rightarrow> report option \<times> bool" where
  "manage_handle r =
     (let ret = (case r of
          Returned (Inr _) \<Rightarrow> None
        | Returned (Inl err) \<Rightarrow> if err = ShutdownError then None else Some err
        | JoinCancelled \<Rightarrow> None
        | JoinPanicked m \<Rightarrow> Some (Report m)) in
      (ret, ret \<noteq> None))"

definition into_result :: "managed_task \<Rightarrow> (string \<times> report) option res" where
  "into_result t =
     (case tk_receiver t of
        Some maybe_error \<Rightarrow> Inr (map_option (\<lambda>err. (tk_name t, err)) maybe_error)
      | None \<Rightarrow> Inl (IoError ''channel closed''))"

section \<open>The outcome\<close>

definition bullet :: string where
  "bullet = [CHR 0xE2, CHR 0x80, CHR 0xA2, CHR '' '']"

definition format_bulleted_list :: "string list \<Rightarrow> string" where
  "format_bulleted_list items = (if items = [] then [] else bullet @ str_join (newline # bullet) items)"

definition cancel_tasks :: "managed_task list \<Rightarrow> managed_task list" where
  "cancel_tasks ts = map (\<lambda>t. if task_is_finished t then t else task_cancel t) ts"

fun collect_failures :: "managed_task list \<Rightarrow> (string \<times> report) list" where
  "collect_failures [] = []"
| "collect_failures (t # ts) =
     (case into_result t of
        Inr (Some err) \<Rightarrow> err # collect_failures ts
      | _ \<Rightarrow> collect_failures ts)"

definition check_task_failures :: "managed_task list \<Rightarrow> report + unit" where
  "check_task_failures ts =
     (let failures = collect_failures ts in
      if failures = [] then Inr ()
      else Inl (Report (''Tasks failed:'' @ newline #
        format_bulleted_list (map (\<lambda>(name, error). name @ '': '' @ report_str error) failures))))"

section \<open>The manager\<close>

text \<open>
  \<open>sd_sent\<close> counts the shutdown broadcasts; the manager's own receiver exists from the start.
  \<open>check_task_failures\<close> takes the tasks there are and holds their lock until it has joined them: it
  joins the first \<open>n\<close>, and those after them are tasks whose \<open>push\<close> waits for the lock.
\<close>

datatype shutdown_phase = WaitingForShutdown | GracefulShutdown | CancelledTasks | Joining nat
  | ShutdownDone nat "report + unit"

record shutdown_manager =
  sd_tasks :: "managed_task list"
  sd_sent :: nat
  sd_phase :: shutdown_phase

definition shutdown_manager_new :: shutdown_manager where
  "shutdown_manager_new = \<lparr>sd_tasks = [], sd_sent = 0, sd_phase = WaitingForShutdown\<rparr>"

text \<open>Ctrl-C begins the graceful shutdown, a second one ends it.\<close>

inductive ctrl_c_step :: "shutdown_manager \<Rightarrow> shutdown_manager \<Rightarrow> bool" where
  ctrl_c: "sd_phase m = WaitingForShutdown \<Longrightarrow>
    ctrl_c_step m (m\<lparr>sd_sent := sd_sent m + 1, sd_phase := GracefulShutdown\<rparr>)"
| ctrl_c_again: "sd_phase m = GracefulShutdown \<Longrightarrow>
    ctrl_c_step m (m\<lparr>sd_tasks := cancel_tasks (sd_tasks m), sd_phase := CancelledTasks\<rparr>)"

text \<open>What goes on by itself: aborted tasks end, ends are judged, and the manager takes and joins the tasks.\<close>

inductive closing_step :: "shutdown_manager \<Rightarrow> shutdown_manager \<Rightarrow> bool" where
  aborted_ends: "i < length (sd_tasks m) \<Longrightarrow> tk_join (sd_tasks m ! i) = None \<Longrightarrow> tk_aborted (sd_tasks m ! i) \<Longrightarrow>
    closing_step m (m\<lparr>sd_tasks := (sd_tasks m)[i := (sd_tasks m ! i)\<lparr>tk_join := Some JoinCancelled\<rparr>]\<rparr>)"
| task_managed: "i < length (sd_tasks m) \<Longrightarrow> tk_join (sd_tasks m ! i) = Some r \<Longrightarrow> tk_receiver (sd_tasks m ! i) = None \<Longrightarrow>
    closing_step m (m\<lparr>sd_tasks := (sd_tasks m)[i := (sd_tasks m ! i)\<lparr>tk_receiver := Some (fst (manage_handle r))\<rparr>],
      sd_sent := sd_sent m + (if snd (manage_handle r) then 1 else 0)\<rparr>)"
| tasks_taken: "sd_phase m = CancelledTasks \<Longrightarrow> closing_step m (m\<lparr>sd_phase := Joining (length (sd_tasks m))\<rparr>)"
| joined: "sd_phase m = Joining n \<Longrightarrow> \<forall>t \<in> set (take n (sd_tasks m)). tk_receiver t \<noteq> None \<Longrightarrow>
    closing_step m (m\<lparr>sd_phase := ShutdownDone n (check_task_failures (take n (sd_tasks m)))\<rparr>)"

text \<open>The program starts tasks before it waits, a task with its handle at any time.\<close>

inductive shutdown_step :: "shutdown_manager \<Rightarrow> shutdown_manager \<Rightarrow> bool" where
  spawn: "sd_phase m = WaitingForShutdown \<or> (\<exists>t \<in> set (sd_tasks m). \<not> task_is_finished t) \<Longrightarrow>
    shutdown_step m (m\<lparr>sd_tasks := sd_tasks m @ [task_new name]\<rparr>)"
| task_ends: "i < length (sd_tasks m) \<Longrightarrow> tk_join (sd_tasks m ! i) = None \<Longrightarrow> r \<noteq> JoinCancelled \<Longrightarrow>
    shutdown_step m (m\<lparr>sd_tasks := (sd_tasks m)[i := (sd_tasks m ! i)\<lparr>tk_join := Some r\<rparr>]\<rparr>)"
| request_shutdown: "\<exists>t \<in> set (sd_tasks m). \<not> task_is_finished t \<Longrightarrow> shutdown_step m (m\<lparr>sd_sent := sd_sent m + 1\<rparr>)"
| requested: "sd_phase m = WaitingForShutdown \<Longrightarrow> 0 < sd_sent m \<Longrightarrow> shutdown_step m (m\<lparr>sd_phase := GracefulShutdown\<rparr>)"
| all_finished: "sd_phase m \<in> {WaitingForShutdown, GracefulShutdown} \<Longrightarrow> \<forall>t \<in> set (sd_tasks m). task_is_finished t \<Longrightarrow>
    shutdown_step m (m\<lparr>sd_tasks := cancel_tasks (sd_tasks m), sd_phase := CancelledTasks\<rparr>)"
| timed_out: "sd_phase m = GracefulShutdown \<Longrightarrow>
    shutdown_step m (m\<lparr>sd_tasks := cancel_tasks (sd_tasks m), sd_phase := CancelledTasks\<rparr>)"
| user: "ctrl_c_step m m' \<Longrightarrow> shutdown_step m m'"
| closing: "closing_step m m' \<Longrightarrow> shutdown_step m m'"

inductive shutdown_reachable :: "shutdown_manager \<Rightarrow> bool" where
  start: "shutdown_reachable shutdown_manager_new"
| step: "shutdown_reachable m \<Longrightarrow> shutdown_step m m' \<Longrightarrow> shutdown_reachable m'"

text \<open>\<open>error_if_shutdown_requested\<close>, over the outcome of \<open>try_recv\<close>.\<close>

datatype try_recv = Received | Lagged nat | Empty | Closed

fun error_if_shutdown_requested :: "try_recv \<Rightarrow> report + unit" where
  "error_if_shutdown_requested Received = Inl ShutdownError"
| "error_if_shutdown_requested (Lagged n) = Inl ShutdownError"
| "error_if_shutdown_requested Empty = Inr ()"
| "error_if_shutdown_requested Closed = Inl (Report ''channel closed'')"

text \<open>
  \<open>watch_parent\<close> on what it observes each time: the parent's process id, and whether the timer or a
  shutdown woke it. None while it goes on, else whether it requested a shutdown.
\<close>

datatype parent_wake = CheckInterval | ShutdownSeen

fun watch_parent :: "nat \<Rightarrow> (nat \<times> parent_wake) list \<Rightarrow> bool option" where
  "watch_parent original [] = None"
| "watch_parent original ((current, wake) # later) =
     (if current \<noteq> original then Some True
      else (case wake of CheckInterval \<Rightarrow> watch_parent original later | ShutdownSeen \<Rightarrow> Some False))"

inductive_cases shutdown_stepE: "shutdown_step m m'"
inductive_cases ctrl_c_stepE: "ctrl_c_step m m'"
inductive_cases closing_stepE: "closing_step m m'"

section \<open>The invariant\<close>

definition task_ok :: "managed_task \<Rightarrow> bool" where
  "task_ok t \<longleftrightarrow> (\<forall>maybe. tk_receiver t = Some maybe \<longrightarrow> (\<exists>r. tk_join t = Some r \<and> maybe = fst (manage_handle r)))"

text \<open>How a task failed, by its own end: with an error that is not the shutdown, or with a panic.\<close>

definition failure_of :: "managed_task \<Rightarrow> (string \<times> string) option" where
  "failure_of t =
     (case tk_join t of
        Some (Returned (Inl (Report e))) \<Rightarrow> Some (tk_name t, e)
      | Some (JoinPanicked e) \<Rightarrow> Some (tk_name t, e)
      | _ \<Rightarrow> None)"

definition judged :: "nat \<Rightarrow> managed_task \<Rightarrow> bool" where
  "judged sent t \<longleftrightarrow> task_ok t \<and> (tk_receiver t \<noteq> None \<and> failure_of t \<noteq> None \<longrightarrow> 0 < sent)"

fun phase_ok :: "managed_task list \<Rightarrow> shutdown_phase \<Rightarrow> bool" where
  "phase_ok ts (Joining n) \<longleftrightarrow> n \<le> length ts"
| "phase_ok ts (ShutdownDone n r) \<longleftrightarrow>
     n \<le> length ts \<and> (\<forall>t \<in> set (take n ts). tk_receiver t \<noteq> None) \<and> r = check_task_failures (take n ts)"
| "phase_ok ts phase \<longleftrightarrow> True"

definition shutdown_inv :: "shutdown_manager \<Rightarrow> bool" where
  "shutdown_inv m \<longleftrightarrow> (\<forall>t \<in> set (sd_tasks m). judged (sd_sent m) t) \<and> phase_ok (sd_tasks m) (sd_phase m)"

lemma manage_handle_failure:
  "tk_join t = Some r \<Longrightarrow> map_option (\<lambda>err. (tk_name t, report_str err)) (fst (manage_handle r)) = failure_of t"
  by (auto simp: manage_handle_def failure_of_def Let_def split: join_result.split sum.split report.split)

lemma manage_handle_requests: "tk_join t = Some r \<Longrightarrow> snd (manage_handle r) \<longleftrightarrow> failure_of t \<noteq> None"
  by (auto simp: manage_handle_def failure_of_def Let_def split: join_result.split sum.split report.split)

lemma cancel_tasks_kept:
  "t \<in> set (cancel_tasks ts) \<Longrightarrow> \<exists>u \<in> set ts. tk_name t = tk_name u \<and> tk_join t = tk_join u \<and> tk_receiver t = tk_receiver u"
  by (auto simp: cancel_tasks_def task_cancel_def)

lemma task_ok_receiver: "task_ok t \<Longrightarrow> tk_join t = None \<Longrightarrow> tk_receiver t = None"
  by (cases "tk_receiver t") (auto simp: task_ok_def)

lemma cancelled_ok:
  assumes "\<forall>t \<in> set ts. judged n t"
  shows "\<forall>t \<in> set (cancel_tasks ts). judged n t"
proof
  fix t assume "t \<in> set (cancel_tasks ts)"
  then obtain u where "u \<in> set ts" "tk_name t = tk_name u" "tk_join t = tk_join u" "tk_receiver t = tk_receiver u"
    using cancel_tasks_kept by blast
  then have "u \<in> set ts" "task_ok t = task_ok u" "failure_of t = failure_of u" "tk_receiver t = tk_receiver u"
    by (auto simp: task_ok_def failure_of_def split: option.split join_result.split sum.split report.split)
  with assms show "judged n t" unfolding judged_def by metis
qed

text \<open>An outcome is not touched by a task that is not judged yet.\<close>

lemma phase_ok_update:
  assumes "phase_ok ts phase" and "tk_receiver (ts ! i) = None" and "i < length ts"
  shows "phase_ok (ts[i := t]) phase"
proof (cases phase)
  case (ShutdownDone n r)
  have "n \<le> i"
  proof (rule ccontr)
    assume "\<not> n \<le> i"
    with assms ShutdownDone have "ts ! i \<in> set (take n ts)" by (auto simp: in_set_conv_nth intro!: exI [of _ i])
    with assms ShutdownDone show False by auto
  qed
  with assms ShutdownDone show ?thesis by simp
qed (use assms in auto)

lemma judged_update:
  assumes "\<forall>t \<in> set ts. judged n t" and "judged k u" and "n \<le> k"
  shows "\<forall>t \<in> set (ts[i := u]). judged k t"
proof
  fix v assume "v \<in> set (ts[i := u])"
  then have "v = u \<or> v \<in> set ts" using set_update_subset_insert [of ts i u] by auto
  with assms show "judged k v" by (auto simp: judged_def)
qed

lemma ended_inv:
  assumes "shutdown_inv m" and "i < length (sd_tasks m)" and "tk_join (sd_tasks m ! i) = None"
  shows "shutdown_inv (m\<lparr>sd_tasks := (sd_tasks m)[i := (sd_tasks m ! i)\<lparr>tk_join := Some r\<rparr>]\<rparr>)"
proof -
  have recv: "tk_receiver (sd_tasks m ! i) = None"
    using assms task_ok_receiver by (auto simp: shutdown_inv_def judged_def)
  have "\<forall>t \<in> set ((sd_tasks m)[i := (sd_tasks m ! i)\<lparr>tk_join := Some r\<rparr>]). judged (sd_sent m) t"
    using assms recv by (intro judged_update [of _ "sd_sent m"]) (auto simp: shutdown_inv_def judged_def task_ok_def)
  with assms recv phase_ok_update show ?thesis by (simp add: shutdown_inv_def)
qed

lemma closing_inv:
  assumes "closing_step m m'" and inv: "shutdown_inv m"
  shows "shutdown_inv m'"
  using assms(1)
proof cases
  case (aborted_ends i)
  with inv ended_inv show ?thesis by simp
next
  case (task_managed i r)
  let ?t = "sd_tasks m ! i" and ?n = "sd_sent m + (if snd (manage_handle r) then 1 else 0)"
  let ?u = "?t\<lparr>tk_receiver := Some (fst (manage_handle r))\<rparr>"
  have "failure_of ?u = failure_of ?t"
    by (auto simp: failure_of_def split: option.split join_result.split sum.split report.split)
  then have "judged ?n ?u"
    using manage_handle_requests [of ?t r] task_managed(3) by (simp add: judged_def task_ok_def)
  then have "\<forall>t \<in> set ((sd_tasks m)[i := ?u]). judged ?n t"
    using inv by (intro judged_update [of _ "sd_sent m"]) (auto simp: shutdown_inv_def)
  with inv task_managed phase_ok_update show ?thesis by (simp add: shutdown_inv_def)
qed (use inv in \<open>auto simp: shutdown_inv_def\<close>)

lemma shutdown_inv_step:
  assumes "shutdown_step m m'" and inv: "shutdown_inv m"
  shows "shutdown_inv m'"
  using assms(1)
proof cases
  case (spawn name)
  have "phase_ok (sd_tasks m @ [t]) (sd_phase m)" for t
    using inv by (cases "sd_phase m") (simp_all add: shutdown_inv_def)
  with inv spawn show ?thesis by (auto simp: shutdown_inv_def judged_def task_ok_def task_new_def)
next
  case (task_ends i r)
  with inv ended_inv show ?thesis by simp
next
  case request_shutdown
  with inv show ?thesis by (auto simp: shutdown_inv_def judged_def)
next
  case user
  then show ?thesis
    using inv cancelled_ok [of "sd_tasks m" "sd_sent m"]
    by cases (auto simp: shutdown_inv_def judged_def)
next
  case closing
  with inv closing_inv show ?thesis by blast
qed (use inv cancelled_ok [of "sd_tasks m" "sd_sent m"] in \<open>simp_all add: shutdown_inv_def\<close>)

lemma shutdown_reachable_inv: "shutdown_reachable m \<Longrightarrow> shutdown_inv m"
proof (induction rule: shutdown_reachable.induct)
  case start
  show ?case by (simp add: shutdown_inv_def shutdown_manager_new_def)
next
  case (step m m')
  then show ?case by (blast intro: shutdown_inv_step)
qed

lemma collect_failures_exact:
  "\<forall>t \<in> set ts. task_ok t \<and> tk_receiver t \<noteq> None \<Longrightarrow>
   map (\<lambda>(name, e). (name, report_str e)) (collect_failures ts) = List.map_filter failure_of ts"
proof (induction ts)
  case (Cons t ts)
  then obtain r where r: "tk_join t = Some r" "tk_receiver t = Some (fst (manage_handle r))"
    by (auto simp: task_ok_def)
  with Cons show ?case
    by (cases "fst (manage_handle r)")
       (simp_all add: into_result_def List.map_filter_simps manage_handle_failure [OF r(1), symmetric])
qed (simp add: List.map_filter_simps)

section \<open>Ending\<close>











text \<open>
  What it takes that no task is started after the cancellation: such a task is not aborted, and
  when it is taken with the others, joining waits until it ends of its own.
\<close>

lemma late_task_blocks:
  assumes "closing_step\<^sup>*\<^sup>* m m'" and "i < length (sd_tasks m)" and "tk_join (sd_tasks m ! i) = None"
    and "\<not> tk_aborted (sd_tasks m ! i)" and "tk_receiver (sd_tasks m ! i) = None"
    and "sd_phase m = CancelledTasks \<or> (\<exists>n > i. sd_phase m = Joining n)"
  shows "sd_tasks m' ! i = sd_tasks m ! i \<and> length (sd_tasks m') = length (sd_tasks m) \<and>
    (sd_phase m' = CancelledTasks \<or> (\<exists>n > i. sd_phase m' = Joining n))"
  using assms(1)
proof (induction rule: rtranclp_induct)
  case (step u v)
  note stays = step.IH
  from step.hyps(2) show ?case
  proof cases
    case (aborted_ends j)
    with stays assms(4) have "i \<noteq> j" by auto
    with aborted_ends stays show ?thesis by simp
  next
    case (task_managed j r)
    with stays assms(3) have "i \<noteq> j" by auto
    with task_managed stays show ?thesis by simp
  next
    case tasks_taken
    with stays assms(2) show ?thesis by auto
  next
    case (joined n)
    with stays assms(2) have "sd_tasks u ! i \<in> set (take n (sd_tasks u))" by (auto simp: in_set_conv_nth intro!: exI [of _ i])
    with joined(3) stays assms(5) show ?thesis by auto
  qed
qed (use assms in simp)

text \<open>The order of the tasks never changes.\<close>

lemma cancel_tasks_names: "map tk_name (cancel_tasks ts) = map tk_name ts"
  by (simp add: cancel_tasks_def task_cancel_def)

lemma names_update: "tk_name u = tk_name (ts ! i) \<Longrightarrow> map tk_name (ts[i := u]) = map tk_name ts"
  by (simp add: map_update list_update_id) (metis list_update_beyond list_update_id map_update not_le nth_map)

lemma step_names:
  assumes "shutdown_step m m'"
  shows "prefix (map tk_name (sd_tasks m)) (map tk_name (sd_tasks m'))"
  using assms
proof cases
  case user
  then show ?thesis by cases (simp_all add: cancel_tasks_names)
next
  case closing
  then show ?thesis by cases (simp_all add: names_update)
qed (simp_all add: cancel_tasks_names names_update)

text \<open>What is taken contains what was there before.\<close>

fun taken_tasks :: "shutdown_phase \<Rightarrow> nat option" where
  "taken_tasks (Joining n) = Some n"
| "taken_tasks (ShutdownDone n r) = Some n"
| "taken_tasks phase = None"

lemma step_taken_tasks:
  assumes "shutdown_step m m'" and "taken_tasks (sd_phase m') = Some n"
  shows "taken_tasks (sd_phase m) = Some n \<or> n = length (sd_tasks m)"
  using assms(1)
proof cases
  case user
  then show ?thesis using assms(2) by cases auto
next
  case closing
  then show ?thesis using assms(2) by cases auto
qed (use assms(2) in simp_all)

definition takes :: "shutdown_manager \<Rightarrow> shutdown_manager \<Rightarrow> bool" where
  "takes m m' \<longleftrightarrow> prefix (map tk_name (sd_tasks m)) (map tk_name (sd_tasks m')) \<and>
     (\<forall>n. taken_tasks (sd_phase m') = Some n \<longrightarrow> length (sd_tasks m) \<le> n)"

lemma step_takes:
  assumes "takes m u" and "shutdown_step u v"
  shows "takes m v"
proof -
  have names: "prefix (map tk_name (sd_tasks m)) (map tk_name (sd_tasks v))"
    using assms(1) step_names [OF assms(2)] unfolding takes_def by (blast intro: prefix_order.trans)
  have "length (sd_tasks m) \<le> length (sd_tasks u)"
    using assms(1) unfolding takes_def by (metis length_map prefix_length_le)
  with step_taken_tasks [OF assms(2)] assms(1) names show ?thesis unfolding takes_def by metis
qed

section \<open>Properties\<close>

text \<open>
  C37: the program's outcome reports exactly the tasks that failed. However tasks end, and whatever ends
  the waiting, the manager joins every task started before its tasks are taken, in the order they
  started, and returns an error if and only if one of them ended with an error other than the
  requested shutdown, or with a panic; the message lists those failures, in that order.
\<close>

theorem shutdown_reports_exactly:
  assumes "shutdown_reachable m" and "sd_phase m \<in> {WaitingForShutdown, GracefulShutdown, CancelledTasks}"
    and "shutdown_step\<^sup>*\<^sup>* m m'" and "sd_phase m' = ShutdownDone n r"
  shows "prefix (map tk_name (sd_tasks m)) (map tk_name (take n (sd_tasks m'))) \<and>
    r = (let failures = List.map_filter failure_of (take n (sd_tasks m')) in
      if failures = [] then Inr ()
      else Inl (Report (''Tasks failed:'' @ newline #
        format_bulleted_list (map (\<lambda>(name, e). name @ '': '' @ e) failures))))"
proof -
  from assms(3) have reachable: "shutdown_reachable m'"
    by (induction rule: rtranclp_induct) (auto intro: assms(1) shutdown_reachable.step)
  from assms(3) have takes: "takes m m'"
  proof (induction rule: rtranclp_induct)
    case base
    from assms(2) show ?case by (auto simp: takes_def)
  next
    case (step u v)
    then show ?case using step_takes by blast
  qed
  let ?taken = "take n (sd_tasks m')"
  from shutdown_reachable_inv [OF reachable] assms(4)
  have ok: "\<forall>t \<in> set ?taken. task_ok t \<and> tk_receiver t \<noteq> None" and r: "r = check_task_failures ?taken"
    and n: "n \<le> length (sd_tasks m')"
    by (auto simp: shutdown_inv_def judged_def dest: in_set_takeD)
  let ?collected = "collect_failures ?taken"
  have eq: "List.map_filter failure_of ?taken = map (\<lambda>(name, e). (name, report_str e)) ?collected"
    using collect_failures_exact [OF ok] by simp
  have m: "map (\<lambda>(name, e). name @ '': '' @ e) (map (\<lambda>(name, e). (name, report_str e)) ?collected) =
    map (\<lambda>(name, error). name @ '': '' @ report_str error) ?collected" by auto
  have "length (sd_tasks m) \<le> n" "prefix (map tk_name (sd_tasks m)) (map tk_name (sd_tasks m'))"
    using takes assms(4) by (simp_all add: takes_def)
  then have "prefix (map tk_name (sd_tasks m)) (take n (map tk_name (sd_tasks m')))"
    by (auto simp: prefix_def)
  then have "prefix (map tk_name (sd_tasks m)) (map tk_name ?taken)" by (simp only: take_map)
  moreover have "r = (let failures = List.map_filter failure_of ?taken in
      if failures = [] then Inr ()
      else Inl (Report (''Tasks failed:'' @ newline #
        format_bulleted_list (map (\<lambda>(name, e). name @ '': '' @ e) failures))))"
    by (simp only: r eq check_task_failures_def Let_def m map_is_Nil_conv)
  ultimately show ?thesis by blast
qed

text \<open>
  A failure always starts the shutdown: once the end of a failed task has been judged, a shutdown
  has been requested, and a manager that still waits can go on to the graceful shutdown.
\<close>

theorem failure_starts_shutdown:
  assumes "shutdown_reachable m" and "t \<in> set (sd_tasks m)" and "failure_of t \<noteq> None" and "tk_receiver t \<noteq> None"
  shows "0 < sd_sent m \<and> (sd_phase m = WaitingForShutdown \<longrightarrow>
    shutdown_step m (m\<lparr>sd_phase := GracefulShutdown\<rparr>))"
  using shutdown_reachable_inv [OF assms(1)] assms(2-4)
  by (auto simp: shutdown_inv_def judged_def intro: shutdown_step.requested)


text \<open>A run: a task panics, which ends the program.\<close>

definition demo_task :: managed_task where
  "demo_task = \<lparr>tk_name = ''run_ghci'', tk_join = Some (JoinPanicked ''boom''), tk_aborted = False,
     tk_receiver = Some (Some (Report ''boom''))\<rparr>"

definition demo_waiting :: shutdown_manager where
  "demo_waiting = \<lparr>sd_tasks = [demo_task], sd_sent = 1, sd_phase = WaitingForShutdown\<rparr>"

lemma demo_waiting_reachable: "shutdown_reachable demo_waiting"
proof -
  let ?m = "\<lambda>t n. \<lparr>sd_tasks = [t], sd_sent = n, sd_phase = WaitingForShutdown\<rparr>"
  let ?t = "task_new ''run_ghci''"
  have "shutdown_step shutdown_manager_new (?m ?t 0)"
    using shutdown_step.spawn [of shutdown_manager_new "''run_ghci''"] by (simp add: shutdown_manager_new_def)
  then have "shutdown_reachable (?m ?t 0)" by (rule shutdown_reachable.step [OF shutdown_reachable.start])
  moreover have "shutdown_step (?m ?t 0) (?m (?t\<lparr>tk_join := Some (JoinPanicked ''boom'')\<rparr>) 0)"
    using shutdown_step.task_ends [of 0 "?m ?t 0" "JoinPanicked ''boom''"] by (simp add: task_new_def)
  ultimately have "shutdown_reachable (?m (?t\<lparr>tk_join := Some (JoinPanicked ''boom'')\<rparr>) 0)"
    by (rule shutdown_reachable.step)
  moreover have "shutdown_step (?m (?t\<lparr>tk_join := Some (JoinPanicked ''boom'')\<rparr>) 0) demo_waiting"
    using closing_step.task_managed [of 0 "?m (?t\<lparr>tk_join := Some (JoinPanicked ''boom'')\<rparr>) 0" "JoinPanicked ''boom''"]
    by (intro shutdown_step.closing) (simp add: task_new_def demo_waiting_def demo_task_def manage_handle_def Let_def)
  ultimately show ?thesis by (rule shutdown_reachable.step)
qed

lemma demo_done_reachable:
  "shutdown_step\<^sup>*\<^sup>* demo_waiting (demo_waiting\<lparr>sd_phase := ShutdownDone 1 (check_task_failures [demo_task])\<rparr>)"
proof -
  have "shutdown_step demo_waiting (demo_waiting\<lparr>sd_phase := CancelledTasks\<rparr>)"
    using shutdown_step.all_finished [of demo_waiting]
    by (simp add: demo_waiting_def demo_task_def task_is_finished_def cancel_tasks_def)
  moreover have "shutdown_step (demo_waiting\<lparr>sd_phase := CancelledTasks\<rparr>) (demo_waiting\<lparr>sd_phase := Joining 1\<rparr>)"
    using closing_step.tasks_taken [of "demo_waiting\<lparr>sd_phase := CancelledTasks\<rparr>"]
    by (intro shutdown_step.closing) (simp add: demo_waiting_def)
  moreover have "shutdown_step (demo_waiting\<lparr>sd_phase := Joining 1\<rparr>)
      (demo_waiting\<lparr>sd_phase := ShutdownDone 1 (check_task_failures [demo_task])\<rparr>)"
    using closing_step.joined [of "demo_waiting\<lparr>sd_phase := Joining 1\<rparr>" 1]
    by (intro shutdown_step.closing) (simp add: demo_waiting_def demo_task_def)
  ultimately show ?thesis by (meson converse_rtranclp_into_rtranclp rtranclp.rtrancl_refl)
qed

theorem shutdown_reports_exactly_witness:
  "check_task_failures [demo_task] = Inl (Report (''Tasks failed:'' @ newline # bullet @ ''run_ghci: boom''))"
  using shutdown_reports_exactly [OF demo_waiting_reachable _ demo_done_reachable, of 1 "check_task_failures [demo_task]"]
  by (simp add: demo_waiting_def demo_task_def failure_of_def List.map_filter_simps format_bulleted_list_def)

theorem failure_starts_shutdown_witness: "shutdown_step demo_waiting (demo_waiting\<lparr>sd_phase := GracefulShutdown\<rparr>)"
  using failure_starts_shutdown [OF demo_waiting_reachable, of demo_task]
  by (simp add: demo_waiting_def demo_task_def failure_of_def)


end
