(* ===== verification/Tui.thy ===== *)
theory Tui
  imports Prelude
begin

text \<open>
  \<open>src/src/tui/mod.rs\<close>: the state of the terminal interface, its scrolling, and its event loop. Laying out
  and drawing (ratatui), reading ANSI colours and the terminal are parameters; a frame that nothing is
  drawn on is blank.
\<close>

section \<open>State\<close>

definition SCROLL_AMOUNT :: u64 where
  "SCROLL_AMOUNT = 3"

record tui_state =
  ts_debug :: bool
  ts_quit :: bool
  ts_scrollback :: string
  ts_line_count :: u64
  ts_scroll_offset :: u64

definition tui_state_default :: tui_state where
  "tui_state_default = \<lparr>ts_debug = False, ts_quit = False, ts_scrollback = [], ts_line_count = 1, ts_scroll_offset = 0\<rparr>"

record rect =
  rect_width :: "16 word"
  rect_height :: "16 word"

text \<open>What a frame shows: the text from an offset, and with \<open>debug\<close> the line count and the offset.\<close>

datatype 't frame = Blank | Shown 't "16 word" "(u64 \<times> u64) option"

definition u16_try_from :: "u64 \<Rightarrow> 16 word option" where
  "u16_try_from n = (if n < 65536 then Some (ucast n) else None)"

definition render_inner :: "(string \<Rightarrow> 't res) \<Rightarrow> rect \<Rightarrow> tui_state \<Rightarrow> 't frame res" where
  "render_inner into_text area s =
     (if rect_width area = 0 \<or> rect_height area = 0 then Inr Blank
      else res_bind (into_text (ts_scrollback s)) (\<lambda>txt.
        case u16_try_from (ts_scroll_offset s) of
          None \<Rightarrow> Inl (IoError ''Scroll offset doesn't fit into 16 bits'')
        | Some scroll_offset \<Rightarrow>
            Inr (Shown txt scroll_offset (if ts_debug s then Some (ts_line_count s, ts_scroll_offset s) else None))))"

record tui =
  tui_size :: rect
  tui_state :: tui_state

definition tui_new :: "rect \<Rightarrow> tui" where
  "tui_new area = \<lparr>tui_size = area, tui_state = tui_state_default\<rparr>"

definition on_state :: "(tui_state \<Rightarrow> tui_state) \<Rightarrow> tui \<Rightarrow> tui" where
  "on_state f t = t\<lparr>tui_state := f (tui_state t)\<rparr>"

section \<open>Scrolling\<close>

definition half_height :: "tui \<Rightarrow> u64" where
  "half_height t = ucast (rect_height (tui_size t) div 2)"

definition scroll_up :: "u64 \<Rightarrow> tui \<Rightarrow> tui" where
  "scroll_up amount = on_state (\<lambda>s. s\<lparr>ts_scroll_offset := sat_sub (ts_scroll_offset s) amount\<rparr>)"

definition scroll_max :: "tui \<Rightarrow> u64" where
  "scroll_max t = sat_sub (ts_line_count (tui_state t)) (half_height t)"

definition scroll_down :: "u64 \<Rightarrow> tui \<Rightarrow> tui" where
  "scroll_down amount t =
     on_state (\<lambda>s. s\<lparr>ts_scroll_offset := min (sat_add (ts_scroll_offset s) amount) (scroll_max t)\<rparr>) t"

definition scroll_to :: "u64 \<Rightarrow> tui \<Rightarrow> tui" where
  "scroll_to offset t = on_state (\<lambda>s. s\<lparr>ts_scroll_offset := min (scroll_max t) offset\<rparr>) t"

definition maybe_follow :: "tui \<Rightarrow> tui" where
  "maybe_follow t =
     (let height = ucast (rect_height (tui_size t)) :: u64; s = tui_state t;
          scrolled_to_bottom = sat_sub (sat_sub (ts_line_count s) height) 1 \<le> ts_scroll_offset s;
          scrollback_exceeds_height = height < ts_line_count s in
      if scrolled_to_bottom \<and> scrollback_exceeds_height
      then on_state (\<lambda>s. s\<lparr>ts_scroll_offset := sat_add (ts_scroll_offset s) 1\<rparr>) t
      else t)"

definition push_line :: "string \<Rightarrow> tui \<Rightarrow> tui" where
  "push_line line t =
     maybe_follow (on_state (\<lambda>s. s\<lparr>ts_scrollback := ts_scrollback s @ line @ [newline],
       ts_line_count := sat_add (ts_line_count s) 1\<rparr>) t)"

section \<open>Rendering and events\<close>

text \<open>\<open>frame_size\<close> is the size of the frame that the terminal gives to \<open>draw\<close>, or its error.\<close>

definition tui_render :: "(string \<Rightarrow> 't res) \<Rightarrow> rect res \<Rightarrow> tui \<Rightarrow> (tui \<times> 't frame) res" where
  "tui_render into_text frame_size t =
     res_bind frame_size (\<lambda>area.
       Inr (t\<lparr>tui_size := area\<rparr>,
         case render_inner into_text area (tui_state t) of Inr shown \<Rightarrow> shown | Inl _ \<Rightarrow> Blank))"

datatype key_modifiers = ModNone | ModShift | ModControl | ModOther
datatype key_code = KeyChar char | KeyOther
datatype tui_event = MouseScrollUp | MouseScrollDown | MouseOther | KeyEvent key_modifiers key_code | OtherEvent

fun handle_tui_event :: "tui_event \<Rightarrow> tui \<Rightarrow> tui" where
  "handle_tui_event MouseScrollUp t = scroll_up SCROLL_AMOUNT t"
| "handle_tui_event MouseScrollDown t = scroll_down SCROLL_AMOUNT t"
| "handle_tui_event (KeyEvent ModNone (KeyChar c)) t =
     (if c = CHR ''j'' then scroll_down 1 t
      else if c = CHR ''k'' then scroll_up 1 t
      else if c = CHR ''g'' then scroll_to 0 t
      else if c = CHR 0x60 then on_state (\<lambda>s. s\<lparr>ts_debug := False\<rparr>) t
      else t)"
| "handle_tui_event (KeyEvent ModShift (KeyChar c)) t =
     (if c = CHR ''g'' \<or> c = CHR ''G'' then scroll_to (- 1) t
      else if c = CHR 0x60 \<or> c = CHR ''~'' then on_state (\<lambda>s. s\<lparr>ts_debug := True\<rparr>) t
      else t)"
| "handle_tui_event (KeyEvent ModControl (KeyChar c)) t =
     (if c = CHR ''u'' then scroll_up (half_height t) t
      else if c = CHR ''d'' then scroll_down (half_height t) t
      else if c = CHR ''e'' then scroll_down 1 t
      else if c = CHR ''y'' then scroll_up 1 t
      else if c = CHR ''c'' then on_state (\<lambda>s. s\<lparr>ts_quit := True\<rparr>) t
      else t)"
| "handle_tui_event _ t = t"

text \<open>The branches of the loop's \<open>select\<close>, with what they receive.\<close>

datatype tui_input =
    TuiShutdown
  | GhciLine "string option res"
  | TracingLine "string option res"
  | TerminalEvent "tui_event res option"

fun tui_input_step :: "tui_input \<Rightarrow> tui \<Rightarrow> tui res" where
  "tui_input_step TuiShutdown t = Inr (on_state (\<lambda>s. s\<lparr>ts_quit := True\<rparr>) t)"
| "tui_input_step (GhciLine line) t =
     res_bind line (\<lambda>l. case l of Some l \<Rightarrow> Inr (push_line l t) | None \<Rightarrow> Inr (on_state (\<lambda>s. s\<lparr>ts_quit := True\<rparr>) t))"
| "tui_input_step (TracingLine line) t =
     res_bind line (\<lambda>l. case l of Some l \<Rightarrow> Inr (push_line l t) | None \<Rightarrow> Inr t)"
| "tui_input_step (TerminalEvent output) t =
     (case output of
        None \<Rightarrow> Inl (IoError ''No more crossterm events'')
      | Some event \<Rightarrow> res_bind event (\<lambda>e. Inr (handle_tui_event e t)))"

text \<open>
  The loop over what it is given: the size of each frame and the input after it. The result is the last
  state and, when the loop has ended, its outcome; a shutdown is requested when it ends well.
\<close>

fun run_tui :: "(string \<Rightarrow> 't res) \<Rightarrow> (rect res \<times> tui_input) list \<Rightarrow> tui \<Rightarrow> tui \<times> unit res option" where
  "run_tui into_text [] t = (t, if ts_quit (tui_state t) then Some (Inr ()) else None)"
| "run_tui into_text ((frame_size, input) # later) t =
     (if ts_quit (tui_state t) then (t, Some (Inr ()))
      else (case tui_render into_text frame_size t of
          Inl e \<Rightarrow> (t, Some (Inl e))
        | Inr (t1, shown) \<Rightarrow>
            (case tui_input_step input t1 of
               Inl e \<Rightarrow> (t1, Some (Inl e))
             | Inr t2 \<Rightarrow> run_tui into_text later t2)))"

section \<open>Offsets\<close>

text \<open>The lines that arrive, and a terminal with at least two rows.\<close>

fun given_line :: "tui_input \<Rightarrow> string list" where
  "given_line (GhciLine (Inr (Some l))) = [l]"
| "given_line (TracingLine (Inr (Some l))) = [l]"
| "given_line i = []"

definition lines_given :: "(rect res \<times> tui_input) list \<Rightarrow> string list" where
  "lines_given steps = concat (map (given_line \<circ> snd) steps)"

definition tall :: "rect \<Rightarrow> bool" where
  "tall area \<longleftrightarrow> 2 \<le> unat (rect_height area)"

definition tall_frame :: "rect res \<Rightarrow> bool" where
  "tall_frame frame_size \<longleftrightarrow> (case frame_size of Inr area \<Rightarrow> tall area | Inl _ \<Rightarrow> True)"

text \<open>The lines pushed so far, and how far the offset may be behind the last of them.\<close>

definition within :: "nat \<Rightarrow> string list \<Rightarrow> tui \<Rightarrow> bool" where
  "within over ls t \<longleftrightarrow>
     ts_scrollback (tui_state t) = concat (map (\<lambda>l. l @ [newline]) ls) \<and>
     unat (ts_line_count (tui_state t)) \<le> length ls + 1 \<and>
     unat (ts_scroll_offset (tui_state t)) \<le> length ls + over \<and>
     (tall (tui_size t) \<or> over = 1)"

lemma unat_u16_u64: "unat (ucast (h :: 16 word) :: u64) = unat h"
proof -
  have "unat h < 2 ^ LENGTH(16)" by (rule unsigned_less)
  then show ?thesis by (simp add: unsigned_ucast_eq take_bit_nat_eq_self)
qed

lemma unat_half_height: "unat (half_height t) = unat (rect_height (tui_size t)) div 2"
  by (simp only: half_height_def unat_u16_u64) (simp add: unat_div)

lemma unat_sat_le: "unat (sat_add a b) \<le> unat a + unat b" "unat (sat_sub a b) \<le> unat a"
  by (simp_all add: unat_sat_add unat_sat_sub)

lemma scroll_max_within: "within over ls t \<Longrightarrow> unat (scroll_max t) \<le> length ls + over"
  by (auto simp: within_def tall_def scroll_max_def unat_sat_sub unat_half_height)

lemma unat_min: "unat (min a b :: u64) = min (unat a) (unat b)"
  by (auto simp: min_def word_le_nat_alt)

lemma within_offset:
  "within over ls t \<Longrightarrow> unat off \<le> length ls + over \<Longrightarrow>
   within over ls (on_state (\<lambda>s. s\<lparr>ts_scroll_offset := off\<rparr>) t)"
  by (simp add: within_def on_state_def)

lemma scroll_within:
  assumes "within over ls t"
  shows "within over ls (scroll_up n t)" "within over ls (scroll_down n t)" "within over ls (scroll_to n t)"
proof -
  have "unat (sat_sub (ts_scroll_offset (tui_state t)) n) \<le> length ls + over"
    using assms unat_sat_le(2) [of "ts_scroll_offset (tui_state t)" n] by (simp add: within_def)
  then show "within over ls (scroll_up n t)"
    using assms by (simp add: within_def scroll_up_def on_state_def)
  show "within over ls (scroll_down n t)" "within over ls (scroll_to n t)"
    using assms scroll_max_within [OF assms]
    by (auto simp: within_def scroll_down_def scroll_to_def on_state_def unat_min)
qed

lemma push_line_within:
  assumes "within over ls t"
  shows "within over (ls @ [l]) (push_line l t)"
proof -
  have "unat (sat_add (ts_line_count (tui_state t)) 1) \<le> length ls + 2"
    "unat (sat_add (ts_scroll_offset (tui_state t)) 1) \<le> length ls + over + 1"
    using assms unat_sat_le(1) [of "ts_line_count (tui_state t)" 1]
      unat_sat_le(1) [of "ts_scroll_offset (tui_state t)" 1] by (simp_all add: within_def)
  then show ?thesis using assms
    by (simp add: within_def push_line_def maybe_follow_def on_state_def Let_def)
qed

lemma handle_tui_event_within: "within over ls t \<Longrightarrow> within over ls (handle_tui_event e t)"
  by (induction e t rule: handle_tui_event.induct)
     (auto simp: scroll_within, auto simp: within_def on_state_def)

lemma quit_within: "within over ls t \<Longrightarrow> within over ls (on_state (\<lambda>s. s\<lparr>ts_quit := True\<rparr>) t)"
  by (simp add: within_def on_state_def)

lemma tui_input_step_within:
  "within over ls t \<Longrightarrow> tui_input_step i t = Inr t' \<Longrightarrow> within over (ls @ given_line i) t'"
  by (cases i rule: given_line.cases)
     (auto simp: res_simps push_line_within handle_tui_event_within quit_within split: option.splits sum.splits)

lemma run_tui_within:
  assumes "within over ls t" and "over = 1 \<or> list_all (tall_frame \<circ> fst) steps"
  shows "\<exists>n \<le> length (lines_given steps).
    within over (ls @ take n (lines_given steps)) (fst (run_tui into_text steps t))"
  using assms
proof (induction into_text steps t arbitrary: ls rule: run_tui.induct)
  case (1 into_text t)
  then show ?case by (intro exI [of _ 0]) simp
next
  case (2 into_text frame_size input later t)
  have stop: ?case if "within over ls (fst (run_tui into_text ((frame_size, input) # later) t))"
    using that by (intro exI [of _ 0]) simp
  show ?case
  proof (cases "\<not> ts_quit (tui_state t) \<and> (\<exists>t1 shown. tui_render into_text frame_size t = Inr (t1, shown))")
    case False
    then show ?thesis using 2(2) by (intro stop) (auto split: sum.split)
  next
    case True
    then obtain t1 shown where run: "\<not> ts_quit (tui_state t)" "tui_render into_text frame_size t = Inr (t1, shown)"
      by blast
    then have t1: "within over ls t1"
      using 2(2,3) by (auto simp: tui_render_def res_simps within_def tall_frame_def)
    show ?thesis
    proof (cases "tui_input_step input t1")
      case Inl
      with run t1 show ?thesis by (intro stop) simp
    next
      case (Inr t2)
      from 2(3) have "over = 1 \<or> list_all (tall_frame \<circ> fst) later" by (auto simp: comp_def)
      from 2(1) [OF run refl Inr tui_input_step_within [OF t1 Inr] this] obtain n
        where n: "n \<le> length (lines_given later)" "within over ((ls @ given_line input) @ take n (lines_given later))
          (fst (run_tui into_text later t2))"
        by blast
      have "length (given_line input) + n \<le> length (lines_given ((frame_size, input) # later))"
        "take (length (given_line input) + n) (lines_given ((frame_size, input) # later)) =
          given_line input @ take n (lines_given later)"
        using n(1) by (simp_all add: lines_given_def)
      with n(2) run Inr show ?thesis by (intro exI [of _ "length (given_line input) + n"]) simp
    qed
  qed
qed

section \<open>Following the output\<close>

text \<open>What a pushed line does, in numbers.\<close>

lemma push_line_numbers:
  fixes t l
  defines "k \<equiv> unat (ts_line_count (tui_state t))" and "off \<equiv> unat (ts_scroll_offset (tui_state t))"
    and "h \<equiv> unat (rect_height (tui_size t))" and "p \<equiv> push_line l t"
  assumes "k + 1 < 2 ^ 64" and "off \<le> k"
  shows "unat (ts_line_count (tui_state p)) = k + 1"
    and "unat (ts_scroll_offset (tui_state p)) = (if k - h \<le> off \<and> h < k + 1 then off + 1 else off)"
    and "tui_size p = tui_size t" and "ts_quit (tui_state p) = ts_quit (tui_state t)"
proof -
  let ?h = "ucast (rect_height (tui_size t)) :: u64" and ?k = "sat_add (ts_line_count (tui_state t)) 1"
  have k: "unat ?k = k + 1" using assms(5) by (simp add: unat_sat_add k_def)
  have off: "unat (sat_add (ts_scroll_offset (tui_state t)) 1) = off + 1" using assms(5,6) by (simp add: unat_sat_add off_def)
  have h: "unat ?h = h" unfolding h_def by (rule unat_u16_u64)
  have cond: "sat_sub (sat_sub ?k ?h) 1 \<le> ts_scroll_offset (tui_state t) \<longleftrightarrow> k - h \<le> off" "?h < ?k \<longleftrightarrow> h < k + 1"
    using k h by (auto simp: word_le_nat_alt word_less_nat_alt unat_sat_sub off_def)
  show "unat (ts_line_count (tui_state p)) = k + 1"
    using k by (simp add: p_def push_line_def maybe_follow_def on_state_def Let_def)
  show "unat (ts_scroll_offset (tui_state p)) = (if k - h \<le> off \<and> h < k + 1 then off + 1 else off)"
    using cond off by (simp add: p_def push_line_def maybe_follow_def on_state_def Let_def off_def)
  show "tui_size p = tui_size t" "ts_quit (tui_state p) = ts_quit (tui_state t)"
    by (simp_all add: p_def push_line_def maybe_follow_def on_state_def Let_def)
qed

lemma pushed_lines:
  assumes "0 < rect_height area"
  shows "length ls < 2 ^ 64 - 1 \<Longrightarrow>
    unat (ts_line_count (tui_state (fold push_line ls (tui_new area)))) = length ls + 1 \<and>
    unat (ts_scroll_offset (tui_state (fold push_line ls (tui_new area)))) = length ls + 1 - unat (rect_height area) \<and>
    tui_size (fold push_line ls (tui_new area)) = area \<and> \<not> ts_quit (tui_state (fold push_line ls (tui_new area)))"
proof (induction ls rule: rev_induct)
  case Nil
  have "0 < unat (rect_height area)" using assms by (simp add: word_less_nat_alt)
  then show ?case by (simp add: tui_new_def tui_state_default_def)
next
  case (snoc l ls)
  let ?t = "fold push_line ls (tui_new area)"
  have h: "0 < unat (rect_height area)" using assms by (simp add: word_less_nat_alt)
  have IH: "unat (ts_line_count (tui_state ?t)) = length ls + 1"
    "unat (ts_scroll_offset (tui_state ?t)) = length ls + 1 - unat (rect_height area)" "tui_size ?t = area"
    "\<not> ts_quit (tui_state ?t)" using snoc by simp_all
  have n: "unat (ts_line_count (tui_state ?t)) + 1 < 2 ^ 64" using snoc.prems IH(1) by simp
  have le: "unat (ts_scroll_offset (tui_state ?t)) \<le> unat (ts_line_count (tui_state ?t))" using IH(1,2) by simp
  from push_line_numbers [OF n le, of l] IH h show ?case by (simp del: unsigned_eq_0_iff) linarith
qed

section \<open>Properties\<close>

text \<open>
  C39: the scroll offset never passes the text. Whatever lines, keys, resizes and errors the loop sees,
  the scrollback holds a prefix of the lines it was given, each with its newline, and the offset is at
  most their number, that of the empty line behind the last of them, as long as every frame has two rows
  or more; with a smaller terminal it may be one more (\<open>G\<close> then shows the row behind the text).
\<close>

theorem scroll_offset_bounded:
  "\<exists>n. ts_scrollback (tui_state (fst (run_tui into_text steps (tui_new area))))
      = concat (map (\<lambda>l. l @ [newline]) (take n (lines_given steps))) \<and>
    n \<le> length (lines_given steps) \<and>
    unat (ts_scroll_offset (tui_state (fst (run_tui into_text steps (tui_new area)))))
      \<le> n + (if tall area \<and> list_all (tall_frame \<circ> fst) steps then 0 else 1)"
proof -
  let ?over = "if tall area \<and> list_all (tall_frame \<circ> fst) steps then 0 else 1 :: nat"
  have "within ?over [] (tui_new area)"
    by (simp add: within_def tui_new_def tui_state_default_def)
  moreover have "?over = 1 \<or> list_all (tall_frame \<circ> fst) steps" by simp
  ultimately have "\<exists>n \<le> length (lines_given steps).
      within ?over ([] @ take n (lines_given steps)) (fst (run_tui into_text steps (tui_new area)))"
    by (rule run_tui_within)
  then obtain n where "n \<le> length (lines_given steps)"
      "within ?over (take n (lines_given steps)) (fst (run_tui into_text steps (tui_new area)))"
    by (elim exE conjE) (simp only: append_Nil)
  then show ?thesis by (intro exI [of _ n]) (simp only: within_def length_take min_absorb2)
qed

lemma run_of_lines:
  "\<not> ts_quit (tui_state (fold push_line ls t)) \<Longrightarrow> tui_size t = area \<Longrightarrow>
   run_tui into_text (map (\<lambda>l. (Inr area, GhciLine (Inr (Some l)))) ls) t = (fold push_line ls t, None)"
proof (induction ls arbitrary: t)
  case (Cons l ls)
  have quit: "ts_quit (tui_state (push_line l u)) = ts_quit (tui_state u)" "tui_size (push_line l u) = tui_size u" for l u
    by (simp_all add: push_line_def maybe_follow_def on_state_def Let_def)
  have "ts_quit (tui_state (fold push_line ls u)) = ts_quit (tui_state u)" for u
    by (induction ls arbitrary: u) (simp_all add: quit)
  with Cons.prems quit have "\<not> ts_quit (tui_state t)" by simp
  moreover have "t\<lparr>tui_size := area\<rparr> = t" using Cons.prems(2) by simp
  moreover have "run_tui into_text (map (\<lambda>l. (Inr area, GhciLine (Inr (Some l)))) ls) (push_line l t) =
    (fold push_line ls (push_line l t), None)"
    using Cons.prems by (intro Cons.IH) (simp_all add: quit)
  ultimately show ?case by (simp add: tui_render_def)
qed simp

text \<open>
  C40: a long session leaves the terminal interface blank. After as many lines of output as 65535 and the
  height of the terminal, with no key pressed, the offset does not fit the 16 bits that drawing takes;
  the error is dropped, every frame stays empty, and the loop goes on.
\<close>

theorem long_output_goes_blank:
  assumes "0 < rect_height area" and "65535 + unat (rect_height area) \<le> length ls" and "length ls < 2 ^ 64 - 1"
  shows "\<exists>t. run_tui into_text (map (\<lambda>l. (Inr area, GhciLine (Inr (Some l)))) ls) (tui_new area) = (t, None) \<and>
    tui_render into_text (Inr area) t = Inr (t, Blank)"
proof -
  let ?t = "fold push_line ls (tui_new area)"
  note t = pushed_lines [OF assms(1,3)]
  have run: "run_tui into_text (map (\<lambda>l. (Inr area, GhciLine (Inr (Some l)))) ls) (tui_new area) = (?t, None)"
    using t by (intro run_of_lines) (simp_all add: tui_new_def)
  have "65536 \<le> unat (ts_scroll_offset (tui_state ?t))" using t assms(2) by linarith
  then have "u16_try_from (ts_scroll_offset (tui_state ?t)) = None"
    by (simp add: u16_try_from_def word_less_nat_alt)
  then have "render_inner into_text area (tui_state ?t) = Inr shown \<Longrightarrow> shown = Blank" for shown
    by (auto simp: render_inner_def res_simps split: if_splits)
  then have "(case render_inner into_text area (tui_state ?t) of Inr shown \<Rightarrow> shown | Inl _ \<Rightarrow> Blank) = Blank"
    by (auto split: sum.split)
  moreover have "?t\<lparr>tui_size := area\<rparr> = ?t" using t by simp
  ultimately have "tui_render into_text (Inr area) ?t = Inr (?t, Blank)" by (simp add: tui_render_def)
  with run show ?thesis by blast
qed

theorem long_output_goes_blank_witness:
  "\<exists>t. run_tui (\<lambda>s. Inr s) (map (\<lambda>l. (Inr \<lparr>rect_width = 80, rect_height = 24\<rparr>, GhciLine (Inr (Some l)))) (replicate 65559 ''x''))
      (tui_new \<lparr>rect_width = 80, rect_height = 24\<rparr>) = (t, None) \<and>
    tui_render (\<lambda>s. Inr s) (Inr \<lparr>rect_width = 80, rect_height = 24\<rparr>) t = Inr (t, Blank)"
  by (rule long_output_goes_blank) simp_all

end
