(* ===== verification/Startup.thy ===== *)
theory Startup
  imports Manager Memory
begin

text \<open>
  \<open>run_ghci\<close> of \<open>src/src/ghci/manager.rs\<close> up to the manager's loop: starting the session, what an exit
  during startup leads to, and the memory diagnostic, which owns the session instead of the loop; and
  the reports printed when GHCi exits. The session, \<open>/proc\<close>, standard output and the shutdown are the
  environment; \<open>format_bytes\<close> (floating point) is a parameter.
\<close>

section \<open>Errors and exit statuses\<close>

text \<open>An \<open>eyre::Report\<close> as the chain of its causes, outermost first.\<close>

datatype error_cause = BrokenPipeCause | RecoveryFailedCause | OtherCause string

definition is_recovery_failure :: "error_cause list \<Rightarrow> bool" where
  "is_recovery_failure err \<longleftrightarrow>
     (case err of [] \<Rightarrow> False | c # _ \<Rightarrow> c = RecoveryFailedCause) \<or> list_ex (\<lambda>c. c = RecoveryFailedCause) err"

definition is_broken_pipe :: "error_cause list \<Rightarrow> bool" where
  "is_broken_pipe err \<longleftrightarrow> list_ex (\<lambda>c. c = BrokenPipeCause) err"

text \<open>\<open>ExitStatus\<close>: how it is displayed, its code, its signal, and whether a core was dumped.\<close>

record exit_status =
  xs_text :: string
  xs_code :: "int option"
  xs_signal :: "int option"
  xs_core_dumped :: bool

definition show_int :: "int \<Rightarrow> string" where
  "show_int n = (if n < 0 then CHR ''-'' # show_nat (nat (- n)) else show_nat (nat n))"

definition debug_option :: "int option \<Rightarrow> string" where
  "debug_option x = (case x of None \<Rightarrow> ''None'' | Some n \<Rightarrow> ''Some('' @ show_int n @ '')'')"

definition show_bool :: "bool \<Rightarrow> string" where
  "show_bool b = (if b then ''true'' else ''false'')"

text \<open>The names of signals are those of the \<open>nix\<close> crate; the numbers compared with are Linux's.\<close>

definition signal_hint :: "int option \<Rightarrow> string" where
  "signal_hint signal =
     (case signal of
        None \<Rightarrow> []
      | Some n \<Rightarrow>
          if n = 9 then newline # ''Diagnostic hint: SIGKILL can indicate the Linux OOM killer or an external kill; check ''
            @ CHR 0x60 # ''journalctl -k'' @ CHR 0x60 # CHR ''/'' # CHR 0x60 # ''dmesg'' @ CHR 0x60 # '' around this timestamp''
          else if n \<in> set [6, 7, 4, 11] then newline #
            ''Diagnostic hint: this signal usually indicates a native-code crash; inspect the core dump if one was produced''
          else [])"

definition exit_status_diagnostic :: "(int \<Rightarrow> string option) \<Rightarrow> exit_status \<Rightarrow> string" where
  "exit_status_diagnostic signal_name status =
     ''Command exit status: '' @ xs_text status @ newline #
     ''Exit code: '' @ debug_option (xs_code status) @ newline #
     ''Terminating signal: '' @ (case xs_signal status of
         None \<Rightarrow> ''none''
       | Some n \<Rightarrow> (case signal_name n of
           Some name \<Rightarrow> show_int n @ '' ('' @ name @ '')''
         | None \<Rightarrow> show_int n)) @ newline #
     ''Core dumped: '' @ show_bool (xs_core_dumped status) @ signal_hint (xs_signal status) @ newline #
     ''Status note: this status belongs to the configured --command process; a wrapper such as cabal may translate a child GHC crash signal into its own exit code''"

section \<open>Reports of a crash\<close>

definition diagnostic_context :: "nat \<Rightarrow> nat \<Rightarrow> string \<Rightarrow> string \<Rightarrow> string" where
  "diagnostic_context pid pgid cwd command =
     ''Component: configured GHCi --command process'' @ newline #
     ''Command process ID: '' @ show_nat pid @ newline #
     ''Process group ID: '' @ show_nat pgid @ newline #
     ''Working directory: '' @ cwd @ newline #
     ''Command: '' @ command"

definition affected_text :: "watcher_event option \<Rightarrow> string" where
  "affected_text event =
     (case Option.bind event affected_paths of
        None \<Rightarrow> []
      | Some paths \<Rightarrow> newline # ''Affected paths:'' @ newline # paths)"

definition CRASH_RESTART_DELAY :: string where
  "CRASH_RESTART_DELAY = ''10s''"

definition first_crash_details ::
  "bool \<Rightarrow> (int \<Rightarrow> string option) \<Rightarrow> string \<Rightarrow> exit_status \<Rightarrow> string \<Rightarrow> watcher_event option \<Rightarrow> string" where
  "first_crash_details restart_unchanged signal_name detected_phase status context event =
     (let recovery = (if restart_unchanged
        then ''persistently retrying with a fresh GHCi session after '' @ CRASH_RESTART_DELAY
          @ '', using the newest queued watched state''
        else ''retrying with a fresh GHCi session after '' @ CRASH_RESTART_DELAY
          @ ''; if the unchanged replacement also crashes, waiting for any configured watched path to change'') in
      ''Detected phase: '' @ detected_phase @ newline # exit_status_diagnostic signal_name status @ newline #
      context @ affected_text event @ newline # ''Recovery: '' @ recovery)"

definition next_crash_details ::
  "bool \<Rightarrow> bool \<Rightarrow> (int \<Rightarrow> string option) \<Rightarrow> exit_status \<Rightarrow> string \<Rightarrow> watcher_event option \<Rightarrow> string" where
  "next_crash_details restart_unchanged pending signal_name status context attempted =
     (let recovery = (if restart_unchanged
        then ''persistent recovery enabled; retrying after '' @ CRASH_RESTART_DELAY @ '' with the newest queued watched state''
        else if pending
        then ''a newer watched state is already queued; retrying after '' @ CRASH_RESTART_DELAY
        else ''crash loop detected; waiting for any configured watched path to change, then retrying after the ''
          @ CRASH_RESTART_DELAY @ '' crash delay'') in
      ''Detected phase: while starting a replacement GHCi session'' @ newline #
      exit_status_diagnostic signal_name status @ newline #
      context @ affected_text attempted @ newline # ''Recovery: '' @ recovery)"

section \<open>Starting\<close>

text \<open>What a \<open>select!\<close> with the shutdown gives.\<close>

datatype 'a awaited = ShutdownCame | Arrived 'a

datatype startup_op =
    OpNew
  | OpInitialize
  | OpStopSession
  | OpCheckExit
  | OpDebugReload
  | OpReloadDropped
  | OpPrint string
  | OpRequestShutdown
  | OpSpawnEvalSocket

text \<open>The answers may depend on everything done before.\<close>

record startup_env =
  su_linux :: bool
  su_new :: "startup_op list \<Rightarrow> unit res awaited"
  su_initialize :: "startup_op list \<Rightarrow> (io_error \<times> error_cause list + unit) awaited"
  su_stop :: "startup_op list \<Rightarrow> unit res"
  su_exited :: "startup_op list \<Rightarrow> exit_status option"
  su_exit_status :: "startup_op list \<Rightarrow> exit_status option awaited"
  su_debug_reload :: "startup_op list \<Rightarrow> unit res awaited"
  su_own_pid :: int
  su_command_pid :: "startup_op list \<Rightarrow> int"
  su_process_group_id :: "startup_op list \<Rightarrow> int"
  su_snapshot :: "startup_op list \<Rightarrow> bool \<Rightarrow> process_table res"
  su_reports :: "startup_op list \<Rightarrow> int \<Rightarrow> string res"
  su_print :: "startup_op list \<Rightarrow> string \<Rightarrow> unit res"
  su_request_shutdown :: "startup_op list \<Rightarrow> unit res"
  su_spawn_eval :: "startup_op list \<Rightarrow> unit res"
  su_format_bytes :: "u64 \<Rightarrow> string"

definition usage_details :: "(u64 \<Rightarrow> string) \<Rightarrow> memory_usage \<Rightarrow> string" where
  "usage_details format_bytes u =
     ''Command PID: '' @ show_int (mu_command_pid u) @ '' (not counted)'' @ newline #
     (case (mu_cabal_parent u, mu_interactive_ghc u) of
        (Some (cabal_pid, cabal_bytes), Some (ghc_pid, ghc_bytes)) \<Rightarrow>
          ''Cabal parent PID: '' @ show_int cabal_pid @ '' ('' @ format_bytes cabal_bytes @ '')'' @ newline #
          ''Interactive GHC PID: '' @ show_int ghc_pid @ '' ('' @ format_bytes ghc_bytes @ '')''
      | _ \<Rightarrow>
          ''Cabal parent PID: not found'' @ newline # ''Interactive GHC PID: not found'')"

definition bytes_text :: "(u64 \<Rightarrow> string) \<Rightarrow> u64 \<Rightarrow> string" where
  "bytes_text format_bytes n = format_bytes n @ '' ('' @ show_word n @ '' bytes)''"

text \<open>The lines of sample \<open>i\<close>, each with its newline.\<close>

definition sample_lines :: "(u64 \<Rightarrow> string) \<Rightarrow> nat \<Rightarrow> nat \<Rightarrow> u64 \<Rightarrow> memory_usage \<Rightarrow> string list" where
  "sample_lines format_bytes reloads i bytes u =
     (let heading = ''DEBUG-MEM '' @ show_nat i @ ''/'' @ show_nat reloads @ '': '' in
      [heading @ ''process-tree RSS '' @ bytes_text format_bytes bytes @ [newline],
       (if mu_interactive_ghc u \<noteq> None
        then heading @ ''REPL RSS '' @ bytes_text format_bytes (mu_bytes u)
          @ '', LazyFree '' @ bytes_text format_bytes (mu_lazy_free_bytes u)
          @ '', swap '' @ bytes_text format_bytes (mu_swap_bytes u)
          @ '', charged '' @ format_bytes (charged_bytes u) @ '' ('' @ show_word (charged_bytes u)
          @ '' bytes; RSS - LazyFree + swap)'' @ newline # usage_details format_bytes u
        else heading @ ''REPL RAM+swap unavailable (persistent GHC/Cabal pair not found)'') @ [newline]])"

fun print_lines :: "startup_env \<Rightarrow> string list \<Rightarrow> startup_op list \<Rightarrow> startup_op list \<times> unit res" where
  "print_lines env [] ops = (ops, Inr ())"
| "print_lines env (l # ls) ops =
     (case su_print env ops l of
        Inl e \<Rightarrow> (ops, Inl e)
      | Inr _ \<Rightarrow> print_lines env ls (ops @ [OpPrint l]))"

definition tree_resident_memory :: "int \<Rightarrow> process_table \<Rightarrow> u64 res" where
  "tree_resident_memory root processes =
     (if map_of processes root = None then Inl (IoError ''Cannot read ghciwatch RSS from /proc'')
      else Inr (tree_bytes root processes))"

text \<open>Each of the two readings takes its own snapshot of the processes.\<close>

definition memory_sample :: "startup_env \<Rightarrow> startup_op list \<Rightarrow> (u64 \<times> memory_usage) res" where
  "memory_sample env ops =
     res_bind (res_bind (su_snapshot env ops False) (tree_resident_memory (su_own_pid env))) (\<lambda>tree.
     res_bind (su_snapshot env ops True) (\<lambda>processes.
     res_bind (repl_resident_memory (su_reports env ops) (su_command_pid env ops) (su_process_group_id env ops) processes)
       (\<lambda>repl. Inr (tree, repl))))"

text \<open>One sample of a session that has not exited.\<close>

definition take_sample :: "startup_env \<Rightarrow> nat \<Rightarrow> nat \<Rightarrow> startup_op list \<Rightarrow> startup_op list \<times> unit res" where
  "take_sample env reloads i ops =
     (let ops1 = ops @ [OpCheckExit] in
      case su_exited env ops of
        Some status \<Rightarrow>
          (ops1, Inl (IoError (''Memory diagnostic command exited: '' @ xs_text status @ ''; no memory sample recorded'')))
      | None \<Rightarrow>
          (case memory_sample env ops1 of
             Inl e \<Rightarrow> (ops1, Inl e)
           | Inr (bytes, usage) \<Rightarrow> print_lines env (sample_lines (su_format_bytes env) reloads i bytes usage) ops1))"

text \<open>The iterations from \<open>i\<close>; \<open>n\<close> of them are left.\<close>

fun debug_samples :: "startup_env \<Rightarrow> nat \<Rightarrow> nat \<Rightarrow> nat \<Rightarrow> startup_op list \<Rightarrow> startup_op list \<times> unit res" where
  "debug_samples env reloads 0 i ops = (ops @ [OpRequestShutdown], su_request_shutdown env ops)"
| "debug_samples env reloads (Suc n) i ops =
     (let sample = (\<lambda>ops. case take_sample env reloads i ops of
            (ops1, Inl e) \<Rightarrow> (ops1, Inl e)
          | (ops1, Inr _) \<Rightarrow> debug_samples env reloads n (Suc i) ops1) in
      if i = 0 then sample ops
      else (case su_debug_reload env ops of
          ShutdownCame \<Rightarrow> (ops @ [OpReloadDropped], Inr ())
        | Arrived (Inl e) \<Rightarrow> (ops @ [OpDebugReload], Inl e)
        | Arrived (Inr _) \<Rightarrow> sample (ops @ [OpDebugReload])))"

text \<open>
  \<open>EntersManager crashed\<close>: the loop is entered, after the crash recovery of a session that exited during
  startup or at once.
\<close>

datatype startup_end = StartupReturns "unit res" | EntersManager bool

definition run_ghci_start :: "startup_env \<Rightarrow> nat option \<Rightarrow> startup_op list \<times> startup_end" where
  "run_ghci_start env debug_mem =
     (if debug_mem \<noteq> None \<and> \<not> su_linux env
      then ([], StartupReturns (Inl (IoError ''--debug-mem requires Linux /proc'')))
      else case su_new env [] of
        ShutdownCame \<Rightarrow> ([], StartupReturns (Inr ()))
      | Arrived (Inl e) \<Rightarrow> ([OpNew], StartupReturns (Inl e))
      | Arrived (Inr _) \<Rightarrow>
     (case su_initialize env [OpNew] of
        ShutdownCame \<Rightarrow> ([OpNew, OpStopSession], StartupReturns (su_stop env [OpNew]))
      | Arrived startup_result \<Rightarrow>
     (let ops = [OpNew, OpInitialize];
          continue = (\<lambda>ops startup_exit.
            case (startup_exit, debug_mem) of
              (Some status, Some _) \<Rightarrow>
                (ops, StartupReturns (Inl (IoError (''Memory diagnostic command exited during startup: '' @ xs_text status))))
            | (Some _, None) \<Rightarrow> (ops, EntersManager True)
            | (None, Some reloads) \<Rightarrow> (case debug_samples env reloads (Suc reloads) 0 ops of (ops1, r) \<Rightarrow> (ops1, StartupReturns r))
            | (None, None) \<Rightarrow>
                (case su_spawn_eval env ops of
                   Inl e \<Rightarrow> (ops, StartupReturns (Inl e))
                 | Inr _ \<Rightarrow> (ops @ [OpSpawnEvalSocket], EntersManager False))) in
      case startup_result of
        Inr _ \<Rightarrow> continue (ops @ [OpCheckExit]) (su_exited env ops)
      | Inl (e, err) \<Rightarrow>
          if debug_mem = None \<and> (is_broken_pipe err \<or> is_recovery_failure err)
          then (case su_exit_status env ops of
              ShutdownCame \<Rightarrow> (ops, StartupReturns (Inr ()))
            | Arrived status \<Rightarrow> continue ops status)
          else (ops, StartupReturns (Inl e)))))"

section \<open>The memory diagnostic\<close>

text \<open>Sample \<open>i\<close> as it is due: after its own reload, from a session that has not exited.\<close>

definition sampled :: "startup_env \<Rightarrow> nat \<Rightarrow> nat \<Rightarrow> startup_op list \<Rightarrow> startup_op list \<Rightarrow> bool" where
  "sampled env reloads i ops ops' \<longleftrightarrow>
     (\<exists>ops0 bytes usage. ops0 = (if i = 0 then ops else ops @ [OpDebugReload]) \<and>
        (i \<noteq> 0 \<longrightarrow> su_debug_reload env ops = Arrived (Inr ())) \<and> su_exited env ops0 = None \<and>
        memory_sample env (ops0 @ [OpCheckExit]) = Inr (bytes, usage) \<and>
        ops' = ops0 @ OpCheckExit # map OpPrint (sample_lines (su_format_bytes env) reloads i bytes usage))"

inductive sampled_upto :: "startup_env \<Rightarrow> nat \<Rightarrow> nat \<Rightarrow> startup_op list \<Rightarrow> bool" for env reloads where
  none_sampled: "su_new env [] = Arrived (Inr ()) \<Longrightarrow> su_initialize env [OpNew] = Arrived (Inr ()) \<Longrightarrow>
    su_exited env [OpNew, OpInitialize] = None \<Longrightarrow> sampled_upto env reloads 0 [OpNew, OpInitialize, OpCheckExit]"
| next_sampled: "sampled_upto env reloads i ops \<Longrightarrow> sampled env reloads i ops ops' \<Longrightarrow> sampled_upto env reloads (Suc i) ops'"

lemma print_lines_result:
  "print_lines env ls ops = (ops1, r) \<Longrightarrow>
   (\<exists>printed. ops1 = ops @ map OpPrint printed) \<and> (r = Inr () \<longrightarrow> ops1 = ops @ map OpPrint ls)"
proof (induction ls arbitrary: ops)
  case (Cons l ls)
  show ?case
  proof (cases "su_print env ops l")
    case (Inl e)
    with Cons.prems show ?thesis by (auto intro: exI [of _ "[]"])
  next
    case (Inr u)
    with Cons.prems have "print_lines env ls (ops @ [OpPrint l]) = (ops1, r)" by simp
    from Cons.IH [OF this] show ?thesis by (auto intro: exI [of _ "l # _"])
  qed
qed auto

lemma take_sample_result:
  assumes "take_sample env reloads i ops = (ops1, r)"
  shows "(\<exists>printed. ops1 = ops @ OpCheckExit # map OpPrint printed) \<and>
    (r = Inr () \<longrightarrow> su_exited env ops = None \<and> (\<exists>bytes usage. memory_sample env (ops @ [OpCheckExit]) = Inr (bytes, usage) \<and>
       ops1 = ops @ OpCheckExit # map OpPrint (sample_lines (su_format_bytes env) reloads i bytes usage)))"
proof (cases "su_exited env ops")
  case None
  let ?ops = "ops @ [OpCheckExit]"
  show ?thesis
  proof (cases "memory_sample env ?ops")
    case (Inl e)
    with None assms show ?thesis by (auto simp: take_sample_def Let_def)
  next
    case (Inr m)
    obtain bytes usage where m: "m = (bytes, usage)" by (cases m)
    with None Inr assms have "print_lines env (sample_lines (su_format_bytes env) reloads i bytes usage) ?ops = (ops1, r)"
      by (simp add: take_sample_def Let_def)
    from print_lines_result [OF this] None Inr m show ?thesis by auto
  qed
next
  case (Some status)
  with assms show ?thesis by (auto simp: take_sample_def Let_def)
qed

lemma debug_samples_result:
  assumes "debug_samples env reloads n i ops = (ops1, r)" and "sampled_upto env reloads i ops" and "OpRequestShutdown \<notin> set ops"
  shows "(OpRequestShutdown \<in> set ops1 \<longrightarrow>
      (\<exists>ops'. sampled_upto env reloads (i + n) ops' \<and> ops1 = ops' @ [OpRequestShutdown] \<and> r = su_request_shutdown env ops')) \<and>
    (r = Inr () \<longrightarrow> OpRequestShutdown \<in> set ops1 \<or> last ops1 = OpReloadDropped)"
  using assms
proof (induction n arbitrary: i ops)
  case (Suc n)
  have sample: ?case
    if run: "(case take_sample env reloads i ops0 of (ops2, Inl e) \<Rightarrow> (ops2, Inl e)
        | (ops2, Inr _) \<Rightarrow> debug_samples env reloads n (Suc i) ops2) = (ops1, r)"
      and ops0: "ops0 = (if i = 0 then ops else ops @ [OpDebugReload])"
      and reload: "i \<noteq> 0 \<longrightarrow> su_debug_reload env ops = Arrived (Inr ())" for ops0
  proof -
    obtain ops2 r2 where t: "take_sample env reloads i ops0 = (ops2, r2)" by force
    have "OpRequestShutdown \<notin> set ops0" using Suc.prems(3) ops0 by simp
    with take_sample_result [OF t] have none: "OpRequestShutdown \<notin> set ops2" by auto
    show ?thesis
    proof (cases r2)
      case (Inl e)
      with run t none show ?thesis by auto
    next
      case (Inr u)
      with take_sample_result [OF t] obtain bytes usage where
        "su_exited env ops0 = None" "memory_sample env (ops0 @ [OpCheckExit]) = Inr (bytes, usage)"
        "ops2 = ops0 @ OpCheckExit # map OpPrint (sample_lines (su_format_bytes env) reloads i bytes usage)"
        by auto
      with ops0 reload have "sampled env reloads i ops ops2"
        unfolding sampled_def by (intro exI [of _ ops0] exI [of _ bytes] exI [of _ usage] conjI)
      with Suc.prems(2) have "sampled_upto env reloads (Suc i) ops2" by (rule next_sampled)
      moreover from run t Inr have "debug_samples env reloads n (Suc i) ops2 = (ops1, r)" by simp
      ultimately show ?thesis using Suc.IH [of "Suc i" ops2] none by simp
    qed
  qed
  show ?case
  proof (cases "i = 0")
    case True
    have "(case take_sample env reloads i ops of (ops2, Inl e) \<Rightarrow> (ops2, Inl e)
        | (ops2, Inr _) \<Rightarrow> debug_samples env reloads n (Suc i) ops2) = (ops1, r)"
      using Suc.prems(1) unfolding True by (simp add: Let_def)
    then show ?thesis by (rule sample) (simp_all add: True)
  next
    case False
    show ?thesis
    proof (cases "su_debug_reload env ops")
      case ShutdownCame
      with False Suc.prems show ?thesis by (auto simp: Let_def)
    next
      case (Arrived x)
      show ?thesis
      proof (cases x)
        case (Inl e)
        with Arrived False Suc.prems show ?thesis by (auto simp: Let_def)
      next
        case (Inr u)
        with Arrived False Suc.prems(1) show ?thesis by (intro sample [of "ops @ [OpDebugReload]"]) (simp_all add: Let_def)
      qed
    qed
  qed
qed auto

text \<open>
  The memory diagnostic samples only the builds it was asked for. It never enters the manager's loop, so
  nothing is restarted; when it ends by itself, the session started and initialised without an error,
  sample 0 was taken of it and each of the others after exactly one successful reload, every one from a
  session that had not exited; and it ends without an error only then or when a shutdown came.
\<close>

theorem debug_memory_exact:
  assumes "run_ghci_start env (Some reloads) = (ops, end)"
  shows "\<exists>r. end = StartupReturns r \<and>
    (OpRequestShutdown \<in> set ops \<longrightarrow>
      (\<exists>ops'. sampled_upto env reloads (Suc reloads) ops' \<and> ops = ops' @ [OpRequestShutdown] \<and> r = su_request_shutdown env ops')) \<and>
    (r = Inr () \<longrightarrow> OpRequestShutdown \<in> set ops \<or> ops = [] \<or> last ops \<in> {OpStopSession, OpReloadDropped})"
    (is "\<exists>r. ?ended r")
proof (cases "su_linux env \<and> su_new env [] = Arrived (Inr ()) \<and> su_initialize env [OpNew] = Arrived (Inr ()) \<and>
    su_exited env [OpNew, OpInitialize] = None")
  case True
  let ?ops = "[OpNew, OpInitialize, OpCheckExit]"
  obtain ops1 r where run: "debug_samples env reloads (Suc reloads) 0 ?ops = (ops1, r)" by force
  from True have "sampled_upto env reloads 0 ?ops" by (intro none_sampled) simp_all
  from debug_samples_result [OF run this] have "?ended r \<or> ops1 \<noteq> ops \<or> end \<noteq> StartupReturns r" by auto
  moreover from True run assms have "ops = ops1" "end = StartupReturns r"
    by (simp_all add: run_ghci_start_def Let_def del: debug_samples.simps)
  ultimately show ?thesis by blast
next
  case False
  with assms show ?thesis
    by (auto simp: run_ghci_start_def Let_def simp del: debug_samples.simps
      split: if_splits awaited.splits sum.splits option.splits prod.splits)
qed

end
