(* ===== verification/Locks.thy ===== *)
theory Locks
  imports Prelude
begin

text \<open>
  Who may touch the GHCi session: the operation permit (\<open>EvalBarrier\<close> of \<open>src/src/my.rs\<close>) and the mutex
  around the session, as the eval connections, the manager and the dispatch it spawns
  (\<open>src/src/ghci/manager.rs\<close>) take them. Tokio's mutex is first-in, first-out: it is the queue of those
  who asked for it, and its head holds it.
\<close>

section \<open>The two locks\<close>

datatype agent = AgManager | AgDispatch | AgEval nat

definition has_lock :: "agent list \<Rightarrow> agent \<Rightarrow> bool" where
  "has_lock q a \<longleftrightarrow> (case q of [] \<Rightarrow> False | b # _ \<Rightarrow> b = a)"

definition leave :: "agent \<Rightarrow> agent list \<Rightarrow> agent list" where
  "leave a q = filter (\<lambda>b. b \<noteq> a) q"

text \<open>
  Where the manager is. \<open>AtGate\<close> and \<open>AtExitGate\<close> await the permit, for an event and after an unexpected
  exit. \<open>AtDispatch\<close>, \<open>AtCleanup\<close> and \<open>AtAfter\<close> are \<open>handle_event\<close>, with the permit: the dispatch runs; the
  manager itself is in the session or awaits it; it has left it. \<open>AtExit\<close> is the replacement after a
  recovery kill, with both; \<open>AtCrash\<close> and \<open>AtRestart\<close> are \<open>wait_and_restart\<close>, which has no permit when it
  is not called by \<open>handle_event\<close>.
\<close>

datatype manager_at =
    AtWait | AtGate | AtDispatch | AtCleanup | AtAfter | AtExitGate | AtExit | AtCrash | AtRestart | AtStop | AtEnd

datatype dispatch_at = DispatchEnded | DispatchSpawned | DispatchAsked

record locks =
  lk_gate :: "agent list"
  lk_session :: "agent list"
  lk_manager :: manager_at
  lk_dispatch :: dispatch_at
  lk_aborted :: bool

definition locks_new :: locks where
  "locks_new = \<lparr>lk_gate = [], lk_session = [], lk_manager = AtWait, lk_dispatch = DispatchEnded, lk_aborted = False\<rparr>"

definition begin_operation :: "agent \<Rightarrow> locks \<Rightarrow> locks" where
  "begin_operation a s = s\<lparr>lk_gate := lk_gate s @ [a]\<rparr>"

definition ask_session :: "agent \<Rightarrow> locks \<Rightarrow> locks" where
  "ask_session a s = s\<lparr>lk_session := lk_session s @ [a]\<rparr>"

definition end_operation :: "agent \<Rightarrow> locks \<Rightarrow> locks" where
  "end_operation a s = s\<lparr>lk_gate := leave a (lk_gate s)\<rparr>"

definition leave_session :: "agent \<Rightarrow> locks \<Rightarrow> locks" where
  "leave_session a s = s\<lparr>lk_session := leave a (lk_session s)\<rparr>"

section \<open>Steps\<close>

text \<open>
  The first argument tells the progress of those who hold the locks from what comes from outside: new
  requests, exits, interruptions and shutdowns.
\<close>

inductive eval_lock_step :: "bool \<Rightarrow> locks \<Rightarrow> locks \<Rightarrow> bool" where
  eval_request: "AgEval n \<notin> set (lk_gate s) \<Longrightarrow> eval_lock_step False s (begin_operation (AgEval n) s)"
| eval_session: "has_lock (lk_gate s) (AgEval n) \<Longrightarrow> AgEval n \<notin> set (lk_session s) \<Longrightarrow>
    eval_lock_step True s (ask_session (AgEval n) s)"
| eval_done: "has_lock (lk_gate s) (AgEval n) \<Longrightarrow> has_lock (lk_session s) (AgEval n) \<Longrightarrow>
    eval_lock_step True s (end_operation (AgEval n) (leave_session (AgEval n) s))"

inductive dispatch_lock_step :: "bool \<Rightarrow> locks \<Rightarrow> locks \<Rightarrow> bool" where
  dispatch_asks: "lk_dispatch s = DispatchSpawned \<Longrightarrow> \<not> lk_aborted s \<Longrightarrow>
    dispatch_lock_step True s (ask_session AgDispatch (s\<lparr>lk_dispatch := DispatchAsked\<rparr>))"
| dispatch_ends: "lk_dispatch s = DispatchAsked \<Longrightarrow> has_lock (lk_session s) AgDispatch \<Longrightarrow>
    dispatch_lock_step True s (leave_session AgDispatch (s\<lparr>lk_dispatch := DispatchEnded\<rparr>))"
| dispatch_dropped: "lk_dispatch s \<noteq> DispatchEnded \<Longrightarrow> lk_aborted s \<Longrightarrow>
    dispatch_lock_step True s (leave_session AgDispatch (s\<lparr>lk_dispatch := DispatchEnded\<rparr>))"

inductive manager_lock_step :: "bool \<Rightarrow> locks \<Rightarrow> locks \<Rightarrow> bool" where
  event: "lk_manager s = AtWait \<Longrightarrow> manager_lock_step False s (begin_operation AgManager (s\<lparr>lk_manager := AtGate\<rparr>))"
| exited: "lk_manager s = AtWait \<Longrightarrow> manager_lock_step False s (begin_operation AgManager (s\<lparr>lk_manager := AtExitGate\<rparr>))"
| shutdown: "lk_manager s = AtWait \<Longrightarrow> manager_lock_step False s (ask_session AgManager (s\<lparr>lk_manager := AtStop\<rparr>))"
| stopped: "lk_manager s = AtStop \<Longrightarrow> has_lock (lk_session s) AgManager \<Longrightarrow>
    manager_lock_step True s (leave_session AgManager (s\<lparr>lk_manager := AtEnd\<rparr>))"
| exit_gate: "lk_manager s = AtExitGate \<Longrightarrow> has_lock (lk_gate s) AgManager \<Longrightarrow>
    manager_lock_step True s (ask_session AgManager (s\<lparr>lk_manager := AtExit\<rparr>))"
| exit_done: "lk_manager s = AtExit \<Longrightarrow> has_lock (lk_session s) AgManager \<Longrightarrow> next \<in> {AtWait, AtCrash, AtEnd} \<Longrightarrow>
    manager_lock_step True s (end_operation AgManager (leave_session AgManager (s\<lparr>lk_manager := next\<rparr>)))"
| attempt: "lk_manager s = AtCrash \<Longrightarrow> manager_lock_step False s (ask_session AgManager (s\<lparr>lk_manager := AtRestart\<rparr>))"
| attempted: "lk_manager s = AtRestart \<Longrightarrow> has_lock (lk_session s) AgManager \<Longrightarrow>
    manager_lock_step True s (leave_session AgManager (s\<lparr>lk_manager := AtCrash\<rparr>))"
| recovered: "lk_manager s = AtCrash \<Longrightarrow> next \<in> {AtWait, AtEnd} \<Longrightarrow> manager_lock_step False s (s\<lparr>lk_manager := next\<rparr>)"
| dispatch_begins: "lk_manager s = AtGate \<Longrightarrow> has_lock (lk_gate s) AgManager \<Longrightarrow>
    manager_lock_step True s (s\<lparr>lk_manager := AtDispatch, lk_dispatch := DispatchSpawned, lk_aborted := False\<rparr>)"
| hook_failed: "lk_manager s = AtGate \<Longrightarrow> has_lock (lk_gate s) AgManager \<Longrightarrow>
    manager_lock_step True s (end_operation AgManager (s\<lparr>lk_manager := AtEnd\<rparr>))"
| interrupted: "lk_manager s = AtDispatch \<Longrightarrow>
    manager_lock_step False s (ask_session AgManager (s\<lparr>lk_manager := AtCleanup, lk_aborted := True\<rparr>))"
| dropped: "lk_manager s = AtDispatch \<Longrightarrow>
    manager_lock_step False s (end_operation AgManager (s\<lparr>lk_manager := AtEnd, lk_aborted := True\<rparr>))"
| after_dispatch: "lk_manager s = AtDispatch \<Longrightarrow> lk_dispatch s = DispatchEnded \<Longrightarrow>
    manager_lock_step True s (ask_session AgManager (s\<lparr>lk_manager := AtCleanup\<rparr>))"
| dispatched: "lk_manager s = AtDispatch \<Longrightarrow> lk_dispatch s = DispatchEnded \<Longrightarrow> next \<in> {AtWait, AtEnd} \<Longrightarrow>
    manager_lock_step True s (end_operation AgManager (s\<lparr>lk_manager := next\<rparr>))"
| cleaned: "lk_manager s = AtCleanup \<Longrightarrow> has_lock (lk_session s) AgManager \<Longrightarrow>
    manager_lock_step True s (leave_session AgManager (s\<lparr>lk_manager := AtAfter\<rparr>))"
| again: "lk_manager s = AtAfter \<Longrightarrow> manager_lock_step False s (ask_session AgManager (s\<lparr>lk_manager := AtCleanup\<rparr>))"
| handled: "lk_manager s = AtAfter \<Longrightarrow> next \<in> {AtWait, AtEnd} \<Longrightarrow>
    manager_lock_step True s (end_operation AgManager (s\<lparr>lk_manager := next\<rparr>))"

definition lock_step :: "bool \<Rightarrow> locks \<Rightarrow> locks \<Rightarrow> bool" where
  "lock_step work s s' \<longleftrightarrow> eval_lock_step work s s' \<or> dispatch_lock_step work s s' \<or> manager_lock_step work s s'"

inductive locks_reachable :: "locks \<Rightarrow> bool" where
  start: "locks_reachable locks_new"
| step: "locks_reachable s \<Longrightarrow> lock_step work s s' \<Longrightarrow> locks_reachable s'"

section \<open>Invariant\<close>

lemmas lock_defs = begin_operation_def ask_session_def end_operation_def leave_session_def leave_def

lemma has_lock_simps [simp]:
  "\<not> has_lock [] a" "has_lock (b # q) a \<longleftrightarrow> b = a"
  by (simp_all add: has_lock_def)

lemma has_lock_append: "has_lock (q @ q') a \<longleftrightarrow> has_lock q a \<or> (q = [] \<and> has_lock q' a)"
  by (cases q) auto

lemma has_lock_in: "has_lock q a \<Longrightarrow> a \<in> set q"
  by (cases q) auto

lemma has_lock_unique: "has_lock q a \<Longrightarrow> has_lock q b \<Longrightarrow> a = b"
  by (cases q) auto

lemma has_lock_leave: "has_lock q a \<Longrightarrow> a \<noteq> b \<Longrightarrow> has_lock (filter (\<lambda>c. c \<noteq> b) q) a"
  by (cases q) auto

text \<open>The session is only asked for with the permit, and a dispatch that asked for it is in it.\<close>

definition permit_ok :: "locks \<Rightarrow> bool" where
  "permit_ok s \<longleftrightarrow>
     AgDispatch \<notin> set (lk_gate s) \<and>
     (AgManager \<in> set (lk_gate s) \<longleftrightarrow> lk_manager s \<in> {AtGate, AtDispatch, AtCleanup, AtAfter, AtExitGate, AtExit}) \<and>
     (lk_manager s \<in> {AtDispatch, AtCleanup, AtAfter, AtExit} \<longrightarrow> has_lock (lk_gate s) AgManager)"

definition session_ok :: "locks \<Rightarrow> bool" where
  "session_ok s \<longleftrightarrow>
     (AgManager \<in> set (lk_session s) \<longleftrightarrow> lk_manager s \<in> {AtCleanup, AtExit, AtRestart, AtStop}) \<and>
     (AgDispatch \<in> set (lk_session s) \<longleftrightarrow> lk_dispatch s = DispatchAsked) \<and>
     (lk_dispatch s = DispatchAsked \<longrightarrow> has_lock (lk_session s) AgDispatch) \<and>
     (\<forall>n. AgEval n \<in> set (lk_session s) \<longrightarrow> has_lock (lk_gate s) (AgEval n))"

definition dispatch_ok :: "locks \<Rightarrow> bool" where
  "dispatch_ok s \<longleftrightarrow>
     (lk_manager s = AtDispatch \<longrightarrow> \<not> lk_aborted s) \<and>
     (lk_dispatch s \<noteq> DispatchEnded \<longrightarrow> lk_aborted s \<or> lk_manager s = AtDispatch) \<and>
     (lk_dispatch s = DispatchAsked \<longrightarrow> lk_manager s \<in> {AtDispatch, AtCleanup, AtEnd})"

lemma permit_step:
  assumes "lock_step work s s'" and "permit_ok s" and "session_ok s"
  shows "permit_ok s'"
  using assms unfolding lock_step_def
  by (elim disjE; elim eval_lock_step.cases dispatch_lock_step.cases manager_lock_step.cases)
     (auto simp: permit_ok_def lock_defs has_lock_append dest: has_lock_unique has_lock_in intro: has_lock_leave)


text \<open>With the permit at the manager no eval is in the session, so a dispatch finds it free.\<close>

lemma no_eval_in_session:
  assumes "session_ok s" and "has_lock (lk_gate s) AgManager"
  shows "AgEval n \<notin> set (lk_session s)"
  using assms has_lock_unique by (fastforce simp: session_ok_def)

lemma session_empty:
  assumes "session_ok s" and "has_lock (lk_gate s) AgManager" and "lk_manager s = AtDispatch" and "lk_dispatch s \<noteq> DispatchAsked"
  shows "lk_session s = []"
proof -
  have "a \<notin> set (lk_session s)" for a
    using assms no_eval_in_session [OF assms(1,2)] by (cases a) (auto simp: session_ok_def)
  then show ?thesis by (cases "lk_session s") auto
qed

lemma session_step:
  assumes "lock_step work s s'" and "permit_ok s" and "session_ok s" and "dispatch_ok s"
  shows "session_ok s'"
  using assms(1) unfolding lock_step_def
proof (elim disjE)
  assume "eval_lock_step work s s'"
  then show ?thesis
    using assms(2-4)
    by cases (auto simp: session_ok_def lock_defs has_lock_append dest: has_lock_unique has_lock_in intro: has_lock_leave)
next
  assume "dispatch_lock_step work s s'"
  then show ?thesis
  proof cases
    case dispatch_asks
    then have "lk_manager s = AtDispatch" using assms(4) by (auto simp: dispatch_ok_def)
    with assms(2) dispatch_asks have "lk_session s = []" by (intro session_empty [OF assms(3)]) (auto simp: permit_ok_def)
    with dispatch_asks \<open>lk_manager s = AtDispatch\<close> show ?thesis by (simp add: session_ok_def lock_defs)
  qed (use assms(3) in \<open>auto simp: session_ok_def lock_defs\<close>)
next
  assume "manager_lock_step work s s'"
  then show ?thesis
    using assms(2-4)
    by cases (auto simp: session_ok_def permit_ok_def dispatch_ok_def lock_defs has_lock_append
      dest: has_lock_unique has_lock_in intro: has_lock_leave)
qed

lemma dispatch_step:
  assumes "lock_step work s s'" and "session_ok s" and "dispatch_ok s"
  shows "dispatch_ok s'"
  using assms unfolding lock_step_def
  by (elim disjE; elim eval_lock_step.cases dispatch_lock_step.cases manager_lock_step.cases)
     (auto simp: session_ok_def dispatch_ok_def lock_defs dest: has_lock_unique)

lemma reachable_ok: "locks_reachable s \<Longrightarrow> permit_ok s \<and> session_ok s \<and> dispatch_ok s"
proof (induction rule: locks_reachable.induct)
  case start
  show ?case by (simp add: locks_new_def permit_ok_def session_ok_def dispatch_ok_def)
next
  case (step s work s')
  then show ?case using permit_step session_step dispatch_step by blast
qed

section \<open>Progress\<close>

fun manager_work :: "manager_at \<Rightarrow> nat" where
  "manager_work AtGate = 6"
| "manager_work AtDispatch = 3"
| "manager_work AtCleanup = 2"
| "manager_work AtAfter = 1"
| "manager_work AtExitGate = 2"
| "manager_work AtExit = 1"
| "manager_work AtRestart = 1"
| "manager_work AtStop = 1"
| "manager_work _ = 0"

definition dispatch_work :: "locks \<Rightarrow> nat" where
  "dispatch_work s = (case lk_dispatch s of
     DispatchEnded \<Rightarrow> 0 | DispatchAsked \<Rightarrow> 1 | DispatchSpawned \<Rightarrow> if lk_aborted s then 1 else 2)"

definition eval_work :: "agent list \<Rightarrow> agent \<Rightarrow> nat" where
  "eval_work session a = (case a of AgEval n \<Rightarrow> if a \<in> set session then 1 else 2 | _ \<Rightarrow> 0)"

definition pending_work :: "locks \<Rightarrow> nat" where
  "pending_work s = sum_list (map (eval_work (lk_session s)) (lk_gate s)) + manager_work (lk_manager s) + dispatch_work s"

lemma eval_work_same:
  "(\<And>n. AgEval n \<in> set q \<longleftrightarrow> AgEval n \<in> set q') \<Longrightarrow> eval_work q = eval_work q'"
  by (rule ext) (auto simp: eval_work_def split: agent.split)

lemma eval_work_leave:
  "AgEval n \<notin> set rest \<Longrightarrow> sum_list (map (eval_work (leave (AgEval n) q)) rest) = sum_list (map (eval_work q) rest)"
  by (intro arg_cong [where f = sum_list] map_cong refl) (auto simp: eval_work_def leave_def split: agent.split)

lemma sum_leave: "sum_list (map f (leave a q)) \<le> sum_list (map f q)" for f :: "agent \<Rightarrow> nat"
  by (induction q) (auto simp: leave_def)


lemma eval_work_decreases:
  assumes "eval_lock_step True s s'"
  shows "pending_work s' < pending_work s"
  using assms
proof cases
  case (eval_session n)
  let ?q = "lk_session s @ [AgEval n]"
  have le: "eval_work ?q a \<le> eval_work (lk_session s) a" for a by (simp add: eval_work_def split: agent.split)
  from eval_session(2) obtain rest where gate: "lk_gate s = AgEval n # rest" by (cases "lk_gate s") auto
  have "eval_work ?q (AgEval n) < eval_work (lk_session s) (AgEval n)" using eval_session(3) by (simp add: eval_work_def)
  moreover have "sum_list (map (eval_work ?q) rest) \<le> sum_list (map (eval_work (lk_session s)) rest)"
    using le by (intro sum_list_mono)
  ultimately show ?thesis
    by (simp add: eval_session(1) pending_work_def gate lock_defs dispatch_work_def)
next
  case (eval_done n)
  from eval_done(2) obtain rest where gate: "lk_gate s = AgEval n # rest" by (cases "lk_gate s") auto
  let ?left = "leave (AgEval n) rest"
  have "sum_list (map (eval_work (leave (AgEval n) (lk_session s))) ?left) = sum_list (map (eval_work (lk_session s)) ?left)"
    by (rule eval_work_leave) (simp add: leave_def)
  also have "\<dots> \<le> sum_list (map (eval_work (lk_session s)) rest)" by (rule sum_leave)
  finally have "sum_list (map (eval_work (leave (AgEval n) (lk_session s))) (leave (AgEval n) (lk_gate s)))
      < sum_list (map (eval_work (lk_session s)) (lk_gate s))"
    by (simp add: gate leave_def eval_work_def)
  then show ?thesis
    by (simp add: eval_done(1) pending_work_def end_operation_def leave_session_def dispatch_work_def)
qed simp

lemma other_work_same:
  assumes "\<And>n. AgEval n \<in> set (lk_session s') \<longleftrightarrow> AgEval n \<in> set (lk_session s)"
    and "lk_gate s' = lk_gate s \<or> lk_gate s' = leave AgManager (lk_gate s)"
    and "manager_work (lk_manager s') + dispatch_work s' < manager_work (lk_manager s) + dispatch_work s"
  shows "pending_work s' < pending_work s"
proof -
  have "eval_work (lk_session s') = eval_work (lk_session s)" using assms(1) by (rule eval_work_same)
  then have "sum_list (map (eval_work (lk_session s')) (lk_gate s')) \<le> sum_list (map (eval_work (lk_session s)) (lk_gate s))"
    using assms(2) sum_leave by auto
  with assms(3) show ?thesis by (simp add: pending_work_def)
qed

lemma work_decreases:
  assumes "lock_step True s s'" and "dispatch_ok s"
  shows "pending_work s' < pending_work s"
  using assms(1) unfolding lock_step_def
proof (elim disjE)
  assume "eval_lock_step True s s'"
  then show ?thesis by (rule eval_work_decreases)
next
  assume "dispatch_lock_step True s s'"
  then show ?thesis
    by cases (intro other_work_same; auto simp: lock_defs dispatch_work_def split: dispatch_at.split)+
next
  assume "manager_lock_step True s s'"
  then show ?thesis
    using assms(2)
    by cases (intro other_work_same; auto simp: lock_defs dispatch_work_def split: dispatch_at.split)+
qed

lemma not_stuck:
  assumes "permit_ok s" and "session_ok s" and "dispatch_ok s" and "lk_gate s \<noteq> [] \<or> lk_session s \<noteq> []"
  shows "\<exists>s'. lock_step True s s'"
proof (cases "lk_session s")
  case Nil
  then obtain a rest where gate: "lk_gate s = a # rest" using assms(4) by (cases "lk_gate s") auto
  show ?thesis
  proof (cases a)
    case (AgEval n)
    with gate Nil have "eval_lock_step True s (ask_session (AgEval n) s)" by (intro eval_session) auto
    then show ?thesis unfolding lock_step_def by blast
  next
    case AgManager
    with gate have lock: "has_lock (lk_gate s) AgManager" and "AgManager \<in> set (lk_gate s)" by auto
    then have at: "lk_manager s \<in> {AtGate, AtDispatch, AtAfter, AtExitGate}"
      using assms(1,2) Nil by (auto simp: permit_ok_def session_ok_def)
    have "\<exists>s'. dispatch_lock_step True s s' \<or> manager_lock_step True s s'"
    proof (cases "lk_manager s = AtDispatch")
      case True
      with assms(2,3) Nil have "\<not> lk_aborted s" "lk_dispatch s \<noteq> DispatchAsked" by (auto simp: dispatch_ok_def session_ok_def)
      with True show ?thesis
        by (cases "lk_dispatch s") (blast intro: dispatch_asks after_dispatch)+
    next
      case False
      with at lock show ?thesis by (blast intro: dispatch_begins exit_gate handled)
    qed
    then show ?thesis unfolding lock_step_def by blast
  next
    case AgDispatch
    with gate assms(1) show ?thesis by (simp add: permit_ok_def)
  qed
next
  case (Cons a rest)
  then have lock: "has_lock (lk_session s) a" and a: "a \<in> set (lk_session s)" by auto
  show ?thesis
  proof (cases a)
    case (AgEval n)
    with a assms(2) have "has_lock (lk_gate s) (AgEval n)" by (simp add: session_ok_def)
    with AgEval lock show ?thesis unfolding lock_step_def by (blast intro: eval_done)
  next
    case AgDispatch
    with a lock assms(2) show ?thesis unfolding lock_step_def session_ok_def by (blast intro: dispatch_ends)
  next
    case AgManager
    with a assms(2) have "lk_manager s \<in> {AtCleanup, AtExit, AtRestart, AtStop}" by (simp add: session_ok_def)
    with lock AgManager have "\<exists>s'. manager_lock_step True s s'"
      by (blast intro: cleaned exit_done attempted stopped)
    then show ?thesis unfolding lock_step_def by blast
  qed
qed


text \<open>The agents ahead of one in a queue.\<close>

definition ahead :: "agent \<Rightarrow> agent list \<Rightarrow> agent list" where
  "ahead a q = takeWhile (\<lambda>b. b \<noteq> a) q"

lemma ahead_append: "a \<in> set q \<Longrightarrow> ahead a (q @ q') = ahead a q"
  by (simp add: ahead_def takeWhile_append1)

lemma ahead_leave: "a \<in> set q \<Longrightarrow> a \<noteq> b \<Longrightarrow> set (ahead a (filter (\<lambda>c. c \<noteq> b) q)) \<subseteq> set (ahead a q)"
  by (induction q) (auto simp: ahead_def)

lemma operation_gates:
  "lk_gate (begin_operation a s) = lk_gate s @ [a]" "lk_gate (ask_session a s) = lk_gate s"
  "lk_gate (end_operation a s) = leave a (lk_gate s)" "lk_gate (leave_session a s) = lk_gate s"
  by (simp_all add: begin_operation_def ask_session_def end_operation_def leave_session_def)

definition gate_change :: "agent list \<Rightarrow> agent list \<Rightarrow> bool" where
  "gate_change q q' \<longleftrightarrow> q' = q \<or> (\<exists>a. q' = q @ [a]) \<or> (\<exists>b. q' = leave b q)"

lemma gate_changes: "gate_change q q" "gate_change q (q @ [a])" "gate_change q (leave b q)"
  by (auto simp: gate_change_def)

lemma gate_step:
  assumes "lock_step work s s'"
  shows "gate_change (lk_gate s) (lk_gate s')"
  using assms unfolding lock_step_def
proof (elim disjE)
  assume "eval_lock_step work s s'"
  then show ?thesis by cases (simp_all add: operation_gates gate_changes)
next
  assume "dispatch_lock_step work s s'"
  then show ?thesis by cases (simp_all add: operation_gates gate_changes)
next
  assume "manager_lock_step work s s'"
  then show ?thesis by cases (simp_all add: operation_gates gate_changes)
qed

lemma ahead_step:
  assumes "lock_step work s s'" and "AgManager \<in> set (lk_gate s)" and "AgManager \<in> set (lk_gate s')"
  shows "set (ahead AgManager (lk_gate s')) \<subseteq> set (ahead AgManager (lk_gate s))"
  using gate_step [OF assms(1)] unfolding gate_change_def
proof (elim disjE exE)
  fix b assume b: "lk_gate s' = leave b (lk_gate s)"
  with assms(3) have "AgManager \<noteq> b" by (auto simp: leave_def)
  with assms(2) b show ?thesis by (simp add: leave_def ahead_leave)
qed (use assms(2) in \<open>simp_all add: ahead_append\<close>)

inductive queued_run :: "locks \<Rightarrow> locks \<Rightarrow> bool" where
  queued: "AgManager \<in> set (lk_gate s) \<Longrightarrow> queued_run s s"
| waits: "queued_run s t \<Longrightarrow> lock_step work t u \<Longrightarrow> AgManager \<in> set (lk_gate u) \<Longrightarrow> queued_run s u"

lemma queued_run_ahead:
  "queued_run s t \<Longrightarrow> locks_reachable s \<Longrightarrow>
   AgManager \<in> set (lk_gate t) \<and> locks_reachable t \<and> set (ahead AgManager (lk_gate t)) \<subseteq> set (ahead AgManager (lk_gate s))"
proof (induction rule: queued_run.induct)
  case (waits s t work u)
  then have t: "AgManager \<in> set (lk_gate t)" "locks_reachable t" by auto
  with ahead_step [OF waits.hyps(2) t(1) waits.hyps(3)] waits show ?case
    by (blast intro: locks_reachable.step)
qed auto

lemma has_lock_ahead: "has_lock q b \<Longrightarrow> a \<in> set q \<Longrightarrow> b \<noteq> a \<Longrightarrow> b \<in> set (ahead a q)"
  by (cases q) (auto simp: ahead_def)

section \<open>Properties\<close>

lemma not_overtaken:
  assumes "locks_reachable s" and "lk_gate s = before @ [AgManager]" and "queued_run s t" and "has_lock (lk_gate t) (AgEval n)"
  shows "AgEval n \<in> set before"
proof -
  have "AgEval n \<in> set (ahead AgManager (lk_gate t))"
    using queued_run_ahead [OF assms(3,1)] assms(4) by (intro has_lock_ahead) auto
  then have "AgEval n \<in> set (ahead AgManager (lk_gate s))" using queued_run_ahead [OF assms(3,1)] by auto
  then show ?thesis by (auto simp: assms(2) ahead_def dest: set_takeWhileD)
qed

lemma evals_excluded:
  assumes "locks_reachable s" and "lk_manager s \<in> {AtDispatch, AtCleanup, AtAfter, AtExit}"
  shows "AgEval n \<notin> set (lk_session s)"
proof -
  from reachable_ok [OF assms(1)] have p: "permit_ok s" and q: "session_ok s" by auto
  show ?thesis using p assms(2) unfolding permit_ok_def by (intro no_eval_in_session [OF q]) blast
qed

lemma no_dispatch_left:
  assumes "locks_reachable s" and "lk_manager s \<in> {AtWait, AtGate, AtExitGate}"
  shows "AgDispatch \<notin> set (lk_session s) \<and> (lk_dispatch s = DispatchEnded \<or> lk_aborted s)"
proof -
  from reachable_ok [OF assms(1)] have d: "dispatch_ok s" and q: "session_ok s" by auto
  have "lk_dispatch s \<noteq> DispatchAsked \<and> (lk_dispatch s = DispatchEnded \<or> lk_aborted s)"
    using d assms(2) by (auto simp: dispatch_ok_def)
  with q show ?thesis by (simp add: session_ok_def)
qed

text \<open>
  C3: a reload has GHCi to itself and is not overtaken. While an event is dispatched, interrupted or its
  session replaced, no eval is in the session or has asked for it; when the manager waits again, no
  dispatch is left that holds the session or may still ask for it; and an eval that gets the permit
  while the manager waits for it had asked before the manager did.
\<close>

theorem reload_excludes_evals:
  assumes "locks_reachable s"
  shows "(lk_manager s \<in> {AtDispatch, AtCleanup, AtAfter, AtExit} \<longrightarrow> AgEval n \<notin> set (lk_session s)) \<and>
    (lk_manager s \<in> {AtWait, AtGate, AtExitGate} \<longrightarrow>
       AgDispatch \<notin> set (lk_session s) \<and> (lk_dispatch s = DispatchEnded \<or> lk_aborted s)) \<and>
    (lk_gate s = before @ [AgManager] \<and> queued_run s t \<and> has_lock (lk_gate t) (AgEval n) \<longrightarrow> AgEval n \<in> set before)"
  using evals_excluded [OF assms, of n] no_dispatch_left [OF assms] not_overtaken [OF assms, of before t n] by blast

text \<open>
  C4: the locks never deadlock: as long as anyone holds or awaits a lock, a holder can go on, and after at
  most as many of its steps as there is work pending, without new requests, both locks are free. No
  order of evals, events, interruptions, crashes and shutdowns prevents it.
\<close>

theorem locks_never_deadlock:
  assumes "locks_reachable s" and "((lock_step True) ^^ n) s t"
  shows "n \<le> pending_work s \<and> (lk_gate t = [] \<and> lk_session t = [] \<or> (\<exists>u. lock_step True t u))"
proof -
  have "locks_reachable t \<and> n + pending_work t \<le> pending_work s"
    using assms(2)
  proof (induction n arbitrary: t)
    case (Suc n)
    then obtain m where m: "(lock_step True ^^ n) s m" "lock_step True m t" by auto
    with Suc.IH have "locks_reachable m" "n + pending_work m \<le> pending_work s" by auto
    moreover have "pending_work t < pending_work m"
      using work_decreases [OF m(2)] reachable_ok [OF \<open>locks_reachable m\<close>] by blast
    ultimately show ?case using m(2) locks_reachable.step by fastforce
  qed (simp add: assms(1))
  moreover from this have "lk_gate t = [] \<and> lk_session t = [] \<or> (\<exists>u. lock_step True t u)"
    using not_stuck [of t] reachable_ok [of t] by blast
  ultimately show ?thesis by simp
qed

section \<open>A run\<close>

text \<open>An eval is at work when a reload is queued; a second eval comes later.\<close>

definition demo_queued :: locks where
  "demo_queued = locks_new\<lparr>lk_gate := [AgEval 0, AgManager], lk_manager := AtGate\<rparr>"

definition demo_later :: locks where
  "demo_later = begin_operation (AgEval 1) demo_queued"

lemma request_step: "AgEval n \<notin> set (lk_gate s) \<Longrightarrow> lock_step False s (begin_operation (AgEval n) s)"
  by (simp add: lock_step_def eval_request)

lemma manager_step: "manager_lock_step work s s' \<Longrightarrow> lock_step work s s'"
  by (simp add: lock_step_def)

lemma demo_queued_reachable: "locks_reachable demo_queued"
proof -
  have "locks_reachable (begin_operation (AgEval 0) locks_new)"
    by (rule locks_reachable.step [OF start request_step]) (simp add: locks_new_def)
  moreover have "manager_lock_step False (begin_operation (AgEval 0) locks_new)
      (begin_operation AgManager (begin_operation (AgEval 0) locks_new\<lparr>lk_manager := AtGate\<rparr>))"
    by (rule event) (simp add: begin_operation_def locks_new_def)
  ultimately have "locks_reachable (begin_operation AgManager (begin_operation (AgEval 0) locks_new\<lparr>lk_manager := AtGate\<rparr>))"
    by (rule locks_reachable.step [OF _ manager_step])
  then show ?thesis by (simp add: demo_queued_def begin_operation_def locks_new_def)
qed

lemma demo_later_step: "lock_step False demo_queued demo_later"
  unfolding demo_later_def by (rule request_step) (simp add: demo_queued_def)

theorem locks_never_deadlock_witness:
  "1 \<le> pending_work demo_queued \<and> (\<exists>u. lock_step True (ask_session (AgEval 0) demo_queued) u)"
proof -
  have "eval_lock_step True demo_queued (ask_session (AgEval 0) demo_queued)"
    by (rule eval_session) (simp_all add: demo_queued_def locks_new_def)
  then have "(lock_step True ^^ 1) demo_queued (ask_session (AgEval 0) demo_queued)"
    by (simp only: relpowp_1 lock_step_def simp_thms)
  from locks_never_deadlock [OF demo_queued_reachable this]
  show ?thesis by (simp add: ask_session_def demo_queued_def)
qed

text \<open>A reload is dispatched while an eval asks for the permit.\<close>

definition demo_dispatching :: locks where
  "demo_dispatching = locks_new\<lparr>lk_gate := [AgManager, AgEval 1], lk_manager := AtDispatch, lk_dispatch := DispatchSpawned\<rparr>"

lemma demo_dispatching_reachable: "locks_reachable demo_dispatching"
proof -
  let ?s1 = "locks_new\<lparr>lk_gate := [AgManager], lk_manager := AtGate\<rparr>"
  let ?s2 = "begin_operation (AgEval 1) ?s1"
  have "manager_lock_step False locks_new (begin_operation AgManager (locks_new\<lparr>lk_manager := AtGate\<rparr>))"
    by (rule event) (simp add: locks_new_def)
  moreover have "begin_operation AgManager (locks_new\<lparr>lk_manager := AtGate\<rparr>) = ?s1"
    by (simp add: begin_operation_def locks_new_def)
  ultimately have "lock_step False locks_new ?s1" by (intro manager_step) simp
  then have "locks_reachable ?s1" by (rule locks_reachable.step [OF start])
  moreover have "lock_step False ?s1 ?s2" by (rule request_step) simp
  ultimately have "locks_reachable ?s2" by (rule locks_reachable.step)
  moreover have "manager_lock_step True ?s2 (?s2\<lparr>lk_manager := AtDispatch, lk_dispatch := DispatchSpawned, lk_aborted := False\<rparr>)"
    by (rule dispatch_begins) (simp_all add: begin_operation_def)
  ultimately have "locks_reachable (?s2\<lparr>lk_manager := AtDispatch, lk_dispatch := DispatchSpawned, lk_aborted := False\<rparr>)"
    by (rule locks_reachable.step [OF _ manager_step])
  then show ?thesis by (simp add: demo_dispatching_def begin_operation_def locks_new_def)
qed

theorem reload_excludes_evals_witness:
  "(lk_manager demo_dispatching = AtDispatch \<and> AgEval 1 \<in> set (lk_gate demo_dispatching) \<and>
     AgEval 1 \<notin> set (lk_session demo_dispatching)) \<and>
   (has_lock (lk_gate demo_later) (AgEval 0) \<and> AgEval 0 \<in> set [AgEval 0])"
proof -
  have run: "queued_run demo_queued demo_later"
    by (rule waits [OF queued demo_later_step]) (simp_all add: demo_later_def demo_queued_def begin_operation_def)
  have lock: "has_lock (lk_gate demo_later) (AgEval 0)" by (simp add: demo_later_def demo_queued_def begin_operation_def)
  have "lk_gate demo_queued = [AgEval 0] @ [AgManager]" by (simp add: demo_queued_def)
  with reload_excludes_evals [OF demo_queued_reachable, of 0 "[AgEval 0]" demo_later] run lock
  have "AgEval 0 \<in> set [AgEval 0]" by blast
  moreover from reload_excludes_evals [OF demo_dispatching_reachable, of 1 "[]" demo_dispatching]
  have "AgEval 1 \<notin> set (lk_session demo_dispatching)" by (simp add: demo_dispatching_def)
  ultimately show ?thesis using lock by (simp add: demo_dispatching_def)
qed

end
