(* ===== verification/Commands.thy ===== *)
theory Commands
  imports Hooks Winnow Utf8
begin

text \<open>
  Commands as they are given on the command line and shown: \<open>src/src/clonable_command.rs\<close>,
  \<open>src/src/maybe_async_command.rs\<close> and the options of \<open>src/src/hooks.rs\<close>. Splitting and quoting are the
  \<open>shell_words\<close> crate's; declaring options is \<open>clap\<close>'s.
\<close>

section \<open>Commands\<close>

datatype clonable_stdio = StdioNull | StdioInherit | StdioPiped

record clonable_command =
  cc_program :: string
  cc_args :: "string list"
  cc_current_dir :: "path option"
  cc_stdin :: "clonable_stdio option"
  cc_stdout :: "clonable_stdio option"
  cc_stderr :: "clonable_stdio option"
  cc_env :: "(string \<times> string option) list option"

definition clonable_command_default :: clonable_command where
  "clonable_command_default = \<lparr>cc_program = [], cc_args = [], cc_current_dir = None, cc_stdin = None,
     cc_stdout = None, cc_stderr = None, cc_env = Some []\<rparr>"

definition clonable_command_new :: "string \<Rightarrow> clonable_command" where
  "clonable_command_new program = clonable_command_default\<lparr>cc_program := program\<rparr>"

definition add_arg :: "string \<Rightarrow> clonable_command \<Rightarrow> clonable_command" where
  "add_arg arg c = c\<lparr>cc_args := cc_args c @ [arg]\<rparr>"

fun add_args :: "string list \<Rightarrow> clonable_command \<Rightarrow> clonable_command" where
  "add_args [] c = c"
| "add_args (arg # args) c = add_args args (add_arg arg c)"

text \<open>What \<open>as_std\<close> tells \<open>std::process::Command\<close>, in order.\<close>

datatype command_call =
    CallNew string
  | CallArgs "string list"
  | CallCurrentDir path
  | CallStdin clonable_stdio
  | CallStdout clonable_stdio
  | CallStderr clonable_stdio
  | CallEnvClear
  | CallEnvRemove string
  | CallEnv string string

definition as_std :: "clonable_command \<Rightarrow> command_call list" where
  "as_std c =
     [CallNew (cc_program c), CallArgs (cc_args c)]
     @ (case cc_current_dir c of Some d \<Rightarrow> [CallCurrentDir d] | None \<Rightarrow> [])
     @ (case cc_stdin c of Some s \<Rightarrow> [CallStdin s] | None \<Rightarrow> [])
     @ (case cc_stdout c of Some s \<Rightarrow> [CallStdout s] | None \<Rightarrow> [])
     @ (case cc_stderr c of Some s \<Rightarrow> [CallStderr s] | None \<Rightarrow> [])
     @ (case cc_env c of
          None \<Rightarrow> [CallEnvClear]
        | Some env \<Rightarrow> map (\<lambda>(name, value). case value of None \<Rightarrow> CallEnvRemove name | Some v \<Rightarrow> CallEnv name v) env)"

definition parse_clonable_command :: "(string \<Rightarrow> string list res) \<Rightarrow> string \<Rightarrow> clonable_command res" where
  "parse_clonable_command split shell_command =
     res_bind (split (str_trim shell_command)) (\<lambda>tokens.
       case tokens of
         [] \<Rightarrow> Inl (IoError ''Command has no program'')
       | [program] \<Rightarrow> Inr (clonable_command_default\<lparr>cc_program := program\<rparr>)
       | program # args \<Rightarrow> Inr (clonable_command_default\<lparr>cc_program := program, cc_args := args\<rparr>))"

definition show_clonable_command :: "(string list \<Rightarrow> string) \<Rightarrow> clonable_command \<Rightarrow> string" where
  "show_clonable_command join c = join (cc_program c # cc_args c)"

section \<open>Commands that may run in the background\<close>

text \<open>\<open>opt("async:")\<close>, then \<open>rest.parse_to()\<close>, which backtracks when the command is not accepted.\<close>

definition parse_maybe_async_command ::
  "winnow \<Rightarrow> (string \<Rightarrow> string list res) \<Rightarrow> (bool \<times> clonable_command) parser" where
  "parse_maybe_async_command W split =
     p_bind (p_opt (w_literal W ''async:'')) (\<lambda>prefix.
     p_bind (p_try_map (\<lambda>s. case parse_clonable_command split s of Inr c \<Rightarrow> Some c | Inl _ \<Rightarrow> None) (\<lambda>s. Inr (s, [])))
       (\<lambda>command. p_return (prefix \<noteq> None, command)))"

definition maybe_async_from_str :: "winnow \<Rightarrow> (string \<Rightarrow> string list res) \<Rightarrow> string \<Rightarrow> (bool \<times> clonable_command) res" where
  "maybe_async_from_str W split s = p_parse (parse_maybe_async_command W split) s"

section \<open>The options of the hooks\<close>

text \<open>Durations in milliseconds.\<close>

definition completion_timing :: "lifecycle_event \<Rightarrow> string \<times> nat" where
  "completion_timing e = (case e of TestEvent \<Rightarrow> (''running tests'', 0) | _ \<Rightarrow> (show_event e @ '' command'', 10))"

fun get_message :: "lifecycle_event \<Rightarrow> string" where
  "get_message TestEvent = ''Tests are run after startup and after reloads.''"
| "get_message (StartupEvent w) =
     ''Startup hooks run when GHCi is started (at '' @ CHR 0x60 # ''ghciwatch'' @ CHR 0x60 # '' startup and after GHCi restarts).''"
| "get_message (ReloadEvent w) = ''Reload hooks are run when modules are changed on disk.''"
| "get_message (RestartEvent w) =
     ''The GHCi session must be restarted when '' @ CHR 0x60 # ''.cabal'' @ CHR 0x60 # '' or '' @
     CHR 0x60 # ''.ghci'' @ CHR 0x60 # '' files are modified.''"

definition get_help_name :: "lifecycle_event \<Rightarrow> string option" where
  "get_help_name e = (case e of TestEvent \<Rightarrow> Some ''tests'' | _ \<Rightarrow> None)"

fun placeholder_name :: "command_kind \<Rightarrow> string" where
  "placeholder_name GhciKind = ''GHCI_CMD''"
| "placeholder_name ShellKind = ''SHELL_CMD''"

fun extra_help :: "lifecycle_event \<times> command_kind \<Rightarrow> string option" where
  "extra_help (StartupEvent Before, k) =
     Some (''This can be used to regenerate '' @ CHR 0x60 # ''.cabal'' @ CHR 0x60 # '' files with '' @
       CHR 0x60 # ''hpack'' @ CHR 0x60 # ''.'')"
| "extra_help (StartupEvent After, GhciKind) =
     Some (''Use '' @ CHR 0x60 # '':set args ...'' @ CHR 0x60 # '' to set command-line arguments for test hooks.'')"
| "extra_help (TestEvent, GhciKind) = Some (''Example: '' @ CHR 0x60 # ''TestMain.testMain'' @ CHR 0x60 # ''.'')"
| "extra_help _ = None"

record hook_help =
  hh_short :: string
  hh_long :: string

definition hook_help :: "lifecycle_event \<times> command_kind \<Rightarrow> hook_help" where
  "hook_help h =
     (let event = fst h;
          kind = (case snd h of GhciKind \<Rightarrow> CHR 0x60 # ''ghci'' @ [CHR 0x60] | ShellKind \<Rightarrow> ''Shell'');
          short = kind @ '' commands to run''
            @ (case event_when event of Some w \<Rightarrow> CHR '' '' # show_when w | None \<Rightarrow> [])
            @ CHR '' '' # (case get_help_name event of Some name \<Rightarrow> name | None \<Rightarrow> event_name event);
          long = short @ newline # newline # get_message event
            @ (if snd h = ShellKind
               then newline # newline # ''Commands starting with '' @ CHR 0x60 # ''async:'' @ CHR 0x60 # '' will be run in the background.''
               else [])
            @ (case extra_help h of Some help \<Rightarrow> newline # newline # help | None \<Rightarrow> [])
            @ newline # newline # ''Can be given multiple times.'' in
      \<lparr>hh_short = short, hh_long = long\<rparr>)"

text \<open>The options declared: their name, the name of their value, and their help.\<close>

definition augment_args :: "(string \<times> string \<times> hook_help) list" where
  "augment_args = map (\<lambda>h. (arg_name h, placeholder_name (snd h), hook_help h)) hook_options"

section \<open>Facts\<close>

lemma add_args_eq: "add_args as c = c\<lparr>cc_args := cc_args c @ as\<rparr>"
  by (induction as arbitrary: c) (simp_all add: add_arg_def)

text \<open>A shown command is read back as the same program and arguments.\<close>

theorem command_roundtrip:
  assumes "\<And>ts. split (join ts) = Inr ts" and "str_trim (show_clonable_command join c) = show_clonable_command join c"
  shows "parse_clonable_command split (show_clonable_command join c) =
    Inr (add_args (cc_args c) (clonable_command_new (cc_program c)))"
  using assms(2)
  by (simp add: parse_clonable_command_def show_clonable_command_def assms(1) add_args_eq clonable_command_new_def
    clonable_command_default_def split: list.split)

text \<open>Filtering the concatenated values of all options for those of one leaves that one's.\<close>

lemma filter_concat_distinct:
  assumes "distinct xs" and "x \<in> set xs" and "\<And>y h. h \<in> set (f y) \<Longrightarrow> P h \<longleftrightarrow> y = x"
  shows "filter P (concat (map f xs)) = f x"
proof -
  have "filter P (f y) = (if y = x then f x else [])" for y
    using assms(3) by (auto simp: filter_id_conv filter_empty_conv)
  then have "filter P (concat (map f xs)) = concat (map (\<lambda>y. if y = x then f x else []) xs)"
    by (simp add: filter_concat comp_def)
  also have "\<dots> = f x" using assms(1,2) by (induction xs) auto
  finally show ?thesis .
qed

text \<open>The values of an option become the hooks of exactly its event and kind.\<close>

theorem hook_values_reach_event:
  assumes "(e, k) \<in> set hook_options"
  shows "filter (\<lambda>h. hk_event h = e \<and> command_kind_of (hk_command h) = k)
      (ho_hooks (update_from_arg_matches ghci_values shell_values \<lparr>ho_hooks = [], ho_strict = False\<rparr>)) =
    (case k of
       GhciKind \<Rightarrow> map (\<lambda>c. \<lparr>hk_event = e, hk_command = GhciHook c\<rparr>) (ghci_values (arg_name (e, k)))
     | ShellKind \<Rightarrow> map (\<lambda>c. \<lparr>hk_event = e, hk_command = ShellCommand c\<rparr>) (shell_values (arg_name (e, k))))"
proof -
  let ?f = "\<lambda>(e, k). case k of
      GhciKind \<Rightarrow> map (\<lambda>c. \<lparr>hk_event = e, hk_command = GhciHook c\<rparr>) (ghci_values (arg_name (e, k)))
    | ShellKind \<Rightarrow> map (\<lambda>c. \<lparr>hk_event = e, hk_command = ShellCommand c\<rparr>) (shell_values (arg_name (e, k)))"
  let ?P = "\<lambda>h. hk_event h = e \<and> command_kind_of (hk_command h) = k"
  have "distinct hook_options" using hook_options_distinct [THEN conjunct1] by (simp add: distinct_map)
  moreover have "?P h \<longleftrightarrow> y = (e, k)" if "h \<in> set (?f y)" for y h
    using that by (cases y) (auto split: command_kind.splits)
  ultimately have all: "filter ?P (concat (map ?f hook_options)) = ?f (e, k)"
    using assms by (intro filter_concat_distinct)
  have split: "filter ?P (filter (\<lambda>h. command_kind_of (hk_command h) = ShellKind) hs @
      filter (\<lambda>h. command_kind_of (hk_command h) = GhciKind) hs) = filter ?P hs" for hs
    by (cases k) (auto intro!: filter_cong simp: conj_commute filter_empty_conv)
  have hooks: "ho_hooks (update_from_arg_matches ghci_values shell_values \<lparr>ho_hooks = [], ho_strict = False\<rparr>) =
      filter (\<lambda>h. command_kind_of (hk_command h) = ShellKind) (concat (map ?f hook_options)) @
      filter (\<lambda>h. command_kind_of (hk_command h) = GhciKind) (concat (map ?f hook_options))"
    by (simp add: update_from_arg_matches_def Let_def)
  show ?thesis unfolding hooks split all by simp
qed

end
