(* ===== verification/Matchers.thy ===== *)
theory Matchers
  imports Prelude "HOL-Library.Sublist"
begin

text \<open>
  \<open>src/test-harness/src/matcher\<close>: the matchers with which the integration tests wait for log events, and
  the waiting of \<open>src/test-harness/src/ghciwatch.rs\<close>. Regular expressions are the \<open>regex\<close> crate's: whether
  one matches a text is a parameter.
\<close>

section \<open>Events\<close>

datatype json_value = JNull | JBool bool | JNumber string | JArray "json_value list" | JObject | JString string

record log_span =
  sp_name :: string
  sp_fields :: "(string \<times> json_value) list"

record log_event =
  le_message :: string
  le_fields :: "(string \<times> json_value) list"
  le_target :: string
  le_span :: "log_span option"
  le_spans :: "log_span list"

definition event_spans :: "log_event \<Rightarrow> log_span list" where
  "event_spans e =
     le_spans e @ (if le_message e \<in> set [''new'', ''exit'', ''close'']
       then (case le_span e of Some s \<Rightarrow> [s] | None \<Rightarrow> []) else [])"

section \<open>Matchers of one event\<close>

type_synonym regex_env = "string \<Rightarrow> string \<Rightarrow> bool"

type_synonym field_matcher = "(string \<times> string) list"

definition fm_with_field :: "string \<Rightarrow> string \<Rightarrow> field_matcher \<Rightarrow> field_matcher" where
  "fm_with_field name regex fs = (name, regex) # filter (\<lambda>(n, _). n \<noteq> name) fs"

fun value_matches :: "regex_env \<Rightarrow> string \<Rightarrow> json_value option \<Rightarrow> bool" where
  "value_matches is_match regex (Some (JString value)) = is_match regex value"
| "value_matches is_match regex _ = False"

definition fields_match :: "regex_env \<Rightarrow> field_matcher \<Rightarrow> (string \<Rightarrow> json_value option) \<Rightarrow> bool" where
  "fields_match is_match fs get_field = list_all (\<lambda>(name, regex). value_matches is_match regex (get_field name)) fs"

record span_matcher =
  sm_name :: string
  sm_fields :: field_matcher

definition span_matcher_new :: "string \<Rightarrow> span_matcher" where
  "span_matcher_new name = \<lparr>sm_name = name, sm_fields = []\<rparr>"

definition span_matches :: "regex_env \<Rightarrow> span_matcher \<Rightarrow> log_span \<Rightarrow> bool" where
  "span_matches is_match m s \<longleftrightarrow> sp_name s = sm_name m \<and> fields_match is_match (sm_fields m) (map_of (sp_fields s))"

record base_matcher =
  bm_message :: string
  bm_target :: "string option"
  bm_leaf_spans :: "span_matcher list"
  bm_spans :: "span_matcher list"
  bm_fields :: field_matcher

definition base_message :: "string \<Rightarrow> base_matcher" where
  "base_message regex = \<lparr>bm_message = regex, bm_target = None, bm_leaf_spans = [], bm_spans = [], bm_fields = []\<rparr>"

definition in_leaf_spans :: "span_matcher list \<Rightarrow> base_matcher \<Rightarrow> base_matcher" where
  "in_leaf_spans spans m = m\<lparr>bm_leaf_spans := spans\<rparr>"

definition in_spans :: "span_matcher list \<Rightarrow> base_matcher \<Rightarrow> base_matcher" where
  "in_spans spans m = m\<lparr>bm_spans := spans\<rparr>"

definition in_module :: "string \<Rightarrow> base_matcher \<Rightarrow> base_matcher" where
  "in_module module m = m\<lparr>bm_target := Some module\<rparr>"

definition base_with_field :: "string \<Rightarrow> string \<Rightarrow> base_matcher \<Rightarrow> base_matcher" where
  "base_with_field name regex m = m\<lparr>bm_fields := fm_with_field name regex (bm_fields m)\<rparr>"

definition span_new :: base_matcher where
  "span_new = base_message ''^new$''"

definition span_close :: base_matcher where
  "span_close = base_message ''^close$''"

definition compilation_succeeded :: base_matcher where
  "compilation_succeeded = in_spans [span_matcher_new ''reload''] (base_message ''^Compilation succeeded$'')"

definition compilation_failed :: base_matcher where
  "compilation_failed = in_spans [span_matcher_new ''reload''] (base_message ''^Compilation failed$'')"

definition module_compiling :: "(string \<Rightarrow> string) \<Rightarrow> string \<Rightarrow> base_matcher" where
  "module_compiling escape module =
     base_with_field ''module'' (escape module) (in_spans [span_matcher_new ''reload''] (base_message ''^Compiling$''))"

definition reload_completes :: base_matcher where
  "reload_completes = in_module ''ghciwatch::ghci'' (in_leaf_spans [span_matcher_new ''reload''] span_close)"

definition watcher_started :: base_matcher where
  "watcher_started = in_module ''ghciwatch::watcher'' (base_message ''^notify watcher started$'')"

definition ghci_started :: base_matcher where
  "ghci_started = base_message (''(Starting up failed|Finished starting up) in '' @ CHR 0x5C # ''d+'' @ CHR 0x5C # ''.'' @ CHR 0x5C # ''d+m?s$'')"

definition ghci_reload :: base_matcher where
  "ghci_reload = base_message (''^Reloading ghci:'' @ [newline])"

definition ghci_restart :: base_matcher where
  "ghci_restart = base_message (''^Restarting ghci:'' @ [newline])"

definition ghci_add :: base_matcher where
  "ghci_add = base_message (''^Adding modules to ghci:'' @ [newline])"

definition ghci_remove :: base_matcher where
  "ghci_remove = base_message (''^Removing modules from ghci:'' @ [newline])"

text \<open>The loop over the spans an event must be in, in order, with others between them.\<close>

fun spans_found :: "regex_env \<Rightarrow> span_matcher list \<Rightarrow> log_span list \<Rightarrow> bool" where
  "spans_found is_match [] spans = True"
| "spans_found is_match (m # ms) [] = False"
| "spans_found is_match (m # ms) (s # spans) =
     (if span_matches is_match m s then spans_found is_match ms spans else spans_found is_match (m # ms) spans)"

text \<open>The loop over the innermost spans, both from the end.\<close>

fun leaf_spans_found :: "regex_env \<Rightarrow> span_matcher list \<Rightarrow> log_span list \<Rightarrow> bool" where
  "leaf_spans_found is_match [] spans = True"
| "leaf_spans_found is_match (m # ms) [] = False"
| "leaf_spans_found is_match (m # ms) (s # spans) = (span_matches is_match m s \<and> leaf_spans_found is_match ms spans)"

definition base_matches :: "regex_env \<Rightarrow> base_matcher \<Rightarrow> log_event \<Rightarrow> bool" where
  "base_matches is_match m e \<longleftrightarrow>
     is_match (bm_message m) (le_message e) \<and>
     spans_found is_match (bm_spans m) (event_spans e) \<and>
     leaf_spans_found is_match (rev (bm_leaf_spans m)) (rev (event_spans e)) \<and>
     (case bm_target m of Some target \<Rightarrow> target = le_target e | None \<Rightarrow> True) \<and>
     fields_match is_match (bm_fields m) (map_of (le_fields e))"

section \<open>Matchers of several events\<close>

text \<open>
  A matcher is its state and the function \<open>matches\<close>, which gives the state after an event, also when it
  fails, and whether the matcher has finished.
\<close>

type_synonym 'm matching = "'m \<Rightarrow> log_event \<Rightarrow> 'm \<times> bool res"

definition base_matching :: "regex_env \<Rightarrow> base_matcher matching" where
  "base_matching is_match m e = (m, Inr (base_matches is_match m e))"

definition never_matching :: "unit matching" where
  "never_matching m e = (m, Inr False)"

fun option_matching :: "'m matching \<Rightarrow> 'm option matching" where
  "option_matching matches (Some m) e = (let (m1, r) = matches m e in (Some m1, r))"
| "option_matching matches None e = (None, Inr False)"

record 'm fused_matcher =
  fu_inner :: 'm
  fu_matched :: bool

definition fused_new :: "'m \<Rightarrow> 'm fused_matcher" where
  "fused_new m = \<lparr>fu_inner = m, fu_matched = False\<rparr>"

definition fused_matching :: "'m matching \<Rightarrow> 'm fused_matcher matching" where
  "fused_matching matches f e =
     (if fu_matched f then (f, Inr True)
      else (case matches (fu_inner f) e of
          (m, Inl err) \<Rightarrow> (f\<lparr>fu_inner := m\<rparr>, Inl err)
        | (m, Inr res) \<Rightarrow> (f\<lparr>fu_inner := m, fu_matched := res\<rparr>, Inr res)))"

fun and_matching :: "'a matching \<Rightarrow> 'b matching \<Rightarrow> ('a \<times> 'b) matching" where
  "and_matching matches_a matches_b (a, b) e =
     (case matches_a a e of
        (a1, Inl err) \<Rightarrow> ((a1, b), Inl err)
      | (a1, Inr match_a) \<Rightarrow> (case matches_b b e of
            (b1, Inl err) \<Rightarrow> ((a1, b1), Inl err)
          | (b1, Inr match_b) \<Rightarrow> ((a1, b1), Inr (match_a \<and> match_b))))"

fun or_matching :: "'a matching \<Rightarrow> 'b matching \<Rightarrow> ('a \<times> 'b) matching" where
  "or_matching matches_a matches_b (a, b) e =
     (case matches_a a e of
        (a1, Inl err) \<Rightarrow> ((a1, b), Inl err)
      | (a1, Inr match_a) \<Rightarrow> (case matches_b b e of
            (b1, Inl err) \<Rightarrow> ((a1, b1), Inl err)
          | (b1, Inr match_b) \<Rightarrow> ((a1, b1), Inr (match_a \<or> match_b))))"

fun negative_matching :: "'m matching \<Rightarrow> 'n matching \<Rightarrow> ('m \<times> 'n) matching" where
  "negative_matching matches_inner matches_negative (inner, negative) e =
     (case matches_negative negative e of
        (n1, Inl err) \<Rightarrow> ((inner, n1), Inl err)
      | (n1, Inr True) \<Rightarrow> ((inner, n1), Inl (IoError ''Log event matched''))
      | (n1, Inr False) \<Rightarrow> (case matches_inner inner e of (i1, r) \<Rightarrow> ((i1, n1), r)))"

text \<open>\<open>a.and(b)\<close>\<close>

definition and_new :: "'a \<Rightarrow> 'b \<Rightarrow> 'a fused_matcher \<times> 'b fused_matcher" where
  "and_new a b = (fused_new a, fused_new b)"

section \<open>Waiting\<close>

fun find_logged :: "'m matching \<Rightarrow> log_event list \<Rightarrow> 'm \<Rightarrow> 'm \<times> log_event option res" where
  "find_logged matches [] m = (m, Inr None)"
| "find_logged matches (e # es) m =
     (case matches m e of
        (m1, Inl err) \<Rightarrow> (m1, Inl err)
      | (m1, Inr True) \<Rightarrow> (m1, Inr (Some e))
      | (m1, Inr False) \<Rightarrow> find_logged matches es m1)"

text \<open>\<open>arriving\<close> is what reading gives before the timeout; what was read is kept in \<open>events\<close>.\<close>

fun wait_events :: "'m matching \<Rightarrow> log_event res list \<Rightarrow> log_event list \<Rightarrow> 'm \<Rightarrow> log_event list \<times> log_event res" where
  "wait_events matches [] events m = (events, Inl (IoError ''Waiting for a log message timed out''))"
| "wait_events matches (Inl err # arriving) events m = (events, Inl err)"
| "wait_events matches (Inr e # arriving) events m =
     (case matches m e of
        (m1, Inl err) \<Rightarrow> (events @ [e], Inl err)
      | (m1, Inr True) \<Rightarrow> (events @ [e], Inr e)
      | (m1, Inr False) \<Rightarrow> wait_events matches arriving (events @ [e]) m1)"

definition wait_for_log ::
  "'m matching \<Rightarrow> bool \<Rightarrow> log_event list \<Rightarrow> log_event res list \<Rightarrow> 'm \<Rightarrow> log_event list \<times> log_event res" where
  "wait_for_log matches check_existing events arriving m =
     (if check_existing
      then (case find_logged matches events m of
          (m1, Inl err) \<Rightarrow> (events, Inl err)
        | (m1, Inr (Some e)) \<Rightarrow> (events, Inr e)
        | (m1, Inr None) \<Rightarrow> wait_events matches arriving events m1)
      else wait_events matches arriving events m)"

section \<open>What the matchers accept\<close>

text \<open>The first span that fits is taken: that is as good as any choice.\<close>

theorem spans_found_subsequence:
  "spans_found is_match ms spans \<longleftrightarrow> (\<exists>chosen. subseq chosen spans \<and> list_all2 (span_matches is_match) ms chosen)"
proof (induction is_match ms spans rule: spans_found.induct)
  case (1 is_match spans)
  show ?case by (auto intro: exI [of _ "[]"])
next
  case (3 is_match m ms s spans)
  show ?case
  proof (cases "span_matches is_match m s")
    case True
    have "(\<exists>chosen. subseq chosen spans \<and> list_all2 (span_matches is_match) ms chosen) \<longleftrightarrow>
      (\<exists>chosen. subseq chosen (s # spans) \<and> list_all2 (span_matches is_match) (m # ms) chosen)"
    proof
      assume "\<exists>chosen. subseq chosen spans \<and> list_all2 (span_matches is_match) ms chosen"
      then obtain chosen where "subseq chosen spans" "list_all2 (span_matches is_match) ms chosen" by blast
      with True show "\<exists>chosen. subseq chosen (s # spans) \<and> list_all2 (span_matches is_match) (m # ms) chosen"
        by (intro exI [of _ "s # chosen"]) simp
    next
      assume "\<exists>chosen. subseq chosen (s # spans) \<and> list_all2 (span_matches is_match) (m # ms) chosen"
      then obtain c cs where cs: "subseq (c # cs) (s # spans)" "list_all2 (span_matches is_match) ms cs"
        by (auto simp: list_all2_Cons1)
      from cs(1) have "subseq cs spans" by (cases "c = s") (auto dest: subseq_Cons')
      with cs(2) show "\<exists>chosen. subseq chosen spans \<and> list_all2 (span_matches is_match) ms chosen" by blast
    qed
    with True 3 show ?thesis by simp
  next
    case False
    then have "subseq chosen (s # spans) \<longleftrightarrow> subseq chosen spans" if "list_all2 (span_matches is_match) (m # ms) chosen" for chosen
      using that by (auto simp: list_all2_Cons1 split: if_splits)
    with False 3 show ?thesis by auto
  qed
qed (auto simp: list_all2_Cons1)

theorem leaf_spans_found_suffix:
  "leaf_spans_found is_match (rev ms) (rev spans) \<longleftrightarrow>
   (\<exists>outer inner. spans = outer @ inner \<and> list_all2 (span_matches is_match) ms inner)"
proof -
  have prefix: "leaf_spans_found is_match ns ss \<longleftrightarrow> (\<exists>first rest. ss = first @ rest \<and> list_all2 (span_matches is_match) ns first)" for ns ss
  proof (induction is_match ns ss rule: leaf_spans_found.induct)
    case (3 is_match m ms s spans)
    have "(\<exists>first rest. s # spans = first @ rest \<and> list_all2 (span_matches is_match) (m # ms) first) \<longleftrightarrow>
      span_matches is_match m s \<and> (\<exists>first rest. spans = first @ rest \<and> list_all2 (span_matches is_match) ms first)"
      by (auto simp: list_all2_Cons1 Cons_eq_append_conv)
    with 3 show ?case by simp
  qed auto
  show ?thesis
    unfolding prefix by (metis append.assoc list_all2_rev rev_append rev_rev_ident)
qed

text \<open>Two base matchers joined by \<open>and\<close> finish at the first event by which both have matched.\<close>

definition fused_base :: "base_matcher \<Rightarrow> bool \<Rightarrow> base_matcher fused_matcher" where
  "fused_base m matched = \<lparr>fu_inner = m, fu_matched = matched\<rparr>"

lemma fused_base_matching:
  "fused_matching (base_matching is_match) (fused_base m x) e =
   (fused_base m (x \<or> base_matches is_match m e), Inr (x \<or> base_matches is_match m e))"
  by (simp add: fused_matching_def base_matching_def fused_base_def)

lemma and_run:
  "(x \<or> (\<exists>d \<in> set (before @ [e]). base_matches is_match a d)) \<and> (y \<or> (\<exists>d \<in> set (before @ [e]). base_matches is_match b d)) \<Longrightarrow>
   \<not> ((x \<or> (\<exists>d \<in> set before. base_matches is_match a d)) \<and> (y \<or> (\<exists>d \<in> set before. base_matches is_match b d))) \<Longrightarrow>
   snd (find_logged (and_matching (fused_matching (base_matching is_match)) (fused_matching (base_matching is_match)))
     (before @ e # later) (fused_base a x, fused_base b y)) = Inr (Some e)"
proof (induction before arbitrary: x y)
  case (Cons d before)
  let ?x = "x \<or> base_matches is_match a d" and ?y = "y \<or> base_matches is_match b d"
  have no: "(?x \<and> ?y) = False" using Cons.prems(2) by auto
  have "find_logged (and_matching (fused_matching (base_matching is_match)) (fused_matching (base_matching is_match)))
      ((d # before) @ e # later) (fused_base a x, fused_base b y) =
    find_logged (and_matching (fused_matching (base_matching is_match)) (fused_matching (base_matching is_match)))
      (before @ e # later) (fused_base a ?x, fused_base b ?y)"
    by (simp add: fused_base_matching no)
  moreover have "snd (find_logged (and_matching (fused_matching (base_matching is_match)) (fused_matching (base_matching is_match)))
      (before @ e # later) (fused_base a ?x, fused_base b ?y)) = Inr (Some e)"
    by (rule Cons.IH) (use Cons.prems in auto)
  ultimately show ?case by simp
qed (simp add: fused_base_matching)

theorem and_finishes:
  assumes "\<exists>d \<in> set (before @ [e]). base_matches is_match a d" and "\<exists>d \<in> set (before @ [e]). base_matches is_match b d"
    and "\<not> ((\<exists>d \<in> set before. base_matches is_match a d) \<and> (\<exists>d \<in> set before. base_matches is_match b d))"
  shows "snd (find_logged (and_matching (fused_matching (base_matching is_match)) (fused_matching (base_matching is_match)))
    (before @ e # later) (and_new a b)) = Inr (Some e)"
  using and_run [of False before e is_match a False b later] assms by (simp add: and_new_def fused_new_def fused_base_def)

end
